(* ===== verification/Xrd_Prelude.thy ===== *)
theory Xrd_Prelude
  imports Complex_Main "HOL-Library.Word" "HOL-Library.AList"
begin

text \<open>
  Shared vocabulary of the development: bytes, Python strings, Python dictionaries,
  results that may raise, Python slices and big-endian integers, with the lemmas every
  component theory rests on.

  \<^item> \<^bold>\<open>bytes\<close> are lists of 8-bit words, so that "every element is in 0..255" holds by type;
  \<^item> a Python \<^verbatim>\<open>str\<close> is a list of Unicode code points (\<open>nat\<close>), and \<open>lit\<close> turns an
    ASCII literal of HOL into one;
  \<^item> a Python \<^verbatim>\<open>dict\<close> is an association list in insertion order: \<open>AList.update\<close>
    overwrites in place or appends, \<open>AList.delete\<close> removes, \<open>map_of\<close> looks up;
  \<^item> a computation that may raise returns \<open>'e + 'a\<close>, with \<open>Inl\<close> for the exception, and is
    chained with \<open>bindE\<close>;
  \<^item> Python integers are \<open>int\<close>; fixed widths appear only where the code packs them.
\<close>

unbundle bit_operations_syntax

named_theorems wire "widths and layouts of encoded fields"
named_theorems resE "elimination of successful results"

section \<open>Names of the model's basic types\<close>

type_synonym byte = "8 word"
type_synonym bytes = "byte list"
type_synonym str = "nat list"
type_synonym ('k, 'v) dict = "('k \<times> 'v) list"

definition lit :: "string \<Rightarrow> str" where
  "lit s = map of_char s"

section \<open>Results that may raise\<close>

definition bindE :: "'e + 'a \<Rightarrow> ('a \<Rightarrow> 'e + 'b) \<Rightarrow> 'e + 'b" where
  "bindE x f = (case x of Inl e \<Rightarrow> Inl e | Inr a \<Rightarrow> f a)"

lemma bindE_simps [simp]:
  "bindE (Inl e) f = Inl e"
  "bindE (Inr a) f = f a"
  by (simp_all add: bindE_def)

lemma bindE_eq_Inr: "bindE x f = Inr y \<longleftrightarrow> (\<exists>a. x = Inr a \<and> f a = Inr y)"
  by (cases x) auto

lemma bindE_eq_Inl: "bindE x f = Inl e \<longleftrightarrow> x = Inl e \<or> (\<exists>a. x = Inr a \<and> f a = Inl e)"
  by (cases x) auto

lemma bindE_assoc: "bindE (bindE x f) g = bindE x (\<lambda>a. bindE (f a) g)"
  by (cases x) auto

lemma bindE_cong [fundef_cong]:
  "x = y \<Longrightarrow> (\<And>a. y = Inr a \<Longrightarrow> f a = g a) \<Longrightarrow> bindE x f = bindE y g"
  by (cases y) auto

lemma bindE_InrE [resE]:
  assumes "bindE x f = Inr y"
  obtains a where "x = Inr a" and "f a = Inr y"
  using assms by (auto simp: bindE_eq_Inr)

text \<open>A chain of updates of one object, stopping at the first that raises.\<close>

fun chain :: "('w \<Rightarrow> 'e + 'w) list \<Rightarrow> 'w \<Rightarrow> 'e + 'w" where
  "chain [] w = Inr w"
| "chain (f # fs) w = bindE (f w) (chain fs)"

lemma chain_append: "chain (fs @ gs) w = bindE (chain fs w) (chain gs)"
  by (induction fs arbitrary: w) (simp_all add: bindE_assoc cong: bindE_cong)

section \<open>Dictionaries\<close>

text \<open>The keys of a Python dictionary are distinct, and every update keeps them so.\<close>

abbreviation keys :: "('k, 'v) dict \<Rightarrow> 'k set" where
  "keys d \<equiv> fst ` set d"

lemma keys_update [simp]: "keys (AList.update k v d) = insert k (keys d)"
  by (simp add: dom_update)

lemma keys_delete [simp]: "keys (AList.delete k d) = keys d - {k}"
  by (induction d) auto

lemma map_of_in_keys: "map_of d k = Some v \<Longrightarrow> k \<in> keys d"
  by (metis map_of_SomeD image_eqI fst_conv)

lemma map_of_None_keys: "map_of d k = None \<longleftrightarrow> k \<notin> keys d"
  by (simp add: map_of_eq_None_iff)

lemma update_new: "k \<notin> keys d \<Longrightarrow> AList.update k v d = d @ [(k, v)]"
  by (induction d) auto

section \<open>Python slices\<close>

text \<open>
  \<open>xs[:n]\<close> and \<open>xs[n:]\<close> with a Python integer \<open>n\<close>: a negative bound counts from the end
  and is clipped at the start.
\<close>

definition slice_to :: "'a list \<Rightarrow> int \<Rightarrow> 'a list" where
  "slice_to xs n = (if n < 0 then take (nat (int (length xs) + n)) xs else take (nat n) xs)"

definition slice_from :: "'a list \<Rightarrow> int \<Rightarrow> 'a list" where
  "slice_from xs n = (if n < 0 then drop (nat (int (length xs) + n)) xs else drop (nat n) xs)"

lemma slice_parts [simp]: "slice_to xs n @ slice_from xs n = xs"
  by (simp add: slice_to_def slice_from_def)

lemma slice_to_nonneg [simp]: "0 \<le> n \<Longrightarrow> slice_to xs n = take (nat n) xs"
  by (simp add: slice_to_def)

lemma slice_from_nonneg [simp]: "0 \<le> n \<Longrightarrow> slice_from xs n = drop (nat n) xs"
  by (simp add: slice_from_def)

lemma length_slice_from: "length (slice_from xs n) \<le> length xs"
  by (simp add: slice_from_def)

section \<open>Big-endian integers\<close>

definition be_int :: "bytes \<Rightarrow> int" where
  "be_int bs = foldl (\<lambda>a b. a * 256 + uint b) 0 bs"

fun be_bytes :: "nat \<Rightarrow> int \<Rightarrow> bytes" where
  "be_bytes 0 v = []"
| "be_bytes (Suc n) v = be_bytes n (v div 256) @ [word_of_int v]"

lemma be_int_Nil [simp]: "be_int [] = 0"
  by (simp add: be_int_def)

lemma be_int_snoc [simp]: "be_int (bs @ [b]) = be_int bs * 256 + uint b"
  by (simp add: be_int_def)

lemma length_be_bytes [simp, wire]: "length (be_bytes n v) = n"
  by (induction n arbitrary: v) auto

lemma uint_byte_bounds: "0 \<le> uint (b :: byte)" "uint (b :: byte) < 256"
  using uint_bounded [of b] by simp_all

lemma be_int_bounds: "0 \<le> be_int bs \<and> be_int bs < 256 ^ length bs"
proof (induction bs rule: rev_induct)
  case Nil
  then show ?case by simp
next
  case (snoc b bs)
  then have "be_int bs * 256 + 255 < 256 ^ length bs * 256" by linarith
  with snoc show ?case using uint_byte_bounds [of b] by simp
qed

lemma uint_word_of_int_byte: "uint (word_of_int v :: byte) = v mod 256"
  by (simp add: uint_word_of_int)

lemma be_int_be_bytes: "be_int (be_bytes n v) = v mod 256 ^ n"
proof (induction n arbitrary: v)
  case 0
  then show ?case by simp
next
  case (Suc n)
  have "v mod (256 * 256 ^ n) = 256 * (v div 256 mod 256 ^ n) + v mod 256"
    by (rule zmod_zmult2_eq) simp
  then show ?case by (simp add: Suc uint_word_of_int_byte)
qed

lemma be_bytes_be_int: "be_bytes (length bs) (be_int bs) = bs"
proof (induction bs rule: rev_induct)
  case Nil
  then show ?case by simp
next
  case (snoc b bs)
  have "(be_int bs * 256 + uint b) div 256 = be_int bs"
    using uint_byte_bounds [of b] by simp
  moreover have "word_of_int (be_int bs * 256 + uint b) = b"
    by (rule word_uint_eqI) (simp only: uint_word_of_int_byte, simp add: uint_byte_bounds)
  ultimately show ?case using snoc by simp
qed

lemma be_bytes_inj:
  "0 \<le> v \<Longrightarrow> v < 256 ^ n \<Longrightarrow> 0 \<le> w \<Longrightarrow> w < 256 ^ n \<Longrightarrow> be_bytes n v = be_bytes n w \<Longrightarrow> v = w"
  by (metis be_int_be_bytes mod_pos_pos_trivial)

text \<open>\<^verbatim>\<open>int.from_bytes(\<dots>, "little")\<close>.\<close>

definition le_int :: "bytes \<Rightarrow> int" where
  "le_int bs = be_int (rev bs)"

end
