(* ===== verification/Xrd_Errors.thy ===== *)
theory Xrd_Errors
  imports Xrd_Prelude
begin

text \<open>
  The exception hierarchy of \<^verbatim>\<open>src/src/xrd/errors.py\<close>. Exceptions are values of \<open>exn\<close>: the
  classes the package raises, with the attributes the callers read, and the built-in
  exceptions the modelled code can raise (\<^verbatim>\<open>struct.error\<close>, \<^verbatim>\<open>ValueError\<close>,
  \<^verbatim>\<open>UnicodeEncodeError\<close>, \<^verbatim>\<open>IndexError\<close>, \<^verbatim>\<open>OSError\<close>, \<^verbatim>\<open>io.UnsupportedOperation\<close>,
  \<^verbatim>\<open>ZeroDivisionError\<close>). The text of a message the client makes up is kept as a fixed
  tag; a message that came from the server is kept verbatim. \<^verbatim>\<open>isinstance\<close> tests are
  the predicates \<open>is_connection_error\<close>, \<open>is_transient_error\<close>, \<open>is_timeout_error\<close> and \<open>is_os_exn\<close>.
\<close>

section \<open>Classes\<close>

datatype errno = ENOENT | EEXIST | EACCES | EISDIR | ENOTDIR | ENOSPC | EIO | ENOSYS
  | EROFS | EDQUOT | ENODATA | EBUSY | EINVAL | ETIMEDOUT

datatype server_class = PlainServerError | NotFoundError | ExistsError | PermissionError
  | IsADirectoryError | NotADirectoryError | NoSpaceError | IOError | UnsupportedError
  | ReadOnlyError | QuotaError | AttrNotFoundError | BusyError | InvalidArgumentError
  | ServerTimeoutError

text \<open>The \<^verbatim>\<open>errno\<close> the class carries; the plain \<^verbatim>\<open>ServerError\<close> is no \<^verbatim>\<open>OSError\<close>.\<close>

fun class_errno :: "server_class \<Rightarrow> errno option" where
  "class_errno PlainServerError = None"
| "class_errno NotFoundError = Some ENOENT"
| "class_errno ExistsError = Some EEXIST"
| "class_errno PermissionError = Some EACCES"
| "class_errno IsADirectoryError = Some EISDIR"
| "class_errno NotADirectoryError = Some ENOTDIR"
| "class_errno NoSpaceError = Some ENOSPC"
| "class_errno IOError = Some EIO"
| "class_errno UnsupportedError = Some ENOSYS"
| "class_errno ReadOnlyError = Some EROFS"
| "class_errno QuotaError = Some EDQUOT"
| "class_errno AttrNotFoundError = Some ENODATA"
| "class_errno BusyError = Some EBUSY"
| "class_errno InvalidArgumentError = Some EINVAL"
| "class_errno ServerTimeoutError = Some ETIMEDOUT"

datatype exn =
    ProtocolError string
  | XrdConnectionError string
  | TransientError string int          \<comment> \<open>message, \<open>attempts\<close>\<close>
  | XrdTimeoutError string int
  | WaitLimitError string int
  | AuthenticationError string
  | NoMechanismError "str list" "(str, str) dict"   \<comment> \<open>\<open>offered\<close>, \<open>tried\<close>\<close>
  | RedirectLimitError string
  | TooLargeError int int str          \<comment> \<open>size, limit, path\<close>
  | ChecksumMismatchError str str str   \<comment> \<open>algorithm, expected, actual\<close>
  | ServerError server_class int str "str option"   \<comment> \<open>class, code, message, path\<close>
  | ValueError string
  | StructError
  | UnicodeEncodeError
  | IndexError
  | AssertionError
  | OSError errno                       \<comment> \<open>raised by the interpreter or the client itself\<close>
  | UnsupportedOperation
  | ZeroDivisionError

section \<open>isinstance\<close>

text \<open>
  \<^verbatim>\<open>TransientError\<close> derives from \<^verbatim>\<open>ConnectionError\<close>, \<^verbatim>\<open>TimeoutError\<close> and
  \<^verbatim>\<open>WaitLimitError\<close> from \<^verbatim>\<open>TransientError\<close>, and \<^verbatim>\<open>ServerTimeoutError\<close> from both
  \<^verbatim>\<open>ServerError\<close> and \<^verbatim>\<open>TimeoutError\<close>.
\<close>

fun is_timeout_error :: "exn \<Rightarrow> bool" where
  "is_timeout_error (XrdTimeoutError m a) = True"
| "is_timeout_error (ServerError c code m p) = (c = ServerTimeoutError)"
| "is_timeout_error _ = False"

fun is_transient_error :: "exn \<Rightarrow> bool" where
  "is_transient_error (TransientError m a) = True"
| "is_transient_error (WaitLimitError m a) = True"
| "is_transient_error e = is_timeout_error e"

fun is_connection_error :: "exn \<Rightarrow> bool" where
  "is_connection_error (XrdConnectionError m) = True"
| "is_connection_error e = is_transient_error e"

text \<open>
  \<^verbatim>\<open>OSError\<close>: connection errors derive from it, every server error with an \<^verbatim>\<open>errno\<close> does, and so does
  \<^verbatim>\<open>io.UnsupportedOperation\<close>.
\<close>

fun is_os_exn :: "exn \<Rightarrow> bool" where
  "is_os_exn (ServerError c code m p) = (class_errno c \<noteq> None)"
| "is_os_exn (OSError e) = True"
| "is_os_exn UnsupportedOperation = True"
| "is_os_exn e = is_connection_error e"

section \<open>Server error codes\<close>

definition code_names :: "(int, string) dict" where
  "code_names =
    [(3000, ''kXR_ArgInvalid''), (3001, ''kXR_ArgMissing''), (3002, ''kXR_ArgTooLong''),
     (3003, ''kXR_FileLocked''), (3004, ''kXR_FileNotOpen''), (3005, ''kXR_FSError''),
     (3006, ''kXR_InvalidRequest''), (3007, ''kXR_IOError''), (3008, ''kXR_NoMemory''),
     (3009, ''kXR_NoSpace''), (3010, ''kXR_NotAuthorized''), (3011, ''kXR_NotFound''),
     (3012, ''kXR_ServerError''), (3013, ''kXR_Unsupported''), (3014, ''kXR_noserver''),
     (3015, ''kXR_NotFile''), (3016, ''kXR_isDirectory''), (3017, ''kXR_Cancelled''),
     (3018, ''kXR_ItExists''), (3019, ''kXR_ChkSumErr''), (3020, ''kXR_inProgress''),
     (3021, ''kXR_overQuota''), (3022, ''kXR_SigVerErr''), (3023, ''kXR_DecryptErr''),
     (3024, ''kXR_Overloaded''), (3025, ''kXR_fsReadOnly''), (3026, ''kXR_BadPayload''),
     (3027, ''kXR_AttrNotFound''), (3028, ''kXR_TLSRequired''), (3029, ''kXR_noReplicas''),
     (3030, ''kXR_AuthFailed''), (3031, ''kXR_Impossible''), (3032, ''kXR_Conflict''),
     (3033, ''kXR_TooManyErrs''), (3034, ''kXR_ReqTimedOut''), (3035, ''kXR_TimerExpired'')]"

definition code_classes :: "(int, server_class) dict" where
  "code_classes =
    [(3000, InvalidArgumentError), (3001, InvalidArgumentError), (3002, InvalidArgumentError),
     (3006, InvalidArgumentError), (3031, InvalidArgumentError), (3003, BusyError),
     (3020, BusyError), (3024, BusyError), (3032, BusyError), (3004, InvalidArgumentError),
     (3005, IOError), (3007, IOError), (3012, IOError), (3033, IOError),
     (3008, NoSpaceError), (3009, NoSpaceError), (3021, QuotaError),
     (3010, PermissionError), (3030, PermissionError), (3028, PermissionError),
     (3022, PermissionError), (3023, PermissionError), (3026, InvalidArgumentError),
     (3011, NotFoundError), (3014, NotFoundError), (3029, NotFoundError),
     (3034, ServerTimeoutError), (3035, ServerTimeoutError), (3013, UnsupportedError),
     (3015, NotADirectoryError), (3016, IsADirectoryError), (3018, ExistsError),
     (3025, ReadOnlyError), (3027, AttrNotFoundError), (3017, InvalidArgumentError)]"

text \<open>
  \<^verbatim>\<open>raise_for_status\<close>: \<open>None\<close> when it returns, \<open>Some e\<close> when it raises \<open>e\<close>. Code 0 is no
  error; \<^verbatim>\<open>kXR_ChkSumErr\<close> (3019) becomes a checksum mismatch rather than a server error.
\<close>

definition raise_for_status :: "int \<Rightarrow> str \<Rightarrow> str option \<Rightarrow> exn option" where
  "raise_for_status code message path =
     (if code = 0 then None
      else if code = 3019 then
        Some (ChecksumMismatchError (lit ''crc32c'') (lit ''<server>'')
          (if message = [] then lit ''<client>'' else message))
      else Some (ServerError
        (case map_of code_classes code of None \<Rightarrow> PlainServerError | Some c \<Rightarrow> c)
        code message path))"

text \<open>\<^verbatim>\<open>_server_error\<close> of \<^verbatim>\<open>proto/machine.py\<close>: the exception as a value, never absent.\<close>

definition server_error :: "int \<Rightarrow> str \<Rightarrow> str \<Rightarrow> exn" where
  "server_error code message path =
     (let p = (if path = [] then None else Some path) in
      case raise_for_status code message p of
        Some e \<Rightarrow> e
      | None \<Rightarrow> ServerError PlainServerError code message p)"

section \<open>Facts\<close>

lemma code_classes_distinct: "distinct (map fst code_classes)"
  by (simp add: code_classes_def)

lemma code_names_keys: "keys code_names = {3000..3035}"
  by (simp add: code_names_def set_upto [symmetric])

lemma code_classes_keys: "keys code_classes = {3000..3035} - {3019}"
  by (simp add: code_classes_def set_upto [symmetric]) auto

lemma plain_not_listed: "map_of code_classes code \<noteq> Some PlainServerError"
  by (auto simp: code_classes_def split: if_splits dest!: map_of_SomeD)

lemma class_errno_None: "class_errno c = None \<longleftrightarrow> c = PlainServerError"
  by (cases c) simp_all

lemma is_transient_connection: "is_transient_error e \<Longrightarrow> is_connection_error e"
  by (cases e) auto

lemma is_timeout_transient: "is_timeout_error e \<Longrightarrow> is_transient_error e"
  by (cases e) auto

end
