(* ===== verification/Py_Text.thy ===== *)
theory Py_Text
  imports Xrd_Errors
begin

text \<open>
  The part of Python's \<^verbatim>\<open>str\<close> and \<^verbatim>\<open>bytes\<close> the codecs use: the UTF-8 codec (strict
  encoding, decoding with \<^verbatim>\<open>errors="replace"\<close> as CPython does it, one U+FFFD per maximal
  ill-formed subsequence), \<^verbatim>\<open>split\<close>, \<^verbatim>\<open>partition\<close>, \<^verbatim>\<open>rpartition\<close>, \<^verbatim>\<open>strip\<close>, \<^verbatim>\<open>lower\<close> and
  \<^verbatim>\<open>int()\<close>. White space is Unicode's; case mapping and decimal digits are the ASCII ones
  (a non-ASCII letter keeps its case and a non-ASCII digit is refused by \<open>py_int\<close>).
\<close>

section \<open>UTF-8\<close>

definition surrogate :: "nat \<Rightarrow> bool" where
  "surrogate c \<longleftrightarrow> 0xD800 \<le> c \<and> c < 0xE000"

definition scalar :: "nat \<Rightarrow> bool" where
  "scalar c \<longleftrightarrow> c < 0x110000 \<and> \<not> surrogate c"

definition utf8_char :: "nat \<Rightarrow> nat list" where
  "utf8_char c =
     (if c < 0x80 then [c]
      else if c < 0x800 then [0xC0 + c div 64, 0x80 + c mod 64]
      else if c < 0x10000 then [0xE0 + c div 4096, 0x80 + c div 64 mod 64, 0x80 + c mod 64]
      else [0xF0 + c div 262144, 0x80 + c div 4096 mod 64,
            0x80 + c div 64 mod 64, 0x80 + c mod 64])"

definition utf8_encode :: "str \<Rightarrow> exn + bytes" where
  "utf8_encode s =
     (if list_all scalar s then Inr (map of_nat (concat (map utf8_char s)))
      else Inl UnicodeEncodeError)"

definition cont :: "nat \<Rightarrow> bool" where
  "cont b \<longleftrightarrow> 0x80 \<le> b \<and> b < 0xC0"

abbreviation replacement :: nat where
  "replacement \<equiv> 0xFFFD"

fun utf8_dec :: "nat list \<Rightarrow> str" where
  "utf8_dec [] = []"
| "utf8_dec (a # r) =
     (if a < 0x80 then a # utf8_dec r
      else if a < 0xC2 then replacement # utf8_dec r
      else if a < 0xE0 then
        (case r of [] \<Rightarrow> [replacement]
         | b # r1 \<Rightarrow>
             if cont b then ((a - 0xC0) * 64 + (b - 0x80)) # utf8_dec r1
             else replacement # utf8_dec r)
      else if a < 0xF0 then
        (case r of [] \<Rightarrow> [replacement]
         | b # r1 \<Rightarrow>
             if \<not> cont b \<or> (if b < 0xA0 then a = 0xE0 else a = 0xED)
             then replacement # utf8_dec r
             else (case r1 of [] \<Rightarrow> [replacement]
                   | c # r2 \<Rightarrow>
                       if cont c
                       then ((a - 0xE0) * 4096 + (b - 0x80) * 64 + (c - 0x80)) # utf8_dec r2
                       else replacement # utf8_dec r1))
      else if a < 0xF5 then
        (case r of [] \<Rightarrow> [replacement]
         | b # r1 \<Rightarrow>
             if \<not> cont b \<or> (if b < 0x90 then a = 0xF0 else a = 0xF4)
             then replacement # utf8_dec r
             else (case r1 of [] \<Rightarrow> [replacement]
                   | c # r2 \<Rightarrow>
                       if \<not> cont c then replacement # utf8_dec r1
                       else (case r2 of [] \<Rightarrow> [replacement]
                             | d # r3 \<Rightarrow>
                                 if cont d
                                 then ((a - 0xF0) * 262144 + (b - 0x80) * 4096
                                       + (c - 0x80) * 64 + (d - 0x80)) # utf8_dec r3
                                 else replacement # utf8_dec r2)))
      else replacement # utf8_dec r)"

definition utf8_decode :: "bytes \<Rightarrow> str" where
  "utf8_decode bs = utf8_dec (map unat bs)"

subsection \<open>Round trip\<close>

lemma utf8_char_small: "scalar c \<Longrightarrow> b \<in> set (utf8_char c) \<Longrightarrow> b < 256"
  by (auto simp: utf8_char_def scalar_def less_mult_imp_div_less split: if_splits)

lemma utf8_dec_char1: "c < 0x80 \<Longrightarrow> utf8_dec (utf8_char c @ r) = c # utf8_dec r"
  by (simp add: utf8_char_def)

lemma utf8_dec_char2:
  assumes "0x80 \<le> c" "c < 0x800"
  shows "utf8_dec (utf8_char c @ r) = c # utf8_dec r"
proof -
  define q n where "q = c div 64" and "n = c mod 64"
  have c: "c = q * 64 + n" and n: "n < 64" by (simp_all add: q_def n_def)
  with assms have q: "2 \<le> q" "q < 32" by simp_all
  from assms have "utf8_char c = [0xC0 + q, 0x80 + n]" by (simp add: utf8_char_def q_def n_def)
  with q n show ?thesis by (simp add: cont_def c)
qed

lemma utf8_dec_char3:
  assumes "0x800 \<le> c" "c < 0x10000" "\<not> surrogate c"
  shows "utf8_dec (utf8_char c @ r) = c # utf8_dec r"
proof -
  define d n where "d = c div 64" and "n = c mod 64"
  define q m where "q = d div 64" and "m = d mod 64"
  have d: "c = d * 64 + n" "n < 64" "d = q * 64 + m" "m < 64"
    by (simp_all add: d_def n_def q_def m_def)
  then have c: "c = q * 4096 + m * 64 + n" by simp
  from assms d c have q: "q < 16" "\<not> (m < 32 \<and> q = 0)" "m < 32 \<or> q \<noteq> 13"
    by (auto simp: surrogate_def)
  have "c div 4096 = q" by (simp add: q_def d_def div_mult2_eq [symmetric])
  with assms have "utf8_char c = [0xE0 + q, 0x80 + m, 0x80 + n]"
    by (simp add: utf8_char_def m_def n_def d_def)
  with q d(2,4) show ?thesis by (auto simp: cont_def c)
qed

lemma utf8_dec_char4:
  assumes "0x10000 \<le> c" "c < 0x110000"
  shows "utf8_dec (utf8_char c @ r) = c # utf8_dec r"
proof -
  define d n where "d = c div 64" and "n = c mod 64"
  define e m where "e = d div 64" and "m = d mod 64"
  define q l where "q = e div 64" and "l = e mod 64"
  have d: "c = d * 64 + n" "n < 64" "d = e * 64 + m" "m < 64" "e = q * 64 + l" "l < 64"
    by (simp_all add: d_def n_def q_def m_def e_def l_def)
  then have c: "c = q * 262144 + l * 4096 + m * 64 + n" by simp
  from assms d c have q: "q < 5" "\<not> (l < 16 \<and> q = 0)" "l < 16 \<or> q \<noteq> 4" by auto
  have "c div 4096 = e" "c div 262144 = q"
    by (simp_all add: q_def e_def d_def div_mult2_eq [symmetric])
  with assms have "utf8_char c = [0xF0 + q, 0x80 + l, 0x80 + m, 0x80 + n]"
    by (simp add: utf8_char_def l_def m_def n_def d_def)
  with q d(2,4,6) show ?thesis by (auto simp: cont_def c)
qed

lemma utf8_dec_char: "scalar c \<Longrightarrow> utf8_dec (utf8_char c @ r) = c # utf8_dec r"
  using utf8_dec_char1 utf8_dec_char2 utf8_dec_char3 utf8_dec_char4
  by (metis linorder_not_less scalar_def)

lemma utf8_dec_chars: "list_all scalar s \<Longrightarrow> utf8_dec (concat (map utf8_char s)) = s"
  by (induction s) (simp_all add: utf8_dec_char)

lemma map_unat_of_nat: "\<forall>b \<in> set ns. b < 256 \<Longrightarrow> map unat (map of_nat ns :: bytes) = ns"
  by (induction ns) (simp_all add: unat_of_nat)

lemma utf8_roundtrip: "utf8_encode s = Inr bs \<Longrightarrow> utf8_decode bs = s"
proof -
  assume "utf8_encode s = Inr bs"
  then have s: "list_all scalar s" and bs: "bs = map of_nat (concat (map utf8_char s))"
    by (auto simp: utf8_encode_def split: if_splits)
  have "\<forall>b \<in> set (concat (map utf8_char s)). b < 256"
    using s utf8_char_small by (auto simp: list_all_iff)
  then have "map unat bs = concat (map utf8_char s)"
    unfolding bs by (rule map_unat_of_nat)
  with s show ?thesis by (simp add: utf8_decode_def utf8_dec_chars)
qed

lemma utf8_encode_lit: "list_all (\<lambda>c. c < 128) s \<Longrightarrow> utf8_encode s = Inr (map of_nat s)"
  by (induction s) (auto simp: utf8_encode_def scalar_def surrogate_def utf8_char_def split: if_splits)

text \<open>Kernel evaluation compares large code points as binary integers.\<close>

lemma scalar_code [code]: "scalar c \<longleftrightarrow> (let i = int c in i < 0x110000 \<and> \<not> (0xD800 \<le> i \<and> i < 0xE000))"
  by (auto simp: scalar_def surrogate_def)

section \<open>Splitting, trimming, numbers\<close>

definition is_space :: "nat \<Rightarrow> bool" where
  "is_space c \<longleftrightarrow> (9 \<le> c \<and> c \<le> 13) \<or> (28 \<le> c \<and> c \<le> 32) \<or> c = 0x85 \<or> c = 0xA0 \<or> c = 0x1680
     \<or> (0x2000 \<le> c \<and> c \<le> 0x200A) \<or> c = 0x2028 \<or> c = 0x2029 \<or> c = 0x202F \<or> c = 0x205F
     \<or> c = 0x3000"

lemma is_space_code [code]:
  "is_space c \<longleftrightarrow> (let i = int c in (9 \<le> i \<and> i \<le> 13) \<or> (28 \<le> i \<and> i \<le> 32) \<or> i = 0x85 \<or> i = 0xA0
     \<or> i = 0x1680 \<or> (0x2000 \<le> i \<and> i \<le> 0x200A) \<or> i = 0x2028 \<or> i = 0x2029 \<or> i = 0x202F
     \<or> i = 0x205F \<or> i = 0x3000)"
  by (auto simp: is_space_def)

text \<open>\<^verbatim>\<open>raw.split(b"\x00", 1)[0]\<close>: everything before the first NUL.\<close>

definition before_nul :: "bytes \<Rightarrow> bytes" where
  "before_nul bs = takeWhile (\<lambda>b. b \<noteq> 0) bs"

text \<open>\<^verbatim>\<open>s.split(sep)\<close> for a separator of one element.\<close>

fun split_on :: "'a \<Rightarrow> 'a list \<Rightarrow> 'a list list" where
  "split_on sep [] = [[]]"
| "split_on sep (c # cs) =
     (if c = sep then [] # split_on sep cs
      else (case split_on sep cs of [] \<Rightarrow> [[c]] | w # ws \<Rightarrow> (c # w) # ws))"

text \<open>\<^verbatim>\<open>s.split()\<close>: maximal runs without white space.\<close>

function split_ws :: "str \<Rightarrow> str list" where
  "split_ws [] = []"
| "split_ws (c # cs) =
     (if is_space c then split_ws cs
      else (c # takeWhile (\<lambda>d. \<not> is_space d) cs)
           # split_ws (dropWhile (\<lambda>d. \<not> is_space d) cs))"
  by pat_completeness auto
termination
  by (relation "measure length") (auto simp: le_imp_less_Suc length_dropWhile_le)

text \<open>\<^verbatim>\<open>s.partition(sep)\<close> and \<^verbatim>\<open>s.rpartition(sep)\<close>; the middle component says whether
  the separator was there.\<close>

definition partition_at :: "'a \<Rightarrow> 'a list \<Rightarrow> 'a list \<times> bool \<times> 'a list" where
  "partition_at sep s =
     (if sep \<in> set s
      then (takeWhile (\<lambda>c. c \<noteq> sep) s, True, tl (dropWhile (\<lambda>c. c \<noteq> sep) s))
      else (s, False, []))"

definition rpartition_at :: "'a \<Rightarrow> 'a list \<Rightarrow> 'a list \<times> bool \<times> 'a list" where
  "rpartition_at sep s =
     (if sep \<in> set s
      then (rev (tl (dropWhile (\<lambda>c. c \<noteq> sep) (rev s))), True,
            rev (takeWhile (\<lambda>c. c \<noteq> sep) (rev s)))
      else ([], False, s))"

definition rstrip_by :: "(nat \<Rightarrow> bool) \<Rightarrow> str \<Rightarrow> str" where
  "rstrip_by p s = rev (dropWhile p (rev s))"

definition strip :: "str \<Rightarrow> str" where
  "strip s = rstrip_by is_space (dropWhile is_space s)"

definition lower :: "str \<Rightarrow> str" where
  "lower s = map (\<lambda>c. if 65 \<le> c \<and> c \<le> 90 then c + 32 else c) s"

text \<open>Decimal digits with single underscores between them, as \<^verbatim>\<open>int()\<close> takes them; the flag
  says whether the previous character was a digit.\<close>

fun digits_value :: "bool \<Rightarrow> int \<Rightarrow> str \<Rightarrow> int option" where
  "digits_value prev acc [] = (if prev then Some acc else None)"
| "digits_value prev acc (c # cs) =
     (if 48 \<le> c \<and> c \<le> 57 then digits_value True (acc * 10 + int (c - 48)) cs
      else if c = 95 \<and> prev then digits_value False acc cs
      else None)"

definition py_int :: "str \<Rightarrow> exn + int" where
  "py_int s =
     (let t = strip s;
          neg = (t \<noteq> [] \<and> hd t = 45);
          body = (if t \<noteq> [] \<and> (hd t = 45 \<or> hd t = 43) then tl t else t)
      in case digits_value False 0 body of
           None \<Rightarrow> Inl (ValueError ''invalid literal for int'')
         | Some v \<Rightarrow> Inr (if neg then - v else v))"

subsection \<open>Facts\<close>

lemma partition_at_parts:
  "partition_at sep s = (a, True, b) \<Longrightarrow> s = a @ sep # b \<and> sep \<notin> set a"
proof -
  assume p: "partition_at sep s = (a, True, b)"
  then have sep: "sep \<in> set s" and a: "a = takeWhile (\<lambda>c. c \<noteq> sep) s"
    and b: "b = tl (dropWhile (\<lambda>c. c \<noteq> sep) s)"
    by (auto simp: partition_at_def split: if_splits)
  from sep have "dropWhile (\<lambda>c. c \<noteq> sep) s \<noteq> []" by auto
  then have "dropWhile (\<lambda>c. c \<noteq> sep) s = sep # b"
    unfolding b using hd_dropWhile [of "\<lambda>c. c \<noteq> sep" s]
    by (cases "dropWhile (\<lambda>c. c \<noteq> sep) s") auto
  then have "s = a @ sep # b" unfolding a by (metis (lifting) takeWhile_dropWhile_id)
  moreover have "sep \<notin> set a" unfolding a by (auto dest: set_takeWhileD)
  ultimately show ?thesis by simp
qed

lemma rpartition_at_parts:
  "rpartition_at sep s = (a, True, b) \<Longrightarrow> s = a @ sep # b \<and> sep \<notin> set b"
proof -
  assume "rpartition_at sep s = (a, True, b)"
  then have "partition_at sep (rev s) = (rev b, True, rev a)"
    by (auto simp: rpartition_at_def partition_at_def split: if_splits)
  from partition_at_parts [OF this] have "rev s = rev b @ sep # rev a" "sep \<notin> set b" by simp_all
  then show ?thesis by (metis append.assoc append_Cons append_Nil rev_append rev_rev_ident
        rev.simps(2))
qed

lemma split_on_no_sep: "w \<in> set (split_on sep s) \<Longrightarrow> sep \<notin> set w"
  by (induction sep s arbitrary: w rule: split_on.induct) (auto split: list.splits if_splits)

lemma split_on_Nil [simp]: "split_on sep s \<noteq> []"
  by (induction s) (auto split: list.splits)

lemma before_nul_no_nul: "0 \<notin> set (before_nul bs)"
  unfolding before_nul_def by (auto dest: set_takeWhileD)

lemma before_nul_append_nul: "0 \<notin> set a \<Longrightarrow> before_nul (a @ 0 # b) = a"
  unfolding before_nul_def by (subst takeWhile_append2) auto

lemma before_nul_id: "0 \<notin> set a \<Longrightarrow> before_nul a = a"
  unfolding before_nul_def by (metis (mono_tags, lifting) takeWhile_eq_all_conv)

end
