(* ===== verification/Wire_Buffer.thy ===== *)
theory Wire_Buffer
  imports Py_Text
begin

text \<open>
  The big-endian cursors of \<^verbatim>\<open>src/src/xrd/proto/buffer.py\<close>: the struct formats, the
  bounds-checked \<open>reader\<close> and the append-only writer (a writer is the bytes written so
  far). The locale \<open>wire_codec\<close> is what the cursors ask of a fixed-width format; each of
  the six formats is an interpretation of it, and the reader/writer round trip is proved
  once, inside the locale.
\<close>

section \<open>Struct formats\<close>

record struct_fmt =
  fmt_size :: nat
  fmt_signed :: bool

definition U8 :: struct_fmt where "U8 = \<lparr>fmt_size = 1, fmt_signed = False\<rparr>"
definition U16 :: struct_fmt where "U16 = \<lparr>fmt_size = 2, fmt_signed = False\<rparr>"
definition I16 :: struct_fmt where "I16 = \<lparr>fmt_size = 2, fmt_signed = True\<rparr>"
definition U32 :: struct_fmt where "U32 = \<lparr>fmt_size = 4, fmt_signed = False\<rparr>"
definition I32 :: struct_fmt where "I32 = \<lparr>fmt_size = 4, fmt_signed = True\<rparr>"
definition U64 :: struct_fmt where "U64 = \<lparr>fmt_size = 8, fmt_signed = False\<rparr>"
definition I64 :: struct_fmt where "I64 = \<lparr>fmt_size = 8, fmt_signed = True\<rparr>"

lemmas fmt_defs = U8_def U16_def I16_def U32_def I32_def U64_def I64_def

definition fmt_lo :: "struct_fmt \<Rightarrow> int" where
  "fmt_lo f = (if fmt_signed f then - (2 ^ (8 * fmt_size f - 1)) else 0)"

definition fmt_hi :: "struct_fmt \<Rightarrow> int" where
  "fmt_hi f = (if fmt_signed f then 2 ^ (8 * fmt_size f - 1) else 2 ^ (8 * fmt_size f))"

text \<open>\<^verbatim>\<open>Struct.pack\<close> refuses a value out of range; \<^verbatim>\<open>Struct.unpack\<close> reads two's complement.\<close>

definition struct_pack :: "struct_fmt \<Rightarrow> int \<Rightarrow> exn + bytes" where
  "struct_pack f v =
     (if fmt_lo f \<le> v \<and> v < fmt_hi f then Inr (be_bytes (fmt_size f) v) else Inl StructError)"

definition struct_unpack :: "struct_fmt \<Rightarrow> bytes \<Rightarrow> int" where
  "struct_unpack f bs =
     (let v = be_int bs in
      if fmt_signed f \<and> 2 ^ (8 * fmt_size f - 1) \<le> v then v - 2 ^ (8 * fmt_size f) else v)"

lemma pow_256: "(256::int) ^ n = 2 ^ (8 * n)"
  by (simp add: power_mult)

lemma pow_half: "0 < n \<Longrightarrow> (2::int) ^ (8 * n) = 2 * 2 ^ (8 * n - 1)"
  by (simp flip: power_Suc)

lemma struct_pack_length: "struct_pack f v = Inr bs \<Longrightarrow> length bs = fmt_size f"
  by (auto simp: struct_pack_def split: if_splits)

lemma struct_pack_ok: "fmt_lo f \<le> v \<Longrightarrow> v < fmt_hi f \<Longrightarrow> struct_pack f v = Inr (be_bytes (fmt_size f) v)"
  by (simp add: struct_pack_def)

lemma struct_unpack_bounds:
  assumes "length bs = fmt_size f" and "0 < fmt_size f"
  shows "fmt_lo f \<le> struct_unpack f bs \<and> struct_unpack f bs < fmt_hi f"
  using be_int_bounds [of bs] assms
  by (auto simp: struct_unpack_def fmt_lo_def fmt_hi_def Let_def pow_256 pow_half)

lemma struct_unpack_pack:
  assumes "struct_pack f v = Inr bs" and "0 < fmt_size f"
  shows "struct_unpack f bs = v"
proof -
  let ?M = "(2::int) ^ (8 * fmt_size f)"
  from assms have r: "fmt_lo f \<le> v" "v < fmt_hi f" and bs: "bs = be_bytes (fmt_size f) v"
    by (auto simp: struct_pack_def split: if_splits)
  have be: "be_int bs = v mod ?M" by (simp add: bs be_int_be_bytes pow_256)
  have half: "?M = 2 * 2 ^ (8 * fmt_size f - 1)" using assms(2) by (rule pow_half)
  show ?thesis
  proof (cases "0 \<le> v")
    case True
    with r half have "v mod ?M = v"
      by (intro mod_pos_pos_trivial) (auto simp: fmt_hi_def split: if_splits)
    with True r show ?thesis
      by (auto simp: struct_unpack_def Let_def be fmt_hi_def split: if_splits)
  next
    case False
    with r have s: "fmt_signed f" and lo: "- (2 ^ (8 * fmt_size f - 1)) \<le> v"
      by (auto simp: fmt_lo_def split: if_splits)
    from False lo half have "(v + ?M) mod ?M = v + ?M"
      by (intro mod_pos_pos_trivial) auto
    then have "v mod ?M = v + ?M" by simp
    with s lo half show ?thesis by (simp add: struct_unpack_def Let_def be)
  qed
qed

lemma struct_pack_unpack:
  assumes "length bs = fmt_size f" and "0 < fmt_size f"
  shows "struct_pack f (struct_unpack f bs) = Inr bs"
proof -
  let ?M = "(2::int) ^ (8 * fmt_size f)"
  have "be_bytes (fmt_size f) (be_int bs - ?M) = be_bytes (fmt_size f) (be_int bs)"
  proof -
    have "be_int (be_bytes (fmt_size f) (be_int bs - ?M)) = be_int (be_bytes (fmt_size f) (be_int bs))"
      by (simp add: be_int_be_bytes pow_256 mod_diff_right_eq [symmetric])
    then show ?thesis by (metis be_bytes_be_int length_be_bytes)
  qed
  moreover have "be_bytes (fmt_size f) (be_int bs) = bs"
    using be_bytes_be_int [of bs] assms(1) by simp
  ultimately have "be_bytes (fmt_size f) (struct_unpack f bs) = bs"
    by (simp add: struct_unpack_def Let_def)
  with struct_unpack_bounds [OF assms] show ?thesis by (simp add: struct_pack_def)
qed

section \<open>Reader\<close>

record reader =
  rbuf :: bytes
  rpos :: nat
  rwhat :: string

definition Reader :: "bytes \<Rightarrow> string \<Rightarrow> reader" where
  "Reader data what = \<lparr>rbuf = data, rpos = 0, rwhat = what\<rparr>"

definition r_remaining :: "reader \<Rightarrow> int" where
  "r_remaining r = int (length (rbuf r)) - int (rpos r)"

definition r_take :: "int \<Rightarrow> reader \<Rightarrow> exn + bytes \<times> reader" where
  "r_take n r =
     (if n < 0 then Inl (ProtocolError ''negative read'')
      else if int (rpos r) + n > int (length (rbuf r)) then Inl (ProtocolError ''truncated'')
      else Inr (take (nat n) (drop (rpos r) (rbuf r)), r\<lparr>rpos := rpos r + nat n\<rparr>))"

definition r_unpack :: "struct_fmt \<Rightarrow> reader \<Rightarrow> exn + int \<times> reader" where
  "r_unpack f r = bindE (r_take (int (fmt_size f)) r) (\<lambda>(c, r'). Inr (struct_unpack f c, r'))"

definition r_u8 :: "reader \<Rightarrow> exn + int \<times> reader" where "r_u8 = r_unpack U8"
definition r_u16 :: "reader \<Rightarrow> exn + int \<times> reader" where "r_u16 = r_unpack U16"
definition r_i16 :: "reader \<Rightarrow> exn + int \<times> reader" where "r_i16 = r_unpack I16"
definition r_u32 :: "reader \<Rightarrow> exn + int \<times> reader" where "r_u32 = r_unpack U32"
definition r_i32 :: "reader \<Rightarrow> exn + int \<times> reader" where "r_i32 = r_unpack I32"
definition r_u64 :: "reader \<Rightarrow> exn + int \<times> reader" where "r_u64 = r_unpack U64"
definition r_i64 :: "reader \<Rightarrow> exn + int \<times> reader" where "r_i64 = r_unpack I64"

definition r_bytes :: "int \<Rightarrow> reader \<Rightarrow> exn + bytes \<times> reader" where
  "r_bytes n r = r_take n r"

definition r_rest :: "reader \<Rightarrow> exn + bytes \<times> reader" where
  "r_rest r = r_take (r_remaining r) r"

definition r_skip :: "int \<Rightarrow> reader \<Rightarrow> exn + reader" where
  "r_skip n r = bindE (r_take n r) (\<lambda>(_, r'). Inr r')"

definition r_cstring :: "int option \<Rightarrow> reader \<Rightarrow> exn + str \<times> reader" where
  "r_cstring width r =
     (case width of
        Some n \<Rightarrow> bindE (r_take n r) (\<lambda>(raw, r'). Inr (utf8_decode (before_nul raw), r'))
      | None \<Rightarrow>
          (let tail = drop (rpos r) (rbuf r) in
           if 0 \<in> set tail
           then Inr (utf8_decode (before_nul tail),
                     r\<lparr>rpos := rpos r + length (before_nul tail) + 1\<rparr>)
           else Inr (utf8_decode tail, r\<lparr>rpos := rpos r + length tail\<rparr>)))"

section \<open>Writer\<close>

type_synonym wstep = "bytes \<Rightarrow> exn + bytes"

definition w_pack :: "struct_fmt \<Rightarrow> int \<Rightarrow> wstep" where
  "w_pack f v w = bindE (struct_pack f v) (\<lambda>b. Inr (w @ b))"

definition w_u8 :: "int \<Rightarrow> wstep" where "w_u8 = w_pack U8"
definition w_u16 :: "int \<Rightarrow> wstep" where "w_u16 = w_pack U16"
definition w_u32 :: "int \<Rightarrow> wstep" where "w_u32 = w_pack U32"
definition w_i32 :: "int \<Rightarrow> wstep" where "w_i32 = w_pack I32"
definition w_u64 :: "int \<Rightarrow> wstep" where "w_u64 = w_pack U64"
definition w_i64 :: "int \<Rightarrow> wstep" where "w_i64 = w_pack I64"

definition w_raw :: "bytes \<Rightarrow> wstep" where
  "w_raw data w = Inr (w @ data)"

definition w_text :: "str \<Rightarrow> bool \<Rightarrow> wstep" where
  "w_text s nul w = bindE (utf8_encode s) (\<lambda>b. Inr (w @ b @ (if nul then [0] else [])))"

definition w_zeros :: "int \<Rightarrow> wstep" where
  "w_zeros n w = (if n < 0 then Inl (ValueError ''negative count'') else Inr (w @ replicate (nat n) 0))"

definition ljust :: "bytes \<Rightarrow> int \<Rightarrow> bytes" where
  "ljust b width = b @ replicate (nat (width - int (length b))) 0"

definition w_padded :: "bytes \<Rightarrow> int \<Rightarrow> wstep" where
  "w_padded b width w = Inr (w @ ljust (slice_to b width) width)"

definition w_padded_text :: "str \<Rightarrow> int \<Rightarrow> wstep" where
  "w_padded_text s width w = bindE (utf8_encode s) (\<lambda>b. w_padded b width w)"

lemmas writer_defs = w_u8_def w_u16_def w_u32_def w_i32_def w_u64_def w_i64_def
lemmas reader_defs = r_u8_def r_u16_def r_i16_def r_u32_def r_i32_def r_u64_def r_i64_def

section \<open>Reader: bounds\<close>

definition reader_ok :: "reader \<Rightarrow> bool" where
  "reader_ok r \<longleftrightarrow> rpos r \<le> length (rbuf r)"

abbreviation unread :: "reader \<Rightarrow> bytes" where
  "unread r \<equiv> drop (rpos r) (rbuf r)"

lemma Reader_ok [simp]: "reader_ok (Reader data what)"
  by (simp add: reader_ok_def Reader_def)

lemma Reader_sel [simp]:
  "rbuf (Reader d w) = d" "rpos (Reader d w) = 0" "rwhat (Reader d w) = w"
  by (simp_all add: Reader_def)

lemma r_take_Inr:
  "r_take n r = Inr (c, r') \<longleftrightarrow>
     0 \<le> n \<and> int (rpos r) + n \<le> int (length (rbuf r)) \<and> c = take (nat n) (unread r)
     \<and> r' = r\<lparr>rpos := rpos r + nat n\<rparr>"
  by (auto simp: r_take_def)

lemma r_take_length:
  "r_take n r = Inr (c, r') \<Longrightarrow> int (length c) = n"
  by (auto simp: r_take_Inr)

lemma r_take_parts:
  "r_take n r = Inr (c, r') \<Longrightarrow> unread r = c @ unread r'"
  by (auto simp: r_take_Inr) (metis append_take_drop_id drop_drop add.commute)

lemma r_take_keeps:
  "r_take n r = Inr (c, r') \<Longrightarrow> rbuf r' = rbuf r \<and> rwhat r' = rwhat r"
  by (auto simp: r_take_Inr)

lemma r_take_ok: "r_take n r = Inr (c, r') \<Longrightarrow> reader_ok r'"
  by (auto simp: r_take_Inr reader_ok_def)

lemma r_take_error: "r_take n r = Inl e \<Longrightarrow> \<exists>m. e = ProtocolError m"
  by (auto simp: r_take_def split: if_splits)

lemma r_rest_Inr [simp]:
  "reader_ok r \<Longrightarrow> r_rest r = Inr (unread r, r\<lparr>rpos := length (rbuf r)\<rparr>)"
  by (auto simp: r_rest_def r_take_def r_remaining_def reader_ok_def)

lemma r_unpack_Inr:
  "r_unpack f r = Inr (v, r') \<longleftrightarrow>
     rpos r + fmt_size f \<le> length (rbuf r) \<and> v = struct_unpack f (take (fmt_size f) (unread r))
     \<and> r' = r\<lparr>rpos := rpos r + fmt_size f\<rparr>"
  by (auto simp: r_unpack_def bindE_eq_Inr r_take_Inr)

lemma r_unpack_ok: "r_unpack f r = Inr (v, r') \<Longrightarrow> reader_ok r'"
  by (auto simp: r_unpack_Inr reader_ok_def)

lemma r_unpack_error: "r_unpack f r = Inl e \<Longrightarrow> \<exists>m. e = ProtocolError m"
  by (auto simp: r_unpack_def bindE_eq_Inl dest: r_take_error)

lemma r_unpack_bounds:
  assumes "r_unpack f r = Inr (v, r')" and "0 < fmt_size f"
  shows "fmt_lo f \<le> v \<and> v < fmt_hi f"
  using assms by (auto simp: r_unpack_Inr intro!: struct_unpack_bounds
      [of "take (fmt_size f) (unread r)" f, THEN conjunct1]
      struct_unpack_bounds [of "take (fmt_size f) (unread r)" f, THEN conjunct2])

lemma r_cstring_ok:
  assumes "reader_ok r" and "r_cstring None r = Inr (s, r')"
  shows "reader_ok r' \<and> rbuf r' = rbuf r"
proof -
  let ?t = "unread r"
  have "length (before_nul ?t) < length ?t" if "0 \<in> set ?t"
  proof -
    have "before_nul ?t \<noteq> ?t" using that before_nul_no_nul by metis
    then show ?thesis
      unfolding before_nul_def by (metis (no_types, lifting) length_takeWhile_le
          nat_less_le takeWhile_eq_take take_all order_refl)
  qed
  with assms show ?thesis
    by (auto simp: r_cstring_def reader_ok_def Let_def split: if_splits)
qed

section \<open>Writer: what each step appends\<close>

definition appends :: "wstep \<Rightarrow> nat \<Rightarrow> bool" where
  "appends f n \<longleftrightarrow> (\<forall>w w'. f w = Inr w' \<longrightarrow> (\<exists>b. w' = w @ b \<and> length b = n))"

lemma appendsD: "appends f n \<Longrightarrow> f w = Inr w' \<Longrightarrow> length w' = length w + n"
  by (fastforce simp: appends_def)

lemma appends_pack: "fmt_size f = n \<Longrightarrow> appends (w_pack f v) n"
  by (auto simp: appends_def w_pack_def bindE_eq_Inr dest: struct_pack_length)

lemma appends_ints [wire]:
  "appends (w_u8 v) 1" "appends (w_u16 v) 2" "appends (w_u32 v) 4" "appends (w_i32 v) 4"
  "appends (w_u64 v) 8" "appends (w_i64 v) 8"
  by (simp_all add: writer_defs appends_pack fmt_defs)

lemma appends_raw [wire]: "appends (w_raw d) (length d)"
  by (simp add: appends_def w_raw_def)

lemma appends_zeros [wire]: "appends (w_zeros n) (nat n)"
  by (auto simp: appends_def w_zeros_def)

lemma length_ljust: "0 \<le> n \<Longrightarrow> length (ljust (take (nat n) b) n) = nat n"
  by (simp add: ljust_def)

lemma appends_padded [wire]: "0 \<le> n \<Longrightarrow> appends (w_padded b n) (nat n)"
  by (simp add: appends_def w_padded_def length_ljust)

lemma appends_padded_text [wire]: "0 \<le> n \<Longrightarrow> appends (w_padded_text s n) (nat n)"
  by (auto simp: appends_def w_padded_text_def w_padded_def length_ljust bindE_eq_Inr)

lemma appends_chain_Nil [wire]: "appends (chain []) 0"
  by (simp add: appends_def)

lemma appends_chain_Cons [wire]:
  "appends f n \<Longrightarrow> appends (chain fs) m \<Longrightarrow> appends (chain (f # fs)) (n + m)"
  by (fastforce simp: appends_def bindE_eq_Inr)

section \<open>The contract of a fixed-width format\<close>

text \<open>
  What a cursor relies on: a format of \<open>width\<close> bytes whose encoder either raises or yields
  exactly that many bytes, and whose decoder inverts it in both directions.
\<close>

locale wire_codec =
  fixes width :: nat
    and enc :: "'v \<Rightarrow> exn + bytes"
    and dec :: "bytes \<Rightarrow> 'v"
    and put :: "'v \<Rightarrow> wstep"
    and get :: "reader \<Rightarrow> exn + 'v \<times> reader"
  assumes enc_width: "enc v = Inr bs \<Longrightarrow> length bs = width"
    and dec_enc: "enc v = Inr bs \<Longrightarrow> dec bs = v"
    and enc_dec: "length bs = width \<Longrightarrow> enc (dec bs) = Inr bs"
    and put_enc: "put v w = bindE (enc v) (\<lambda>b. Inr (w @ b))"
    and get_dec: "get r = bindE (r_take (int width) r) (\<lambda>(c, r'). Inr (dec c, r'))"
begin

text \<open>Reading back a field from the middle of a message gives what was written there.\<close>

lemma get_put:
  assumes "put v pre = Inr w" and "rbuf r = w @ post" and "rpos r = length pre"
  shows "get r = Inr (v, r\<lparr>rpos := length w\<rparr>)"
proof -
  from assms(1) obtain b where b: "enc v = Inr b" "w = pre @ b"
    by (auto simp: put_enc bindE_eq_Inr)
  with enc_width have "length b = width" by blast
  with b assms(2,3) have "r_take (int width) r = Inr (b, r\<lparr>rpos := length w\<rparr>)"
    by (simp add: r_take_Inr)
  with b show ?thesis by (simp add: get_dec dec_enc)
qed

lemma put_get:
  assumes "get r = Inr (v, r')"
  shows "put v (take (rpos r) (rbuf r)) = Inr (take (rpos r') (rbuf r'))"
proof -
  from assms obtain c where c: "r_take (int width) r = Inr (c, r')" and v: "v = dec c"
    by (auto simp: get_dec bindE_eq_Inr)
  then have "length c = width" by (auto dest: r_take_length)
  with v have "enc v = Inr c" by (simp add: enc_dec)
  with c show ?thesis by (auto simp: put_enc r_take_Inr take_add)
qed

lemma put_injective: "put v w = Inr x \<Longrightarrow> put v' w = Inr x \<Longrightarrow> v = v'"
  by (auto simp: put_enc bindE_eq_Inr dest: dec_enc)

end

lemma struct_codec:
  assumes "0 < fmt_size f"
  shows "wire_codec (fmt_size f) (struct_pack f) (struct_unpack f) (w_pack f) (r_unpack f)"
  by unfold_locales
     (use assms in \<open>auto simp: struct_pack_length struct_unpack_pack struct_pack_unpack
        w_pack_def r_unpack_def\<close>)

interpretation u8: wire_codec "fmt_size U8" "struct_pack U8" "struct_unpack U8" w_u8 r_u8
  unfolding w_u8_def r_u8_def by (rule struct_codec) (simp add: U8_def)

interpretation u16: wire_codec "fmt_size U16" "struct_pack U16" "struct_unpack U16" w_u16 r_u16
  unfolding w_u16_def r_u16_def by (rule struct_codec) (simp add: U16_def)

interpretation u32: wire_codec "fmt_size U32" "struct_pack U32" "struct_unpack U32" w_u32 r_u32
  unfolding w_u32_def r_u32_def by (rule struct_codec) (simp add: U32_def)

interpretation i32: wire_codec "fmt_size I32" "struct_pack I32" "struct_unpack I32" w_i32 r_i32
  unfolding w_i32_def r_i32_def by (rule struct_codec) (simp add: I32_def)

interpretation u64: wire_codec "fmt_size U64" "struct_pack U64" "struct_unpack U64" w_u64 r_u64
  unfolding w_u64_def r_u64_def by (rule struct_codec) (simp add: U64_def)

interpretation i64: wire_codec "fmt_size I64" "struct_pack I64" "struct_unpack I64" w_i64 r_i64
  unfolding w_i64_def r_i64_def by (rule struct_codec) (simp add: I64_def)

end
