(* ===== verification/Wire_Constants.thy ===== *)
theory Wire_Constants
  imports Wire_Buffer
begin

text \<open>
  The wire vocabulary of \<^verbatim>\<open>src/src/xrd/proto/constants.py\<close>: every opcode, status, option and
  length under the name the source gives it, and the two reverse lookups \<open>request_name\<close> and
  \<open>status_name\<close>. The constants are input abbreviations, so proofs see plain numerals.
\<close>

section \<open>Constants, in source order\<close>

abbreviation (input) kXR_auth :: int where "kXR_auth \<equiv> 3000"
abbreviation (input) kXR_query :: int where "kXR_query \<equiv> 3001"
abbreviation (input) kXR_chmod :: int where "kXR_chmod \<equiv> 3002"
abbreviation (input) kXR_close :: int where "kXR_close \<equiv> 3003"
abbreviation (input) kXR_dirlist :: int where "kXR_dirlist \<equiv> 3004"
abbreviation (input) kXR_gpfile :: int where "kXR_gpfile \<equiv> 3005"
abbreviation (input) kXR_protocol :: int where "kXR_protocol \<equiv> 3006"
abbreviation (input) kXR_login :: int where "kXR_login \<equiv> 3007"
abbreviation (input) kXR_mkdir :: int where "kXR_mkdir \<equiv> 3008"
abbreviation (input) kXR_mv :: int where "kXR_mv \<equiv> 3009"
abbreviation (input) kXR_open :: int where "kXR_open \<equiv> 3010"
abbreviation (input) kXR_ping :: int where "kXR_ping \<equiv> 3011"
abbreviation (input) kXR_chkpoint :: int where "kXR_chkpoint \<equiv> 3012"
abbreviation (input) kXR_read :: int where "kXR_read \<equiv> 3013"
abbreviation (input) kXR_rm :: int where "kXR_rm \<equiv> 3014"
abbreviation (input) kXR_rmdir :: int where "kXR_rmdir \<equiv> 3015"
abbreviation (input) kXR_sync :: int where "kXR_sync \<equiv> 3016"
abbreviation (input) kXR_stat :: int where "kXR_stat \<equiv> 3017"
abbreviation (input) kXR_set :: int where "kXR_set \<equiv> 3018"
abbreviation (input) kXR_write :: int where "kXR_write \<equiv> 3019"
abbreviation (input) kXR_fattr :: int where "kXR_fattr \<equiv> 3020"
abbreviation (input) kXR_prepare :: int where "kXR_prepare \<equiv> 3021"
abbreviation (input) kXR_statx :: int where "kXR_statx \<equiv> 3022"
abbreviation (input) kXR_endsess :: int where "kXR_endsess \<equiv> 3023"
abbreviation (input) kXR_bind :: int where "kXR_bind \<equiv> 3024"
abbreviation (input) kXR_readv :: int where "kXR_readv \<equiv> 3025"
abbreviation (input) kXR_pgwrite :: int where "kXR_pgwrite \<equiv> 3026"
abbreviation (input) kXR_locate :: int where "kXR_locate \<equiv> 3027"
abbreviation (input) kXR_truncate :: int where "kXR_truncate \<equiv> 3028"
abbreviation (input) kXR_sigver :: int where "kXR_sigver \<equiv> 3029"
abbreviation (input) kXR_pgread :: int where "kXR_pgread \<equiv> 3030"
abbreviation (input) kXR_writev :: int where "kXR_writev \<equiv> 3031"
abbreviation (input) kXR_clone :: int where "kXR_clone \<equiv> 3032"
abbreviation (input) kXR_1stRequest :: int where "kXR_1stRequest \<equiv> 3000"
abbreviation (input) kXR_setattr :: int where "kXR_setattr \<equiv> 3500"
abbreviation (input) kXR_symlink :: int where "kXR_symlink \<equiv> 3501"
abbreviation (input) kXR_readlink :: int where "kXR_readlink \<equiv> 3502"
abbreviation (input) kXR_link :: int where "kXR_link \<equiv> 3503"
abbreviation (input) kXR_sa_times :: int where "kXR_sa_times \<equiv> 0x01"
abbreviation (input) kXR_sa_owner :: int where "kXR_sa_owner \<equiv> 0x02"
abbreviation (input) UTIME_NOW :: int where "UTIME_NOW \<equiv> 1073741823"
abbreviation (input) UTIME_OMIT :: int where "UTIME_OMIT \<equiv> 1073741822"
abbreviation (input) kXR_ok :: int where "kXR_ok \<equiv> 0"
abbreviation (input) kXR_oksofar :: int where "kXR_oksofar \<equiv> 4000"
abbreviation (input) kXR_attn :: int where "kXR_attn \<equiv> 4001"
abbreviation (input) kXR_authmore :: int where "kXR_authmore \<equiv> 4002"
abbreviation (input) kXR_error :: int where "kXR_error \<equiv> 4003"
abbreviation (input) kXR_redirect :: int where "kXR_redirect \<equiv> 4004"
abbreviation (input) kXR_wait :: int where "kXR_wait \<equiv> 4005"
abbreviation (input) kXR_waitresp :: int where "kXR_waitresp \<equiv> 4006"
abbreviation (input) kXR_status :: int where "kXR_status \<equiv> 4007"
abbreviation (input) kXR_asyncab :: int where "kXR_asyncab \<equiv> 5000"
abbreviation (input) kXR_asyncdi :: int where "kXR_asyncdi \<equiv> 5001"
abbreviation (input) kXR_asyncms :: int where "kXR_asyncms \<equiv> 5002"
abbreviation (input) kXR_asyncrd :: int where "kXR_asyncrd \<equiv> 5003"
abbreviation (input) kXR_asyncwt :: int where "kXR_asyncwt \<equiv> 5004"
abbreviation (input) kXR_asyncav :: int where "kXR_asyncav \<equiv> 5005"
abbreviation (input) kXR_asynunav :: int where "kXR_asynunav \<equiv> 5006"
abbreviation (input) kXR_asyncgo :: int where "kXR_asyncgo \<equiv> 5007"
abbreviation (input) kXR_asynresp :: int where "kXR_asynresp \<equiv> 5008"
abbreviation (input) kXR_isManager :: int where "kXR_isManager \<equiv> 0x00000002"
abbreviation (input) kXR_isServer :: int where "kXR_isServer \<equiv> 0x00000001"
abbreviation (input) kXR_attrCache :: int where "kXR_attrCache \<equiv> 0x00000080"
abbreviation (input) kXR_attrMeta :: int where "kXR_attrMeta \<equiv> 0x00000100"
abbreviation (input) kXR_attrProxy :: int where "kXR_attrProxy \<equiv> 0x00000200"
abbreviation (input) kXR_attrSuper :: int where "kXR_attrSuper \<equiv> 0x00000400"
abbreviation (input) kXR_attrVirtRdr :: int where "kXR_attrVirtRdr \<equiv> 0x00000800"
abbreviation (input) kXR_recoverWrts :: int where "kXR_recoverWrts \<equiv> 0x00001000"
abbreviation (input) kXR_collapseRedir :: int where "kXR_collapseRedir \<equiv> 0x00002000"
abbreviation (input) kXR_ecRedir :: int where "kXR_ecRedir \<equiv> 0x00004000"
abbreviation (input) kXR_supposc :: int where "kXR_supposc \<equiv> 0x00100000"
abbreviation (input) kXR_suppgrw :: int where "kXR_suppgrw \<equiv> 0x00200000"
abbreviation (input) kXR_supgpf :: int where "kXR_supgpf \<equiv> 0x00400000"
abbreviation (input) kXR_anongpf :: int where "kXR_anongpf \<equiv> 0x00800000"
abbreviation (input) kXR_haveTLS :: int where "kXR_haveTLS \<equiv> 0x80000000"
abbreviation (input) kXR_gotoTLS :: int where "kXR_gotoTLS \<equiv> 0x40000000"
abbreviation (input) kXR_tlsAny :: int where "kXR_tlsAny \<equiv> 0x1F000000"
abbreviation (input) kXR_tlsData :: int where "kXR_tlsData \<equiv> 0x01000000"
abbreviation (input) kXR_tlsGPF :: int where "kXR_tlsGPF \<equiv> 0x02000000"
abbreviation (input) kXR_tlsLogin :: int where "kXR_tlsLogin \<equiv> 0x04000000"
abbreviation (input) kXR_tlsSess :: int where "kXR_tlsSess \<equiv> 0x08000000"
abbreviation (input) kXR_tlsTPC :: int where "kXR_tlsTPC \<equiv> 0x10000000"
abbreviation (input) kXR_tlsGPFA :: int where "kXR_tlsGPFA \<equiv> 0x20000000"
abbreviation (input) ROOTD_PQ :: int where "ROOTD_PQ \<equiv> 2012"
abbreviation (input) kXR_PROTOCOLVERSION :: int where "kXR_PROTOCOLVERSION \<equiv> 0x00000520"
abbreviation (input) kXR_secreqs :: int where "kXR_secreqs \<equiv> 0x01"
abbreviation (input) kXR_ableTLS :: int where "kXR_ableTLS \<equiv> 0x02"
abbreviation (input) kXR_wantTLS :: int where "kXR_wantTLS \<equiv> 0x04"
abbreviation (input) kXR_ExpLogin :: int where "kXR_ExpLogin \<equiv> 0x03"
abbreviation (input) kXR_asyncap :: int where "kXR_asyncap \<equiv> 0x80"
abbreviation (input) kXR_ver005 :: int where "kXR_ver005 \<equiv> 0x05"
abbreviation (input) SESSION_ID_LEN :: int where "SESSION_ID_LEN \<equiv> 16"
abbreviation (input) kXR_online :: int where "kXR_online \<equiv> 0x01"
abbreviation (input) kXR_dstat :: int where "kXR_dstat \<equiv> 0x02"
abbreviation (input) kXR_dcksm :: int where "kXR_dcksm \<equiv> 0x04"
abbreviation (input) kXR_vfs :: int where "kXR_vfs \<equiv> 0x01"
abbreviation (input) kXR_statNoFollow :: int where "kXR_statNoFollow \<equiv> 0x40"
abbreviation (input) kXR_compress :: int where "kXR_compress \<equiv> 0x0001"
abbreviation (input) kXR_delete :: int where "kXR_delete \<equiv> 0x0002"
abbreviation (input) kXR_force :: int where "kXR_force \<equiv> 0x0004"
abbreviation (input) kXR_new :: int where "kXR_new \<equiv> 0x0008"
abbreviation (input) kXR_open_read :: int where "kXR_open_read \<equiv> 0x0010"
abbreviation (input) kXR_open_updt :: int where "kXR_open_updt \<equiv> 0x0020"
abbreviation (input) kXR_async :: int where "kXR_async \<equiv> 0x0040"
abbreviation (input) kXR_refresh :: int where "kXR_refresh \<equiv> 0x0080"
abbreviation (input) kXR_mkpath :: int where "kXR_mkpath \<equiv> 0x0100"
abbreviation (input) kXR_open_apnd :: int where "kXR_open_apnd \<equiv> 0x0200"
abbreviation (input) kXR_retstat :: int where "kXR_retstat \<equiv> 0x0400"
abbreviation (input) kXR_replica :: int where "kXR_replica \<equiv> 0x0800"
abbreviation (input) kXR_posc :: int where "kXR_posc \<equiv> 0x1000"
abbreviation (input) kXR_nowait :: int where "kXR_nowait \<equiv> 0x2000"
abbreviation (input) kXR_seqio :: int where "kXR_seqio \<equiv> 0x4000"
abbreviation (input) kXR_open_wrto :: int where "kXR_open_wrto \<equiv> 0x8000"
abbreviation (input) kXR_mkdirpath :: int where "kXR_mkdirpath \<equiv> 0x01"
abbreviation (input) kXR_QStats :: int where "kXR_QStats \<equiv> 1"
abbreviation (input) kXR_QPrep :: int where "kXR_QPrep \<equiv> 2"
abbreviation (input) kXR_Qcksum :: int where "kXR_Qcksum \<equiv> 3"
abbreviation (input) kXR_Qxattr :: int where "kXR_Qxattr \<equiv> 4"
abbreviation (input) kXR_Qspace :: int where "kXR_Qspace \<equiv> 5"
abbreviation (input) kXR_Qckscan :: int where "kXR_Qckscan \<equiv> 6"
abbreviation (input) kXR_Qconfig :: int where "kXR_Qconfig \<equiv> 7"
abbreviation (input) kXR_Qvisa :: int where "kXR_Qvisa \<equiv> 8"
abbreviation (input) kXR_Qopaque :: int where "kXR_Qopaque \<equiv> 16"
abbreviation (input) kXR_Qopaquf :: int where "kXR_Qopaquf \<equiv> 32"
abbreviation (input) kXR_Qopaqug :: int where "kXR_Qopaqug \<equiv> 64"
abbreviation (input) kXR_cancel :: int where "kXR_cancel \<equiv> 1"
abbreviation (input) kXR_notify :: int where "kXR_notify \<equiv> 2"
abbreviation (input) kXR_noerrs :: int where "kXR_noerrs \<equiv> 4"
abbreviation (input) kXR_stage :: int where "kXR_stage \<equiv> 8"
abbreviation (input) kXR_wmode :: int where "kXR_wmode \<equiv> 16"
abbreviation (input) kXR_coloc :: int where "kXR_coloc \<equiv> 32"
abbreviation (input) kXR_fresh :: int where "kXR_fresh \<equiv> 64"
abbreviation (input) kXR_usetcp :: int where "kXR_usetcp \<equiv> 128"
abbreviation (input) kXR_evict :: int where "kXR_evict \<equiv> 0x0001"
abbreviation (input) kXR_addPeers :: int where "kXR_addPeers \<equiv> 0x0001"
abbreviation (input) kXR_refreshLoc :: int where "kXR_refreshLoc \<equiv> 0x0080"
abbreviation (input) kXR_prefname :: int where "kXR_prefname \<equiv> 0x0100"
abbreviation (input) kXR_4dirlist :: int where "kXR_4dirlist \<equiv> 0x0400"
abbreviation (input) kXR_nowaitLoc :: int where "kXR_nowaitLoc \<equiv> 0x2000"
abbreviation (input) kXR_fattrDel :: int where "kXR_fattrDel \<equiv> 0"
abbreviation (input) kXR_fattrGet :: int where "kXR_fattrGet \<equiv> 1"
abbreviation (input) kXR_fattrList :: int where "kXR_fattrList \<equiv> 2"
abbreviation (input) kXR_fattrSet :: int where "kXR_fattrSet \<equiv> 3"
abbreviation (input) kXR_fattrMaxVars :: int where "kXR_fattrMaxVars \<equiv> 16"
abbreviation (input) kXR_fattrIsNew :: int where "kXR_fattrIsNew \<equiv> 0x01"
abbreviation (input) kXR_fattrAData :: int where "kXR_fattrAData \<equiv> 0x10"
abbreviation (input) kXR_fattrRecurse :: int where "kXR_fattrRecurse \<equiv> 0x20"
abbreviation (input) kXR_ckpBegin :: int where "kXR_ckpBegin \<equiv> 0"
abbreviation (input) kXR_ckpCommit :: int where "kXR_ckpCommit \<equiv> 1"
abbreviation (input) kXR_ckpQuery :: int where "kXR_ckpQuery \<equiv> 2"
abbreviation (input) kXR_ckpRollback :: int where "kXR_ckpRollback \<equiv> 3"
abbreviation (input) kXR_ckpXeq :: int where "kXR_ckpXeq \<equiv> 4"
abbreviation (input) kXR_wv_doSync :: int where "kXR_wv_doSync \<equiv> 0x01"
abbreviation (input) READ_LIST_ENTRY_LEN :: int where "READ_LIST_ENTRY_LEN \<equiv> 16"
abbreviation (input) CLONE_ITEM_LEN :: int where "CLONE_ITEM_LEN \<equiv> 32"
abbreviation (input) kXR_SHA256_sig :: int where "kXR_SHA256_sig \<equiv> 0x01"
abbreviation (input) kXR_nodata_sig :: int where "kXR_nodata_sig \<equiv> 0x01"
abbreviation (input) kXR_secNone :: int where "kXR_secNone \<equiv> 0"
abbreviation (input) kXR_secCompatible :: int where "kXR_secCompatible \<equiv> 1"
abbreviation (input) kXR_secStandard :: int where "kXR_secStandard \<equiv> 2"
abbreviation (input) kXR_secIntense :: int where "kXR_secIntense \<equiv> 3"
abbreviation (input) kXR_secPedantic :: int where "kXR_secPedantic \<equiv> 4"
abbreviation (input) kXR_pgPageSZ :: int where "kXR_pgPageSZ \<equiv> 4096"
abbreviation (input) kXR_pgUnitSZ :: int where "kXR_pgUnitSZ \<equiv> 4100"
abbreviation (input) kXR_pgMaxEpr :: int where "kXR_pgMaxEpr \<equiv> 128"
abbreviation (input) kXR_pgRetry :: int where "kXR_pgRetry \<equiv> 0x01"
abbreviation (input) kXR_pgValid :: int where "kXR_pgValid \<equiv> 0x02"
abbreviation (input) kXR_FinalResult :: int where "kXR_FinalResult \<equiv> 0x00"
abbreviation (input) kXR_PartialResult :: int where "kXR_PartialResult \<equiv> 0x01"
abbreviation (input) STATUS_HDR_LEN :: int where "STATUS_HDR_LEN \<equiv> 16"
abbreviation (input) STATUS_BODY_LEN :: int where "STATUS_BODY_LEN \<equiv> 24"
abbreviation (input) kXR_xset :: int where "kXR_xset \<equiv> 0x01"
abbreviation (input) kXR_isDir :: int where "kXR_isDir \<equiv> 0x02"
abbreviation (input) kXR_other :: int where "kXR_other \<equiv> 0x04"
abbreviation (input) kXR_offline :: int where "kXR_offline \<equiv> 0x08"
abbreviation (input) kXR_readable :: int where "kXR_readable \<equiv> 0x10"
abbreviation (input) kXR_writable :: int where "kXR_writable \<equiv> 0x20"
abbreviation (input) kXR_poscpend :: int where "kXR_poscpend \<equiv> 0x40"
abbreviation (input) kXR_bkpexist :: int where "kXR_bkpexist \<equiv> 0x80"
abbreviation (input) DEFAULT_PORT :: int where "DEFAULT_PORT \<equiv> 1094"
abbreviation (input) REQUEST_HDRLEN :: int where "REQUEST_HDRLEN \<equiv> 24"
abbreviation (input) RESPONSE_HDRLEN :: int where "RESPONSE_HDRLEN \<equiv> 8"
abbreviation (input) FHANDLE_LEN :: int where "FHANDLE_LEN \<equiv> 4"
abbreviation (input) NULL_FHANDLE :: bytes where "NULL_FHANDLE \<equiv> [0, 0, 0, 0]"
abbreviation (input) MAX_FRAME_PAYLOAD :: int where "MAX_FRAME_PAYLOAD \<equiv> 0x7FFFFFFF"
abbreviation (input) MAX_RESPONSE_BODY :: int where "MAX_RESPONSE_BODY \<equiv> 1073741824"

section \<open>Decimal text\<close>

text \<open>\<^verbatim>\<open>str(n)\<close> of a Python integer, as the f-strings of the source print it.\<close>

fun show_nat :: "nat \<Rightarrow> string" where
  "show_nat n = (if n < 10 then [char_of (48 + n)] else show_nat (n div 10) @ [char_of (48 + n mod 10)])"

declare show_nat.simps [simp del]

definition show_int :: "int \<Rightarrow> string" where
  "show_int i = (if i < 0 then CHR ''-'' # show_nat (nat (- i)) else show_nat (nat i))"

section \<open>Names of opcodes and statuses\<close>

text \<open>
  The module's \<^verbatim>\<open>kXR_*\<close> globals in the order they are bound, which is the order
  \<^verbatim>\<open>globals().items()\<close> walks them.
\<close>

definition kXR_globals :: "(string \<times> int) list" where
  "kXR_globals = [
    (''kXR_auth'', 3000), (''kXR_query'', 3001), (''kXR_chmod'', 3002), (''kXR_close'', 3003),
    (''kXR_dirlist'', 3004), (''kXR_gpfile'', 3005), (''kXR_protocol'', 3006),
    (''kXR_login'', 3007), (''kXR_mkdir'', 3008), (''kXR_mv'', 3009), (''kXR_open'', 3010),
    (''kXR_ping'', 3011), (''kXR_chkpoint'', 3012), (''kXR_read'', 3013), (''kXR_rm'', 3014),
    (''kXR_rmdir'', 3015), (''kXR_sync'', 3016), (''kXR_stat'', 3017), (''kXR_set'', 3018),
    (''kXR_write'', 3019), (''kXR_fattr'', 3020), (''kXR_prepare'', 3021),
    (''kXR_statx'', 3022), (''kXR_endsess'', 3023), (''kXR_bind'', 3024), (''kXR_readv'', 3025),
    (''kXR_pgwrite'', 3026), (''kXR_locate'', 3027), (''kXR_truncate'', 3028),
    (''kXR_sigver'', 3029), (''kXR_pgread'', 3030), (''kXR_writev'', 3031),
    (''kXR_clone'', 3032), (''kXR_1stRequest'', 3000), (''kXR_setattr'', 3500),
    (''kXR_symlink'', 3501), (''kXR_readlink'', 3502), (''kXR_link'', 3503),
    (''kXR_sa_times'', 0x01), (''kXR_sa_owner'', 0x02), (''kXR_ok'', 0),
    (''kXR_oksofar'', 4000), (''kXR_attn'', 4001), (''kXR_authmore'', 4002),
    (''kXR_error'', 4003), (''kXR_redirect'', 4004), (''kXR_wait'', 4005),
    (''kXR_waitresp'', 4006), (''kXR_status'', 4007), (''kXR_asyncab'', 5000),
    (''kXR_asyncdi'', 5001), (''kXR_asyncms'', 5002), (''kXR_asyncrd'', 5003),
    (''kXR_asyncwt'', 5004), (''kXR_asyncav'', 5005), (''kXR_asynunav'', 5006),
    (''kXR_asyncgo'', 5007), (''kXR_asynresp'', 5008), (''kXR_isManager'', 0x00000002),
    (''kXR_isServer'', 0x00000001), (''kXR_attrCache'', 0x00000080),
    (''kXR_attrMeta'', 0x00000100), (''kXR_attrProxy'', 0x00000200),
    (''kXR_attrSuper'', 0x00000400), (''kXR_attrVirtRdr'', 0x00000800),
    (''kXR_recoverWrts'', 0x00001000), (''kXR_collapseRedir'', 0x00002000),
    (''kXR_ecRedir'', 0x00004000), (''kXR_supposc'', 0x00100000), (''kXR_suppgrw'', 0x00200000),
    (''kXR_supgpf'', 0x00400000), (''kXR_anongpf'', 0x00800000), (''kXR_haveTLS'', 0x80000000),
    (''kXR_gotoTLS'', 0x40000000), (''kXR_tlsAny'', 0x1F000000), (''kXR_tlsData'', 0x01000000),
    (''kXR_tlsGPF'', 0x02000000), (''kXR_tlsLogin'', 0x04000000), (''kXR_tlsSess'', 0x08000000),
    (''kXR_tlsTPC'', 0x10000000), (''kXR_tlsGPFA'', 0x20000000),
    (''kXR_PROTOCOLVERSION'', 0x00000520), (''kXR_secreqs'', 0x01), (''kXR_ableTLS'', 0x02),
    (''kXR_wantTLS'', 0x04), (''kXR_ExpLogin'', 0x03), (''kXR_asyncap'', 0x80),
    (''kXR_ver005'', 0x05), (''kXR_online'', 0x01), (''kXR_dstat'', 0x02),
    (''kXR_dcksm'', 0x04), (''kXR_vfs'', 0x01), (''kXR_statNoFollow'', 0x40),
    (''kXR_compress'', 0x0001), (''kXR_delete'', 0x0002), (''kXR_force'', 0x0004),
    (''kXR_new'', 0x0008), (''kXR_open_read'', 0x0010), (''kXR_open_updt'', 0x0020),
    (''kXR_async'', 0x0040), (''kXR_refresh'', 0x0080), (''kXR_mkpath'', 0x0100),
    (''kXR_open_apnd'', 0x0200), (''kXR_retstat'', 0x0400), (''kXR_replica'', 0x0800),
    (''kXR_posc'', 0x1000), (''kXR_nowait'', 0x2000), (''kXR_seqio'', 0x4000),
    (''kXR_open_wrto'', 0x8000), (''kXR_mkdirpath'', 0x01), (''kXR_QStats'', 1),
    (''kXR_QPrep'', 2), (''kXR_Qcksum'', 3), (''kXR_Qxattr'', 4), (''kXR_Qspace'', 5),
    (''kXR_Qckscan'', 6), (''kXR_Qconfig'', 7), (''kXR_Qvisa'', 8), (''kXR_Qopaque'', 16),
    (''kXR_Qopaquf'', 32), (''kXR_Qopaqug'', 64), (''kXR_cancel'', 1), (''kXR_notify'', 2),
    (''kXR_noerrs'', 4), (''kXR_stage'', 8), (''kXR_wmode'', 16), (''kXR_coloc'', 32),
    (''kXR_fresh'', 64), (''kXR_usetcp'', 128), (''kXR_evict'', 0x0001),
    (''kXR_addPeers'', 0x0001), (''kXR_refreshLoc'', 0x0080), (''kXR_prefname'', 0x0100),
    (''kXR_4dirlist'', 0x0400), (''kXR_nowaitLoc'', 0x2000), (''kXR_fattrDel'', 0),
    (''kXR_fattrGet'', 1), (''kXR_fattrList'', 2), (''kXR_fattrSet'', 3),
    (''kXR_fattrMaxVars'', 16), (''kXR_fattrIsNew'', 0x01), (''kXR_fattrAData'', 0x10),
    (''kXR_fattrRecurse'', 0x20), (''kXR_ckpBegin'', 0), (''kXR_ckpCommit'', 1),
    (''kXR_ckpQuery'', 2), (''kXR_ckpRollback'', 3), (''kXR_ckpXeq'', 4),
    (''kXR_wv_doSync'', 0x01), (''kXR_SHA256_sig'', 0x01), (''kXR_nodata_sig'', 0x01),
    (''kXR_secNone'', 0), (''kXR_secCompatible'', 1), (''kXR_secStandard'', 2),
    (''kXR_secIntense'', 3), (''kXR_secPedantic'', 4), (''kXR_pgPageSZ'', 4096),
    (''kXR_pgUnitSZ'', 4100), (''kXR_pgMaxEpr'', 128), (''kXR_pgRetry'', 0x01),
    (''kXR_pgValid'', 0x02), (''kXR_FinalResult'', 0x00), (''kXR_PartialResult'', 0x01),
    (''kXR_xset'', 0x01), (''kXR_isDir'', 0x02), (''kXR_other'', 0x04), (''kXR_offline'', 0x08),
    (''kXR_readable'', 0x10), (''kXR_writable'', 0x20), (''kXR_poscpend'', 0x40),
    (''kXR_bkpexist'', 0x80)]"

text \<open>
  \<^verbatim>\<open>_REQUEST_NAMES\<close>: a dict comprehension keyed by value, so a later name for the same value
  replaces an earlier one.
\<close>

definition request_names :: "(int, string) dict" where
  "request_names = foldl
     (\<lambda>d (k, v). if 3000 \<le> v \<and> v \<le> 3032 \<or> 3501 \<le> v \<and> v \<le> 3503 then AList.update v k d else d)
     [] kXR_globals"

definition status_names :: "(int, string) dict" where
  "status_names =
    [(kXR_ok, ''kXR_ok''), (kXR_oksofar, ''kXR_oksofar''), (kXR_attn, ''kXR_attn''),
     (kXR_authmore, ''kXR_authmore''), (kXR_error, ''kXR_error''),
     (kXR_redirect, ''kXR_redirect''), (kXR_wait, ''kXR_wait''),
     (kXR_waitresp, ''kXR_waitresp''), (kXR_status, ''kXR_status'')]"

definition request_name :: "int \<Rightarrow> string" where
  "request_name rid =
     (case map_of request_names rid of
        Some n \<Rightarrow> n | None \<Rightarrow> ''kXR_unknown('' @ show_int rid @ '')'')"

definition status_name :: "int \<Rightarrow> string" where
  "status_name status =
     (case map_of status_names status of
        Some n \<Rightarrow> n | None \<Rightarrow> ''kXR_unknown('' @ show_int status @ '')'')"

subsection \<open>Facts\<close>

lemma request_names_value:
  "request_names = [(3000, ''kXR_1stRequest''),
     (3001, ''kXR_query''),
     (3002, ''kXR_chmod''),
     (3003, ''kXR_close''),
     (3004, ''kXR_dirlist''),
     (3005, ''kXR_gpfile''),
     (3006, ''kXR_protocol''),
     (3007, ''kXR_login''),
     (3008, ''kXR_mkdir''),
     (3009, ''kXR_mv''),
     (3010, ''kXR_open''),
     (3011, ''kXR_ping''),
     (3012, ''kXR_chkpoint''),
     (3013, ''kXR_read''),
     (3014, ''kXR_rm''),
     (3015, ''kXR_rmdir''),
     (3016, ''kXR_sync''),
     (3017, ''kXR_stat''),
     (3018, ''kXR_set''),
     (3019, ''kXR_write''),
     (3020, ''kXR_fattr''),
     (3021, ''kXR_prepare''),
     (3022, ''kXR_statx''),
     (3023, ''kXR_endsess''),
     (3024, ''kXR_bind''),
     (3025, ''kXR_readv''),
     (3026, ''kXR_pgwrite''),
     (3027, ''kXR_locate''),
     (3028, ''kXR_truncate''),
     (3029, ''kXR_sigver''),
     (3030, ''kXR_pgread''),
     (3031, ''kXR_writev''),
     (3032, ''kXR_clone''),
     (3501, ''kXR_symlink''),
     (3502, ''kXR_readlink''),
     (3503, ''kXR_link'')]"
  by (simp add: request_names_def kXR_globals_def)

end
