(* ===== verification/Wire_Frames.thy ===== *)
theory Wire_Frames
  imports Wire_Constants
begin

text \<open>
  Frame-level codecs of \<^verbatim>\<open>src/src/xrd/proto/frames.py\<close>. A Python request object is seen
  through its class: \<open>request_class\<close> holds what the base class \<^verbatim>\<open>Request\<close> declares, the class
  attributes and the four overridable methods, and \<open>Request\<close> is the base class with its
  defaults, so that a subclass is a record update of it. \<open>encode\<close> is the 24-byte header and
  payload, \<open>decode_header\<close> the 8-byte response header.
\<close>

definition HANDSHAKE :: bytes where
  "HANDSHAKE = replicate 12 0 @ be_bytes 4 4 @ be_bytes 4 ROOTD_PQ"

section \<open>The request base class\<close>

record request_class =
  rq_opcode :: int
  rq_signed :: bool
  rq_idempotent :: bool
  rq_pathid :: int
  rq_reply_on_path :: bool
  rq_params :: wstep
  rq_payload :: "exn + bytes"
  rq_path_data :: bytes
  rq_trailer :: bytes

definition Request :: request_class where
  "Request = \<lparr>rq_opcode = 0, rq_signed = False, rq_idempotent = True, rq_pathid = 0,
     rq_reply_on_path = False, rq_params = w_zeros 16, rq_payload = Inr [],
     rq_path_data = [], rq_trailer = []\<rparr>"

section \<open>encode\<close>

text \<open>\<^verbatim>\<open>_HDR.pack(streamid & 0xFFFF, opcode, params, dlen)\<close>.\<close>

definition pack_header :: "int \<Rightarrow> int \<Rightarrow> bytes \<Rightarrow> int \<Rightarrow> exn + bytes" where
  "pack_header streamid opcode params dlen =
     chain [w_u16 (streamid mod 65536), w_u16 opcode, w_padded params 16, w_u32 dlen] []"

definition encode :: "request_class \<Rightarrow> int \<Rightarrow> exn + bytes" where
  "encode req streamid =
     bindE (rq_params req []) (\<lambda>params.
       if length params \<noteq> 16 then Inl (ProtocolError ''params did not write 16 bytes'')
       else bindE (rq_payload req) (\<lambda>body.
         let dlen = int (length body) + int (length (rq_path_data req)) in
         if dlen > MAX_FRAME_PAYLOAD then Inl (ProtocolError ''payload exceeds the protocol maximum'')
         else bindE (pack_header streamid (rq_opcode req) params dlen) (\<lambda>hdr.
           Inr (hdr @ body @ rq_trailer req))))"

section \<open>decode_header\<close>

record response_header =
  rh_streamid :: int
  rh_status :: int
  rh_dlen :: int

definition decode_header :: "bytes \<Rightarrow> exn + response_header" where
  "decode_header data =
     (if int (length data) < RESPONSE_HDRLEN then Inl (ProtocolError ''response header needs 8 bytes'')
      else
        (let h = take 8 data;
             streamid = struct_unpack U16 (take 2 h);
             status = struct_unpack U16 (take 2 (drop 2 h));
             dlen = struct_unpack U32 (drop 4 h)
         in if dlen > MAX_RESPONSE_BODY then Inl (ProtocolError ''response body too large'')
            else Inr \<lparr>rh_streamid = streamid, rh_status = status, rh_dlen = dlen\<rparr>))"

section \<open>Layout of an encoded frame\<close>

lemma pack_header_Inr:
  assumes "length params = 16"
  shows "pack_header sid op params dlen = Inr h \<longleftrightarrow>
    0 \<le> op \<and> op < 65536 \<and> 0 \<le> dlen \<and> dlen < 4294967296
    \<and> h = be_bytes 2 (sid mod 65536) @ be_bytes 2 op @ params @ be_bytes 4 dlen"
  using assms
  by (auto simp: pack_header_def bindE_eq_Inr writer_defs w_pack_def struct_pack_def
      fmt_defs fmt_lo_def fmt_hi_def w_padded_def ljust_def)

lemma pack_header_length: "pack_header sid op params dlen = Inr h \<Longrightarrow> length h = 24"
proof -
  assume h: "pack_header sid op params dlen = Inr h"
  have "appends (chain [w_u16 (sid mod 65536), w_u16 op, w_padded params 16, w_u32 dlen])
      (2 + (2 + (nat 16 + (4 + 0))))"
    by (intro wire) simp
  from appendsD [OF this h [unfolded pack_header_def]] show ?thesis by simp
qed

text \<open>
  Everything \<open>encode\<close> promises when it returns: the parameter block it wrote, the body, and
  the frame as header, body and trailer.
\<close>

lemma encode_Inr:
  assumes "encode req sid = Inr frame"
  obtains params body h where
    "rq_params req [] = Inr params" and "length params = 16"
    and "rq_payload req = Inr body"
    and "int (length body) + int (length (rq_path_data req)) \<le> MAX_FRAME_PAYLOAD"
    and "0 \<le> rq_opcode req" and "rq_opcode req < 65536"
    and "h = be_bytes 2 (sid mod 65536) @ be_bytes 2 (rq_opcode req) @ params
           @ be_bytes 4 (int (length body) + int (length (rq_path_data req)))"
    and "frame = h @ body @ rq_trailer req"
  using assms unfolding encode_def
  by (auto simp: bindE_eq_Inr pack_header_Inr Let_def split: if_splits)

lemma encode_length:
  assumes "encode req sid = Inr frame" and "rq_payload req = Inr body"
  shows "length frame = 24 + length body + length (rq_trailer req)"
  using assms by (auto elim!: encode_Inr)

lemma decode_header_dlen:
  assumes "decode_header data = Inr h"
  shows "0 \<le> rh_dlen h \<and> rh_dlen h \<le> MAX_RESPONSE_BODY"
proof -
  from assms have len: "8 \<le> length data"
    and h: "rh_dlen h = struct_unpack U32 (drop 4 (take 8 data))"
    and m: "rh_dlen h \<le> MAX_RESPONSE_BODY"
    by (auto simp: decode_header_def Let_def split: if_splits)
  have "fmt_lo U32 \<le> rh_dlen h"
    unfolding h by (rule struct_unpack_bounds [THEN conjunct1]) (use len in \<open>simp_all add: U32_def\<close>)
  with m show ?thesis by (simp add: fmt_lo_def U32_def)
qed

lemma decode_header_take: "decode_header (take 8 (a @ b)) = decode_header (take 8 a)"
  if "8 \<le> length a" for a b
  using that by simp

lemma decode_header_error: "decode_header data = Inl e \<Longrightarrow> \<exists>m. e = ProtocolError m"
  by (auto simp: decode_header_def Let_def split: if_splits)

end
