(* ===== verification/Wire_Requests.thy ===== *)
theory Wire_Requests
  imports Wire_Frames
begin

text \<open>
  One class per \<^verbatim>\<open>kXR_*\<close> opcode, from \<^verbatim>\<open>src/src/xrd/proto/requests.py\<close>. The datatype \<open>request\<close>
  holds an object's fields after \<^verbatim>\<open>__init__\<close>; \<open>cls_X\<close> is the class of \<^verbatim>\<open>X\<close>, its attributes
  and method bodies as an update of the base class \<open>Request\<close>; \<open>cls\<close> is method lookup. The
  constructors that compute a field or may raise are the \<open>new_X\<close> functions. The process
  id \<^verbatim>\<open>os.getpid()\<close> that \<^verbatim>\<open>Login\<close> defaults to is an argument.
\<close>

section \<open>Objects\<close>

datatype request =
    Protocol int                                  \<comment> \<open>flags\<close>
  | Login str int int str                         \<comment> \<open>username, pid, capver, token\<close>
  | Auth str bytes                                \<comment> \<open>credtype, cred\<close>
  | Ping
  | EndSession bytes                              \<comment> \<open>sessid\<close>
  | Bind bytes                                    \<comment> \<open>sessid\<close>
  | Stat str int bytes                            \<comment> \<open>path, options, fhandle\<close>
  | StatVFS str                                   \<comment> \<open>path\<close>
  | Statx "str list"                              \<comment> \<open>paths\<close>
  | Dirlist str int                               \<comment> \<open>path, options\<close>
  | Locate str int                                \<comment> \<open>path, options\<close>
  | Query int "str + bytes" bytes                 \<comment> \<open>infotype, args, fhandle\<close>
  | Prepare "str list" int int int int            \<comment> \<open>paths, options, priority, port, extended\<close>
  | Mkdir str int bool                            \<comment> \<open>path, mode, mkpath\<close>
  | Rm str
  | Rmdir str
  | Mv str str                                    \<comment> \<open>src, dst\<close>
  | Symlink str str
  | Link str str
  | Readlink str
  | Setattr str int "int \<times> int" "int \<times> int" int int   \<comment> \<open>path, flags, atime, mtime, uid, gid\<close>
  | Chmod str int                                 \<comment> \<open>path, mode\<close>
  | Truncate str int bytes                        \<comment> \<open>path, size, fhandle\<close>
  | SetProp str                                   \<comment> \<open>data\<close>
  | Open str int int                              \<comment> \<open>path, options, mode\<close>
  | Close bytes
  | Read bytes int int int                        \<comment> \<open>fhandle, offset, length, pathid\<close>
  | Write bytes int bytes int                     \<comment> \<open>fhandle, offset, data, pathid\<close>
  | Sync bytes
  | ReadV "(bytes \<times> int \<times> int) list" int         \<comment> \<open>chunks (fhandle, offset, length), pathid\<close>
  | WriteV "(bytes \<times> int \<times> bytes) list" int      \<comment> \<open>chunks (fhandle, offset, data), options\<close>
  | Clone bytes "(bytes \<times> int \<times> int \<times> int) list"  \<comment> \<open>fhandle, items\<close>
  | PgRead bytes int int int int                  \<comment> \<open>fhandle, offset, length, reqflags, pathid\<close>
  | PgWrite bytes int bytes int int               \<comment> \<open>fhandle, offset, data, reqflags, pathid\<close>
  | ChkPoint bytes int bytes bytes                \<comment> \<open>fhandle, subcode, data, tail\<close>
  | Fattr int bytes int int bytes                 \<comment> \<open>subcode, body, numattr, options, fhandle\<close>
  | Sigver int int bytes int bool                 \<comment> \<open>expectrid, seqno, signature, crypto, nodata\<close>

section \<open>Classes\<close>

definition encode_path :: "str \<Rightarrow> exn + bytes" where
  "encode_path path = utf8_encode path"

definition join_lines :: "str list \<Rightarrow> str" where
  "join_lines paths = (case paths of [] \<Rightarrow> [] | p # ps \<Rightarrow> p @ concat (map (\<lambda>q. 10 # q) ps))"

subsection \<open>Session bring-up\<close>

definition cls_Protocol :: "int \<Rightarrow> request_class" where
  "cls_Protocol flags = Request\<lparr>rq_opcode := kXR_protocol,
     rq_params := chain [w_u32 kXR_PROTOCOLVERSION, w_u8 flags, w_u8 kXR_ExpLogin, w_zeros 10]\<rparr>"

definition cls_Login :: "str \<Rightarrow> int \<Rightarrow> int \<Rightarrow> str \<Rightarrow> request_class" where
  "cls_Login username pid capver token = Request\<lparr>rq_opcode := kXR_login,
     rq_params := chain [w_i32 pid, w_padded_text username 8, w_zeros 2, w_u8 capver, w_u8 0],
     rq_payload := utf8_encode token\<rparr>"

definition new_Login :: "str \<Rightarrow> int \<Rightarrow> int option \<Rightarrow> str \<Rightarrow> request" where
  "new_Login username pid capver token =
     Login username pid (case capver of None \<Rightarrow> kXR_ver005 OR kXR_asyncap | Some c \<Rightarrow> c) token"

definition cls_Auth :: "str \<Rightarrow> bytes \<Rightarrow> request_class" where
  "cls_Auth credtype cred = Request\<lparr>rq_opcode := kXR_auth, rq_idempotent := False,
     rq_params := chain [w_zeros 12, w_padded_text credtype 4], rq_payload := Inr cred\<rparr>"

definition new_Auth :: "str \<Rightarrow> bytes \<Rightarrow> exn + request" where
  "new_Auth credtype cred =
     bindE (utf8_encode credtype) (\<lambda>b.
       if length b > 4 then Inl (ValueError ''credtype must be <= 4 bytes'')
       else Inr (Auth credtype cred))"

definition cls_Ping :: request_class where
  "cls_Ping = Request\<lparr>rq_opcode := kXR_ping\<rparr>"

definition cls_EndSession :: "bytes \<Rightarrow> request_class" where
  "cls_EndSession sessid = Request\<lparr>rq_opcode := kXR_endsess, rq_idempotent := False,
     rq_params := w_padded sessid 16\<rparr>"

definition cls_Bind :: "bytes \<Rightarrow> request_class" where
  "cls_Bind sessid = Request\<lparr>rq_opcode := kXR_bind, rq_idempotent := False,
     rq_params := w_padded sessid 16\<rparr>"

subsection \<open>Metadata\<close>

definition cls_Stat :: "str \<Rightarrow> int \<Rightarrow> bytes \<Rightarrow> request_class" where
  "cls_Stat path options fhandle = Request\<lparr>rq_opcode := kXR_stat,
     rq_params := chain [w_u8 options, w_zeros 11, w_padded fhandle 4],
     rq_payload := encode_path path\<rparr>"

definition cls_StatVFS :: "str \<Rightarrow> request_class" where
  "cls_StatVFS path = cls_Stat path kXR_vfs NULL_FHANDLE"

definition cls_Statx :: "str list \<Rightarrow> request_class" where
  "cls_Statx paths = Request\<lparr>rq_opcode := kXR_statx, rq_payload := utf8_encode (join_lines paths)\<rparr>"

definition cls_Dirlist :: "str \<Rightarrow> int \<Rightarrow> request_class" where
  "cls_Dirlist path options = Request\<lparr>rq_opcode := kXR_dirlist,
     rq_params := chain [w_zeros 15, w_u8 options], rq_payload := encode_path path\<rparr>"

definition cls_Locate :: "str \<Rightarrow> int \<Rightarrow> request_class" where
  "cls_Locate path options = Request\<lparr>rq_opcode := kXR_locate,
     rq_params := chain [w_u16 options, w_zeros 14], rq_payload := encode_path path\<rparr>"

definition cls_Query :: "int \<Rightarrow> str + bytes \<Rightarrow> bytes \<Rightarrow> request_class" where
  "cls_Query infotype args fhandle = Request\<lparr>rq_opcode := kXR_query,
     rq_params := chain [w_u16 infotype, w_zeros 2, w_padded fhandle 4, w_zeros 8],
     rq_payload := (case args of Inl s \<Rightarrow> utf8_encode s | Inr b \<Rightarrow> Inr b)\<rparr>"

definition cls_Prepare :: "str list \<Rightarrow> int \<Rightarrow> int \<Rightarrow> int \<Rightarrow> int \<Rightarrow> request_class" where
  "cls_Prepare paths options priority port extended = Request\<lparr>rq_opcode := kXR_prepare,
     rq_signed := True, rq_idempotent := False,
     rq_params := chain [w_u8 options, w_u8 priority, w_u16 port, w_u16 extended, w_zeros 10],
     rq_payload := utf8_encode (join_lines paths)\<rparr>"

subsection \<open>Namespace mutation\<close>

definition cls_Mkdir :: "str \<Rightarrow> int \<Rightarrow> bool \<Rightarrow> request_class" where
  "cls_Mkdir path mode mkpath = Request\<lparr>rq_opcode := kXR_mkdir, rq_signed := True,
     rq_idempotent := False,
     rq_params := chain [w_u8 (if mkpath then kXR_mkdirpath else 0), w_zeros 13, w_u16 mode],
     rq_payload := encode_path path\<rparr>"

definition cls_Rm :: "str \<Rightarrow> request_class" where
  "cls_Rm path = Request\<lparr>rq_opcode := kXR_rm, rq_signed := True, rq_idempotent := False,
     rq_payload := encode_path path\<rparr>"

definition cls_Rmdir :: "str \<Rightarrow> request_class" where
  "cls_Rmdir path = (cls_Rm path)\<lparr>rq_opcode := kXR_rmdir\<rparr>"

text \<open>The first argument's length is counted in bytes, as the server splits on it.\<close>

definition cls_Mv :: "str \<Rightarrow> str \<Rightarrow> request_class" where
  "cls_Mv src dst = Request\<lparr>rq_opcode := kXR_mv, rq_signed := True, rq_idempotent := False,
     rq_params := (\<lambda>w. bindE (w_zeros 14 w) (\<lambda>w'. bindE (utf8_encode src) (\<lambda>b.
        w_u16 (int (length b)) w'))),
     rq_payload := utf8_encode (src @ 32 # dst)\<rparr>"

definition cls_Symlink :: "str \<Rightarrow> str \<Rightarrow> request_class" where
  "cls_Symlink src dst = (cls_Mv src dst)\<lparr>rq_opcode := kXR_symlink\<rparr>"

definition cls_Link :: "str \<Rightarrow> str \<Rightarrow> request_class" where
  "cls_Link src dst = (cls_Mv src dst)\<lparr>rq_opcode := kXR_link\<rparr>"

definition cls_Readlink :: "str \<Rightarrow> request_class" where
  "cls_Readlink path = Request\<lparr>rq_opcode := kXR_readlink, rq_signed := True,
     rq_payload := encode_path path\<rparr>"

definition cls_Setattr :: "str \<Rightarrow> int \<Rightarrow> int \<times> int \<Rightarrow> int \<times> int \<Rightarrow> int \<Rightarrow> int \<Rightarrow> request_class" where
  "cls_Setattr path flags atime mtime uid gid = Request\<lparr>rq_opcode := kXR_setattr,
     rq_signed := True, rq_idempotent := False,
     rq_payload :=
       bindE (chain [w_i32 flags, w_i64 (fst atime), w_i64 (snd atime), w_i64 (fst mtime),
                     w_i64 (snd mtime), w_i32 uid, w_i32 gid] []) (\<lambda>block.
       bindE (encode_path path) (\<lambda>p. Inr (block @ p @ [0])))\<rparr>"

definition cls_Chmod :: "str \<Rightarrow> int \<Rightarrow> request_class" where
  "cls_Chmod path mode = Request\<lparr>rq_opcode := kXR_chmod, rq_signed := True, rq_idempotent := False,
     rq_params := chain [w_zeros 14, w_u16 mode], rq_payload := encode_path path\<rparr>"

definition cls_Truncate :: "str \<Rightarrow> int \<Rightarrow> bytes \<Rightarrow> request_class" where
  "cls_Truncate path sz fhandle = Request\<lparr>rq_opcode := kXR_truncate, rq_signed := True,
     rq_idempotent := False,
     rq_params := chain [w_padded fhandle 4, w_i64 sz, w_zeros 4],
     rq_payload := encode_path path\<rparr>"

definition cls_Set :: "str \<Rightarrow> request_class" where
  "cls_Set data = Request\<lparr>rq_opcode := kXR_set, rq_signed := True, rq_idempotent := False,
     rq_payload := utf8_encode data\<rparr>"

subsection \<open>File I/O\<close>

definition cls_Open :: "str \<Rightarrow> int \<Rightarrow> int \<Rightarrow> request_class" where
  "cls_Open path options mode = Request\<lparr>rq_opcode := kXR_open, rq_signed := True,
     rq_idempotent := False,
     rq_params := chain [w_u16 mode, w_u16 options, w_zeros 12], rq_payload := encode_path path\<rparr>"

definition cls_Close :: "bytes \<Rightarrow> request_class" where
  "cls_Close fhandle = Request\<lparr>rq_opcode := kXR_close, rq_idempotent := False,
     rq_params := chain [w_padded fhandle 4, w_zeros 12]\<rparr>"

definition cls_Read :: "bytes \<Rightarrow> int \<Rightarrow> int \<Rightarrow> int \<Rightarrow> request_class" where
  "cls_Read fhandle offset len pathid = Request\<lparr>rq_opcode := kXR_read, rq_reply_on_path := True,
     rq_pathid := pathid,
     rq_params := chain [w_padded fhandle 4, w_i64 offset, w_i32 len],
     rq_payload := (if pathid \<noteq> 0 then chain [w_u8 pathid, w_zeros 7] [] else Inr [])\<rparr>"

definition cls_Write :: "bytes \<Rightarrow> int \<Rightarrow> bytes \<Rightarrow> int \<Rightarrow> request_class" where
  "cls_Write fhandle offset data pathid = Request\<lparr>rq_opcode := kXR_write, rq_signed := True,
     rq_idempotent := False, rq_pathid := pathid,
     rq_params := chain [w_padded fhandle 4, w_i64 offset, w_u8 pathid, w_zeros 3],
     rq_payload := Inr (if pathid \<noteq> 0 then [] else data),
     rq_path_data := (if pathid \<noteq> 0 then data else [])\<rparr>"

definition cls_Sync :: "bytes \<Rightarrow> request_class" where
  "cls_Sync fhandle = Request\<lparr>rq_opcode := kXR_sync, rq_idempotent := False,
     rq_params := chain [w_padded fhandle 4, w_zeros 12]\<rparr>"

definition cls_ReadV :: "(bytes \<times> int \<times> int) list \<Rightarrow> int \<Rightarrow> request_class" where
  "cls_ReadV chunks pathid = Request\<lparr>rq_opcode := kXR_readv, rq_reply_on_path := True,
     rq_pathid := pathid, rq_params := chain [w_zeros 15, w_u8 pathid],
     rq_payload := chain (map (\<lambda>(fhandle, offset, len).
        chain [w_padded fhandle 4, w_i32 len, w_i64 offset]) chunks) []\<rparr>"

definition cls_WriteV :: "(bytes \<times> int \<times> bytes) list \<Rightarrow> int \<Rightarrow> request_class" where
  "cls_WriteV chunks options = Request\<lparr>rq_opcode := kXR_writev, rq_signed := True,
     rq_idempotent := False, rq_params := chain [w_u8 options, w_zeros 15],
     rq_payload := chain (map (\<lambda>(fhandle, offset, data).
        chain [w_padded fhandle 4, w_i32 (int (length data)), w_i64 offset]) chunks) [],
     rq_trailer := concat (map (\<lambda>(_, _, data). data) chunks)\<rparr>"

definition new_WriteV :: "(bytes \<times> int \<times> bytes) list \<Rightarrow> bool \<Rightarrow> request" where
  "new_WriteV chunks sync = WriteV chunks (if sync then kXR_wv_doSync else 0)"

definition cls_Clone :: "bytes \<Rightarrow> (bytes \<times> int \<times> int \<times> int) list \<Rightarrow> request_class" where
  "cls_Clone fhandle items = Request\<lparr>rq_opcode := kXR_clone, rq_signed := True,
     rq_idempotent := False, rq_params := chain [w_padded fhandle 4, w_zeros 12],
     rq_payload := chain (map (\<lambda>(source, offset, len, target).
        chain [w_padded source 4, w_zeros 4, w_i64 offset, w_i64 len, w_i64 target]) items) []\<rparr>"

definition cls_PgRead :: "bytes \<Rightarrow> int \<Rightarrow> int \<Rightarrow> int \<Rightarrow> int \<Rightarrow> request_class" where
  "cls_PgRead fhandle offset len reqflags pathid = Request\<lparr>rq_opcode := kXR_pgread,
     rq_reply_on_path := True, rq_pathid := pathid,
     rq_params := chain [w_padded fhandle 4, w_i64 offset, w_i32 len],
     rq_payload := (if reqflags = 0 \<and> pathid = 0 then Inr []
                    else chain [w_u8 pathid, w_u8 reqflags, w_zeros 2] [])\<rparr>"

definition new_PgRead :: "bytes \<Rightarrow> int \<Rightarrow> int \<Rightarrow> bool \<Rightarrow> int \<Rightarrow> request" where
  "new_PgRead fhandle offset len retry pathid =
     PgRead fhandle offset len (if retry then kXR_pgRetry else 0) pathid"

definition cls_PgWrite :: "bytes \<Rightarrow> int \<Rightarrow> bytes \<Rightarrow> int \<Rightarrow> int \<Rightarrow> request_class" where
  "cls_PgWrite fhandle offset data reqflags pathid = Request\<lparr>rq_opcode := kXR_pgwrite,
     rq_signed := True, rq_idempotent := False, rq_pathid := pathid,
     rq_params := chain [w_padded fhandle 4, w_i64 offset, w_u8 pathid, w_u8 reqflags, w_zeros 2],
     rq_payload := Inr (if pathid \<noteq> 0 then [] else data),
     rq_path_data := (if pathid \<noteq> 0 then data else [])\<rparr>"

definition new_PgWrite :: "bytes \<Rightarrow> int \<Rightarrow> bytes \<Rightarrow> bool \<Rightarrow> int \<Rightarrow> request" where
  "new_PgWrite fhandle offset data retry pathid =
     PgWrite fhandle offset data (if retry then kXR_pgRetry else 0) pathid"

definition cls_ChkPoint :: "bytes \<Rightarrow> int \<Rightarrow> bytes \<Rightarrow> bytes \<Rightarrow> request_class" where
  "cls_ChkPoint fhandle subcode data tail = Request\<lparr>rq_opcode := kXR_chkpoint, rq_signed := True,
     rq_idempotent := False,
     rq_params := chain [w_padded fhandle 4, w_zeros 11, w_u8 subcode],
     rq_payload := Inr data, rq_trailer := tail\<rparr>"

definition cls_Fattr :: "int \<Rightarrow> bytes \<Rightarrow> int \<Rightarrow> int \<Rightarrow> bytes \<Rightarrow> request_class" where
  "cls_Fattr subcode body numattr options fhandle = Request\<lparr>rq_opcode := kXR_fattr,
     rq_signed := True, rq_idempotent := subcode \<in> {kXR_fattrGet, kXR_fattrList},
     rq_params := chain [w_padded fhandle 4, w_u8 subcode, w_u8 numattr, w_u8 options, w_zeros 9],
     rq_payload := Inr body\<rparr>"

definition cls_Sigver :: "int \<Rightarrow> int \<Rightarrow> bytes \<Rightarrow> int \<Rightarrow> bool \<Rightarrow> request_class" where
  "cls_Sigver expectrid seqno signature crypto nodata = Request\<lparr>rq_opcode := kXR_sigver,
     rq_params := chain [w_u16 expectrid, w_u8 0, w_u8 (if nodata then kXR_nodata_sig else 0),
        w_u64 seqno, w_u8 crypto, w_zeros 3],
     rq_payload := Inr signature\<rparr>"

definition new_Sigver :: "int \<Rightarrow> int \<Rightarrow> bytes \<Rightarrow> request" where
  "new_Sigver expectrid seqno signature = Sigver expectrid seqno signature kXR_SHA256_sig False"

section \<open>Method lookup\<close>

fun cls :: "request \<Rightarrow> request_class" where
  "cls (Protocol f) = cls_Protocol f"
| "cls (Login u p c t) = cls_Login u p c t"
| "cls (Auth t c) = cls_Auth t c"
| "cls Ping = cls_Ping"
| "cls (EndSession s) = cls_EndSession s"
| "cls (Bind s) = cls_Bind s"
| "cls (Stat p op h) = cls_Stat p op h"
| "cls (StatVFS p) = cls_StatVFS p"
| "cls (Statx ps) = cls_Statx ps"
| "cls (Dirlist p op) = cls_Dirlist p op"
| "cls (Locate p op) = cls_Locate p op"
| "cls (Query i a h) = cls_Query i a h"
| "cls (Prepare ps op pr po ex) = cls_Prepare ps op pr po ex"
| "cls (Mkdir p m mk) = cls_Mkdir p m mk"
| "cls (Rm p) = cls_Rm p"
| "cls (Rmdir p) = cls_Rmdir p"
| "cls (Mv s d) = cls_Mv s d"
| "cls (Symlink s d) = cls_Symlink s d"
| "cls (Link s d) = cls_Link s d"
| "cls (Readlink p) = cls_Readlink p"
| "cls (Setattr p f a m u g) = cls_Setattr p f a m u g"
| "cls (Chmod p m) = cls_Chmod p m"
| "cls (Truncate p s h) = cls_Truncate p s h"
| "cls (SetProp d) = cls_Set d"
| "cls (Open p op m) = cls_Open p op m"
| "cls (Close h) = cls_Close h"
| "cls (Read h off l pid) = cls_Read h off l pid"
| "cls (Write h off d pid) = cls_Write h off d pid"
| "cls (Sync h) = cls_Sync h"
| "cls (ReadV cs pid) = cls_ReadV cs pid"
| "cls (WriteV cs op) = cls_WriteV cs op"
| "cls (Clone h its) = cls_Clone h its"
| "cls (PgRead h off l f pid) = cls_PgRead h off l f pid"
| "cls (PgWrite h off d f pid) = cls_PgWrite h off d f pid"
| "cls (ChkPoint h s d t) = cls_ChkPoint h s d t"
| "cls (Fattr s b n op h) = cls_Fattr s b n op h"
| "cls (Sigver e q sg c n) = cls_Sigver e q sg c n"

section \<open>Constructors that build a request from another one\<close>

text \<open>
  \<^verbatim>\<open>ChkPoint.execute\<close>: the embedded request's 24-byte header is the payload, its data the
  trailer; only the three opcodes the server can undo are taken.
\<close>

definition EXECUTABLE :: "int set" where
  "EXECUTABLE = {kXR_write, kXR_pgwrite, kXR_truncate}"

definition ChkPoint_execute :: "bytes \<Rightarrow> request \<Rightarrow> exn + request" where
  "ChkPoint_execute fhandle inner =
     (if rq_opcode (cls inner) \<notin> EXECUTABLE
      then Inl (ProtocolError ''a checkpoint can execute a write or a truncate'')
      else bindE (encode (cls inner) 0) (\<lambda>frame.
        Inr (ChkPoint fhandle kXR_ckpXeq (slice_to frame REQUEST_HDRLEN)
               (slice_from frame REQUEST_HDRLEN))))"

definition Fattr_path_name :: "str \<Rightarrow> str \<Rightarrow> exn + bytes" where
  "Fattr_path_name path name = chain [w_text path True, w_u16 0, w_text name True] []"

definition Fattr_get :: "str \<Rightarrow> str \<Rightarrow> bytes \<Rightarrow> exn + request" where
  "Fattr_get path name fhandle =
     bindE (Fattr_path_name path name) (\<lambda>b. Inr (Fattr kXR_fattrGet b 1 0 fhandle))"

definition Fattr_delete :: "str \<Rightarrow> str \<Rightarrow> bytes \<Rightarrow> exn + request" where
  "Fattr_delete path name fhandle =
     bindE (Fattr_path_name path name) (\<lambda>b. Inr (Fattr kXR_fattrDel b 1 0 fhandle))"

definition Fattr_set :: "str \<Rightarrow> str \<Rightarrow> bytes \<Rightarrow> bool \<Rightarrow> bytes \<Rightarrow> exn + request" where
  "Fattr_set path name value create_only fhandle =
     bindE (Fattr_path_name path name) (\<lambda>b.
     bindE (chain [w_u32 (int (length value)), w_raw value] []) (\<lambda>v.
       Inr (Fattr kXR_fattrSet (b @ v) 1 (if create_only then kXR_fattrIsNew else 0) fhandle)))"

definition Fattr_list :: "str \<Rightarrow> bool \<Rightarrow> bytes \<Rightarrow> bool \<Rightarrow> exn + request" where
  "Fattr_list path values fhandle recurse =
     bindE (chain [w_text path True] []) (\<lambda>b.
       Inr (Fattr kXR_fattrList b 0
              ((if values then kXR_fattrAData else 0) OR (if recurse then kXR_fattrRecurse else 0))
              fhandle))"

section \<open>Facts shared by the properties of the encoders\<close>

lemmas cls_defs = Request_def cls_Protocol_def cls_Login_def cls_Auth_def cls_Ping_def
  cls_EndSession_def cls_Bind_def cls_Stat_def cls_StatVFS_def cls_Statx_def cls_Dirlist_def
  cls_Locate_def cls_Query_def cls_Prepare_def cls_Mkdir_def cls_Rm_def cls_Rmdir_def cls_Mv_def
  cls_Symlink_def cls_Link_def cls_Readlink_def cls_Setattr_def cls_Chmod_def cls_Truncate_def
  cls_Set_def cls_Open_def cls_Close_def cls_Read_def cls_Write_def cls_Sync_def cls_ReadV_def
  cls_WriteV_def cls_Clone_def cls_PgRead_def cls_PgWrite_def cls_ChkPoint_def cls_Fattr_def
  cls_Sigver_def

lemma appends_16I: "appends f n \<Longrightarrow> n = 16 \<Longrightarrow> appends f 16"
  by simp

lemma appends_Mv_params:
  "appends (\<lambda>w. bindE (w_zeros 14 w) (\<lambda>w'. bindE (utf8_encode s) (\<lambda>b. w_u16 (int (length b)) w'))) 16"
proof -
  have "appends (chain [w_zeros 14, w_u16 n]) (nat 14 + (2 + 0))" for n by (intro wire)
  then have "\<exists>b. w' = w @ b \<and> length b = 16" if "chain [w_zeros 14, w_u16 n] w = Inr w'" for n w w'
    using that unfolding appends_def by fastforce
  then show ?thesis by (fastforce simp: appends_def bindE_eq_Inr)
qed

text \<open>Every \<^verbatim>\<open>params\<close> method writes exactly 16 bytes, or raises.\<close>

lemma params_append_16: "appends (rq_params (cls req)) 16"
  by (cases req; simp add: cls_defs split del: if_split; (rule appends_Mv_params | (rule appends_16I, (rule wire | simp)+)))

lemma opcode_range: "3000 \<le> rq_opcode (cls req) \<and> rq_opcode (cls req) \<le> 3503"
  by (cases req) (simp_all add: cls_defs)

text \<open>No class both streams a trailer and puts data on a bound path.\<close>

lemma trailer_xor_path_data: "rq_trailer (cls req) = [] \<or> rq_path_data (cls req) = []"
  by (cases req) (simp_all add: cls_defs)

lemma path_data_needs_path: "rq_pathid (cls req) = 0 \<Longrightarrow> rq_path_data (cls req) = []"
  by (cases req) (simp_all add: cls_defs)

text \<open>So \<open>encode\<close> never refuses a request for the size of its parameter block.\<close>

lemma params_length:
  "rq_params (cls req) [] = Inr p \<Longrightarrow> length p = 16"
  using appendsD [OF params_append_16] by fastforce

text \<open>An array of fixed-width descriptors.\<close>

lemma chain_map_length:
  assumes "\<And>x. appends (f x) k" and "chain (map f xs) w = Inr w'"
  shows "length w' = length w + k * length xs"
  using assms(2)
proof (induction xs arbitrary: w)
  case Nil
  then show ?case by simp
next
  case (Cons x xs)
  then obtain u where "f x w = Inr u" and "chain (map f xs) u = Inr w'"
    by (auto simp: bindE_eq_Inr)
  with Cons.IH appendsD [OF assms(1)] show ?case by fastforce
qed

end
