(* ===== verification/Sigver.thy ===== *)
theory Sigver
  imports Wire_Requests
begin

text \<open>
  Request signing, \<^verbatim>\<open>src/src/xrd/crypto/sigver.py\<close>. The HMAC-SHA256 of the standard library is
  the parameter \<open>hmac\<close> (key, message \<open>\<mapsto>\<close> digest); what is modelled is which opcodes are
  signed at which level, the sequence number, and which bytes of an encoded frame the
  signature covers. \<open>sign\<close> returns its result together with the signer, because the
  sequence number advances even when packing it raises.
\<close>

type_synonym mac = "bytes \<Rightarrow> bytes \<Rightarrow> bytes"

definition SIGNED_OPCODES :: "int set" where
  "SIGNED_OPCODES =
    {kXR_chmod, kXR_fattr, kXR_mkdir, kXR_mv, kXR_open, kXR_pgwrite, kXR_prepare, kXR_rm,
     kXR_rmdir, kXR_set, kXR_truncate, kXR_write, kXR_writev, kXR_chkpoint, kXR_clone}"

definition LEVEL_OPCODES :: "(int, int set) dict" where
  "LEVEL_OPCODES =
    [(kXR_secNone, {}), (kXR_secCompatible, {}), (kXR_secStandard, SIGNED_OPCODES),
     (kXR_secIntense, SIGNED_OPCODES \<union> {kXR_close, kXR_dirlist, kXR_locate, kXR_stat}),
     (kXR_secPedantic, {kXR_1stRequest ..< kXR_clone + 1})]"

definition is_signed :: "int \<Rightarrow> int \<Rightarrow> (int, int) dict \<Rightarrow> bool" where
  "is_signed opcode level overrides =
     (case map_of overrides opcode of
        Some l \<Rightarrow> l \<noteq> kXR_secNone
      | None \<Rightarrow>
          if level \<le> kXR_secCompatible then False
          else opcode \<in> (case map_of LEVEL_OPCODES level of None \<Rightarrow> SIGNED_OPCODES | Some s \<Rightarrow> s))"

definition sigver_hmac :: "mac \<Rightarrow> bytes \<Rightarrow> int \<Rightarrow> bytes \<Rightarrow> bytes \<Rightarrow> exn + bytes" where
  "sigver_hmac hmac key seqno header payload =
     bindE (struct_pack U64 seqno) (\<lambda>s. Inr (hmac key (s @ header @ payload)))"

record signer =
  sg_key :: bytes
  sg_level :: int
  sg_overrides :: "(int, int) dict"
  sg_seqno :: int

definition Signer :: "bytes \<Rightarrow> int \<Rightarrow> (int, int) dict \<Rightarrow> signer" where
  "Signer key level overrides =
     \<lparr>sg_key = key, sg_level = level, sg_overrides = overrides, sg_seqno = 0\<rparr>"

definition sg_required :: "signer \<Rightarrow> int \<Rightarrow> bool" where
  "sg_required s opcode \<longleftrightarrow> sg_key s \<noteq> [] \<and> is_signed opcode (sg_level s) (sg_overrides s)"

definition unpack_from :: "struct_fmt \<Rightarrow> bytes \<Rightarrow> nat \<Rightarrow> exn + int" where
  "unpack_from f bs off =
     (if off + fmt_size f \<le> length bs then Inr (struct_unpack f (take (fmt_size f) (drop off bs)))
      else Inl StructError)"

definition sign :: "mac \<Rightarrow> signer \<Rightarrow> bytes \<Rightarrow> (exn + (int \<times> bytes) option) \<times> signer" where
  "sign hmac s frame =
     (case unpack_from U16 frame 2 of
        Inl e \<Rightarrow> (Inl e, s)
      | Inr opcode \<Rightarrow>
          if \<not> sg_required s opcode then (Inr None, s)
          else
            (let s' = s\<lparr>sg_seqno := sg_seqno s + 1\<rparr>;
                 header = slice_to frame REQUEST_HDRLEN
             in case unpack_from I32 frame 20 of
                  Inl e \<Rightarrow> (Inl e, s')
                | Inr dlen \<Rightarrow>
                    (let payload = slice_from (slice_to frame (REQUEST_HDRLEN + dlen)) REQUEST_HDRLEN
                     in (bindE (sigver_hmac hmac (sg_key s') (sg_seqno s') header payload)
                           (\<lambda>mac. Inr (Some (sg_seqno s', mac))), s'))))"

section \<open>Facts\<close>

lemma sign_seqno: "snd (sign hmac s frame) = s \<or> snd (sign hmac s frame) = s\<lparr>sg_seqno := sg_seqno s + 1\<rparr>"
  by (auto simp: sign_def Let_def split: sum.splits)

lemma sign_Some_seqno:
  "sign hmac s frame = (Inr (Some (n, m)), s') \<Longrightarrow>
     n = sg_seqno s + 1 \<and> s' = s\<lparr>sg_seqno := n\<rparr>"
  by (auto simp: sign_def Let_def bindE_eq_Inr split: sum.splits if_splits)

text \<open>The two fields the signer reads back out of a frame are the ones \<open>encode\<close> put there.\<close>

lemma unpack_opcode:
  assumes "encode (cls req) sid = Inr frame"
  shows "unpack_from U16 frame 2 = Inr (rq_opcode (cls req))"
  using assms opcode_range [of req]
  by (auto elim!: encode_Inr simp: unpack_from_def struct_unpack_def fmt_defs be_int_be_bytes)

lemma unpack_dlen:
  assumes "encode req sid = Inr frame" and "rq_payload req = Inr body"
  shows "unpack_from I32 frame 20 = Inr (int (length body) + int (length (rq_path_data req)))"
  using assms
  by (auto elim!: encode_Inr simp: unpack_from_def struct_unpack_def fmt_defs be_int_be_bytes)

end
