(* ===== verification/Xrd_Types.thy ===== *)
theory Xrd_Types
  imports Wire_Constants
begin

text \<open>
  The public value types of \<^verbatim>\<open>src/src/xrd/types.py\<close>: one record per dataclass, one definition
  per derived property. Flag sets are Python integers and are tested bit by bit. The
  formatting methods (\<^verbatim>\<open>human_bytes\<close>, \<^verbatim>\<open>__str__\<close>, \<^verbatim>\<open>modified\<close>) are left out: they need floats and the
  calendar.
\<close>

section \<open>StatInfo\<close>

record stat_info =
  si_id :: str
  st_size :: int
  si_flags :: int
  st_mtime :: int
  st_ctime :: int
  st_atime :: int
  si_path :: str
  si_mode_str :: str
  si_owner :: str
  si_group :: str

definition has_flag :: "int \<Rightarrow> int \<Rightarrow> bool" where
  "has_flag flags bit_mask \<longleftrightarrow> flags AND bit_mask \<noteq> 0"

definition si_is_dir :: "stat_info \<Rightarrow> bool" where
  "si_is_dir s = has_flag (si_flags s) kXR_isDir"

definition si_is_file :: "stat_info \<Rightarrow> bool" where
  "si_is_file s \<longleftrightarrow> \<not> has_flag (si_flags s) (kXR_isDir OR kXR_other)"

definition si_is_offline :: "stat_info \<Rightarrow> bool" where
  "si_is_offline s = has_flag (si_flags s) kXR_offline"

definition si_is_readable :: "stat_info \<Rightarrow> bool" where
  "si_is_readable s = has_flag (si_flags s) kXR_readable"

definition si_is_writable :: "stat_info \<Rightarrow> bool" where
  "si_is_writable s = has_flag (si_flags s) kXR_writable"

text \<open>\<^verbatim>\<open>st_mode\<close>: \<^verbatim>\<open>S_IFDIR\<close> is 0o040000, \<^verbatim>\<open>S_IFREG\<close> 0o100000; then 0o444, 0o222, 0o111.\<close>

definition st_mode :: "stat_info \<Rightarrow> int" where
  "st_mode s =
     (let m0 = (if si_is_dir s then 0x4000 else 0x8000);
          m1 = (if has_flag (si_flags s) kXR_readable then m0 OR 0x124 else m0);
          m2 = (if has_flag (si_flags s) kXR_writable then m1 OR 0x92 else m1)
      in if si_is_dir s then m2 OR 0x49 else m2)"

section \<open>ChecksumInfo and DirEntry\<close>

record checksum_info =
  ck_algorithm :: str
  ck_value :: str

record dir_entry =
  de_name :: str
  de_parent :: str
  de_stat :: "stat_info option"
  de_checksum :: "checksum_info option"

abbreviation (input) slash :: nat where "slash \<equiv> 47"

text \<open>\<^verbatim>\<open>f"{parent.rstrip('/')}/{name}" if parent else name\<close>.\<close>

definition join_path :: "str \<Rightarrow> str \<Rightarrow> str" where
  "join_path parent name =
     (if parent = [] then name else rstrip_by (\<lambda>c. c = slash) parent @ slash # name)"

definition de_path :: "dir_entry \<Rightarrow> str" where
  "de_path e = join_path (de_parent e) (de_name e)"

definition de_is_dir :: "dir_entry \<Rightarrow> bool" where
  "de_is_dir e = (case de_stat e of None \<Rightarrow> False | Some s \<Rightarrow> si_is_dir s)"

definition de_is_file :: "dir_entry \<Rightarrow> bool" where
  "de_is_file e = (case de_stat e of None \<Rightarrow> False | Some s \<Rightarrow> si_is_file s)"

section \<open>Space\<close>

record vfs_info =
  nodes_rw :: int
  free_rw :: int
  utilization_rw :: int
  nodes_staging :: int
  free_staging :: int
  utilization_staging :: int

record space_info =
  sp_name :: str
  sp_total :: int
  sp_free :: int
  sp_largest_free :: int
  sp_used :: int
  sp_quota :: int

definition sp_unlimited :: "space_info \<Rightarrow> bool" where
  "sp_unlimited s \<longleftrightarrow> sp_quota s < 0"

section \<open>LocationInfo\<close>

record location_info =
  li_address :: str
  li_type :: str
  li_access :: str

text \<open>\<^verbatim>\<open>str.isdigit\<close>, on ASCII digits: not empty and digits only.\<close>

definition is_digits :: "str \<Rightarrow> bool" where
  "is_digits s \<longleftrightarrow> s \<noteq> [] \<and> list_all (\<lambda>c. 48 \<le> c \<and> c \<le> 57) s"

definition li_has_port :: "location_info \<Rightarrow> bool" where
  "li_has_port l = (case rpartition_at 58 (li_address l) of (_, sep, port) \<Rightarrow> sep \<and> is_digits port)"

definition li_port :: "location_info \<Rightarrow> exn + int" where
  "li_port l =
     (case rpartition_at 58 (li_address l) of (_, sep, port) \<Rightarrow>
        if sep \<and> is_digits port then py_int port else Inr 1094)"

definition li_host :: "location_info \<Rightarrow> str" where
  "li_host l =
     (let host = (if li_has_port l then fst (rpartition_at 58 (li_address l)) else li_address l)
      in if host \<noteq> [] \<and> hd host = 91 \<and> last host = 93 then butlast (tl host) else host)"

text \<open>\<^verbatim>\<open>self.type in "Mm"\<close> is a substring test: the empty string and the two-letter string pass it.\<close>

definition li_is_manager :: "location_info \<Rightarrow> bool" where
  "li_is_manager l \<longleftrightarrow> li_type l \<in> {[], [77], [109], [77, 109]}"

definition li_is_server :: "location_info \<Rightarrow> bool" where
  "li_is_server l \<longleftrightarrow> li_type l \<in> {[], [83], [115], [83, 115]}"

definition li_is_writable :: "location_info \<Rightarrow> bool" where
  "li_is_writable l \<longleftrightarrow> li_access l = [119]"

section \<open>ProtocolInfo\<close>

record protocol_info =
  pi_version :: int
  pi_flags :: int
  pi_security_level :: int
  pi_security_version :: int
  pi_security_options :: int
  pi_security_overrides :: "(int, int) dict"

definition ProtocolInfo :: protocol_info where
  "ProtocolInfo = \<lparr>pi_version = 0, pi_flags = 0, pi_security_level = 0, pi_security_version = 0,
     pi_security_options = 0, pi_security_overrides = []\<rparr>"

definition pi_has_tls :: "protocol_info \<Rightarrow> bool" where
  "pi_has_tls p = has_flag (pi_flags p) 0x80000000"

definition pi_is_manager :: "protocol_info \<Rightarrow> bool" where
  "pi_is_manager p = has_flag (pi_flags p) 0x00000002"

definition pi_is_server :: "protocol_info \<Rightarrow> bool" where
  "pi_is_server p = has_flag (pi_flags p) 0x00000001"

definition pi_is_meta :: "protocol_info \<Rightarrow> bool" where
  "pi_is_meta p = has_flag (pi_flags p) 0x00000100"

definition pi_is_proxy :: "protocol_info \<Rightarrow> bool" where
  "pi_is_proxy p = has_flag (pi_flags p) 0x00000200"

definition pi_is_supervisor :: "protocol_info \<Rightarrow> bool" where
  "pi_is_supervisor p = has_flag (pi_flags p) 0x00000400"

definition pi_is_cache :: "protocol_info \<Rightarrow> bool" where
  "pi_is_cache p = has_flag (pi_flags p) 0x00000080"

definition pi_supports_posc :: "protocol_info \<Rightarrow> bool" where
  "pi_supports_posc p = has_flag (pi_flags p) 0x00100000"

definition pi_supports_pgio :: "protocol_info \<Rightarrow> bool" where
  "pi_supports_pgio p = has_flag (pi_flags p) 0x00200000"

definition pi_supports_gpfile :: "protocol_info \<Rightarrow> bool" where
  "pi_supports_gpfile p = has_flag (pi_flags p) 0x00400000"

definition pi_allows_anonymous_gpfile :: "protocol_info \<Rightarrow> bool" where
  "pi_allows_anonymous_gpfile p = has_flag (pi_flags p) 0x00800000"

definition pi_requires_tls_for_data :: "protocol_info \<Rightarrow> bool" where
  "pi_requires_tls_for_data p = has_flag (pi_flags p) 0x01000000"

definition pi_version_str :: "protocol_info \<Rightarrow> string" where
  "pi_version_str p =
     show_int (drop_bit 8 (pi_version p) AND 0xF) @ ''.''
     @ show_int (drop_bit 4 (pi_version p) AND 0xF) @ ''.'' @ show_int (pi_version p AND 0xF)"

section \<open>CheckpointInfo and CloneRange\<close>

record checkpoint_info =
  cp_capacity :: int
  cp_used :: int

definition cp_free :: "checkpoint_info \<Rightarrow> int" where
  "cp_free c = max 0 (cp_capacity c - cp_used c)"

record clone_range =
  cr_offset :: int
  cr_length :: int
  cr_target_offset :: "int option"

definition cr_destination :: "clone_range \<Rightarrow> int" where
  "cr_destination r = (case cr_target_offset r of None \<Rightarrow> cr_offset r | Some t \<Rightarrow> t)"

record read_range =
  rr_offset :: int
  rr_length :: int

record write_chunk =
  wc_offset :: int
  wc_data :: bytes

record page_result =
  pg_data :: bytes
  pg_offset :: int
  pg_corrupt_pages :: "int list"

definition pg_ok :: "page_result \<Rightarrow> bool" where
  "pg_ok p \<longleftrightarrow> pg_corrupt_pages p = []"

end
