(* ===== verification/Wire_Responses.thy ===== *)
theory Wire_Responses
  imports Xrd_Types Wire_Frames
begin

text \<open>
  Response body decoders, \<^verbatim>\<open>src/src/xrd/proto/responses.py\<close>: one record per dataclass and one
  definition per \<^verbatim>\<open>parse_*\<close> function, each returning \<open>Inl\<close> of the exception it raises. The
  loops over a \<open>reader\<close> recurse on what is left unread. \<^verbatim>\<open>parse_prepare_status\<close>, which decodes
  JSON, is not modelled.
\<close>

section \<open>Control-status bodies\<close>

definition body_text :: "bytes \<Rightarrow> str" where
  "body_text data = utf8_decode (before_nul data)"

record error_info =
  ei_code :: int
  ei_message :: str

definition parse_error :: "bytes \<Rightarrow> exn + error_info" where
  "parse_error data =
     bindE (r_i32 (Reader data ''kXR_error'')) (\<lambda>(code, r).
     bindE (r_cstring None r) (\<lambda>(message, r). Inr \<lparr>ei_code = code, ei_message = message\<rparr>))"

record redirect_info =
  ri_host :: str
  ri_port :: int
  ri_token :: str

definition redirect_url :: "redirect_info \<Rightarrow> str" where
  "redirect_url ri =
     (if ri_port ri < 0 then lit ''roots'' else lit ''root'') @ lit ''://'' @ ri_host ri
       @ lit '':'' @ lit (show_int \<bar>ri_port ri\<bar>) @ lit ''/''"

definition parse_redirect :: "bytes \<Rightarrow> exn + redirect_info" where
  "parse_redirect data =
     bindE (r_i32 (Reader data ''kXR_redirect'')) (\<lambda>(port, r).
     bindE (r_rest r) (\<lambda>(rest, r).
       case partition_at 63 (body_text rest) of (host, sep, token) \<Rightarrow>
         if host = [] then Inl (ProtocolError ''kXR_redirect names no host to redirect to'')
         else Inr \<lparr>ri_host = host, ri_port = port, ri_token = (if sep then token else [])\<rparr>))"

record wait_info =
  wi_seconds :: int
  wi_message :: str

definition parse_wait :: "bytes \<Rightarrow> exn + wait_info" where
  "parse_wait data =
     bindE (r_i32 (Reader data ''kXR_wait'')) (\<lambda>(seconds, r).
     bindE (r_cstring None r) (\<lambda>(message, r). Inr \<lparr>wi_seconds = seconds, wi_message = message\<rparr>))"

definition parse_waitresp :: "bytes \<Rightarrow> exn + wait_info" where
  "parse_waitresp data =
     bindE (r_i32 (Reader data ''kXR_waitresp'')) (\<lambda>(seconds, r).
       Inr \<lparr>wi_seconds = seconds, wi_message = []\<rparr>)"

record attn_info =
  ai_action :: int
  ai_params :: bytes

definition attn_message :: "attn_info \<Rightarrow> str" where
  "attn_message a = body_text (ai_params a)"

definition parse_attn :: "bytes \<Rightarrow> exn + attn_info" where
  "parse_attn data =
     bindE (r_i32 (Reader data ''kXR_attn'')) (\<lambda>(action, r).
     bindE (r_rest r) (\<lambda>(rest, r). Inr \<lparr>ai_action = action, ai_params = rest\<rparr>))"

record status_info =
  ss_crc32c :: int
  ss_streamid :: int
  ss_requestid :: int
  ss_resptype :: int
  ss_dlen :: int
  ss_info :: bytes

definition ss_is_final :: "status_info \<Rightarrow> bool" where
  "ss_is_final s \<longleftrightarrow> ss_resptype s = kXR_FinalResult"

definition ss_offset :: "status_info \<Rightarrow> exn + int" where
  "ss_offset s =
     (if length (ss_info s) < 8 then Inl (ProtocolError ''kXR_status body carries no offset'')
      else bindE (r_i64 (Reader (ss_info s) ''kXR_status.info'')) (\<lambda>(v, r). Inr v))"

definition parse_status :: "bytes \<Rightarrow> exn + status_info" where
  "parse_status data =
     bindE (r_u32 (Reader data ''kXR_status'')) (\<lambda>(crc, r).
     bindE (r_u16 r) (\<lambda>(streamid, r).
     bindE (r_u8 r) (\<lambda>(requestid, r).
     bindE (r_u8 r) (\<lambda>(resptype, r).
     bindE (r_skip 4 r) (\<lambda>r.
     bindE (r_i32 r) (\<lambda>(dlen, r).
     bindE (r_rest r) (\<lambda>(info, r).
       Inr \<lparr>ss_crc32c = crc, ss_streamid = streamid, ss_requestid = requestid + kXR_1stRequest,
            ss_resptype = resptype, ss_dlen = dlen, ss_info = info\<rparr>)))))))"

section \<open>Session bring-up\<close>

text \<open>The security record inside the trailer of a \<^verbatim>\<open>kXR_protocol\<close> body; 83 is \<^verbatim>\<open>'S'\<close>.\<close>

definition find_sec_reqs :: "bytes \<Rightarrow> bytes option" where
  "find_sec_reqs trailer =
     (if length trailer \<ge> 6 \<and> take 1 trailer = [83] then Some trailer
      else if length trailer \<ge> 4 then
        (let off = 4 + unat (trailer ! 2) * 8 in
         if length trailer \<ge> off + 6 \<and> take 1 (drop off trailer) = [83] then Some (drop off trailer)
         else None)
      else None)"

text \<open>The override loop: \<open>n\<close> rounds at most, a pair of bytes each, until the record ends.\<close>

fun sec_overrides :: "nat \<Rightarrow> bytes \<Rightarrow> (int, int) dict \<Rightarrow> (int, int) dict" where
  "sec_overrides 0 bs d = d"
| "sec_overrides (Suc n) (a # b # bs) d =
     sec_overrides n bs (AList.update (uint a + kXR_1stRequest) (uint b) d)"
| "sec_overrides (Suc n) bs d = d"

definition parse_protocol :: "bytes \<Rightarrow> exn + protocol_info" where
  "parse_protocol data =
     bindE (r_i32 (Reader data ''kXR_protocol'')) (\<lambda>(version, r).
     bindE (r_u32 r) (\<lambda>(flags, r).
     bindE (r_rest r) (\<lambda>(rest, r).
       let base = ProtocolInfo\<lparr>pi_version := version, pi_flags := flags\<rparr> in
       case find_sec_reqs rest of
         None \<Rightarrow> Inr base
       | Some reqs \<Rightarrow>
           Inr (base\<lparr>pi_security_version := uint (reqs ! 2), pi_security_options := uint (reqs ! 3),
                     pi_security_level := uint (reqs ! 4),
                     pi_security_overrides := sec_overrides (unat (reqs ! 5)) (drop 6 reqs) []\<rparr>))))"

record login_info =
  lg_sessid :: bytes
  lg_sec :: str

text \<open>\<^verbatim>\<open>LoginInfo.mechanisms\<close>: 38 is \<^verbatim>\<open>'&'\<close>, 44 the comma.\<close>

definition lg_mechanisms :: "login_info \<Rightarrow> str list" where
  "lg_mechanisms l =
     map (\<lambda>part. hd (split_on 44 (drop 2 part)))
       (filter (\<lambda>part. take 2 part = lit ''P='') (split_on 38 (lg_sec l)))"

definition parse_login :: "bytes \<Rightarrow> exn + login_info" where
  "parse_login data =
     (let r = Reader data ''kXR_login'' in
      bindE (r_bytes (min SESSION_ID_LEN (r_remaining r)) r) (\<lambda>(sessid, r).
      bindE (r_rest r) (\<lambda>(rest, r). Inr \<lparr>lg_sessid = sessid, lg_sec = body_text rest\<rparr>)))"

definition parse_bind :: "bytes \<Rightarrow> exn + int" where
  "parse_bind data =
     bindE (r_u8 (Reader data ''kXR_bind'')) (\<lambda>(pathid, r).
       if pathid = 0 then Inl (ProtocolError ''kXR_bind returned path id 0'') else Inr pathid)"

section \<open>Metadata\<close>

definition stat_fields :: "str \<Rightarrow> str \<Rightarrow> exn + stat_info" where
  "stat_fields text path =
     (let parts = split_ws text in
      if length parts < 4 then Inl (ProtocolError ''kXR_stat returned too few flds'')
      else bindE (py_int (parts ! 3)) (\<lambda>mtime.
           bindE (py_int (parts ! 1)) (\<lambda>size'.
           bindE (py_int (parts ! 2)) (\<lambda>flags.
             Inr \<lparr>si_id = parts ! 0, st_size = size', si_flags = flags, st_mtime = mtime,
                  st_ctime = mtime, st_atime = mtime, si_path = path, si_mode_str = [],
                  si_owner = [], si_group = []\<rparr>))))"

definition parse_stat :: "bytes \<Rightarrow> str \<Rightarrow> exn + stat_info" where
  "parse_stat data path = stat_fields (body_text data) path"

definition parse_statvfs :: "bytes \<Rightarrow> exn + vfs_info" where
  "parse_statvfs data =
     (let parts = split_ws (body_text data) in
      if length parts < 6 then Inl (ProtocolError ''kXR_stat vfs returned too few flds'')
      else bindE (py_int (parts ! 0)) (\<lambda>a. bindE (py_int (parts ! 1)) (\<lambda>b.
           bindE (py_int (parts ! 2)) (\<lambda>c. bindE (py_int (parts ! 3)) (\<lambda>d.
           bindE (py_int (parts ! 4)) (\<lambda>e. bindE (py_int (parts ! 5)) (\<lambda>f.
             Inr \<lparr>nodes_rw = a, free_rw = b, utilization_rw = c, nodes_staging = d,
                  free_staging = e, utilization_staging = f\<rparr>)))))))"

definition parse_statx :: "bytes \<Rightarrow> int list" where
  "parse_statx data = map uint data"

text \<open>A listing entry is one path component.\<close>

definition checked :: "str \<Rightarrow> exn + str" where
  "checked name =
     (if slash \<in> set name \<or> name = lit ''..'' then Inl (ProtocolError ''kXR_dirlist entry is not a name'')
      else Inr name)"

text \<open>\<^verbatim>\<open>_cksum_token\<close>: 91 and 93 are the brackets, 58 the colon.\<close>

definition cksum_token :: "str \<Rightarrow> str \<times> checksum_info option" where
  "cksum_token line =
     (case rpartition_at 91 line of (head, bracket, rest) \<Rightarrow>
        (let rest' = rstrip_by is_space rest in
         if \<not> bracket \<or> \<not> (rest' \<noteq> [] \<and> last rest' = 93) then (line, None)
         else (case partition_at 58 (strip (rstrip_by (\<lambda>c. c = 93) rest')) of
           (algorithm, colon, value) \<Rightarrow>
             if \<not> colon \<or> algorithm = [] then (line, None)
             else (head, if value = [] \<or> value = lit ''none'' then None
                         else Some \<lparr>ck_algorithm = lower algorithm, ck_value = value\<rparr>))))"

text \<open>\<^verbatim>\<open>zip(lines[::2], lines[1::2])\<close>.\<close>

fun pair_up :: "'a list \<Rightarrow> ('a \<times> 'a) list" where
  "pair_up (a # b # xs) = (a, b) # pair_up xs"
| "pair_up xs = []"

fun plain_entries :: "str \<Rightarrow> str list \<Rightarrow> exn + dir_entry list" where
  "plain_entries path [] = Inr []"
| "plain_entries path (n # ns) =
     bindE (checked n) (\<lambda>name.
     bindE (plain_entries path ns) (\<lambda>es.
       Inr (\<lparr>de_name = name, de_parent = path, de_stat = None, de_checksum = None\<rparr> # es)))"

fun stat_entries :: "str \<Rightarrow> (str \<times> str) list \<Rightarrow> exn + dir_entry list" where
  "stat_entries path [] = Inr []"
| "stat_entries path ((name, statline) # ps) =
     (if name = lit ''.'' then stat_entries path ps
      else bindE (checked name) (\<lambda>_.
        case cksum_token statline of (statline', checksum) \<Rightarrow>
          bindE (stat_fields statline' (join_path path name)) (\<lambda>st.
          bindE (stat_entries path ps) (\<lambda>es.
            Inr (\<lparr>de_name = name, de_parent = path, de_stat = Some st,
                  de_checksum = checksum\<rparr> # es)))))"

definition parse_dirlist :: "bytes \<Rightarrow> str \<Rightarrow> bool \<Rightarrow> exn + dir_entry list" where
  "parse_dirlist data path with_stat =
     (let lines = filter (\<lambda>ln. ln \<noteq> []) (split_on 10 (body_text data)) in
      if \<not> with_stat \<or> take 1 lines \<noteq> [lit ''.''] then plain_entries path lines
      else stat_entries path (pair_up lines))"

definition parse_locate :: "bytes \<Rightarrow> location_info list" where
  "parse_locate data =
     map (\<lambda>token. \<lparr>li_address = drop 2 token, li_type = [token ! 0], li_access = [token ! 1]\<rparr>)
       (filter (\<lambda>token. \<not> length token < 3) (split_ws (body_text data)))"

definition parse_open :: "bytes \<Rightarrow> str \<Rightarrow> exn + bytes \<times> stat_info option \<times> int \<times> str" where
  "parse_open data path =
     bindE (r_bytes FHANDLE_LEN (Reader data ''kXR_open'')) (\<lambda>(fhandle, r).
       if r_remaining r < 8 then Inr (fhandle, None, 0, [])
       else bindE (r_i32 r) (\<lambda>(page, r).
            bindE (r_bytes 4 r) (\<lambda>(alg, r).
            bindE (r_rest r) (\<lambda>(rest, r).
              let tail = strip (body_text rest) in
              if tail = [] then Inr (fhandle, None, page, body_text alg)
              else bindE (stat_fields tail path) (\<lambda>st.
                Inr (fhandle, Some st, page, body_text alg))))))"

definition parse_checksum :: "bytes \<Rightarrow> exn + checksum_info" where
  "parse_checksum data =
     (case partition_at 32 (strip (body_text data)) of (name, _, value) \<Rightarrow>
        if value = [] then Inl (ProtocolError ''malformed checksum response'')
        else Inr \<lparr>ck_algorithm = lower name, ck_value = lower (strip value)\<rparr>)"

subsection \<open>kXR_Qspace\<close>

fun space_fields :: "str list \<Rightarrow> (str, str) dict \<Rightarrow> (str, str) dict" where
  "space_fields [] d = d"
| "space_fields (pair # ps) d =
     (case partition_at 61 pair of (key, sep, value) \<Rightarrow>
        space_fields ps (if sep then AList.update (strip key) (strip value) d else d))"

definition space_number :: "(str, str) dict \<Rightarrow> string \<Rightarrow> int \<Rightarrow> exn + int" where
  "space_number flds key dflt =
     (case map_of flds (lit key) of
        None \<Rightarrow> Inr dflt
      | Some raw \<Rightarrow>
          if raw = [] then Inr dflt
          else (case py_int raw of
                  Inr v \<Rightarrow> Inr v
                | Inl _ \<Rightarrow> Inl (ProtocolError ''kXR_Qspace value is not a number'')))"

definition parse_space :: "bytes \<Rightarrow> exn + space_info" where
  "parse_space data =
     (let text = map (\<lambda>c. if c = 10 then 38 else c) (strip (body_text data));
          flds = space_fields (split_on 38 text) []
      in bindE (space_number flds ''oss.space'' 0) (\<lambda>total.
         bindE (space_number flds ''oss.free'' 0) (\<lambda>free.
         bindE (space_number flds ''oss.maxf'' 0) (\<lambda>largest.
         bindE (space_number flds ''oss.used'' 0) (\<lambda>used.
         bindE (space_number flds ''oss.quota'' (-1)) (\<lambda>quota.
           Inr \<lparr>sp_name = (case map_of flds (lit ''oss.cgroup'') of None \<Rightarrow> [] | Some n \<Rightarrow> n),
                sp_total = total, sp_free = free, sp_largest_free = largest, sp_used = used,
                sp_quota = quota\<rparr>))))))"

definition parse_checkpoint :: "bytes \<Rightarrow> exn + checkpoint_info" where
  "parse_checkpoint data =
     bindE (r_u32 (Reader data ''kXR_ckpQuery'')) (\<lambda>(capacity, r).
     bindE (r_u32 r) (\<lambda>(used, r). Inr \<lparr>cp_capacity = capacity, cp_used = used\<rparr>))"

definition parse_readlink :: "bytes \<Rightarrow> exn + str" where
  "parse_readlink data =
     (let target = strip (body_text data) in
      if target = [] then Inl (ProtocolError ''kXR_readlink named no target'') else Inr target)"

section \<open>Vector I/O\<close>

record readv_segment =
  rv_fhandle :: bytes
  rv_offset :: int
  rv_data :: bytes

definition readv_one :: "reader \<Rightarrow> exn + readv_segment \<times> reader" where
  "readv_one r =
     bindE (r_bytes FHANDLE_LEN r) (\<lambda>(fhandle, r).
     bindE (r_i32 r) (\<lambda>(len, r).
     bindE (r_i64 r) (\<lambda>(offset, r).
       if len < 0 then Inl (ProtocolError ''kXR_readv segment declares a negative length'')
       else bindE (r_bytes len r) (\<lambda>(data, r).
         Inr (\<lparr>rv_fhandle = fhandle, rv_offset = offset, rv_data = data\<rparr>, r)))))"

lemma readv_one_progress:
  assumes "readv_one r = Inr (seg, r')"
  shows "rbuf r' = rbuf r \<and> rpos r + 16 \<le> rpos r' \<and> rpos r' \<le> length (rbuf r)"
  using assms
  by (auto simp: readv_one_def bindE_eq_Inr r_bytes_def reader_defs r_take_Inr r_unpack_Inr fmt_defs
      split: if_splits)

function readv_loop :: "reader \<Rightarrow> exn + readv_segment list" where
  "readv_loop r =
     (if r_remaining r = 0 then Inr []
      else bindE (readv_one r) (\<lambda>(seg, r'). bindE (readv_loop r') (\<lambda>segs. Inr (seg # segs))))"
  by pat_completeness auto
termination
  by (relation "measure (\<lambda>r. length (rbuf r) - rpos r)") (auto dest: readv_one_progress)

declare readv_loop.simps [simp del]

definition parse_readv :: "bytes \<Rightarrow> exn + readv_segment list" where
  "parse_readv data = readv_loop (Reader data ''kXR_readv'')"

section \<open>Extended attributes\<close>

record fattr_item =
  fi_name :: str
  fi_code :: int
  fi_value :: "bytes option"

record fattr_result =
  fr_errors :: int
  fr_items :: "fattr_item list"

definition fr_as_dict :: "fattr_result \<Rightarrow> (str, bytes) dict" where
  "fr_as_dict fr = foldl
     (\<lambda>d i. case fi_value i of None \<Rightarrow> d | Some v \<Rightarrow> AList.update (fi_name i) v d) [] (fr_items fr)"

text \<open>\<^verbatim>\<open>_read_name\<close>: bytes up to a NUL, one \<^verbatim>\<open>u8\<close> at a time.\<close>

function read_name :: "bytes \<Rightarrow> reader \<Rightarrow> exn + str \<times> reader" where
  "read_name raw r =
     bindE (r_u8 r) (\<lambda>(b, r').
       if b = 0 then Inr (utf8_decode raw, r') else read_name (raw @ [word_of_int b]) r')"
  by pat_completeness auto
termination
  by (relation "measure (\<lambda>(raw, r). length (rbuf r) - rpos r)")
     (auto simp: r_u8_def r_unpack_Inr U8_def)

declare read_name.simps [simp del]

fun fattr_items :: "nat \<Rightarrow> bool \<Rightarrow> reader \<Rightarrow> exn + fattr_item list" where
  "fattr_items 0 values r = Inr []"
| "fattr_items (Suc n) values r =
     (if r_remaining r < 3 then Inr []
      else bindE (r_u16 r) (\<lambda>(code, r).
           bindE (read_name [] r) (\<lambda>(name, r).
           bindE (if values \<and> r_remaining r \<ge> 4
                  then bindE (r_i32 r) (\<lambda>(len, r). bindE (r_bytes len r) (\<lambda>(v, r). Inr (Some v, r)))
                  else Inr (None, r)) (\<lambda>(value, r).
           bindE (fattr_items n values r) (\<lambda>is.
             Inr (\<lparr>fi_name = name, fi_code = code, fi_value = value\<rparr> # is))))))"

definition parse_fattr :: "bytes \<Rightarrow> bool \<Rightarrow> exn + fattr_result" where
  "parse_fattr data values =
     (if length data < 2 then Inr \<lparr>fr_errors = 0, fr_items = []\<rparr>
      else bindE (r_u8 (Reader data ''kXR_fattr'')) (\<lambda>(errors, r).
           bindE (r_u8 r) (\<lambda>(count, r).
           bindE (fattr_items (nat count) values r) (\<lambda>items.
             Inr \<lparr>fr_errors = errors, fr_items = items\<rparr>))))"

fun fattr_tree :: "bytes list \<Rightarrow> (str, str list) dict \<Rightarrow> (str, str list) dict" where
  "fattr_tree [] d = d"
| "fattr_tree (entry # es) d =
     (if entry = [] then fattr_tree es d
      else (case rpartition_at 58 (utf8_decode entry) of (path, sep, name) \<Rightarrow>
        if \<not> sep then fattr_tree es d
        else fattr_tree es (AList.update path
               ((case map_of d path of None \<Rightarrow> [] | Some ns \<Rightarrow> ns) @ [name]) d)))"

definition parse_fattr_tree :: "bytes \<Rightarrow> (str, str list) dict" where
  "parse_fattr_tree data = fattr_tree (split_on 0 data) []"

end
