(* ===== verification/Wire_Properties.thy ===== *)
theory Wire_Properties
  imports Sigver Wire_Responses
begin

text \<open>
  What the codecs of \<^verbatim>\<open>src/src/xrd/proto\<close> guarantee: the layout of an encoded request, the bytes
  a signature covers, the round trips of fields, headers, text and vector segments, the names
  a directory listing may contain, and what the package makes of a server's error codes.
\<close>

section \<open>Vector segments\<close>

definition segment_bytes :: "readv_segment \<Rightarrow> bytes" where
  "segment_bytes s = rv_fhandle s @ be_bytes 4 (int (length (rv_data s))) @ be_bytes 8 (rv_offset s) @ rv_data s"

definition segment_ok :: "readv_segment \<Rightarrow> bool" where
  "segment_ok s \<longleftrightarrow> length (rv_fhandle s) = 4 \<and> int (length (rv_data s)) < 2 ^ 31
     \<and> - (2 ^ 63) \<le> rv_offset s \<and> rv_offset s < 2 ^ 63"

lemma r_unpack_parts:
  assumes "r_unpack f r = Inr (v, r')" and "0 < fmt_size f"
  shows "unread r = be_bytes (fmt_size f) v @ unread r' \<and> fmt_lo f \<le> v \<and> v < fmt_hi f"
proof -
  from assms(1) obtain c where c: "r_take (int (fmt_size f)) r = Inr (c, r')" and v: "v = struct_unpack f c"
    by (auto simp: r_unpack_def bindE_eq_Inr)
  from c have "length c = fmt_size f" by (auto dest: r_take_length)
  then have "struct_pack f v = Inr c" unfolding v using assms(2) by (intro struct_pack_unpack)
  then have "c = be_bytes (fmt_size f) v" by (auto simp: struct_pack_def split: if_splits)
  with r_take_parts [OF c] r_unpack_bounds [OF assms] show ?thesis by simp
qed

lemma readv_one_parts:
  assumes "readv_one r = Inr (seg, r')"
  shows "unread r = segment_bytes seg @ unread r' \<and> segment_ok seg"
proof -
  from assms obtain fh r1 len r2 off r3 d where
    1: "r_take FHANDLE_LEN r = Inr (fh, r1)" and 2: "r_unpack I32 r1 = Inr (len, r2)"
    and 3: "r_unpack I64 r2 = Inr (off, r3)" and 4: "r_take len r3 = Inr (d, r')"
    and seg: "seg = \<lparr>rv_fhandle = fh, rv_offset = off, rv_data = d\<rparr>"
    by (auto simp: readv_one_def bindE_eq_Inr r_bytes_def reader_defs split: if_splits)
  have "unread r1 = be_bytes 4 len @ unread r2 \<and> len < 2 ^ 31"
    using r_unpack_parts [OF 2] by (simp add: I32_def fmt_hi_def)
  moreover have "unread r2 = be_bytes 8 off @ unread r3 \<and> - (2 ^ 63) \<le> off \<and> off < 2 ^ 63"
    using r_unpack_parts [OF 3] by (simp add: I64_def fmt_hi_def fmt_lo_def)
  ultimately show ?thesis
    using r_take_parts [OF 1] r_take_parts [OF 4] r_take_length [OF 1] r_take_length [OF 4]
    by (simp add: seg segment_bytes_def segment_ok_def)
qed

lemma readv_loop_sound:
  "readv_loop r = Inr segs \<Longrightarrow> reader_ok r \<Longrightarrow> unread r = concat (map segment_bytes segs) \<and> list_all segment_ok segs"
proof (induction r arbitrary: segs rule: readv_loop.induct)
  case (1 r)
  show ?case
  proof (cases "r_remaining r = 0")
    case True
    with 1 show ?thesis by (simp add: readv_loop.simps r_remaining_def)
  next
    case False
    with 1 obtain seg r' rest where one: "readv_one r = Inr (seg, r')" and rest: "readv_loop r' = Inr rest"
      and segs: "segs = seg # rest"
      by (auto simp: readv_loop.simps [of r] bindE_eq_Inr)
    have "reader_ok r'" using readv_one_progress [OF one] by (simp add: reader_ok_def)
    with 1(1) [OF False one refl rest] readv_one_parts [OF one] segs show ?thesis by simp
  qed
qed

lemma r_take_prefix:
  assumes "unread r = c @ rest" and "reader_ok r" and "n = int (length c)"
  shows "r_take n r = Inr (c, r\<lparr>rpos := rpos r + length c\<rparr>)"
    and "unread (r\<lparr>rpos := rpos r + length c\<rparr>) = rest" and "reader_ok (r\<lparr>rpos := rpos r + length c\<rparr>)"
proof -
  have "length (rbuf r) - rpos r = length c + length rest" using assms(1) by (metis length_append length_drop)
  with assms(2) have len: "rpos r + length c \<le> length (rbuf r)" by (simp add: reader_ok_def)
  with assms show "r_take n r = Inr (c, r\<lparr>rpos := rpos r + length c\<rparr>)" by (simp add: r_take_Inr)
  show "unread (r\<lparr>rpos := rpos r + length c\<rparr>) = rest"
    using assms(1) by (simp add: add.commute flip: drop_drop)
  show "reader_ok (r\<lparr>rpos := rpos r + length c\<rparr>)" using len by (simp add: reader_ok_def)
qed

lemma r_unpack_prefix:
  assumes "unread r = be_bytes n v @ rest" and "reader_ok r" and "fmt_size f = n" and "0 < n"
    and "fmt_lo f \<le> v" and "v < fmt_hi f"
  shows "r_unpack f r = Inr (v, r\<lparr>rpos := rpos r + n\<rparr>)"
proof -
  have "struct_unpack f (be_bytes n v) = v"
    using assms by (intro struct_unpack_pack) (simp_all add: struct_pack_def)
  with r_take_prefix(1) [OF assms(1,2), of n] assms(3) show ?thesis by (simp add: r_unpack_def)
qed

lemma readv_one_complete:
  assumes "segment_ok s" and "unread r = segment_bytes s @ rest" and "reader_ok r"
  shows "readv_one r = Inr (s, r\<lparr>rpos := rpos r + length (segment_bytes s)\<rparr>)"
proof -
  let ?d = "rv_data s"
  let ?b = "be_bytes 4 (int (length ?d)) @ be_bytes 8 (rv_offset s) @ ?d @ rest"
  have s: "length (rv_fhandle s) = 4" "int (length ?d) < 2 ^ 31" "- (2 ^ 63) \<le> rv_offset s" "rv_offset s < 2 ^ 63"
    using assms(1) by (auto simp: segment_ok_def)
  have u: "unread r = rv_fhandle s @ ?b" using assms(2) by (simp add: segment_bytes_def)
  note t1 = r_take_prefix [OF u assms(3), of 4]
  let ?r1 = "r\<lparr>rpos := rpos r + 4\<rparr>"
  have u1: "unread ?r1 = ?b" "reader_ok ?r1" using t1 s by simp_all
  have t2: "r_i32 ?r1 = Inr (int (length ?d), ?r1\<lparr>rpos := rpos ?r1 + 4\<rparr>)"
    unfolding r_i32_def by (rule r_unpack_prefix [OF u1]) (use s in \<open>simp_all add: I32_def fmt_lo_def fmt_hi_def\<close>)
  let ?r2 = "r\<lparr>rpos := rpos r + 8\<rparr>"
  have u2: "unread ?r2 = be_bytes 8 (rv_offset s) @ ?d @ rest" "reader_ok ?r2"
    using r_take_prefix(2,3) [OF u1, of 4] by (simp_all add: add.assoc)
  have t3: "r_i64 ?r2 = Inr (rv_offset s, ?r2\<lparr>rpos := rpos ?r2 + 8\<rparr>)"
    unfolding r_i64_def by (rule r_unpack_prefix [OF u2]) (use s in \<open>simp_all add: I64_def fmt_lo_def fmt_hi_def\<close>)
  let ?r3 = "r\<lparr>rpos := rpos r + 16\<rparr>"
  have u3: "unread ?r3 = ?d @ rest" "reader_ok ?r3"
    using r_take_prefix(2,3) [OF u2, of 8] by (simp_all add: add.assoc)
  note t4 = r_take_prefix(1) [OF u3 refl]
  show ?thesis
    using t1(1) t2 t3 t4 s(1) by (simp add: readv_one_def r_bytes_def segment_bytes_def add.assoc)
qed

lemma readv_loop_complete:
  "list_all segment_ok segs \<Longrightarrow> unread r = concat (map segment_bytes segs) \<Longrightarrow> reader_ok r
     \<Longrightarrow> readv_loop r = Inr segs"
proof (induction segs arbitrary: r)
  case Nil
  then show ?case by (simp add: readv_loop.simps r_remaining_def reader_ok_def)
next
  case (Cons s segs)
  from Cons.prems have s: "segment_ok s" and u: "unread r = segment_bytes s @ concat (map segment_bytes segs)" by simp_all
  have "length (segment_bytes s) > 0" by (simp add: segment_bytes_def)
  with u Cons.prems(3) have "r_remaining r \<noteq> 0" by (auto simp: r_remaining_def)
  moreover have "readv_loop (r\<lparr>rpos := rpos r + length (segment_bytes s)\<rparr>) = Inr segs"
    using Cons.prems r_take_prefix(2,3) [OF u Cons.prems(3) refl] by (intro Cons.IH) simp_all
  ultimately show ?case
    using readv_one_complete [OF s u Cons.prems(3)] by (simp add: readv_loop.simps [of r])
qed

text \<open>
  C10. A vector-read answer is parsed exactly. \<^verbatim>\<open>parse_readv\<close> returns segments if and only if the body
  is the concatenation of their wire images: every byte is accounted for, lengths and 64-bit
  offsets come back as sent, and a truncated, padded or negative-length body is refused.
\<close>

theorem parse_readv_exact:
  "parse_readv data = Inr segs \<longleftrightarrow> list_all segment_ok segs \<and> data = concat (map segment_bytes segs)"
  using readv_loop_sound [of "Reader data ''kXR_readv''" segs]
    readv_loop_complete [of segs "Reader data ''kXR_readv''"]
  by (auto simp: parse_readv_def)

section \<open>Requests on the wire\<close>

text \<open>
  The layout of every request. When \<^verbatim>\<open>encode\<close> succeeds on a request of any of the classes,
  the frame is the stream id modulo 65536, the opcode, a parameter block of exactly 16 bytes,
  the length of the payload plus what travels on a data path, the payload and the trailer; the
  announced length is within the protocol maximum and excludes the trailer.
\<close>

theorem encode_layout:
  assumes "encode (cls req) sid = Inr frame"
  shows "\<exists>params body. length params = 16 \<and> rq_params (cls req) [] = Inr params \<and> rq_payload (cls req) = Inr body
    \<and> int (length body) + int (length (rq_path_data (cls req))) \<le> MAX_FRAME_PAYLOAD
    \<and> frame = be_bytes 2 (sid mod 65536) @ be_bytes 2 (rq_opcode (cls req)) @ params
        @ be_bytes 4 (int (length body) + int (length (rq_path_data (cls req)))) @ body @ rq_trailer (cls req)"
  using assms by (auto elim!: encode_Inr)

theorem encode_layout_witness:
  "\<exists>frame. encode (cls (Write [1, 2, 3, 4] 0 [9, 9] 0)) 4 = Inr frame \<and> length frame = 26"
proof -
  have "case encode (cls (Write [1, 2, 3, 4] 0 [9, 9] 0)) 4 of Inl _ \<Rightarrow> False | Inr _ \<Rightarrow> True"
    by code_simp
  then obtain frame where f: "encode (cls (Write [1, 2, 3, 4] 0 [9, 9] 0)) 4 = Inr frame"
    by (auto split: sum.splits)
  from encode_layout [OF f] show ?thesis using f by (auto simp: cls_defs)
qed

text \<open>
  C12. The parameter block is always 16 bytes. Whatever the class and the field values, writing
  the parameters of a request either raises, because a field cannot be packed, or appends
  exactly 16 bytes to what the writer held: the size check in \<^verbatim>\<open>encode\<close> never fires.
\<close>

theorem params_always_16:
  assumes "rq_params (cls req) w = Inr w'"
  shows "\<exists>p. w' = w @ p \<and> length p = 16"
  using params_append_16 [of req] assms by (auto simp: appends_def)

theorem params_always_16_witness:
  "\<exists>p. rq_params (cls (Mkdir (lit ''/d'') 511 True)) [] = Inr p \<and> length p = 16"
proof -
  have "case rq_params (cls (Mkdir (lit ''/d'') 511 True)) [] of Inl _ \<Rightarrow> False | Inr _ \<Rightarrow> True" by code_simp
  then obtain p where "rq_params (cls (Mkdir (lit ''/d'') 511 True)) [] = Inr p" by (auto split: sum.splits)
  with params_always_16 [OF this] show ?thesis by simp
qed

section \<open>Signatures\<close>

lemma sign_slices:
  assumes "encode (cls req) sid = Inr frame" and "rq_payload (cls req) = Inr body"
  shows "slice_to frame REQUEST_HDRLEN = take 24 frame"
    and "slice_from (slice_to frame (REQUEST_HDRLEN + (int (length body) + int (length (rq_path_data (cls req))))))
           REQUEST_HDRLEN = body"
proof -
  show "slice_to frame REQUEST_HDRLEN = take 24 frame" by simp
  from assms obtain hdr where f: "frame = hdr @ body @ rq_trailer (cls req)" "length hdr = 24"
    by (auto elim!: encode_Inr)
  have "take (nat (24 + (int (length body) + int (length (rq_path_data (cls req)))))) frame = hdr @ body"
    using f trailer_xor_path_data [of req] by (auto simp: nat_add_distrib)
  with f(2) show "slice_from (slice_to frame (REQUEST_HDRLEN + (int (length body) + int (length (rq_path_data (cls req))))))
           REQUEST_HDRLEN = body"
    by simp
qed

lemma sign_covers:
  assumes "encode (cls req) sid = Inr frame" and "rq_payload (cls req) = Inr body"
    and "sg_required s (rq_opcode (cls req))" and "0 \<le> sg_seqno s" and "sg_seqno s + 1 < 2 ^ 64"
  shows "sign hmac s frame =
    (Inr (Some (sg_seqno s + 1, hmac (sg_key s) (be_bytes 8 (sg_seqno s + 1) @ take 24 frame @ body))),
     s\<lparr>sg_seqno := sg_seqno s + 1\<rparr>)"
proof -
  have "struct_pack U64 (sg_seqno s + 1) = Inr (be_bytes 8 (sg_seqno s + 1))"
    using assms(4,5) by (simp add: struct_pack_def U64_def fmt_lo_def fmt_hi_def)
  with unpack_opcode [OF assms(1)] unpack_dlen [OF assms(1,2)] sign_slices [OF assms(1,2)] assms(3) show ?thesis
    by (simp add: sign_def sigver_hmac_def Let_def)
qed

text \<open>
  What a signature covers. For an encoded request whose opcode has to be signed and whose
  sequence number still fits, the signer's MAC is that of the next sequence number, the
  24-byte header and exactly the payload: neither the streamed trailer nor the bytes that
  travel on a data path are covered, and no payload byte is left out. The sequence number it
  returns is one more than before and is remembered.
\<close>

theorem signature_covers_header_and_payload:
  assumes "encode (cls req) sid = Inr frame" and "rq_payload (cls req) = Inr body"
    and "sg_required s (rq_opcode (cls req))" and "0 \<le> sg_seqno s" and "sg_seqno s + 1 < 2 ^ 64"
  shows "sign hmac s frame =
    (Inr (Some (sg_seqno s + 1, hmac (sg_key s) (be_bytes 8 (sg_seqno s + 1) @ take 24 frame @ body))),
     s\<lparr>sg_seqno := sg_seqno s + 1\<rparr>)"
  using assms by (rule sign_covers)

theorem signature_covers_header_and_payload_witness:
  "\<exists>frame. encode (cls (Rm (lit ''/f''))) 4 = Inr frame
     \<and> sign (\<lambda>key msg. key @ msg) (Signer [7] kXR_secStandard []) frame =
         (Inr (Some (1, [7] @ be_bytes 8 1 @ take 24 frame @ [47, 102])),
          (Signer [7] kXR_secStandard [])\<lparr>sg_seqno := 1\<rparr>)"
proof -
  have "case encode (cls (Rm (lit ''/f''))) 4 of Inl _ \<Rightarrow> False | Inr _ \<Rightarrow> True" by code_simp
  then obtain frame where f: "encode (cls (Rm (lit ''/f''))) 4 = Inr frame" by (auto split: sum.splits)
  have b: "rq_payload (cls (Rm (lit ''/f''))) = Inr [47, 102]" by code_simp
  have r: "sg_required (Signer [7] kXR_secStandard []) (rq_opcode (cls (Rm (lit ''/f''))))" by code_simp
  from signature_covers_header_and_payload [OF f b r, of "\<lambda>key msg. key @ msg"] f show ?thesis
    by (simp add: Signer_def)
qed

text \<open>
  What \<^verbatim>\<open>signed\<close> means. At the standard security level, without overrides, the signer signs a
  request exactly when its class declares itself signed, the four link and attribute requests
  (opcodes 3500 to 3503) excepted: they declare themselves signed and never are, not even at
  the pedantic level.
\<close>

theorem signed_classes_are_signed:
  "(is_signed (rq_opcode (cls req)) kXR_secStandard [] \<longleftrightarrow>
      rq_signed (cls req) \<and> rq_opcode (cls req) \<notin> {kXR_setattr..kXR_link})
   \<and> \<not> (rq_opcode (cls req) \<in> {kXR_setattr..kXR_link} \<and> is_signed (rq_opcode (cls req)) kXR_secPedantic [])"
  by (cases req) (simp_all add: cls_defs is_signed_def LEVEL_OPCODES_def SIGNED_OPCODES_def)

section \<open>Fields and text\<close>

text \<open>
  Fields read back as written. A message of one field of each width, written by the writer
  and followed by anything, is read back field by field by the reader, which ends up in front
  of the rest.
\<close>

theorem fields_round_trip:
  assumes "chain [w_u8 a, w_u16 b, w_u32 c, w_i32 d, w_u64 e, w_i64 f] [] = Inr bs"
  shows "bindE (r_u8 (Reader (bs @ rest) what)) (\<lambda>(a', r). bindE (r_u16 r) (\<lambda>(b', r). bindE (r_u32 r) (\<lambda>(c', r).
    bindE (r_i32 r) (\<lambda>(d', r). bindE (r_u64 r) (\<lambda>(e', r). bindE (r_i64 r) (\<lambda>(f', r).
      Inr ([a', b', c', d', e', f'], unread r))))))) = Inr ([a, b, c, d, e, f], rest)"
proof -
  from assms obtain w1 w2 w3 w4 w5 where
    w: "w_u8 a [] = Inr w1" "w_u16 b w1 = Inr w2" "w_u32 c w2 = Inr w3" "w_i32 d w3 = Inr w4"
      "w_u64 e w4 = Inr w5" "w_i64 f w5 = Inr bs"
    by (auto simp: bindE_eq_Inr)
  have pre: "\<exists>x. w2 = w1 @ x" "\<exists>x. w3 = w2 @ x" "\<exists>x. w4 = w3 @ x" "\<exists>x. w5 = w4 @ x" "\<exists>x. bs = w5 @ x"
    using w by (auto simp: writer_defs w_pack_def bindE_eq_Inr)
  let ?r = "\<lambda>w. (Reader (bs @ rest) what)\<lparr>rpos := length w\<rparr>"
  have sel: "rbuf (?r w) = bs @ rest" "rpos (?r w) = length w" "(?r w)\<lparr>rpos := length w'\<rparr> = ?r w'" for w w'
    by simp_all
  obtain p1 p2 p3 p4 p5 where post: "bs @ rest = w1 @ p1" "bs @ rest = w2 @ p2" "bs @ rest = w3 @ p3"
    "bs @ rest = w4 @ p4" "bs @ rest = w5 @ p5"
    using pre by auto
  note u8.get_put [OF w(1), of "?r []", unfolded sel, OF post(1) refl]
    u16.get_put [OF w(2), of "?r w1", unfolded sel, OF post(2) refl]
    u32.get_put [OF w(3), of "?r w2", unfolded sel, OF post(3) refl]
    i32.get_put [OF w(4), of "?r w3", unfolded sel, OF post(4) refl]
    u64.get_put [OF w(5), of "?r w4", unfolded sel, OF post(5) refl]
    i64.get_put [OF w(6), of "?r w5", unfolded sel, OF refl refl]
  moreover have "(Reader (bs @ rest) what)\<lparr>rpos := 0\<rparr> = Reader (bs @ rest) what" by (simp add: Reader_def)
  ultimately show ?thesis by simp
qed

theorem fields_round_trip_witness:
  "\<exists>bs. chain [w_u8 255, w_u16 1, w_u32 4294967295, w_i32 (-1), w_u64 0, w_i64 (-2)] [] = Inr bs
     \<and> bindE (r_u8 (Reader (bs @ [5]) [])) (\<lambda>(a, _). Inr a) = Inr 255"
proof -
  have "case chain [w_u8 255, w_u16 1, w_u32 4294967295, w_i32 (-1), w_u64 0, w_i64 (-2)] [] of
      Inl _ \<Rightarrow> False | Inr _ \<Rightarrow> True" by code_simp
  then obtain bs where b: "chain [w_u8 255, w_u16 1, w_u32 4294967295, w_i32 (-1), w_u64 0, w_i64 (-2)] [] = Inr bs"
    by (auto split: sum.splits)
  from fields_round_trip [OF b, of "[5]" "[]"] b show ?thesis
    by (auto simp: bindE_eq_Inr split_def)
qed

text \<open>
  Text survives the wire. A string without lone surrogates always encodes, one with them
  never does; and what was encoded decodes to the same string, even under the decoder that
  replaces ill-formed input.
\<close>

theorem utf8_round_trip:
  "(list_all scalar s \<and> (\<exists>bs. utf8_encode s = Inr bs \<and> utf8_decode bs = s))
   \<or> (\<not> list_all scalar s \<and> utf8_encode s = Inl UnicodeEncodeError)"
proof (cases "list_all scalar s")
  case True
  then have "utf8_encode s = Inr (map of_nat (concat (map utf8_char s)))" by (simp add: utf8_encode_def)
  with True utf8_roundtrip show ?thesis by blast
qed (simp add: utf8_encode_def)

section \<open>Responses\<close>

text \<open>
  A response header is decoded exactly and bounded. The eight bytes a server writes for a
  stream id, a status and a length come back as those numbers when the length is within the
  client's limit for a body; beyond the limit, however large, the header is refused, so that
  a hostile length never makes the client wait for or allocate more.
\<close>

theorem response_header_decoded:
  assumes "0 \<le> sid" and "sid < 65536" and "0 \<le> st" and "st < 65536" and "0 \<le> len" and "len < 4294967296"
  shows "decode_header (be_bytes 2 sid @ be_bytes 2 st @ be_bytes 4 len @ rest) =
    (if len \<le> MAX_RESPONSE_BODY then Inr \<lparr>rh_streamid = sid, rh_status = st, rh_dlen = len\<rparr>
     else Inl (ProtocolError ''response body too large''))"
  using assms by (simp add: decode_header_def Let_def struct_unpack_def fmt_defs be_int_be_bytes)

theorem response_header_decoded_witness:
  "decode_header (be_bytes 2 4 @ be_bytes 2 kXR_ok @ be_bytes 4 4294967295 @ []) =
     Inl (ProtocolError ''response body too large'')"
  using response_header_decoded [of 4 kXR_ok 4294967295 "[]"] by simp

lemma plain_entries_names:
  "plain_entries path ns = Inr es \<Longrightarrow>
     list_all (\<lambda>e. slash \<notin> set (de_name e) \<and> de_name e \<noteq> lit ''..'' \<and> de_parent e = path) es"
  by (induction path ns arbitrary: es rule: plain_entries.induct)
     (auto simp: bindE_eq_Inr checked_def split: if_splits)

lemma stat_entries_names:
  "stat_entries path ps = Inr es \<Longrightarrow>
     list_all (\<lambda>e. slash \<notin> set (de_name e) \<and> de_name e \<noteq> lit ''..'' \<and> de_parent e = path) es"
  by (induction path ps arbitrary: es rule: stat_entries.induct)
     (auto simp: bindE_eq_Inr checked_def split: if_splits prod.splits)



section \<open>Server errors\<close>

text \<open>
  Every documented server error is catchable by its meaning. For each code of the protocol's
  error table the package raises, for the checksum code, the mismatch error, and for every
  other one a \<^verbatim>\<open>ServerError\<close> of a subclass that is also an \<^verbatim>\<open>OSError\<close> with an \<^verbatim>\<open>errno\<close>, carrying the
  server's code, message and path unchanged.
\<close>

theorem documented_errors_have_errno:
  assumes "code \<in> keys code_names"
  shows "if code = 3019
    then \<exists>actual. raise_for_status code message path = Some (ChecksumMismatchError (lit ''crc32c'') (lit ''<server>'') actual)
    else \<exists>c en. raise_for_status code message path = Some (ServerError c code message path) \<and> class_errno c = Some en"
proof (cases "code = 3019")
  case True
  then show ?thesis by (simp add: raise_for_status_def)
next
  case False
  with assms have "code \<in> keys code_classes" by (simp add: code_names_keys code_classes_keys)
  then obtain c where c: "map_of code_classes code = Some c" by (metis map_of_None_keys not_None_eq)
  with plain_not_listed have "class_errno c \<noteq> None" by (auto simp: class_errno_None)
  with c False assms show ?thesis by (auto simp: raise_for_status_def code_names_keys)
qed

theorem documented_errors_have_errno_witness:
  "\<exists>c en. raise_for_status 3011 [] None = Some (ServerError c 3011 [] None) \<and> class_errno c = Some en"
  using documented_errors_have_errno [of 3011 "[]" None] by (simp add: code_names_keys)

section \<open>Vector writes and names\<close>

text \<open>
  A vector write announces only its descriptors. The frame of a \<^verbatim>\<open>kXR_writev\<close> is a header whose
  length field is 16 times the number of chunks, one 16-byte descriptor per chunk, and the
  chunks' data in the same order, uncounted, as the protocol wants it.
\<close>

theorem writev_announces_descriptors:
  assumes "encode (cls (WriteV chunks options)) sid = Inr frame"
  shows "\<exists>hdr desc. frame = hdr @ desc @ concat (map (\<lambda>(_, _, data). data) chunks)
    \<and> length hdr = 24 \<and> drop 20 hdr = be_bytes 4 (16 * int (length chunks)) \<and> length desc = 16 * length chunks"
proof -
  let ?f = "\<lambda>(fhandle, offset, data). chain [w_padded fhandle 4, w_i32 (int (length data)), w_i64 offset]"
  have a: "appends (?f x) 16" for x :: "bytes \<times> int \<times> bytes"
  proof -
    have "appends (chain [w_padded h 4, w_i32 l, w_i64 i]) (nat 4 + (4 + (8 + 0)))" for h l i
      by (intro wire) simp
    then show ?thesis by (simp add: split_def)
  qed
  from assms obtain params body where b: "rq_payload (cls (WriteV chunks options)) = Inr body" "length params = 16"
    "frame = (be_bytes 2 (sid mod 65536) @ be_bytes 2 kXR_writev @ params @ be_bytes 4 (int (length body)))
       @ body @ concat (map (\<lambda>(_, _, data). data) chunks)"
    by (elim encode_Inr) (simp add: cls_WriteV_def Request_def)
  moreover from b(1) have "length body = 16 * length chunks"
    using chain_map_length [of ?f 16 chunks "[]" body, OF a] by (simp add: cls_WriteV_def)
  ultimately show ?thesis
    by (intro exI [of _ "be_bytes 2 (sid mod 65536) @ be_bytes 2 kXR_writev @ params @ be_bytes 4 (int (length body))"]
        exI [of _ body]) simp
qed

theorem writev_announces_descriptors_witness:
  "\<exists>frame. encode (cls (WriteV [([1], 0, [5, 6]), ([2], 9, [7])] 0)) 4 = Inr frame \<and> length frame = 59"
proof -
  have "case encode (cls (WriteV [([1], 0, [5, 6]), ([2], 9, [7])] 0)) 4 of Inl _ \<Rightarrow> False | Inr _ \<Rightarrow> True"
    by code_simp
  then obtain frame where f: "encode (cls (WriteV [([1], 0, [5, 6]), ([2], 9, [7])] 0)) 4 = Inr frame"
    by (auto split: sum.splits)
  from writev_announces_descriptors [OF f] f show ?thesis by auto
qed

text \<open>
  The reverse table of opcode names loses two names: \<^verbatim>\<open>kXR_1stRequest\<close>, an alias defined later,
  takes the place of \<^verbatim>\<open>kXR_auth\<close>, and \<^verbatim>\<open>kXR_setattr\<close> falls outside the range that is collected.
\<close>

theorem request_names_lost:
  "request_name kXR_auth = ''kXR_1stRequest'' \<and> request_name kXR_setattr = ''kXR_unknown(3500)''"
  by (simp add: request_name_def request_names_value show_int_def show_nat.simps char_of_def bit_0)

end
