(* ===== verification/Session_Machine.thy ===== *)
theory Session_Machine
  imports Sigver Wire_Responses
begin

text \<open>
  The sans-io session state machine of \<^verbatim>\<open>src/src/xrd/proto/machine.py\<close>. \<open>machine\<close> is the state
  of one \<^verbatim>\<open>SessionMachine\<close>, each method a definition that takes it and returns the new one.
  Python mutates before it raises, so a method that can raise returns
  \<open>(exn \<times> 'c machine) + \<dots>\<close>: \<open>Inl (e, m)\<close> is exception \<open>e\<close> with the machine as the method left
  it.

  What the machine calls outside itself is the record \<open>env\<close>: the credential objects
  (\<^verbatim>\<open>initial\<close>, \<^verbatim>\<open>step\<close>, \<^verbatim>\<open>session_key\<close> of type \<open>'c\<close>, each returning the object as it left it),
  the ladder \<^verbatim>\<open>auth.select\<close> as the list of what iterating it does, the HMAC, the process id
  and the text of an exception.
\<close>

section \<open>Environment\<close>

datatype 'c rung =
    Rejected str str      \<comment> \<open>\<^verbatim>\<open>rejected[name] = reason\<close>, nothing yielded\<close>
  | Cleared str           \<comment> \<open>\<^verbatim>\<open>rejected.pop(name, None)\<close>\<close>
  | Yielded 'c            \<comment> \<open>a credential is handed out\<close>

record 'c env =
  env_select :: "str \<Rightarrow> 'c rung list"
  env_name :: "'c \<Rightarrow> str"
  env_initial :: "'c \<Rightarrow> (exn + bytes) \<times> 'c"
  env_step :: "'c \<Rightarrow> bytes \<Rightarrow> (exn + bytes option) \<times> 'c"
  env_session_key :: "'c \<Rightarrow> bytes option"
  env_hmac :: mac
  env_pid :: int
  env_exc_text :: "exn \<Rightarrow> str"

section \<open>State\<close>

datatype state = NEW | HANDSHAKING | PROTOCOL | TLS | LOGIN | AUTH | READY | FAILED | CLOSED | BINDING

text \<open>\<^verbatim>\<open>State\<close> is an \<^verbatim>\<open>IntEnum\<close>: its members compare as their values.\<close>

primrec state_value :: "state \<Rightarrow> nat" where
  "state_value NEW = 0"
| "state_value HANDSHAKING = 1"
| "state_value PROTOCOL = 2"
| "state_value TLS = 3"
| "state_value LOGIN = 4"
| "state_value AUTH = 5"
| "state_value READY = 6"
| "state_value FAILED = 7"
| "state_value CLOSED = 8"
| "state_value BINDING = 9"

lemma state_value_inj: "state_value s = state_value t \<Longrightarrow> s = t"
  by (cases s; cases t) simp_all

instantiation state :: linorder
begin

definition less_eq_state :: "state \<Rightarrow> state \<Rightarrow> bool" where
  "s \<le> t \<longleftrightarrow> state_value s \<le> state_value t"

definition less_state :: "state \<Rightarrow> state \<Rightarrow> bool" where
  "s < t \<longleftrightarrow> state_value s < state_value t"

instance
  by standard (auto simp: less_eq_state_def less_state_def dest: state_value_inj)

end

abbreviation (input) SID_PROTOCOL :: int where "SID_PROTOCOL \<equiv> 1"
abbreviation (input) SID_LOGIN :: int where "SID_LOGIN \<equiv> 2"
abbreviation (input) SID_AUTH :: int where "SID_AUTH \<equiv> 3"
abbreviation (input) SID_BIND :: int where "SID_BIND \<equiv> 2"
abbreviation (input) FIRST_SID :: int where "FIRST_SID \<equiv> 4"

datatype event =
    Negotiated protocol_info
  | NeedTLS string
  | Ready bytes str                                      \<comment> \<open>session id, mechanism\<close>
  | Completed int request bytes "status_info option"
  | Chunk int request bytes
  | Redirected int request redirect_info
  | Waiting int request real str bool                    \<comment> \<open>seconds, message, resend\<close>
  | Attention attn_info
  | Failed "int option" "request option" exn
  | PathLost int
  | Disconnected string

record pending =
  pd_request :: request
  pd_frame :: bytes
  pd_buffer :: bytes
  pd_status :: "status_info option"
  pd_path :: str
  pd_pathid :: int
  pd_path_bytes :: bytes

record framer =
  fr_buffer :: bytes
  fr_header :: "response_header option"
  fr_need_trailer :: int
  fr_trailer_for :: "int option"

definition Framer :: framer where
  "Framer = \<lparr>fr_buffer = [], fr_header = None, fr_need_trailer = 0, fr_trailer_for = None\<rparr>"

record 'c machine =
  host :: str
  port :: int
  wait_cap :: real
  username :: str
  want_tls :: bool
  bind_to :: bytes
  pathid :: int
  mstate :: state
  proto_info :: protocol_info
  session_id :: bytes
  mechanism :: str
  msigner :: "signer option"
  tls_active :: bool
  out :: bytes
  out_path :: "(int, bytes) dict"
  events :: "event list"
  mpending :: "(int, pending) dict"
  free :: "int list"
  next_sid :: int
  framers :: "(int, framer) dict"
  credentials :: "'c rung list option"
  credential :: "'c option"
  auth_rejected :: "(str, str) dict"
  offered :: "str list"

type_synonym 'c mres = "(exn \<times> 'c machine) + 'c machine"

text \<open>\<^verbatim>\<open>SessionMachine.__init__\<close>; \<open>cfg_\<close> arguments are the fields of the configuration it reads.\<close>

definition SessionMachine ::
  "str \<Rightarrow> int \<Rightarrow> real \<Rightarrow> str \<Rightarrow> bool \<Rightarrow> str \<Rightarrow> bool \<Rightarrow> bytes \<Rightarrow> 'c rung list option \<Rightarrow> 'c machine"
where
  "SessionMachine h p cfg_wait_cap cfg_username cfg_require_tls user want bind creds =
     \<lparr>host = h, port = p, wait_cap = cfg_wait_cap,
      username = (if user = [] then cfg_username else user),
      want_tls = (want \<or> cfg_require_tls), bind_to = bind, pathid = 0, mstate = NEW,
      proto_info = ProtocolInfo, session_id = [], mechanism = [], msigner = None,
      tls_active = False, out = [], out_path = [], events = [], mpending = [], free = [],
      next_sid = FIRST_SID, framers = [(0, Framer)], credentials = creds, credential = None,
      auth_rejected = [], offered = []\<rparr>"

section \<open>Small steps shared by the methods\<close>

definition emit :: "event \<Rightarrow> 'c machine \<Rightarrow> 'c machine" where
  "emit e m = m\<lparr>events := events m @ [e]\<rparr>"

definition queue_out :: "bytes \<Rightarrow> 'c machine \<Rightarrow> 'c machine" where
  "queue_out bs m = m\<lparr>out := out m @ bs\<rparr>"

text \<open>\<^verbatim>\<open>self._out_path.setdefault(pathid, bytearray()).extend(bs)\<close>.\<close>

definition queue_path :: "int \<Rightarrow> bytes \<Rightarrow> 'c machine \<Rightarrow> 'c machine" where
  "queue_path p bs m = m\<lparr>out_path := AList.update p
     ((case map_of (out_path m) p of None \<Rightarrow> [] | Some q \<Rightarrow> q) @ bs) (out_path m)\<rparr>"

text \<open>An exception raised while the machine is in state \<open>m\<close>.\<close>

definition raise_at :: "'m \<Rightarrow> exn + 'a \<Rightarrow> (exn \<times> 'm) + 'a" where
  "raise_at m x = (case x of Inl e \<Rightarrow> Inl (e, m) | Inr a \<Rightarrow> Inr a)"

lemma raise_at_simps [simp]: "raise_at m (Inl e) = Inl (e, m)" "raise_at m (Inr a) = Inr a"
  by (simp_all add: raise_at_def)

lemma raise_at_eq_Inr: "raise_at m x = Inr a \<longleftrightarrow> x = Inr a"
  by (cases x) auto

lemma raise_at_eq_Inl: "raise_at m x = Inl (e, m') \<longleftrightarrow> x = Inl e \<and> m' = m"
  by (cases x) auto

section \<open>Outbound\<close>

definition start :: "'c machine \<Rightarrow> 'c mres" where
  "start m =
     (if mstate m \<noteq> NEW then Inl (ProtocolError ''start() called twice'', m)
      else
        (let flags = kXR_secreqs OR kXR_ableTLS OR (if want_tls m then kXR_wantTLS else 0);
             m1 = queue_out HANDSHAKE m
         in bindE (raise_at m1 (encode (cls (Protocol flags)) SID_PROTOCOL)) (\<lambda>frame.
              Inr ((queue_out frame m1)\<lparr>mstate := HANDSHAKING\<rparr>))))"

definition data_to_send :: "'c machine \<Rightarrow> bytes \<times> 'c machine" where
  "data_to_send m = (out m, m\<lparr>out := []\<rparr>)"

definition path_data_to_send :: "int \<Rightarrow> 'c machine \<Rightarrow> bytes \<times> 'c machine" where
  "path_data_to_send p m =
     (case map_of (out_path m) p of None \<Rightarrow> [] | Some q \<Rightarrow> q, m\<lparr>out_path := AList.delete p (out_path m)\<rparr>)"

definition release :: "int \<Rightarrow> 'c machine \<Rightarrow> 'c machine" where
  "release sid m =
     (case map_of (mpending m) sid of
        None \<Rightarrow> m
      | Some _ \<Rightarrow>
          (let m1 = m\<lparr>mpending := AList.delete sid (mpending m)\<rparr>
           in if sid \<ge> FIRST_SID then m1\<lparr>free := free m @ [sid]\<rparr> else m1))"

definition acquire_sid :: "'c machine \<Rightarrow> (exn \<times> 'c machine) + int \<times> 'c machine" where
  "acquire_sid m =
     (if free m \<noteq> [] then Inr (last (free m), m\<lparr>free := butlast (free m)\<rparr>)
      else
        (let sid = next_sid m;
             n = (if sid + 1 > 0xFFFF then FIRST_SID else sid + 1);
             m1 = m\<lparr>next_sid := n\<rparr>
         in if sid \<in> keys (mpending m) then Inl (ProtocolError ''stream id space exhausted'', m1)
            else Inr (sid, m1)))"

text \<open>The frame of a request, prefixed by its \<^verbatim>\<open>kXR_sigver\<close> frame when the signer asks for one.\<close>

definition signed_frame ::
  "'c env \<Rightarrow> request \<Rightarrow> int \<Rightarrow> 'c machine \<Rightarrow> (exn \<times> 'c machine) + bytes \<times> 'c machine" where
  "signed_frame ev req sid m =
     bindE (raise_at m (encode (cls req) sid)) (\<lambda>frame.
       case msigner m of
         None \<Rightarrow> Inr (frame, m)
       | Some s \<Rightarrow>
           (case sign (env_hmac ev) s frame of (res, s') \<Rightarrow>
             (let m1 = m\<lparr>msigner := Some s'\<rparr> in
              bindE (raise_at m1 res) (\<lambda>sig.
                case sig of
                  None \<Rightarrow> Inr (frame, m1)
                | Some (seqno, mac) \<Rightarrow>
                    bindE (raise_at m1 (encode (cls (new_Sigver (rq_opcode (cls req)) seqno mac)) sid))
                      (\<lambda>sv. Inr (sv @ frame, m1))))))"

definition send ::
  "'c env \<Rightarrow> request \<Rightarrow> int \<Rightarrow> str \<Rightarrow> bool \<Rightarrow> 'c machine \<Rightarrow> 'c mres" where
  "send ev req sid path arrive_on_path m =
     bindE (signed_frame ev req sid m) (\<lambda>(frame, m1).
       let data = rq_path_data (cls req);
           p = rq_pathid (cls req);
           m2 = m1\<lparr>mpending := AList.update sid
             \<lparr>pd_request = req, pd_frame = frame, pd_buffer = [], pd_status = None,
              pd_path = path, pd_pathid = p, pd_path_bytes = data\<rparr> (mpending m1)\<rparr>
       in if arrive_on_path \<and> p \<noteq> 0 then Inr (queue_path p (frame @ data) m2)
          else
            (let m3 = queue_out frame m2
             in Inr (if data \<noteq> [] then queue_path p data m3 else m3)))"

definition submit ::
  "'c env \<Rightarrow> request \<Rightarrow> str \<Rightarrow> bool \<Rightarrow> 'c machine \<Rightarrow> (exn \<times> 'c machine) + int \<times> 'c machine" where
  "submit ev req path arrive_on_path m =
     (if mstate m \<noteq> READY then Inl (ProtocolError ''cannot submit'', m)
      else bindE (acquire_sid m) (\<lambda>(sid, m1).
           bindE (send ev req sid path arrive_on_path m1) (\<lambda>m2. Inr (sid, m2))))"

definition resume :: "int \<Rightarrow> 'c machine \<Rightarrow> 'c mres" where
  "resume sid m =
     (case map_of (mpending m) sid of
        None \<Rightarrow> Inl (ProtocolError ''stream is not waiting'', m)
      | Some p \<Rightarrow>
          (let m1 = queue_out (pd_frame p) m
           in Inr (if pd_path_bytes p \<noteq> [] then queue_path (pd_pathid p) (pd_path_bytes p) m1 else m1)))"

definition close :: "bool \<Rightarrow> 'c machine \<Rightarrow> 'c mres" where
  "close graceful m =
     bindE
       (if mstate m = READY \<and> graceful \<and> session_id m \<noteq> []
        then bindE (acquire_sid m) (\<lambda>(sid, m1).
             bindE (raise_at m1 (encode (cls (EndSession (session_id m))) sid)) (\<lambda>frame.
               Inr (queue_out frame m1)))
        else Inr m)
       (\<lambda>m1. Inr (emit (Disconnected ''closed by client'') (m1\<lparr>mstate := CLOSED\<rparr>)))"

section \<open>Bring-up\<close>

definition fail :: "exn \<Rightarrow> 'c machine \<Rightarrow> 'c machine" where
  "fail e m = emit (Failed None None e) (m\<lparr>mstate := FAILED\<rparr>)"

definition begin_login :: "'c env \<Rightarrow> 'c machine \<Rightarrow> 'c mres" where
  "begin_login ev m =
     (if bind_to m \<noteq> [] then
        (let m1 = m\<lparr>mstate := BINDING\<rparr>
         in bindE (raise_at m1 (encode (cls (Bind (bind_to m))) SID_BIND)) (\<lambda>f. Inr (queue_out f m1)))
      else
        (let m1 = m\<lparr>mstate := LOGIN\<rparr>
         in bindE (raise_at m1 (encode (cls (new_Login (username m) (env_pid ev) None [])) SID_LOGIN))
              (\<lambda>f. Inr (queue_out f m1))))"

definition tls_established :: "'c env \<Rightarrow> 'c machine \<Rightarrow> 'c mres" where
  "tls_established ev m =
     (if mstate m \<noteq> TLS then Inl (ProtocolError ''tls_established() called out of turn'', m)
      else begin_login ev (m\<lparr>tls_active := True\<rparr>))"

definition tls_demanded :: "protocol_info \<Rightarrow> bool" where
  "tls_demanded p = has_flag (pi_flags p) (kXR_gotoTLS OR kXR_tlsLogin OR kXR_tlsSess OR kXR_tlsData)"

definition after_protocol :: "'c env \<Rightarrow> 'c machine \<Rightarrow> 'c mres" where
  "after_protocol ev m =
     (let demanded = tls_demanded (proto_info m) in
      if want_tls m \<or> demanded then
        (if \<not> has_flag (pi_flags (proto_info m)) kXR_haveTLS
         then Inr (fail (ProtocolError ''TLS required but not offered'') m)
         else Inr (emit (NeedTLS (if demanded then ''server requested TLS'' else ''client policy''))
                     (m\<lparr>mstate := TLS\<rparr>)))
      else begin_login ev m)"

definition become_ready :: "'c env \<Rightarrow> 'c machine \<Rightarrow> 'c machine" where
  "become_ready ev m =
     (let key = (case credential m of None \<Rightarrow> None | Some c \<Rightarrow> env_session_key ev c);
          m1 = m\<lparr>mstate := READY\<rparr>;
          m2 = (case key of
                  None \<Rightarrow> m1
                | Some k \<Rightarrow>
                    if k = [] then m1
                    else m1\<lparr>msigner := Some (Signer k (pi_security_level (proto_info m))
                                        (pi_security_overrides (proto_info m)))\<rparr>)
      in emit (Ready (session_id m) (mechanism m)) m2)"

text \<open>The \<^verbatim>\<open>for cred in self._credentials\<close> loop: rungs are consumed as they are looked at.\<close>

fun climb :: "'c env \<Rightarrow> 'c rung list \<Rightarrow> 'c machine \<Rightarrow> 'c mres" where
  "climb ev [] m =
     Inr (fail (NoMechanismError (offered m) (auth_rejected m)) (m\<lparr>credentials := Some []\<rparr>))"
| "climb ev (Rejected name reason # rs) m =
     climb ev rs (m\<lparr>auth_rejected := AList.update name reason (auth_rejected m)\<rparr>)"
| "climb ev (Cleared name # rs) m =
     climb ev rs (m\<lparr>auth_rejected := AList.delete name (auth_rejected m)\<rparr>)"
| "climb ev (Yielded c # rs) m =
     (case env_initial ev c of
        (Inl e, c') \<Rightarrow>
          climb ev rs (m\<lparr>auth_rejected :=
            AList.update (env_name ev c) (env_exc_text ev e) (auth_rejected m)\<rparr>)
      | (Inr blob, c') \<Rightarrow>
          (let m1 = m\<lparr>credentials := Some rs, credential := Some c', mechanism := env_name ev c\<rparr>
           in bindE (raise_at m1 (new_Auth (env_name ev c) blob)) (\<lambda>req.
              bindE (raise_at m1 (encode (cls req) SID_AUTH)) (\<lambda>f. Inr (queue_out f m1)))))"

definition next_credential :: "'c env \<Rightarrow> str \<Rightarrow> 'c machine \<Rightarrow> 'c mres" where
  "next_credential ev sec m =
     climb ev (case credentials m of None \<Rightarrow> env_select ev sec | Some rs \<Rightarrow> rs) m"

definition auth_step :: "'c env \<Rightarrow> bytes \<Rightarrow> 'c machine \<Rightarrow> 'c mres" where
  "auth_step ev challenge m =
     (case credential m of
        None \<Rightarrow> Inr (fail (AuthenticationError ''server sent kXR_authmore with no exchange open'') m)
      | Some c \<Rightarrow>
          (case env_step ev c challenge of
             (Inl e, c') \<Rightarrow>
               next_credential ev [] (m\<lparr>credential := Some c', auth_rejected :=
                 AList.update (env_name ev c) (env_exc_text ev e) (auth_rejected m)\<rparr>)
           | (Inr None, c') \<Rightarrow>
               next_credential ev [] (m\<lparr>credential := Some c', auth_rejected :=
                 (if env_name ev c \<in> keys (auth_rejected m) then auth_rejected m
                  else AList.update (env_name ev c)
                    (lit ''server asked for another round the mechanism cannot answer'')
                    (auth_rejected m))\<rparr>)
           | (Inr (Some blob), c') \<Rightarrow>
               (let m1 = m\<lparr>credential := Some c'\<rparr>
                in bindE (raise_at m1 (new_Auth (env_name ev c) blob)) (\<lambda>req.
                   bindE (raise_at m1 (encode (cls req) SID_AUTH)) (\<lambda>f. Inr (queue_out f m1))))))"

definition bringup :: "'c env \<Rightarrow> response_header \<Rightarrow> bytes \<Rightarrow> 'c machine \<Rightarrow> 'c mres" where
  "bringup ev h body m =
     (if rh_status h = kXR_error then
        bindE (raise_at m (parse_error body)) (\<lambda>i.
          Inr (fail (ServerError PlainServerError (ei_code i) (ei_message i) None) m))
      else if rh_status h \<notin> {kXR_ok, kXR_authmore} then
        Inr (fail (ProtocolError ''unexpected status during bring-up'') m)
      else if mstate m = HANDSHAKING then Inr (m\<lparr>mstate := PROTOCOL\<rparr>)
      else if mstate m = PROTOCOL then
        bindE (raise_at m (parse_protocol body)) (\<lambda>i.
          after_protocol ev (emit (Negotiated i) (m\<lparr>proto_info := i\<rparr>)))
      else if mstate m = BINDING then
        bindE (raise_at m (parse_bind body)) (\<lambda>p. Inr (become_ready ev (m\<lparr>pathid := p\<rparr>)))
      else if mstate m = LOGIN then
        bindE (raise_at m (parse_login body)) (\<lambda>l.
          let m1 = m\<lparr>session_id := lg_sessid l, offered := lg_mechanisms l\<rparr>
          in if lg_sec l = [] then Inr (become_ready ev m1)
             else next_credential ev (lg_sec l) (m1\<lparr>mstate := AUTH\<rparr>))
      else if rh_status h = kXR_authmore then auth_step ev body m
      else Inr (become_ready ev m))"

section \<open>Responses to requests\<close>

definition set_pending :: "int \<Rightarrow> pending \<Rightarrow> 'c machine \<Rightarrow> 'c machine" where
  "set_pending sid p m = m\<lparr>mpending := AList.update sid p (mpending m)\<rparr>"

definition on_status_data :: "int \<Rightarrow> bytes \<Rightarrow> 'c machine \<Rightarrow> 'c machine" where
  "on_status_data sid data m =
     (case map_of (mpending m) sid of
        None \<Rightarrow> m
      | Some p \<Rightarrow>
          (case pd_status p of
             None \<Rightarrow> m
           | Some info \<Rightarrow>
               if ss_is_final info
               then emit (Completed sid (pd_request p) (pd_buffer p @ data) (Some info)) (release sid m)
               else emit (Chunk sid (pd_request p) data)
                      (set_pending sid (p\<lparr>pd_buffer := pd_buffer p @ data\<rparr>) m)))"

definition on_response ::
  "response_header \<Rightarrow> bytes \<Rightarrow> pending \<Rightarrow> 'c machine \<times> framer
     \<Rightarrow> (exn \<times> 'c machine \<times> framer) + 'c machine \<times> framer" where
  "on_response h body p mf =
     (case mf of (m, f) \<Rightarrow>
       let sid = rh_streamid h; st = rh_status h; req = pd_request p in
       if st = kXR_ok then
         Inr (emit (Completed sid req (pd_buffer p @ body) (pd_status p)) (release sid m), f)
       else if st = kXR_oksofar then
         Inr (emit (Chunk sid req body) (set_pending sid (p\<lparr>pd_buffer := pd_buffer p @ body\<rparr>) m), f)
       else if st = kXR_error then
         bindE (raise_at mf (parse_error body)) (\<lambda>i.
           Inr (emit (Failed (Some sid) (Some req) (server_error (ei_code i) (ei_message i) (pd_path p)))
                  (release sid m), f))
       else if st = kXR_redirect then
         bindE (raise_at mf (parse_redirect body)) (\<lambda>i. Inr (emit (Redirected sid req i) m, f))
       else if st = kXR_wait then
         bindE (raise_at mf (parse_wait body)) (\<lambda>w.
           Inr (emit (Waiting sid req (min (of_int (wi_seconds w)) (wait_cap m)) (wi_message w) True) m, f))
       else if st = kXR_waitresp then
         bindE (raise_at mf (parse_waitresp body)) (\<lambda>w.
           Inr (emit (Waiting sid req (of_int (wi_seconds w)) [] False) m, f))
       else if st = kXR_status then
         bindE (raise_at mf (parse_status body)) (\<lambda>s.
           let m1 = set_pending sid (p\<lparr>pd_status := Some s\<rparr>) m
           in if ss_dlen s \<noteq> 0
              then Inr (m1, f\<lparr>fr_need_trailer := ss_dlen s, fr_trailer_for := Some sid\<rparr>)
              else Inr (on_status_data sid [] m1, f))
       else
         Inr (emit (Failed (Some sid) (Some req) (ProtocolError ''unexpected response status''))
                (release sid m), f))"

section \<open>Dispatch and framing\<close>

text \<open>\<open>Inl\<close>: a notice was recorded and there is nothing to dispatch; \<open>Inr\<close>: the embedded response.\<close>

definition unwrap_attn :: "bytes \<Rightarrow> exn + (attn_info + response_header \<times> bytes)" where
  "unwrap_attn body =
     bindE (parse_attn body) (\<lambda>i.
       if ai_action i = kXR_asynresp \<and> length body \<ge> 16
       then bindE (decode_header (take 8 (drop 8 body))) (\<lambda>h. Inr (Inr (h, drop 16 body)))
       else Inr (Inl i))"

definition dispatch_inner ::
  "'c env \<Rightarrow> response_header \<Rightarrow> bytes \<Rightarrow> 'c machine \<times> framer
     \<Rightarrow> (exn \<times> 'c machine \<times> framer) + 'c machine \<times> framer" where
  "dispatch_inner ev h body mf =
     (case mf of (m, f) \<Rightarrow>
       if mstate m \<in> {HANDSHAKING, PROTOCOL, LOGIN, AUTH, BINDING}
       then (case bringup ev h body m of Inl (e, m') \<Rightarrow> Inl (e, m', f) | Inr m' \<Rightarrow> Inr (m', f))
       else (case map_of (mpending m) (rh_streamid h) of
               None \<Rightarrow> Inr (m, f)
             | Some p \<Rightarrow> on_response h body p (m, f)))"

definition dispatch ::
  "'c env \<Rightarrow> response_header \<Rightarrow> bytes \<Rightarrow> 'c machine \<times> framer
     \<Rightarrow> (exn \<times> 'c machine \<times> framer) + 'c machine \<times> framer" where
  "dispatch ev h body mf =
     (if rh_status h = kXR_attn
      then bindE (raise_at mf (unwrap_attn body)) (\<lambda>inner.
             case inner of
               Inl i \<Rightarrow> Inr (emit (Attention i) (fst mf), snd mf)
             | Inr (h', body') \<Rightarrow> dispatch_inner ev h' body' mf)
      else dispatch_inner ev h body mf)"

text \<open>
  One turn of the \<^verbatim>\<open>while True\<close> of \<^verbatim>\<open>_parse\<close>: \<open>None\<close> is \<^verbatim>\<open>return\<close> (more bytes are needed),
  \<open>Some\<close> the outcome of taking a trailer, of decoding a header, or of dispatching a body.
  (In the source, decoding a header and taking its body are one turn; they are two here,
  which is the same loop.)
\<close>

definition parse_step ::
  "'c env \<Rightarrow> 'c machine \<times> framer \<Rightarrow> ((exn \<times> 'c machine \<times> framer) + 'c machine \<times> framer) option" where
  "parse_step ev mf =
     (case mf of (m, f) \<Rightarrow>
       let buf = fr_buffer f; need = fr_need_trailer f in
       if need \<noteq> 0 then
         (if int (length buf) < need then None
          else
            (let trailer = slice_to buf need;
                 f' = f\<lparr>fr_buffer := slice_from buf need, fr_need_trailer := 0,
                        fr_trailer_for := None\<rparr>
             in case fr_trailer_for f of
                  None \<Rightarrow> Some (Inl (AssertionError, m, f'))
                | Some sid \<Rightarrow> Some (Inr (on_status_data sid trailer m, f'))))
       else
         (case fr_header f of
            None \<Rightarrow>
              if int (length buf) < RESPONSE_HDRLEN then None
              else (case decode_header (take 8 buf) of
                      Inl e \<Rightarrow> Some (Inl (e, m, f))
                    | Inr h \<Rightarrow> Some (Inr (m, f\<lparr>fr_header := Some h, fr_buffer := drop 8 buf\<rparr>)))
          | Some h \<Rightarrow>
              if int (length buf) < rh_dlen h then None
              else Some (dispatch ev h (slice_to buf (rh_dlen h))
                     (m, f\<lparr>fr_buffer := slice_from buf (rh_dlen h), fr_header := None\<rparr>))))"

lemma on_response_framer:
  assumes "on_response h body p (m, f) = Inr (m', f')"
  shows "fr_buffer f' = fr_buffer f \<and> fr_header f' = fr_header f"
  using assms unfolding on_response_def
  by (auto simp: Let_def bindE_eq_Inr raise_at_eq_Inr split: if_splits)

lemma dispatch_inner_framer:
  assumes "dispatch_inner ev h body (m, f) = Inr (m', f')"
  shows "fr_buffer f' = fr_buffer f \<and> fr_header f' = fr_header f"
  using assms unfolding dispatch_inner_def
  by (auto dest: on_response_framer split: if_splits sum.splits option.splits)

lemma dispatch_framer:
  assumes "dispatch ev h body (m, f) = Inr (m', f')"
  shows "fr_buffer f' = fr_buffer f \<and> fr_header f' = fr_header f"
proof (cases "rh_status h = kXR_attn")
  case True
  with assms obtain inner where "unwrap_attn body = Inr inner"
    and "(case inner of Inl i \<Rightarrow> Inr (emit (Attention i) m, f)
          | Inr (h', body') \<Rightarrow> dispatch_inner ev h' body' (m, f)) = Inr (m', f')"
    by (auto simp: dispatch_def bindE_eq_Inr raise_at_eq_Inr)
  then show ?thesis
    by (auto split: sum.splits prod.splits dest: dispatch_inner_framer)
next
  case False
  with assms show ?thesis by (auto simp: dispatch_def dest: dispatch_inner_framer)
qed

text \<open>Every turn that is not the last makes the link's backlog smaller.\<close>

definition backlog :: "framer \<Rightarrow> nat" where
  "backlog f = 2 * length (fr_buffer f) + (if fr_header f = None then 0 else 2)
     + (if fr_need_trailer f = 0 then 0 else 1)"

lemma parse_step_backlog:
  assumes "parse_step ev mf = Some (Inr mf')"
  shows "backlog (snd mf') < backlog (snd mf)"
proof -
  obtain m f m' f' where mf: "mf = (m, f)" "mf' = (m', f')" by (cases mf, cases mf')
  have shrink: "2 * length (slice_from b n) < Suc (2 * length b)"
    "2 * length (slice_from b n) < Suc (Suc (2 * length b))" for b :: bytes and n
    using length_slice_from [of b n] by linarith+
  show ?thesis
    using assms unfolding parse_step_def backlog_def mf
    by (auto simp: Let_def shrink split: if_splits option.splits sum.splits dest!: dispatch_framer)
qed

function parse ::
  "'c env \<Rightarrow> 'c machine \<times> framer \<Rightarrow> (exn \<times> 'c machine \<times> framer) + 'c machine \<times> framer" where
  "parse ev mf =
     (case parse_step ev mf of
        None \<Rightarrow> Inr mf
      | Some (Inl x) \<Rightarrow> Inl x
      | Some (Inr mf') \<Rightarrow> parse ev mf')"
  by pat_completeness auto
termination
  by (relation "measure (\<lambda>(ev, mf). backlog (snd mf))") (auto dest: parse_step_backlog)

declare parse.simps [simp del]

section \<open>Inbound\<close>

fun fail_all :: "exn \<Rightarrow> (int, pending) dict \<Rightarrow> event list" where
  "fail_all e [] = []"
| "fail_all e ((sid, p) # ps) = Failed (Some sid) (Some (pd_request p)) e # fail_all e ps"

definition on_eof :: "'c machine \<Rightarrow> 'c machine" where
  "on_eof m =
     (if mstate m \<in> {CLOSED, FAILED} then m
      else m\<lparr>mstate := CLOSED,
             events := events m @ fail_all (XrdConnectionError ''connection closed by peer'') (mpending m)
               @ [Disconnected ''connection closed by peer''],
             mpending := []\<rparr>)"

definition on_path :: "int \<Rightarrow> (int, pending) dict \<Rightarrow> (int, pending) dict" where
  "on_path p d = filter (\<lambda>(_, q). pd_pathid q = p) d"

definition forget_path :: "int \<Rightarrow> 'c machine \<Rightarrow> 'c machine" where
  "forget_path p m =
     (let m1 = foldl (\<lambda>m' (sid, _). release sid m') m (on_path p (mpending m))
      in m1\<lparr>framers := AList.delete p (framers m1), out_path := AList.delete p (out_path m1)\<rparr>)"

definition on_path_eof :: "int \<Rightarrow> 'c machine \<Rightarrow> 'c machine" where
  "on_path_eof p m =
     emit (PathLost p)
       (forget_path p
         (m\<lparr>events := events m
             @ fail_all (XrdConnectionError ''data path closed by peer'') (on_path p (mpending m))\<rparr>))"

definition receive_data :: "'c env \<Rightarrow> bytes \<Rightarrow> int \<Rightarrow> 'c machine \<Rightarrow> 'c mres" where
  "receive_data ev data p m =
     (let f = (case map_of (framers m) p of None \<Rightarrow> Framer | Some f \<Rightarrow> f);
          m1 = m\<lparr>framers := AList.update p f (framers m)\<rparr>
      in if data = [] then Inr (if p = 0 then on_eof m1 else on_path_eof p m1)
         else (case parse ev (m1, f\<lparr>fr_buffer := fr_buffer f @ data\<rparr>) of
                 Inl (e, m2, f') \<Rightarrow> Inl (e, m2\<lparr>framers := AList.update p f' (framers m2)\<rparr>)
               | Inr (m2, f') \<Rightarrow> Inr (m2\<lparr>framers := AList.update p f' (framers m2)\<rparr>)))"

definition next_event :: "'c machine \<Rightarrow> event option \<times> 'c machine" where
  "next_event m = (case events m of [] \<Rightarrow> (None, m) | e # es \<Rightarrow> (Some e, m\<lparr>events := es\<rparr>))"

definition in_flight :: "'c machine \<Rightarrow> nat" where
  "in_flight m = length (mpending m)"

end
