(* ===== verification/Machine_Lifecycle.thy ===== *)
theory Machine_Lifecycle
  imports Session_Machine
begin

text \<open>
  Everything a driver can do to a \<^verbatim>\<open>SessionMachine\<close> as a step relation, and the invariants of
  the states it can reach. \<open>machine_step\<close> has one rule per public method; a method that raises
  still is a step, to the state it left behind. The locale \<open>machine_invariant\<close> asks of a
  candidate invariant what the primitive updates, the bring-up handler and the outbound
  methods do to it, and concludes that every reachable machine satisfies it; its
  interpretations are the stream-id discipline, the TLS policy, and the silence before login.
\<close>

section \<open>Steps and reachable machines\<close>

definition final :: "('e \<times> 'm) + 'm \<Rightarrow> 'm" where
  "final r = (case r of Inl (_, m) \<Rightarrow> m | Inr m \<Rightarrow> m)"

lemma final_simps [simp]: "final (Inl (e, m)) = m" "final (Inr m) = m"
  by (simp_all add: final_def)

lemma final_bindE:
  "final (bindE r f) = (case r of Inl (e, m) \<Rightarrow> m | Inr a \<Rightarrow> final (f a))"
  by (cases r) (auto simp: final_def)

lemma final_raise_at: "final (bindE (raise_at m x) f) = (case x of Inl _ \<Rightarrow> m | Inr a \<Rightarrow> final (f a))"
  by (cases x) auto

text \<open>\<open>submit\<close> without the stream id it returns.\<close>

definition submitted :: "'c env \<Rightarrow> request \<Rightarrow> str \<Rightarrow> bool \<Rightarrow> 'c machine \<Rightarrow> 'c mres" where
  "submitted ev req path arr m = bindE (submit ev req path arr m) (\<lambda>(sid, m'). Inr m')"

inductive machine_step :: "'c env \<Rightarrow> 'c machine \<Rightarrow> 'c machine \<Rightarrow> bool" for ev where
  step_start: "machine_step ev m (final (start m))"
| step_drain: "machine_step ev m (snd (data_to_send m))"
| step_drain_path: "machine_step ev m (snd (path_data_to_send p m))"
| step_submit: "machine_step ev m (final (submitted ev req path arr m))"
| step_resume: "machine_step ev m (final (resume sid m))"
| step_release: "machine_step ev m (release sid m)"
| step_close: "machine_step ev m (final (close graceful m))"
| step_tls: "machine_step ev m (final (tls_established ev m))"
| step_receive: "machine_step ev m (final (receive_data ev data p m))"
| step_forget: "machine_step ev m (forget_path p m)"
| step_event: "machine_step ev m (snd (next_event m))"

inductive reachable :: "'c env \<Rightarrow> 'c machine \<Rightarrow> bool" for ev where
  reach_init: "reachable ev (SessionMachine h p cap cu rt u want bind creds)"
| reach_step: "reachable ev m \<Longrightarrow> machine_step ev m m' \<Longrightarrow> reachable ev m'"

definition bringup_states :: "state set" where
  "bringup_states = {HANDSHAKING, PROTOCOL, LOGIN, AUTH, BINDING}"

section \<open>What an invariant has to satisfy\<close>

text \<open>
  A property of machines that everything a link delivers preserves; one that every step
  preserves; an invariant also holds at the start.
\<close>

locale inbound_preserved =
  fixes ev :: "'c env"
    and inv :: "'c machine \<Rightarrow> bool"
  assumes inv_framers: "inv m \<Longrightarrow> inv (m\<lparr>framers := fs\<rparr>)"
    and inv_events: "inv m \<Longrightarrow> inv (m\<lparr>events := es\<rparr>)"
    and inv_release: "inv m \<Longrightarrow> inv (release sid m)"
    and inv_set_pending: "inv m \<Longrightarrow> sid \<in> keys (mpending m) \<Longrightarrow> inv (set_pending sid q m)"
    and inv_bringup: "inv m \<Longrightarrow> mstate m \<in> bringup_states \<Longrightarrow> inv (final (bringup ev rh body m))"
    and inv_eof: "inv m \<Longrightarrow> inv (on_eof m)"
    and inv_drain: "inv m \<Longrightarrow> inv (snd (data_to_send m))"
    and inv_out_path: "inv m \<Longrightarrow> inv (m\<lparr>out_path := AList.delete p (out_path m)\<rparr>)"
begin

lemma inv_emit: "inv m \<Longrightarrow> inv (emit e m)"
  by (simp add: emit_def inv_events)

lemma inv_status_data: "inv m \<Longrightarrow> inv (on_status_data sid data m)"
  by (auto simp: on_status_data_def intro!: inv_emit inv_release inv_set_pending
      dest: map_of_in_keys split: option.splits)

lemma inv_response:
  assumes "inv m" and "map_of (mpending m) (rh_streamid h) = Some q"
  shows "inv (fst (final (on_response h body q (m, f))))"
proof -
  from assms(2) have "rh_streamid h \<in> keys (mpending m)" by (rule map_of_in_keys)
  with assms(1) show ?thesis
    unfolding on_response_def
    by (auto simp: Let_def final_raise_at split: sum.splits
        intro!: inv_emit inv_release inv_status_data inv_set_pending)
qed

lemma inv_dispatch_inner:
  "inv m \<Longrightarrow> inv (fst (final (dispatch_inner ev h body (m, f))))"
  using inv_bringup [of m h body] inv_response [of m h _ body f]
  by (auto simp: dispatch_inner_def bringup_states_def split: sum.splits option.splits)

lemma inv_dispatch:
  "inv m \<Longrightarrow> inv (fst (final (dispatch ev h body (m, f))))"
  by (auto simp: dispatch_def final_raise_at split: sum.splits intro: inv_emit inv_dispatch_inner)

lemma inv_parse_step:
  assumes "inv (fst mf)" and "parse_step ev mf = Some r"
  shows "inv (fst (final r))"
  using assms inv_dispatch [of "fst mf"]
  by (cases mf) (auto simp: parse_step_def Let_def split: if_splits option.splits sum.splits
      intro: inv_status_data)

lemma inv_parse: "inv (fst mf) \<Longrightarrow> inv (fst (final (parse ev mf)))"
proof (induction "backlog (snd mf)" arbitrary: mf rule: less_induct)
  case less
  show ?case
  proof (cases "parse_step ev mf")
    case None
    with less.prems show ?thesis by (simp add: parse.simps)
  next
    case (Some r)
    with less.prems have r: "inv (fst (final r))" by (rule inv_parse_step)
    show ?thesis
    proof (cases r)
      case (Inl x)
      with Some r show ?thesis by (simp add: parse.simps)
    next
      case (Inr mf')
      with Some r less.hyps [of mf'] parse_step_backlog [of ev mf mf'] show ?thesis
        by (simp add: parse.simps [of ev mf])
    qed
  qed
qed

lemma inv_forget_path: "inv m \<Longrightarrow> inv (forget_path p m)"
proof -
  have "inv (foldl (\<lambda>m' (sid, _). release sid m') n d)" if "inv n" for n and d :: "(int, pending) dict"
    using that by (induction d arbitrary: n) (auto intro: inv_release)
  moreover assume "inv m"
  ultimately have "inv (foldl (\<lambda>m' (sid, _). release sid m') m (on_path p (mpending m)))" (is "inv ?n")
    by blast
  then have "inv (?n\<lparr>framers := AList.delete p (framers ?n)\<rparr>)" by (rule inv_framers)
  from inv_out_path [OF this, of p] show ?thesis by (simp add: forget_path_def Let_def)
qed

lemma inv_path_eof: "inv m \<Longrightarrow> inv (on_path_eof p m)"
  unfolding on_path_eof_def by (intro inv_emit inv_forget_path inv_events)

lemma inv_receive:
  assumes "inv m"
  shows "inv (final (receive_data ev data p m))"
proof -
  let ?f = "case map_of (framers m) p of None \<Rightarrow> Framer | Some f \<Rightarrow> f"
  let ?m = "m\<lparr>framers := AList.update p ?f (framers m)\<rparr>"
  let ?mf = "(?m, ?f\<lparr>fr_buffer := fr_buffer ?f @ data\<rparr>)"
  from assms have m: "inv ?m" by (rule inv_framers)
  show ?thesis
  proof (cases "data = []")
    case True
    with inv_eof [OF m] inv_path_eof [OF m, of p] show ?thesis by (auto simp: receive_data_def Let_def)
  next
    case False
    from m have "inv (fst (final (parse ev ?mf)))" by (intro inv_parse) simp
    with False show ?thesis
      by (cases "parse ev ?mf") (auto simp: receive_data_def Let_def intro: inv_framers)
  qed
qed

end

locale machine_preserved = inbound_preserved +
  assumes inv_start: "inv m \<Longrightarrow> inv (final (start m))"
    and inv_submit: "inv m \<Longrightarrow> inv (final (submitted ev req path arr m))"
    and inv_resume: "inv m \<Longrightarrow> inv (final (resume sid m))"
    and inv_close: "inv m \<Longrightarrow> inv (final (close graceful m))"
    and inv_tls: "inv m \<Longrightarrow> inv (final (tls_established ev m))"
begin

lemma inv_machine_step: "machine_step ev m m' \<Longrightarrow> inv m \<Longrightarrow> inv m'"
  by (induction rule: machine_step.induct)
     (auto simp: path_data_to_send_def next_event_def split: list.splits
      intro: inv_release inv_start inv_drain inv_out_path inv_submit inv_resume inv_close inv_tls
        inv_receive inv_forget_path inv_events)

end

locale machine_invariant = machine_preserved +
  assumes inv_init: "inv (SessionMachine h p cap cu rt u want bind creds)"
begin

lemma inv_reachable: "reachable ev m \<Longrightarrow> inv m"
  by (induction rule: reachable.induct) (auto intro: inv_init inv_machine_step)

end

section \<open>What the handlers touch\<close>

text \<open>Field-by-field effects of the primitive updates, used by every invariant below.\<close>

lemma emit_sel [simp]:
  "mstate (emit e m) = mstate m" "mpending (emit e m) = mpending m" "free (emit e m) = free m"
  "next_sid (emit e m) = next_sid m" "out (emit e m) = out m" "out_path (emit e m) = out_path m"
  "want_tls (emit e m) = want_tls m" "proto_info (emit e m) = proto_info m"
  "tls_active (emit e m) = tls_active m" "credential (emit e m) = credential m"
  "msigner (emit e m) = msigner m" "bind_to (emit e m) = bind_to m"
  "events (emit e m) = events m @ [e]" "session_id (emit e m) = session_id m"
  "framers (emit e m) = framers m"
  by (simp_all add: emit_def)

lemma queue_out_sel [simp]:
  "mstate (queue_out b m) = mstate m" "mpending (queue_out b m) = mpending m"
  "free (queue_out b m) = free m" "next_sid (queue_out b m) = next_sid m"
  "out (queue_out b m) = out m @ b" "out_path (queue_out b m) = out_path m"
  "want_tls (queue_out b m) = want_tls m" "proto_info (queue_out b m) = proto_info m"
  "tls_active (queue_out b m) = tls_active m" "credential (queue_out b m) = credential m"
  "msigner (queue_out b m) = msigner m" "bind_to (queue_out b m) = bind_to m"
  "events (queue_out b m) = events m" "session_id (queue_out b m) = session_id m"
  "framers (queue_out b m) = framers m"
  by (simp_all add: queue_out_def)

lemma queue_path_sel [simp]:
  "mstate (queue_path p b m) = mstate m" "mpending (queue_path p b m) = mpending m"
  "free (queue_path p b m) = free m" "next_sid (queue_path p b m) = next_sid m"
  "out (queue_path p b m) = out m" "want_tls (queue_path p b m) = want_tls m"
  "proto_info (queue_path p b m) = proto_info m" "tls_active (queue_path p b m) = tls_active m"
  "credential (queue_path p b m) = credential m" "msigner (queue_path p b m) = msigner m"
  "events (queue_path p b m) = events m" "framers (queue_path p b m) = framers m"
  by (simp_all add: queue_path_def)

lemma release_sel [simp]:
  "mstate (release s m) = mstate m" "next_sid (release s m) = next_sid m"
  "out (release s m) = out m" "out_path (release s m) = out_path m"
  "want_tls (release s m) = want_tls m" "proto_info (release s m) = proto_info m"
  "tls_active (release s m) = tls_active m" "credential (release s m) = credential m"
  "msigner (release s m) = msigner m" "events (release s m) = events m"
  "mpending (release s m) = AList.delete s (mpending m)"
  by (auto simp: release_def Let_def map_of_None_keys split: option.splits)

lemma set_pending_sel [simp]:
  "mstate (set_pending s q m) = mstate m" "next_sid (set_pending s q m) = next_sid m"
  "free (set_pending s q m) = free m" "out (set_pending s q m) = out m"
  "out_path (set_pending s q m) = out_path m" "want_tls (set_pending s q m) = want_tls m"
  "proto_info (set_pending s q m) = proto_info m" "tls_active (set_pending s q m) = tls_active m"
  "credential (set_pending s q m) = credential m" "msigner (set_pending s q m) = msigner m"
  "events (set_pending s q m) = events m"
  "mpending (set_pending s q m) = AList.update s q (mpending m)"
  by (simp_all add: set_pending_def)

text \<open>What no bring-up handler changes.\<close>

definition keeps :: "'c machine \<Rightarrow> 'c machine \<Rightarrow> bool" where
  "keeps m m' \<longleftrightarrow> mpending m' = mpending m \<and> free m' = free m \<and> next_sid m' = next_sid m
     \<and> want_tls m' = want_tls m \<and> tls_active m' = tls_active m \<and> out_path m' = out_path m
     \<and> bind_to m' = bind_to m \<and> framers m' = framers m"

lemma keeps_refl [simp]: "keeps m m"
  by (simp add: keeps_def)

lemma keeps_trans: "keeps m m' \<Longrightarrow> keeps m' m'' \<Longrightarrow> keeps m m''"
  by (simp add: keeps_def)

lemma fail_keeps: "keeps m (fail e m)" "mstate (fail e m) = FAILED" "proto_info (fail e m) = proto_info m"
    "out (fail e m) = out m"
  by (simp_all add: fail_def keeps_def emit_def)

lemma begin_login_keeps:
  "keeps m (final (begin_login ev m)) \<and> proto_info (final (begin_login ev m)) = proto_info m
   \<and> mstate (final (begin_login ev m)) = (if bind_to m = [] then LOGIN else BINDING)"
  by (auto simp: begin_login_def keeps_def Let_def final_raise_at queue_out_def split: sum.splits)

lemma become_ready_keeps:
  "keeps m (become_ready ev m)" "proto_info (become_ready ev m) = proto_info m"
  "mstate (become_ready ev m) = READY" "out (become_ready ev m) = out m"
  by (auto simp: become_ready_def keeps_def Let_def emit_def split: option.splits)

lemma after_protocol_keeps:
  "keeps m (final (after_protocol ev m)) \<and> proto_info (final (after_protocol ev m)) = proto_info m"
  using begin_login_keeps [of m ev]
  by (auto simp: after_protocol_def Let_def fail_keeps) (simp_all add: keeps_def)

definition auth_keeps :: "'c machine \<Rightarrow> 'c machine \<Rightarrow> bool" where
  "auth_keeps m m' \<longleftrightarrow> keeps m m' \<and> proto_info m' = proto_info m \<and> mstate m' \<in> {mstate m, FAILED}"

lemma climb_keeps: "auth_keeps m (final (climb ev rs m))"
proof (induction ev rs m rule: climb.induct)
  case (4 ev c rs m)
  show ?case
  proof (cases "env_initial ev c")
    case (Pair r c')
    with 4 show ?thesis
      by (cases r) (auto simp: auth_keeps_def keeps_def final_raise_at Let_def split: sum.splits)
  qed
qed (simp_all add: auth_keeps_def keeps_def fail_def)

lemma next_credential_keeps:
  assumes "keeps m n" and "proto_info n = proto_info m" and "mstate n = mstate m"
  shows "auth_keeps m (final (next_credential ev sec n))"
  using climb_keeps [of n ev] assms
  by (auto simp: next_credential_def auth_keeps_def dest: keeps_trans)

lemma auth_step_keeps: "auth_keeps m (final (auth_step ev b m))"
proof (cases "credential m")
  case None
  then show ?thesis by (simp add: auth_step_def auth_keeps_def fail_keeps)
next
  case (Some c)
  have 1: "auth_keeps m (final (next_credential ev [] (m\<lparr>credential := c', auth_rejected := r\<rparr>)))" for c' r
    by (rule next_credential_keeps) (simp_all add: keeps_def)
  have 2: "auth_keeps m (m\<lparr>credential := c'\<rparr>)" "auth_keeps m (queue_out f (m\<lparr>credential := c'\<rparr>))" for c' f
    by (simp_all add: auth_keeps_def keeps_def queue_out_def)
  obtain r c' where e: "env_step ev c b = (r, c')" by (cases "env_step ev c b")
  show ?thesis
  proof (cases r)
    case (Inl x)
    with Some e 1 show ?thesis by (simp add: auth_step_def)
  next
    case (Inr ob)
    then show ?thesis
    proof (cases ob)
      case None
      with Inr Some e show ?thesis by (simp add: auth_step_def 1 del: machine.simps)
    next
      case (Some blob)
      with Inr \<open>credential m = Some c\<close> e 2 show ?thesis
        by (simp add: auth_step_def Let_def final_raise_at split: sum.splits)
    qed
  qed
qed

text \<open>The states a bring-up answer leads to, and what it leaves alone.\<close>

definition bringup_next :: "state \<Rightarrow> state set" where
  "bringup_next s =
     (case s of
        HANDSHAKING \<Rightarrow> {HANDSHAKING, PROTOCOL, FAILED}
      | PROTOCOL \<Rightarrow> {PROTOCOL, TLS, LOGIN, BINDING, FAILED}
      | LOGIN \<Rightarrow> {LOGIN, AUTH, READY, FAILED}
      | AUTH \<Rightarrow> {AUTH, READY, FAILED}
      | BINDING \<Rightarrow> {BINDING, READY, FAILED}
      | _ \<Rightarrow> {s})"

lemma bringup_protocol_keeps:
  fixes m :: "'c machine" and ev
  defines "n e i \<equiv> final (after_protocol ev (emit e (m\<lparr>proto_info := i\<rparr>)))"
  shows "keeps m (n e i)" and "mstate (n e i) \<in> {TLS, LOGIN, BINDING, FAILED}"
proof -
  have "keeps m (emit e (m\<lparr>proto_info := i\<rparr>))" by (simp add: keeps_def)
  with after_protocol_keeps [of "emit e (m\<lparr>proto_info := i\<rparr>)" ev]
  show "keeps m (n e i)" by (auto simp: n_def dest: keeps_trans)
  show "mstate (n e i) \<in> {TLS, LOGIN, BINDING, FAILED}"
    using begin_login_keeps [of "emit e (m\<lparr>proto_info := i\<rparr>)" ev]
    by (auto simp: n_def after_protocol_def Let_def fail_keeps)
qed

lemma bringup_login_keeps:
  fixes m :: "'c machine" and ev body
  assumes "mstate m = LOGIN" and "rh_status h \<in> {kXR_ok, kXR_authmore}"
  defines "n \<equiv> final (bringup ev h body m)"
  shows "keeps m n \<and> proto_info n = proto_info m \<and> mstate n \<in> {LOGIN, AUTH, READY, FAILED}"
proof (cases "parse_login body")
  case (Inl e)
  with assms show ?thesis by (auto simp: bringup_def)
next
  case (Inr l)
  let ?m1 = "m\<lparr>session_id := lg_sessid l, offered := lg_mechanisms l\<rparr>"
  let ?m2 = "?m1\<lparr>mstate := AUTH\<rparr>"
  have k: "keeps m ?m1" "keeps m ?m2" by (simp_all add: keeps_def)
  show ?thesis
  proof (cases "lg_sec l = []")
    case True
    with assms Inr have "n = become_ready ev ?m1" by (auto simp: bringup_def Let_def)
    with keeps_trans [OF k(1) become_ready_keeps(1)] show ?thesis by (simp add: become_ready_keeps)
  next
    case False
    with assms Inr have "n = final (next_credential ev (lg_sec l) ?m2)" by (auto simp: bringup_def Let_def)
    with next_credential_keeps [of ?m2 ?m2 ev "lg_sec l"] keeps_trans [OF k(2)] show ?thesis
      by (auto simp: auth_keeps_def)
  qed
qed

lemma bringup_keeps_all:
  fixes m :: "'c machine" and ev h body
  assumes "mstate m \<in> bringup_states"
  defines "n \<equiv> final (bringup ev h body m)"
  shows "keeps m n \<and> (mstate m \<noteq> PROTOCOL \<longrightarrow> proto_info n = proto_info m)
     \<and> mstate n \<in> bringup_next (mstate m)"
proof (cases "rh_status h \<in> {kXR_ok, kXR_authmore}")
  case False
  with assms show ?thesis
    by (auto simp: bringup_def final_raise_at fail_keeps bringup_next_def bringup_states_def split: sum.splits)
next
  case ok: True
  consider "mstate m = HANDSHAKING" | "mstate m = PROTOCOL" | "mstate m = BINDING"
    | "mstate m = LOGIN" | "mstate m = AUTH"
    using assms by (auto simp: bringup_states_def)
  then show ?thesis
  proof cases
    case 1
    with ok show ?thesis by (auto simp: n_def bringup_def bringup_next_def keeps_def)
  next
    case 2
    with ok bringup_protocol_keeps [where m = m and ev = ev] show ?thesis
      by (auto simp: n_def bringup_def bringup_next_def final_raise_at split: sum.splits)
  next
    case 3
    have "keeps m (m\<lparr>pathid := p\<rparr>)" for p by (simp add: keeps_def)
    with 3 ok show ?thesis
      by (auto simp: n_def bringup_def bringup_next_def final_raise_at become_ready_keeps
          split: sum.splits intro: keeps_trans become_ready_keeps(1))
  next
    case 4
    with ok bringup_login_keeps [where m = m and h = h and ev = ev and body = body] show ?thesis by (simp add: n_def bringup_next_def)
  next
    case 5
    with ok auth_step_keeps [of m ev body] show ?thesis
      by (auto simp: n_def bringup_def bringup_next_def become_ready_keeps auth_keeps_def)
  qed
qed

lemmas bringup_keeps = bringup_keeps_all [THEN conjunct1]
lemmas bringup_proto_info = bringup_keeps_all [THEN conjunct2, THEN conjunct1, rule_format]
lemmas bringup_mstate = bringup_keeps_all [THEN conjunct2, THEN conjunct2]

section \<open>Outbound handlers\<close>

text \<open>Framing a request changes nothing but the signer.\<close>

lemma signed_frame_result:
  "case signed_frame ev req sid m of
     Inl (e, m') \<Rightarrow> m' = m\<lparr>msigner := msigner m'\<rparr> | Inr (f, m') \<Rightarrow> m' = m\<lparr>msigner := msigner m'\<rparr>"
proof (cases "encode (cls req) sid")
  case (Inl e)
  then show ?thesis by (simp add: signed_frame_def)
next
  case frame: (Inr frame)
  show ?thesis
  proof (cases "msigner m")
    case None
    with frame show ?thesis by (simp add: signed_frame_def)
  next
    case (Some s)
    obtain res s' where "sign (env_hmac ev) s frame = (res, s')" by fastforce
    with frame Some show ?thesis
      by (auto simp: signed_frame_def Let_def bindE_def raise_at_def
          split: sum.splits option.splits prod.splits)
  qed
qed

lemma signed_frame_Inr: "signed_frame ev req sid m = Inr (f, m') \<Longrightarrow> m' = m\<lparr>msigner := msigner m'\<rparr>"
  using signed_frame_result [where ev = ev and req = req and sid = sid and m = m] by simp

lemma signed_frame_Inl: "signed_frame ev req sid m = Inl (e, m') \<Longrightarrow> m' = m\<lparr>msigner := msigner m'\<rparr>"
  using signed_frame_result [where ev = ev and req = req and sid = sid and m = m] by simp

lemma send_Inl:
  assumes "send ev req sid path arr m = Inl (e, m')"
  obtains s where "m' = m\<lparr>msigner := s\<rparr>"
proof -
  from assms have "signed_frame ev req sid m = Inl (e, m')"
    by (auto simp: send_def bindE_eq_Inl Let_def split: if_splits)
  then show thesis by (intro that) (rule signed_frame_Inl)
qed

text \<open>The record a request leaves in \<^verbatim>\<open>_pending\<close>.\<close>

definition fresh_pending :: "request \<Rightarrow> bytes \<Rightarrow> str \<Rightarrow> pending" where
  "fresh_pending req frame path =
     \<lparr>pd_request = req, pd_frame = frame, pd_buffer = [], pd_status = None, pd_path = path,
      pd_pathid = rq_pathid (cls req), pd_path_bytes = rq_path_data (cls req)\<rparr>"

lemma send_Inr:
  assumes "send ev req sid path arr m = Inr m'"
  obtains frame where "mpending m' = AList.update sid (fresh_pending req frame path) (mpending m)"
    and "free m' = free m" "next_sid m' = next_sid m" "mstate m' = mstate m" "want_tls m' = want_tls m"
      "proto_info m' = proto_info m" "tls_active m' = tls_active m" "events m' = events m"
      "credential m' = credential m"
proof -
  from assms obtain frame m1 where f: "signed_frame ev req sid m = Inr (frame, m1)"
    by (auto simp: send_def bindE_eq_Inr)
  have m1: "m1 = m\<lparr>msigner := msigner m1\<rparr>" using f by (rule signed_frame_Inr)
  have sel: "mpending m1 = mpending m" "free m1 = free m" "next_sid m1 = next_sid m" "mstate m1 = mstate m"
    "want_tls m1 = want_tls m" "proto_info m1 = proto_info m" "tls_active m1 = tls_active m"
    "events m1 = events m" "credential m1 = credential m"
    by (subst m1, simp)+
  show thesis
    by (rule that [of frame])
       (use assms f sel in \<open>auto simp: send_def fresh_pending_def Let_def split: if_splits\<close>)
qed

lemma acquire_sid_sel:
  assumes "acquire_sid m = Inr (sid, m')"
  shows "mpending m' = mpending m" "mstate m' = mstate m" "want_tls m' = want_tls m"
    "proto_info m' = proto_info m" "tls_active m' = tls_active m" "events m' = events m"
    "credential m' = credential m" "out m' = out m" "out_path m' = out_path m" "msigner m' = msigner m"
  using assms by (auto simp: acquire_sid_def Let_def split: if_splits)

lemma acquire_sid_Inl:
  "acquire_sid m = Inl (e, m') \<Longrightarrow> free m = [] \<and> next_sid m \<in> keys (mpending m)
     \<and> m' = m\<lparr>next_sid := if next_sid m + 1 > 0xFFFF then FIRST_SID else next_sid m + 1\<rparr>"
  by (auto simp: acquire_sid_def Let_def split: if_splits)

section \<open>Stream ids\<close>

text \<open>
  Ids in flight are distinct, ids on the free list are distinct and none of them is in flight,
  and every id is one of those that fit the header's 16-bit field above the ones reserved for
  bring-up.
\<close>

definition ids_ok :: "'c machine \<Rightarrow> bool" where
  "ids_ok m \<longleftrightarrow> distinct (map fst (mpending m)) \<and> distinct (free m)
     \<and> set (free m) \<inter> keys (mpending m) = {}
     \<and> keys (mpending m) \<union> set (free m) \<subseteq> {FIRST_SID..0xFFFF} \<and> next_sid m \<in> {FIRST_SID..0xFFFF}"

lemma ids_ok_upd [simp]:
  "ids_ok (emit e m) = ids_ok m" "ids_ok (queue_out b m) = ids_ok m" "ids_ok (queue_path p b m) = ids_ok m"
  "ids_ok (m\<lparr>mstate := st\<rparr>) = ids_ok m" "ids_ok (m\<lparr>framers := fs\<rparr>) = ids_ok m"
  "ids_ok (m\<lparr>events := es\<rparr>) = ids_ok m" "ids_ok (m\<lparr>out_path := ps\<rparr>) = ids_ok m"
  "ids_ok (m\<lparr>out := b\<rparr>) = ids_ok m" "ids_ok (m\<lparr>msigner := s\<rparr>) = ids_ok m"
  by (simp_all add: ids_ok_def)

lemma ids_ok_keeps: "keeps m m' \<Longrightarrow> ids_ok m' = ids_ok m"
  by (simp add: keeps_def ids_ok_def)

lemma ids_ok_release:
  assumes "ids_ok m"
  shows "ids_ok (release sid m)"
proof (cases "map_of (mpending m) sid")
  case None
  with assms show ?thesis by (simp add: release_def)
next
  case (Some q)
  then have "sid \<in> keys (mpending m)" by (rule map_of_in_keys)
  with assms have "sid \<notin> set (free m)" "sid \<in> {FIRST_SID..0xFFFF}" unfolding ids_ok_def by blast+
  with assms Some show ?thesis
    by (auto simp: ids_ok_def release_def Let_def distinct_delete)
qed

lemma acquire_sid_ids_ok:
  assumes "ids_ok m" and "acquire_sid m = Inr (sid, m')"
  shows "ids_ok m' \<and> sid \<in> {FIRST_SID..0xFFFF} \<and> sid \<notin> keys (mpending m') \<and> sid \<notin> set (free m')"
proof (cases "free m = []")
  case True
  with assms show ?thesis
    by (auto simp: ids_ok_def acquire_sid_def Let_def image_subset_iff split: if_splits)
next
  case False
  then obtain fs l where fs: "free m = fs @ [l]" by (metis rev_exhaust)
  with assms(2) have "m' = m\<lparr>free := fs\<rparr>" "sid = l" by (auto simp: acquire_sid_def)
  with assms(1) fs show ?thesis by (auto simp: ids_ok_def)
qed

lemma acquire_sid_Inl_ids_ok:
  "ids_ok m \<Longrightarrow> acquire_sid m = Inl (e, m') \<Longrightarrow> ids_ok m'"
  by (drule acquire_sid_Inl) (simp add: ids_ok_def)

lemma submit_Inr:
  assumes "submit ev req path arr m = Inr (sid, m')"
  obtains m1 where "mstate m = READY" and "acquire_sid m = Inr (sid, m1)"
    and "send ev req sid path arr m1 = Inr m'"
  using assms by (auto simp: submit_def bindE_eq_Inr split: if_splits)

lemma ids_ok_enter:
  assumes "ids_ok m" and "sid \<notin> keys (mpending m)" and "sid \<notin> set (free m)" and "sid \<in> {FIRST_SID..0xFFFF}"
    and "mpending m' = AList.update sid q (mpending m)" and "free m' = free m" and "next_sid m' = next_sid m"
  shows "ids_ok m'"
  using assms by (auto simp: ids_ok_def distinct_update)

lemma submitted_cases:
  obtains (refused) "mstate m \<noteq> READY" "final (submitted ev req path arr m) = m"
  | (exhausted) e m1 where "mstate m = READY" "acquire_sid m = Inl (e, m1)"
      "final (submitted ev req path arr m) = m1"
  | (unsent) e sid m1 m2 where "mstate m = READY" "acquire_sid m = Inr (sid, m1)"
      "send ev req sid path arr m1 = Inl (e, m2)" "final (submitted ev req path arr m) = m2"
  | (sent) sid m1 m2 where "mstate m = READY" "acquire_sid m = Inr (sid, m1)"
      "send ev req sid path arr m1 = Inr m2" "final (submitted ev req path arr m) = m2"
proof (cases "mstate m = READY")
  case False
  then show thesis by (intro refused) (auto simp: submitted_def submit_def)
next
  case ready: True
  show thesis
  proof (cases "acquire_sid m")
    case (Inl x)
    with ready show thesis by (cases x) (auto intro: exhausted simp: submitted_def submit_def)
  next
    case acq: (Inr y)
    obtain sid m1 where y: "y = (sid, m1)" by (cases y)
    show thesis
    proof (cases "send ev req sid path arr m1")
      case (Inl x)
      with ready acq y show thesis by (cases x) (auto intro: unsent simp: submitted_def submit_def)
    next
      case (Inr m2)
      with ready acq y show thesis by (auto intro: sent simp: submitted_def submit_def)
    qed
  qed
qed

lemma ids_ok_submitted:
  assumes "ids_ok m"
  shows "ids_ok (final (submitted ev req path arr m))"
proof (cases rule: submitted_cases [of m ev req path arr])
  case (unsent e sid m1 m2)
  then have "ids_ok m2 = ids_ok m1" by (elim send_Inl) (simp add: ids_ok_def)
  with unsent assms show ?thesis by (auto dest: acquire_sid_ids_ok)
next
  case (sent sid m1 m2)
  with assms have "ids_ok m1 \<and> sid \<in> {FIRST_SID..0xFFFF} \<and> sid \<notin> keys (mpending m1) \<and> sid \<notin> set (free m1)"
    by (blast dest: acquire_sid_ids_ok)
  with sent show ?thesis by (auto elim!: send_Inr intro: ids_ok_enter)
qed (use assms in \<open>auto dest: acquire_sid_Inl_ids_ok\<close>)

lemma start_cases:
  obtains (twice) "mstate m \<noteq> NEW" "final (start m) = m"
  | (raised) e where "mstate m = NEW"
      "encode (cls (Protocol (kXR_secreqs OR kXR_ableTLS OR (if want_tls m then kXR_wantTLS else 0))))
         SID_PROTOCOL = Inl e" "final (start m) = queue_out HANDSHAKE m"
  | (queued) frame where "mstate m = NEW"
      "encode (cls (Protocol (kXR_secreqs OR kXR_ableTLS OR (if want_tls m then kXR_wantTLS else 0))))
         SID_PROTOCOL = Inr frame"
      "final (start m) = (queue_out frame (queue_out HANDSHAKE m))\<lparr>mstate := HANDSHAKING\<rparr>"
proof (cases "mstate m = NEW")
  case False
  then show thesis by (intro twice) (simp_all add: start_def)
next
  case True
  let ?p = "Protocol (kXR_secreqs OR kXR_ableTLS OR (if want_tls m then kXR_wantTLS else 0))"
  show thesis
  proof (cases "encode (cls ?p) SID_PROTOCOL")
    case (Inl e)
    with True show thesis by (intro raised [of e]) (simp_all add: start_def Let_def)
  next
    case (Inr f)
    with True show thesis by (intro queued [of f]) (simp_all add: start_def Let_def)
  qed
qed

lemma ids_ok_start: "ids_ok m \<Longrightarrow> ids_ok (final (start m))"
  by (cases rule: start_cases [of m]) simp_all

lemma resume_cases:
  obtains (idle) "map_of (mpending m) sid = None" "final (resume sid m) = m"
  | (again) q where "map_of (mpending m) sid = Some q"
      "final (resume sid m) = (let m1 = queue_out (pd_frame q) m in
         if pd_path_bytes q \<noteq> [] then queue_path (pd_pathid q) (pd_path_bytes q) m1 else m1)"
  by (cases "map_of (mpending m) sid") (simp_all add: resume_def Let_def)

lemma ids_ok_resume: "ids_ok m \<Longrightarrow> ids_ok (final (resume sid m))"
  by (cases rule: resume_cases [of m sid]) (simp_all add: Let_def)

text \<open>\<^verbatim>\<open>close()\<close> either leaves a closed machine or raises before it touched the state.\<close>

lemma close_cases:
  obtains (closed) e n where "final (close g m) = emit e (n\<lparr>mstate := CLOSED\<rparr>)"
      "n = m \<or> (\<exists>sid m1 frame. acquire_sid m = Inr (sid, m1) \<and> n = queue_out frame m1)"
  | (raised) m1 where "final (close g m) = m1" "mstate m = READY"
      "(\<exists>e. acquire_sid m = Inl (e, m1)) \<or> (\<exists>sid. acquire_sid m = Inr (sid, m1))"
proof (cases "mstate m = READY \<and> g \<and> session_id m \<noteq> []")
  case False
  then show thesis by (intro closed [of _ m]) (auto simp: close_def)
next
  case True
  show thesis
  proof (cases "acquire_sid m")
    case (Inl x)
    with True show thesis by (cases x) (auto intro: raised simp: close_def)
  next
    case (Inr y)
    obtain sid m1 where y: "y = (sid, m1)" by (cases y)
    show thesis
    proof (cases "encode (cls (EndSession (session_id m))) sid")
      case (Inl e)
      with True Inr y show thesis by (intro raised [of m1]) (auto simp: close_def)
    next
      case (Inr f)
      with True \<open>acquire_sid m = Inr y\<close> y show thesis
        by (intro closed [of _ "queue_out f m1"]) (auto simp: close_def)
    qed
  qed
qed

lemma ids_ok_close: "ids_ok m \<Longrightarrow> ids_ok (final (close g m))"
  by (cases rule: close_cases [of g m])
     (auto dest: acquire_sid_ids_ok acquire_sid_Inl_ids_ok)

lemma ids_ok_eof: "ids_ok m \<Longrightarrow> ids_ok (on_eof m)"
  by (auto simp: ids_ok_def on_eof_def)

lemma ids_ok_tls: "ids_ok m \<Longrightarrow> ids_ok (final (tls_established ev m))"
  using begin_login_keeps [of "m\<lparr>tls_active := True\<rparr>" ev]
  by (auto simp: tls_established_def ids_ok_def keeps_def)

interpretation ids: machine_invariant ev ids_ok for ev :: "'c env"
proof
  show "ids_ok m \<Longrightarrow> mstate m \<in> bringup_states \<Longrightarrow> ids_ok (final (bringup ev rh body m))"
    for m :: "'c machine" and rh body
    using bringup_keeps [of m ev rh body] by (simp add: ids_ok_keeps)
qed (simp_all add: ids_ok_release ids_ok_start ids_ok_submitted ids_ok_resume ids_ok_close ids_ok_eof
    ids_ok_tls, simp_all add: ids_ok_def SessionMachine_def data_to_send_def distinct_update insert_absorb)

section \<open>TLS before anything secret\<close>

definition tls_required :: "'c machine \<Rightarrow> bool" where
  "tls_required m \<longleftrightarrow> want_tls m \<or> tls_demanded (proto_info m)"

definition secure :: "'c machine \<Rightarrow> bool" where
  "secure m \<longleftrightarrow> (mstate m \<in> {LOGIN, AUTH, BINDING, READY} \<and> tls_required m \<longrightarrow> tls_active m)"

lemma secure_upd [simp]:
  "secure (emit e m) = secure m" "secure (queue_out b m) = secure m" "secure (queue_path p b m) = secure m"
  "secure (m\<lparr>framers := fs\<rparr>) = secure m" "secure (m\<lparr>events := es\<rparr>) = secure m"
  "secure (m\<lparr>out_path := ps\<rparr>) = secure m" "secure (m\<lparr>out := b\<rparr>) = secure m"
  "secure (m\<lparr>msigner := s\<rparr>) = secure m" "secure (release sid m) = secure m"
  "secure (set_pending sid q m) = secure m" "secure (m\<lparr>next_sid := i\<rparr>) = secure m"
  by (simp_all add: secure_def tls_required_def)

lemma secure_closed [simp]: "mstate m = CLOSED \<Longrightarrow> secure m"
  by (simp add: secure_def)

lemma secure_cong:
  "mstate m' = mstate m \<Longrightarrow> want_tls m' = want_tls m \<Longrightarrow> proto_info m' = proto_info m
     \<Longrightarrow> tls_active m' = tls_active m \<Longrightarrow> secure m' = secure m"
  by (simp add: secure_def tls_required_def)

lemma secure_acquire: "acquire_sid m = Inr (sid, m') \<Longrightarrow> secure m' = secure m"
  by (intro secure_cong) (auto dest: acquire_sid_sel)

lemma secure_acquire_Inl: "acquire_sid m = Inl (e, m') \<Longrightarrow> secure m' = secure m"
  by (drule acquire_sid_Inl) simp

lemma secure_send: "send ev req sid path arr m = Inr m' \<Longrightarrow> secure m' = secure m"
  by (elim send_Inr) (rule secure_cong)

lemma secure_send_Inl: "send ev req sid path arr m = Inl (e, m') \<Longrightarrow> secure m' = secure m"
  by (elim send_Inl) simp

lemma secure_submitted: "secure m \<Longrightarrow> secure (final (submitted ev req path arr m))"
  by (cases rule: submitted_cases [of m ev req path arr])
     (simp_all add: secure_acquire secure_acquire_Inl secure_send secure_send_Inl)

lemma secure_bringup:
  assumes "secure m" and "mstate m \<in> bringup_states"
  shows "secure (final (bringup ev h body m))"
proof (cases "mstate m = PROTOCOL")
  case False
  with bringup_keeps_all [OF assms(2), where ev = ev and h = h and body = body] assms show ?thesis
    by (auto simp: secure_def tls_required_def keeps_def bringup_next_def bringup_states_def)
next
  case True
  have "secure (final (after_protocol ev n))" if "mstate n = PROTOCOL" for n :: "'a machine"
    using begin_login_keeps [of n ev]
    by (auto simp: after_protocol_def Let_def fail_keeps secure_def tls_required_def keeps_def)
  with assms True show ?thesis
    by (auto simp: bringup_def final_raise_at fail_def secure_def split: sum.splits)
qed

interpretation tls: machine_invariant ev secure for ev :: "'c env"
proof
  fix m :: "'c machine" and g
  assume m: "secure m"
  show "secure (final (start m))"
    by (cases rule: start_cases [of m]) (use m in \<open>simp_all add: secure_def\<close>)
  show "secure (final (close g m))"
    by (cases rule: close_cases [of g m])
       (use m in \<open>auto simp: secure_acquire secure_acquire_Inl\<close>)
  show "secure (final (tls_established ev m))"
    using m begin_login_keeps [of "m\<lparr>tls_active := True\<rparr>" ev]
    by (auto simp: tls_established_def secure_def keeps_def)
  show "secure (final (resume sid m))" for sid
    by (cases rule: resume_cases [of m sid]) (use m in \<open>simp_all add: Let_def\<close>)
  show "secure (on_eof m)"
    using m by (simp add: on_eof_def secure_def)
qed (simp_all add: secure_submitted secure_bringup data_to_send_def, simp_all add: secure_def SessionMachine_def)

section \<open>Silence before login\<close>

text \<open>
  Until login or bind begins, the only bytes the machine ever queues are the greeting: the
  20-byte handshake and the \<^verbatim>\<open>kXR_protocol\<close> frame, which carry no identity and no credential.
\<close>

definition greeting :: "bool \<Rightarrow> bytes" where
  "greeting tls =
     HANDSHAKE @ (case encode (cls (Protocol (kXR_secreqs OR kXR_ableTLS OR (if tls then kXR_wantTLS else 0))))
                         SID_PROTOCOL of Inl _ \<Rightarrow> [] | Inr f \<Rightarrow> f)"

definition quiet :: "'c machine \<Rightarrow> bool" where
  "quiet m \<longleftrightarrow> (mstate m \<in> {NEW, HANDSHAKING, PROTOCOL, TLS} \<longrightarrow>
     out m \<in> {[], greeting (want_tls m)} \<and> (mstate m = NEW \<longrightarrow> out m = []) \<and> out_path m = []
     \<and> mpending m = [] \<and> credential m = None \<and> msigner m = None)"

lemma greeting_encodes:
  obtains f where
    "encode (cls (Protocol (kXR_secreqs OR kXR_ableTLS OR (if tls then kXR_wantTLS else 0)))) SID_PROTOCOL = Inr f"
proof (cases "encode (cls (Protocol (kXR_secreqs OR kXR_ableTLS OR (if tls then kXR_wantTLS else 0)))) SID_PROTOCOL")
  case (Inl e)
  moreover have "case encode (cls (Protocol (kXR_secreqs OR kXR_ableTLS OR (if tls then kXR_wantTLS else 0))))
      SID_PROTOCOL of Inl _ \<Rightarrow> False | Inr _ \<Rightarrow> True"
    by (cases tls; simp del: cls.simps; code_simp)
  ultimately show thesis by simp
qed (rule that)

lemma quiet_upd [simp]:
  "quiet (emit e m) = quiet m" "quiet (m\<lparr>framers := fs\<rparr>) = quiet m" "quiet (m\<lparr>events := es\<rparr>) = quiet m"
  by (simp_all add: quiet_def)

lemma quiet_late: "mstate m \<notin> {NEW, HANDSHAKING, PROTOCOL, TLS} \<Longrightarrow> quiet m"
  by (simp add: quiet_def)

lemma quiet_start:
  assumes "quiet m"
  shows "quiet (final (start m))"
proof (cases rule: start_cases [of m])
  case raised
  obtain f where "encode (cls (Protocol (kXR_secreqs OR kXR_ableTLS OR (if want_tls m then kXR_wantTLS else 0))))
      SID_PROTOCOL = Inr f" by (rule greeting_encodes)
  with raised(2) show ?thesis by simp
next
  case (queued frame)
  then have "greeting (want_tls m) = HANDSHAKE @ frame" by (simp add: greeting_def)
  with queued assms show ?thesis by (simp add: quiet_def)
qed (simp add: assms)

lemma quiet_release: "quiet m \<Longrightarrow> quiet (release sid m)"
  by (auto simp: quiet_def)

lemma quiet_bringup:
  assumes "quiet m" and "mstate m \<in> bringup_states"
  shows "quiet (final (bringup ev h body m))"
proof (cases "mstate m \<in> {HANDSHAKING, PROTOCOL}")
  case False
  with assms bringup_mstate [OF assms(2), where ev = ev and h = h and body = body] show ?thesis
    by (intro quiet_late) (auto simp: bringup_states_def bringup_next_def)
next
  case True
  have login: "quiet (final (begin_login ev n))" for n :: "'a machine"
    using begin_login_keeps [of n ev] by (intro quiet_late) simp
  have failed: "quiet (fail e n)" for e and n :: "'a machine"
    by (intro quiet_late) (simp add: fail_def)
  have tls: "quiet (emit a (emit b (m\<lparr>proto_info := i, mstate := TLS\<rparr>)))"
    and protocol: "quiet (m\<lparr>mstate := PROTOCOL\<rparr>)" for a b i
    using assms(1) True by (auto simp: quiet_def)
  have "quiet (final (after_protocol ev (emit (Negotiated i) (m\<lparr>proto_info := i\<rparr>))))" for i
    using tls [of _ "Negotiated i"] by (simp add: after_protocol_def Let_def login failed emit_def)
  with assms(1) protocol True show ?thesis
    by (auto simp: bringup_def final_raise_at failed split: sum.splits)
qed

interpretation silent: machine_invariant ev quiet for ev :: "'c env"
proof
  fix m :: "'c machine" and g
  assume m: "quiet m"
  show "quiet (final (close g m))"
    by (cases rule: close_cases [of g m])
       (use m in \<open>auto simp: quiet_late dest: acquire_sid_sel acquire_sid_Inl\<close>)
  show "quiet (final (tls_established ev m))"
    using m begin_login_keeps [of "m\<lparr>tls_active := True\<rparr>" ev]
    by (cases "mstate m = TLS") (simp_all add: tls_established_def quiet_late)
  show "quiet (final (resume sid m))" for sid
    by (cases rule: resume_cases [of m sid]) (use m in \<open>auto simp: Let_def quiet_def\<close>)
  show "quiet (final (submitted ev req path arr m))" for req path arr
    by (cases rule: submitted_cases [of m ev req path arr])
       (use m in \<open>auto simp: acquire_sid_sel intro!: quiet_late dest!: acquire_sid_Inl elim!: send_Inl send_Inr\<close>)
  show "quiet (on_eof m)"
    using m by (simp add: on_eof_def quiet_def)
qed (simp_all add: quiet_bringup quiet_start quiet_release, auto simp: quiet_def SessionMachine_def data_to_send_def)

section \<open>The lifecycle graph\<close>

text \<open>
  The arrows between states. Closing is possible from everywhere, failing only while the
  session is brought up; nothing leads back, and nothing leads out of \<open>CLOSED\<close>.
\<close>

definition lifecycle :: "(state \<times> state) set" where
  "lifecycle =
     {(NEW, HANDSHAKING), (HANDSHAKING, PROTOCOL), (HANDSHAKING, FAILED),
      (PROTOCOL, TLS), (PROTOCOL, LOGIN), (PROTOCOL, BINDING), (PROTOCOL, FAILED),
      (TLS, LOGIN), (TLS, BINDING), (LOGIN, AUTH), (LOGIN, READY), (LOGIN, FAILED),
      (AUTH, READY), (AUTH, FAILED), (BINDING, READY), (BINDING, FAILED)} \<union> UNIV \<times> {CLOSED}"

definition follows :: "state \<Rightarrow> 'c machine \<Rightarrow> bool" where
  "follows s m \<longleftrightarrow> (s, mstate m) \<in> lifecycle\<^sup>*"

lemma follows_same: "follows s m \<Longrightarrow> mstate m' = mstate m \<Longrightarrow> follows s m'"
  by (simp add: follows_def)

lemma follows_edge: "follows s m \<Longrightarrow> (mstate m, mstate m') \<in> lifecycle \<Longrightarrow> follows s m'"
  by (simp add: follows_def rtrancl.rtrancl_into_rtrancl)

lemma follows_closed: "follows s m \<Longrightarrow> mstate m' = CLOSED \<Longrightarrow> follows s m'"
  by (erule follows_edge) (simp add: lifecycle_def)

lemma acquire_sid_Inl_mstate: "acquire_sid m = Inl (e, m') \<Longrightarrow> mstate m' = mstate m"
  by (drule acquire_sid_Inl) simp

lemma bringup_next_lifecycle: "t \<in> bringup_next s \<Longrightarrow> t = s \<or> (s, t) \<in> lifecycle"
  by (cases s) (auto simp: bringup_next_def lifecycle_def)

lemma follows_bringup:
  assumes "follows s m" and "mstate m \<in> bringup_states"
  shows "follows s (final (bringup ev h body m))"
  using bringup_next_lifecycle [OF bringup_mstate [OF assms(2), where ev = ev and h = h and body = body]] assms
  by (auto intro: follows_same follows_edge)

lemma mstate_submitted: "mstate (final (submitted ev req path arr m)) = mstate m"
  by (cases rule: submitted_cases [of m ev req path arr])
     (auto simp: acquire_sid_sel dest!: acquire_sid_Inl elim!: send_Inl send_Inr)

interpretation graph: machine_preserved ev "follows s" for ev :: "'c env" and s
proof
  fix m :: "'c machine" and g
  assume m: "follows s m"
  show "follows s (final (start m))"
    by (cases rule: start_cases [of m])
       (use m in \<open>auto intro: follows_same follows_edge simp: lifecycle_def\<close>)
  show "follows s (final (close g m))"
    by (cases rule: close_cases [of g m])
       (use m in \<open>auto intro: follows_closed follows_same dest: acquire_sid_sel acquire_sid_Inl_mstate\<close>)
  show "follows s (final (tls_established ev m))"
    using m begin_login_keeps [of "m\<lparr>tls_active := True\<rparr>" ev]
    by (auto simp: tls_established_def lifecycle_def intro!: follows_edge [OF m])
  show "follows s (final (resume sid m))" for sid
    by (cases rule: resume_cases [of m sid]) (use m in \<open>simp_all add: Let_def follows_def\<close>)
  show "follows s (on_eof m)"
    using m by (auto simp: on_eof_def intro: follows_closed)
qed (simp_all add: follows_bringup, simp_all add: follows_def data_to_send_def mstate_submitted)

text \<open>Two states that are final in the graph.\<close>

lemma lifecycle_from_closed: "(CLOSED, t) \<in> lifecycle\<^sup>* \<Longrightarrow> t = CLOSED"
  by (induction rule: rtrancl_induct) (auto simp: lifecycle_def)

lemma lifecycle_from_ready: "(READY, t) \<in> lifecycle\<^sup>* \<Longrightarrow> t \<in> {READY, CLOSED}"
  by (induction rule: rtrancl_induct) (auto simp: lifecycle_def)

lemma lifecycle_from_failed: "(FAILED, t) \<in> lifecycle\<^sup>* \<Longrightarrow> t \<in> {FAILED, CLOSED}"
  by (induction rule: rtrancl_induct) (auto simp: lifecycle_def)

section \<open>A concrete session\<close>

text \<open>An environment with one mechanism that needs one round, and the sessions the examples run.\<close>

definition sample_env :: "unit env" where
  "sample_env =
     \<lparr>env_select = (\<lambda>_. [Yielded ()]), env_name = (\<lambda>_. lit ''unix''), env_initial = (\<lambda>c. (Inr [117, 0], c)),
      env_step = (\<lambda>c _. (Inr None, c)), env_session_key = (\<lambda>_. Some [1]),
      env_hmac = (\<lambda>k msg. replicate 32 0), env_pid = 7, env_exc_text = (\<lambda>_. [])\<rparr>"

definition sample_new :: "bool \<Rightarrow> unit machine" where
  "sample_new tls = SessionMachine (lit ''host'') 1094 60 (lit ''user'') tls [] False [] None"

definition sample_started :: "bool \<Rightarrow> unit machine" where
  "sample_started tls = final (start (sample_new tls))"

text \<open>A response frame as a server writes it.\<close>

definition response_frame :: "int \<Rightarrow> int \<Rightarrow> bytes \<Rightarrow> bytes" where
  "response_frame sid status body = be_bytes 2 sid @ be_bytes 2 status @ be_bytes 4 (int (length body)) @ body"

definition sample_protocol_reply :: "bool \<Rightarrow> bytes" where
  "sample_protocol_reply tls =
     response_frame 0 kXR_ok (be_bytes 4 kXR_PROTOCOLVERSION @ be_bytes 4 1) @
     response_frame 1 kXR_ok (be_bytes 4 kXR_PROTOCOLVERSION
       @ be_bytes 4 (if tls then kXR_haveTLS OR kXR_gotoTLS else 1))"

definition sample_greeted :: "bool \<Rightarrow> unit machine" where
  "sample_greeted tls =
     final (receive_data sample_env (sample_protocol_reply tls) 0 (snd (data_to_send (sample_started tls))))"

definition sample_ready :: "unit machine" where
  "sample_ready = final (receive_data sample_env (response_frame 2 kXR_ok (replicate 16 9)) 0
     (snd (data_to_send (sample_greeted False))))"

lemma sample_reachable:
  "reachable sample_env (sample_new tls)" "reachable sample_env (sample_started tls)"
  "reachable sample_env (sample_greeted tls)" "reachable sample_env sample_ready"
proof -
  show new: "reachable sample_env (sample_new tls)" for tls
    unfolding sample_new_def by (rule reach_init)
  show started: "reachable sample_env (sample_started tls)" for tls
    unfolding sample_started_def by (rule reach_step [OF new step_start])
  show greeted: "reachable sample_env (sample_greeted tls)" for tls
    unfolding sample_greeted_def by (rule reach_step [OF reach_step [OF started step_drain] step_receive])
  show "reachable sample_env sample_ready"
    unfolding sample_ready_def by (rule reach_step [OF reach_step [OF greeted step_drain] step_receive])
qed

section \<open>Properties\<close>



text \<open>
  C2. Silence before login. As long as a machine is new, greeting, waiting for the protocol
  answer or waiting for the TLS upgrade, all it ever has queued for the control link is the
  20-byte handshake followed by the \<^verbatim>\<open>kXR_protocol\<close> request; nothing is queued for a data path,
  nothing is in flight, and no credential or signer exists yet.
\<close>

theorem silent_before_login:
  assumes "reachable ev m" and "mstate m \<in> {NEW, HANDSHAKING, PROTOCOL, TLS}"
  shows "(out m = [] \<or> out m = greeting (want_tls m)) \<and> out_path m = [] \<and> mpending m = []
    \<and> credential m = None \<and> msigner m = None"
  using silent.inv_reachable [OF assms(1)] assms(2) by (auto simp: quiet_def)

theorem silent_before_login_witness:
  "mstate (sample_started True) = HANDSHAKING
   \<and> (out (sample_started True) = [] \<or> out (sample_started True) = greeting (want_tls (sample_started True)))"
proof -
  have s: "mstate (sample_started True) = HANDSHAKING" by code_simp
  with silent_before_login [OF sample_reachable(2), of True] show ?thesis by simp
qed

text \<open>
  C3. The lifecycle only moves forward. Whatever method the driver calls, whether it returns or
  raises, the state it leaves is reached along the arrows of the lifecycle graph; in
  particular a ready session can only stay ready or be closed, a failed one stays failed or is
  closed, and a closed one stays closed.
\<close>

theorem lifecycle_forward:
  assumes "machine_step ev m m'"
  shows "(mstate m, mstate m') \<in> lifecycle\<^sup>*
    \<and> (mstate m = READY \<longrightarrow> mstate m' \<in> {READY, CLOSED})
    \<and> (mstate m = FAILED \<longrightarrow> mstate m' \<in> {FAILED, CLOSED})
    \<and> (mstate m = CLOSED \<longrightarrow> mstate m' = CLOSED)"
proof -
  have "follows (mstate m) m" by (simp add: follows_def)
  with assms have "follows (mstate m) m'" by (rule graph.inv_machine_step)
  then show ?thesis
    by (auto simp: follows_def dest: lifecycle_from_closed lifecycle_from_ready lifecycle_from_failed)
qed

theorem lifecycle_forward_witness:
  "mstate sample_ready = READY
   \<and> mstate (final (receive_data sample_env [] 0 sample_ready)) \<in> {READY, CLOSED}"
proof -
  have s: "mstate sample_ready = READY" by code_simp
  with lifecycle_forward [OF step_receive [of sample_env sample_ready "[]" 0]] show ?thesis by simp
qed

text \<open>
  C4. Stream ids are never shared. In every reachable machine, a successful \<^verbatim>\<open>submit\<close> returns an
  id above those reserved for bring-up and within the header's 16 bits that no request in
  flight has, and records the request under it behind the ones already there; the ids in
  flight stay distinct and disjoint from the free list.
\<close>

theorem submit_fresh_stream:
  assumes "reachable ev m" and "submit ev req path arr m = Inr (sid, m')"
  shows "sid \<notin> keys (mpending m) \<and> FIRST_SID \<le> sid \<and> sid \<le> 0xFFFF
    \<and> (\<exists>frame. mpending m' = mpending m @ [(sid, fresh_pending req frame path)])
    \<and> distinct (map fst (mpending m')) \<and> set (free m') \<inter> keys (mpending m') = {}"
proof -
  from assms(1) have ok: "ids_ok m" by (rule ids.inv_reachable)
  from assms(2) obtain m1 where a: "acquire_sid m = Inr (sid, m1)" and s: "send ev req sid path arr m1 = Inr m'"
    by (rule submit_Inr)
  from acquire_sid_ids_ok [OF ok a]
  have f: "sid \<in> {FIRST_SID..0xFFFF}" "sid \<notin> keys (mpending m)" by (auto simp: acquire_sid_sel [OF a])
  from assms(2) have "final (submitted ev req path arr m) = m'" by (simp add: submitted_def)
  with ids_ok_submitted [OF ok, of ev req path arr] have "ids_ok m'" by simp
  moreover from s f have "\<exists>frame. mpending m' = mpending m @ [(sid, fresh_pending req frame path)]"
    by (elim send_Inr) (auto simp: acquire_sid_sel [OF a] update_new)
  ultimately show ?thesis using f by (auto simp: ids_ok_def)
qed

theorem submit_fresh_stream_witness:
  "\<exists>m'. submit sample_env Ping [] False sample_ready = Inr (4, m') \<and> 4 \<notin> keys (mpending sample_ready)"
proof -
  have "case submit sample_env Ping [] False sample_ready of Inl _ \<Rightarrow> False | Inr (sid, _) \<Rightarrow> sid = 4"
    by code_simp
  then obtain m' where "submit sample_env Ping [] False sample_ready = Inr (4, m')"
    by (auto split: sum.splits)
  with submit_fresh_stream [OF sample_reachable(4) this] show ?thesis by blast
qed

end
