(* ===== verification/Machine_Framing.thy ===== *)
theory Machine_Framing
  imports Machine_Lifecycle
begin

text \<open>
  How bytes become events. The locale \<open>incremental_decoder\<close> is the contract between a link that
  hands over bytes in pieces and a loop that consumes them: a turn that succeeds on a buffer
  succeeds in the same way on a longer one. From it follows that feeding a stream piecewise
  and feeding it at once end in the same state. The interpretation is the \<^verbatim>\<open>_parse\<close> loop of
  \<^verbatim>\<open>src/src/xrd/proto/machine.py\<close>, and the consequence for \<^verbatim>\<open>receive_data\<close> is that the events a
  session produces do not depend on how TCP cut the stream.
\<close>

section \<open>The contract of an incremental decoder\<close>

locale incremental_decoder =
  fixes step :: "'s \<Rightarrow> ('x + 's) option"
    and run :: "'s \<Rightarrow> 'x + 's"
    and feed :: "'d list \<Rightarrow> 's \<Rightarrow> 's"
    and feedx :: "'d list \<Rightarrow> 'x \<Rightarrow> 'x"
    and load :: "'s \<Rightarrow> nat"
    and tame :: "'s \<Rightarrow> bool"
    and orderly :: "'s \<Rightarrow> bool"
  assumes run_eq: "run s = (case step s of None \<Rightarrow> Inr s | Some (Inl x) \<Rightarrow> Inl x | Some (Inr s') \<Rightarrow> run s')"
    and orderly_eq: "orderly s \<longleftrightarrow> tame s \<and> (case step s of Some (Inr s') \<Rightarrow> orderly s' | _ \<Rightarrow> True)"
    and step_load: "step s = Some (Inr s') \<Longrightarrow> load s' < load s"
    and feed_feed: "feed b (feed a s) = feed (a @ b) s"
    and tame_feed: "tame (feed d s) = tame s"
    and step_feed: "tame s \<Longrightarrow> step s = Some (Inr s') \<Longrightarrow> step (feed d s) = Some (Inr (feed d s'))"
    and step_feedx: "tame s \<Longrightarrow> step s = Some (Inl x) \<Longrightarrow> step (feed d s) = Some (Inl (feedx d x))"
begin

lemma run_feed:
  "orderly s \<Longrightarrow> run (feed d s) = (case run s of Inl x \<Rightarrow> Inl (feedx d x) | Inr s' \<Rightarrow> run (feed d s'))"
proof (induction "load s" arbitrary: s rule: less_induct)
  case less
  from less.prems have t: "tame s" using orderly_eq [of s] by simp
  show ?case
  proof (cases "step s")
    case None
    then show ?thesis by (simp add: run_eq [of s])
  next
    case (Some r)
    show ?thesis
    proof (cases r)
      case (Inl x)
      with Some t show ?thesis by (simp add: run_eq [of s] run_eq [of "feed d s"] step_feedx)
    next
      case (Inr s')
      with Some less.prems have o': "orderly s'" using orderly_eq [of s] by simp
      from Inr Some less.hyps [OF _ o'] step_load [of s s'] step_feed [OF t, of s' d] show ?thesis
        by (simp add: run_eq [of s] run_eq [of "feed d s"])
    qed
  qed
qed

lemma orderly_prefix: "orderly (feed d s) \<Longrightarrow> orderly s"
proof (induction "load s" arbitrary: s rule: less_induct)
  case less
  have t: "tame s" using less.prems orderly_eq [of "feed d s"] by (simp add: tame_feed)
  moreover have "orderly s'" if "step s = Some (Inr s')" for s'
    using that less.hyps [OF step_load [OF that]] step_feed [OF t that, of d] less.prems
      orderly_eq [of "feed d s"] by simp
  ultimately show ?case by (auto simp: orderly_eq [of s] split: option.splits sum.splits)
qed

lemma orderly_rest: "orderly (feed d s) \<Longrightarrow> run s = Inr s' \<Longrightarrow> orderly (feed d s')"
proof (induction "load s" arbitrary: s rule: less_induct)
  case less
  have t: "tame s" using less.prems orderly_eq [of "feed d s"] by (simp add: tame_feed)
  show ?case
  proof (cases "step s")
    case None
    with less.prems show ?thesis by (simp add: run_eq [of s])
  next
    case (Some r)
    with less.prems obtain s1 where r: "r = Inr s1" and s1: "run s1 = Inr s'"
      by (auto simp: run_eq [of s] split: sum.splits)
    with Some have st: "step s = Some (Inr s1)" by simp
    have "orderly (feed d s1)"
      using less.prems(1) orderly_eq [of "feed d s"] step_feed [OF t st, of d] by simp
    then show ?thesis by (rule less.hyps [OF step_load [OF st] _ s1])
  qed
qed

text \<open>Two feeds in a row are one feed of both.\<close>

lemma run_two_feeds:
  "orderly (feed (a @ b) s) \<Longrightarrow> run (feed a s) = Inr s' \<Longrightarrow> run (feed b s') = run (feed (a @ b) s)"
  using run_feed [of "feed a s" b] orderly_prefix [of b "feed a s"] by (simp add: feed_feed)

lemma run_two_feeds_error:
  "orderly (feed (a @ b) s) \<Longrightarrow> run (feed a s) = Inl x \<Longrightarrow> run (feed (a @ b) s) = Inl (feedx b x)"
  using run_feed [of "feed a s" b] orderly_prefix [of b "feed a s"] by (simp add: feed_feed)

end

section \<open>The parse loop is an incremental decoder\<close>

definition feed_link :: "bytes \<Rightarrow> 'c machine \<times> framer \<Rightarrow> 'c machine \<times> framer" where
  "feed_link d mf = (fst mf, (snd mf)\<lparr>fr_buffer := fr_buffer (snd mf) @ d\<rparr>)"

definition feed_error :: "bytes \<Rightarrow> exn \<times> 'c machine \<times> framer \<Rightarrow> exn \<times> 'c machine \<times> framer" where
  "feed_error d x = (fst x, feed_link d (snd x))"

definition feed_result ::
  "bytes \<Rightarrow> (exn \<times> 'c machine \<times> framer) + 'c machine \<times> framer
    \<Rightarrow> (exn \<times> 'c machine \<times> framer) + 'c machine \<times> framer" where
  "feed_result d = map_sum (feed_error d) (feed_link d)"

lemma feed_simps [simp]:
  "feed_link d (m, f) = (m, f\<lparr>fr_buffer := fr_buffer f @ d\<rparr>)"
  "feed_error d (e, m, f) = (e, m, f\<lparr>fr_buffer := fr_buffer f @ d\<rparr>)"
  "feed_result d (Inl (e, m, f)) = Inl (e, m, f\<lparr>fr_buffer := fr_buffer f @ d\<rparr>)"
  "feed_result d (Inr (m, f)) = Inr (m, f\<lparr>fr_buffer := fr_buffer f @ d\<rparr>)"
  by (simp_all add: feed_link_def feed_error_def feed_result_def)

lemma feed_result_bindE:
  "feed_result d (bindE (raise_at mf x) k) = bindE (raise_at (feed_link d mf) x) (\<lambda>a. feed_result d (k a))"
  by (cases x; cases mf) (simp_all add: feed_result_def feed_error_def)

text \<open>The handlers never look at the bytes that are still unread.\<close>

lemma on_response_feed: "on_response h body q (feed_link d mf) = feed_result d (on_response h body q mf)"
  by (cases mf) (auto simp: on_response_def Let_def feed_result_bindE intro!: bindE_cong)

lemma dispatch_inner_feed: "dispatch_inner ev h body (feed_link d mf) = feed_result d (dispatch_inner ev h body mf)"
  using on_response_feed [of h body _ d mf]
  by (cases mf) (auto simp: dispatch_inner_def split: sum.splits option.splits)

lemma dispatch_feed: "dispatch ev h body (feed_link d mf) = feed_result d (dispatch ev h body mf)"
  by (cases mf)
     (auto simp: dispatch_def feed_result_bindE dispatch_inner_feed [of ev _ _ d "(_, _)", simplified]
       intro!: bindE_cong split: sum.splits)

text \<open>
  A link is tame when no negative length is pending on it. \<^verbatim>\<open>decode_header\<close> refuses a header
  that announces one, \<^verbatim>\<open>parse_status\<close> does not; \<open>orderly\<close> says that none turns up while the
  buffered bytes are consumed.
\<close>

definition tame :: "'c machine \<times> framer \<Rightarrow> bool" where
  "tame mf \<longleftrightarrow> 0 \<le> fr_need_trailer (snd mf)
     \<and> (case fr_header (snd mf) of None \<Rightarrow> True | Some h \<Rightarrow> 0 \<le> rh_dlen h)"

function orderly :: "'c env \<Rightarrow> 'c machine \<times> framer \<Rightarrow> bool" where
  "orderly ev mf \<longleftrightarrow> tame mf \<and> (case parse_step ev mf of Some (Inr mf') \<Rightarrow> orderly ev mf' | _ \<Rightarrow> True)"
  by pat_completeness auto
termination
  by (relation "measure (\<lambda>(ev, mf). backlog (snd mf))") (auto dest: parse_step_backlog)

declare orderly.simps [simp del]

lemma parse_step_feed:
  assumes "tame mf" and "parse_step ev mf = Some r"
  shows "parse_step ev (feed_link d mf) = Some (feed_result d r)"
proof -
  obtain m f where mf: "mf = (m, f)" by (cases mf)
  have "dispatch ev h body (m, f\<lparr>fr_buffer := b @ d, fr_header := None\<rparr>)
      = feed_result d (dispatch ev h body (m, f\<lparr>fr_buffer := b, fr_header := None\<rparr>))" for h body b
    using dispatch_feed [of ev h body d "(m, f\<lparr>fr_buffer := b, fr_header := None\<rparr>)"] by (cases f) simp
  with assms show ?thesis
    by (auto simp: mf tame_def parse_step_def Let_def split: if_splits option.splits sum.splits)
qed

interpretation link: incremental_decoder "parse_step ev" "parse ev" feed_link feed_error
  "\<lambda>mf. backlog (snd mf)" tame "orderly ev" for ev :: "'c env"
proof
  fix s s' :: "'c machine \<times> framer" and x d a b
  show "parse ev s = (case parse_step ev s of None \<Rightarrow> Inr s | Some (Inl x) \<Rightarrow> Inl x | Some (Inr s') \<Rightarrow> parse ev s')"
    by (rule parse.simps)
  show "orderly ev s \<longleftrightarrow> tame s \<and> (case parse_step ev s of Some (Inr s') \<Rightarrow> orderly ev s' | _ \<Rightarrow> True)"
    by (rule orderly.simps)
  show "parse_step ev s = Some (Inr s') \<Longrightarrow> backlog (snd s') < backlog (snd s)"
    by (rule parse_step_backlog)
  show "feed_link b (feed_link a s) = feed_link (a @ b) s" "tame (feed_link d s) = tame s"
    by (cases s; simp add: tame_def)+
  show "tame s \<Longrightarrow> parse_step ev s = Some (Inr s') \<Longrightarrow> parse_step ev (feed_link d s) = Some (Inr (feed_link d s'))"
    and "tame s \<Longrightarrow> parse_step ev s = Some (Inl x) \<Longrightarrow> parse_step ev (feed_link d s) = Some (Inl (feed_error d x))"
    using parse_step_feed [of s ev] by (simp_all add: feed_result_def)
qed

section \<open>Handlers and the table of links\<close>

text \<open>No handler reads or writes the table \<^verbatim>\<open>_framers\<close>, so they all commute with replacing it.\<close>

abbreviation relink :: "(int, framer) dict \<Rightarrow> 'c machine \<Rightarrow> 'c machine" where
  "relink fs m \<equiv> m\<lparr>framers := fs\<rparr>"

definition relinked :: "(int, framer) dict \<Rightarrow> 'c mres \<Rightarrow> 'c mres" where
  "relinked fs = map_sum (apsnd (relink fs)) (relink fs)"

named_theorems links "commutation with the table of links"

lemma relinked_simps [simp]:
  "relinked fs (Inl (e, m)) = Inl (e, relink fs m)" "relinked fs (Inr m) = Inr (relink fs m)"
  by (simp_all add: relinked_def)

lemma relinked_bindE [links]:
  "relinked fs (bindE (raise_at m x) k) = bindE (raise_at (relink fs m) x) (\<lambda>a. relinked fs (k a))"
  by (cases x) simp_all

lemma small_relink [links]:
  "emit e (relink fs m) = relink fs (emit e m)" "queue_out b (relink fs m) = relink fs (queue_out b m)"
  "fail x (relink fs m) = relink fs (fail x m)"
  "release sid (relink fs m) = relink fs (release sid m)"
  "set_pending sid q (relink fs m) = relink fs (set_pending sid q m)"
  by (simp_all add: emit_def queue_out_def fail_def release_def set_pending_def Let_def split: option.splits)

lemma field_relink [links]:
  "(relink fs m)\<lparr>mstate := a\<rparr> = relink fs (m\<lparr>mstate := a\<rparr>)"
  "(relink fs m)\<lparr>proto_info := b\<rparr> = relink fs (m\<lparr>proto_info := b\<rparr>)"
  "(relink fs m)\<lparr>session_id := c\<rparr> = relink fs (m\<lparr>session_id := c\<rparr>)"
  "(relink fs m)\<lparr>offered := d\<rparr> = relink fs (m\<lparr>offered := d\<rparr>)"
  "(relink fs m)\<lparr>pathid := e\<rparr> = relink fs (m\<lparr>pathid := e\<rparr>)"
  "(relink fs m)\<lparr>credential := f\<rparr> = relink fs (m\<lparr>credential := f\<rparr>)"
  "(relink fs m)\<lparr>credentials := g\<rparr> = relink fs (m\<lparr>credentials := g\<rparr>)"
  "(relink fs m)\<lparr>mechanism := h\<rparr> = relink fs (m\<lparr>mechanism := h\<rparr>)"
  "(relink fs m)\<lparr>auth_rejected := i\<rparr> = relink fs (m\<lparr>auth_rejected := i\<rparr>)"
  "(relink fs m)\<lparr>msigner := j\<rparr> = relink fs (m\<lparr>msigner := j\<rparr>)"
  by simp_all

lemma begin_login_relink [links]: "begin_login ev (relink fs m) = relinked fs (begin_login ev m)"
  by (auto simp: begin_login_def Let_def links intro!: bindE_cong)

lemma after_protocol_relink [links]: "after_protocol ev (relink fs m) = relinked fs (after_protocol ev m)"
  by (auto simp: after_protocol_def Let_def links)

lemma become_ready_relink [links]: "become_ready ev (relink fs m) = relink fs (become_ready ev m)"
  by (auto simp: become_ready_def Let_def links split: option.splits)

lemma climb_relink [links]: "climb ev rs (relink fs m) = relinked fs (climb ev rs m)"
proof (induction ev rs m rule: climb.induct)
  case (4 ev c rs m)
  then show ?case
    by (auto simp: Let_def links split: prod.splits sum.splits intro!: bindE_cong)
qed (simp_all add: links)

lemma next_credential_relink [links]:
  "next_credential ev sec (relink fs m) = relinked fs (next_credential ev sec m)"
  by (simp add: next_credential_def links)

lemma auth_step_relink [links]: "auth_step ev body (relink fs m) = relinked fs (auth_step ev body m)"
  by (auto simp: auth_step_def Let_def links split: option.splits prod.splits sum.splits intro!: bindE_cong)

lemma bringup_relink [links]: "bringup ev h body (relink fs m) = relinked fs (bringup ev h body m)"
  by (auto simp: bringup_def Let_def links intro!: bindE_cong)

lemma on_status_data_relink [links]:
  "on_status_data sid d (relink fs m) = relink fs (on_status_data sid d m)"
  by (auto simp: on_status_data_def links split: option.splits)

definition relinked_link ::
  "(int, framer) dict \<Rightarrow> (exn \<times> 'c machine \<times> framer) + 'c machine \<times> framer
    \<Rightarrow> (exn \<times> 'c machine \<times> framer) + 'c machine \<times> framer" where
  "relinked_link fs = map_sum (apsnd (apfst (relink fs))) (apfst (relink fs))"

lemma relinked_link_simps [simp]:
  "relinked_link fs (Inl (e, m, f)) = Inl (e, relink fs m, f)"
  "relinked_link fs (Inr (m, f)) = Inr (relink fs m, f)"
  by (simp_all add: relinked_link_def)

lemma relinked_link_bindE [links]:
  "relinked_link fs (bindE (raise_at (m, f) x) k) = bindE (raise_at (relink fs m, f) x) (\<lambda>a. relinked_link fs (k a))"
  by (cases x) simp_all

lemma on_response_relink [links]:
  "on_response h body q (relink fs m, f) = relinked_link fs (on_response h body q (m, f))"
  by (auto simp: on_response_def Let_def links intro!: bindE_cong)

lemma dispatch_inner_relink [links]:
  "dispatch_inner ev h body (relink fs m, f) = relinked_link fs (dispatch_inner ev h body (m, f))"
  by (auto simp: dispatch_inner_def links split: sum.splits option.splits)

lemma dispatch_relink [links]:
  "dispatch ev h body (relink fs m, f) = relinked_link fs (dispatch ev h body (m, f))"
  by (auto simp: dispatch_def links intro!: bindE_cong split: sum.splits)

lemma parse_step_relink [links]:
  "parse_step ev (relink fs m, f) = map_option (relinked_link fs) (parse_step ev (m, f))"
  by (auto simp: parse_step_def Let_def links split: option.splits sum.splits)

lemma parse_relink [links]: "parse ev (relink fs m, f) = relinked_link fs (parse ev (m, f))"
proof (induction "backlog f" arbitrary: m f rule: less_induct)
  case less
  show ?case
  proof (cases "parse_step ev (m, f)")
    case None
    then show ?thesis by (simp add: parse.simps [of ev "(_, f)"] links)
  next
    case (Some r)
    show ?thesis
    proof (cases r)
      case (Inl x)
      with Some show ?thesis by (cases x) (simp add: parse.simps [of ev "(_, f)"] links)
    next
      case (Inr mf')
      obtain m' f' where mf': "mf' = (m', f')" by (cases mf')
      with Some Inr have "backlog f' < backlog f" using parse_step_backlog [of ev "(m, f)" mf'] by simp
      from less [OF this, of m'] Some Inr mf' show ?thesis
        by (simp add: parse.simps [of ev "(_, f)"] links)
    qed
  qed
qed

lemma orderly_relink: "orderly ev (relink fs m, f) = orderly ev (m, f)"
proof (induction "backlog f" arbitrary: m f rule: less_induct)
  case less
  have "orderly ev (relink fs m', f') = orderly ev (m', f')" if "parse_step ev (m, f) = Some (Inr (m', f'))" for m' f'
    using less [of f' m'] parse_step_backlog [OF that] by simp
  then show ?case
    by (auto simp: orderly.simps [of ev "(_, f)"] tame_def links split: option.splits sum.splits)
qed

section \<open>Pieces of a stream\<close>

text \<open>The framer a link has before data arrives on it.\<close>

definition link_of :: "int \<Rightarrow> 'c machine \<Rightarrow> framer" where
  "link_of p m = (case map_of (framers m) p of None \<Rightarrow> Framer | Some f \<Rightarrow> f)"

lemma receive_data_parse:
  assumes "d \<noteq> []"
  shows "receive_data ev d p m =
    (case parse ev (m, (link_of p m)\<lparr>fr_buffer := fr_buffer (link_of p m) @ d\<rparr>) of
       Inl (e, m', f') \<Rightarrow> Inl (e, relink (AList.update p f' (framers m)) m')
     | Inr (m', f') \<Rightarrow> Inr (relink (AList.update p f' (framers m)) m'))"
proof -
  let ?f = "(link_of p m)\<lparr>fr_buffer := fr_buffer (link_of p m) @ d\<rparr>"
  show ?thesis
    using assms parse_relink [of ev "AList.update p (link_of p m) (framers m)" m ?f]
    by (cases "parse ev (m, ?f)") (auto simp: receive_data_def link_of_def [symmetric] Let_def)
qed

lemma link_of_receive:
  "link_of p (relink (AList.update p f fs) m) = f"
  by (simp add: link_of_def update_conv)

text \<open>One call with both pieces is two calls, one per piece; so it is when the first one raises.\<close>

lemma receive_two:
  assumes "a \<noteq> []" and "b \<noteq> []"
    and "orderly ev (feed_link (a @ b) (m, link_of p m))"
    and "receive_data ev a p m = Inr m'"
  shows "receive_data ev b p m' = receive_data ev (a @ b) p m"
proof -
  let ?s = "(m, link_of p m)"
  from assms obtain m1 f1 where p1: "parse ev (feed_link a ?s) = Inr (m1, f1)"
    and m': "m' = relink (AList.update p f1 (framers m)) m1"
    by (auto simp: receive_data_parse split: sum.splits)
  have "parse ev (feed_link b (m1, f1)) = parse ev (feed_link (a @ b) ?s)"
    by (rule link.run_two_feeds [OF assms(3) p1])
  then have "parse ev (m1, f1\<lparr>fr_buffer := fr_buffer f1 @ b\<rparr>)
      = parse ev (m, (link_of p m)\<lparr>fr_buffer := fr_buffer (link_of p m) @ a @ b\<rparr>)" by simp
  with assms show ?thesis
    by (simp add: receive_data_parse m' link_of_receive parse_relink)
       (auto simp: relinked_link_def split: sum.splits)
qed

lemma receive_two_error:
  assumes "a \<noteq> []" and "orderly ev (feed_link (a @ b) (m, link_of p m))"
    and "receive_data ev a p m = Inl (e, m')"
  shows "\<exists>fs. receive_data ev (a @ b) p m = Inl (e, relink fs m')"
proof -
  let ?s = "(m, link_of p m)"
  from assms obtain m1 f1 where p1: "parse ev (feed_link a ?s) = Inl (e, m1, f1)"
    and m': "m' = relink (AList.update p f1 (framers m)) m1"
    by (auto simp: receive_data_parse split: sum.splits)
  have "parse ev (feed_link (a @ b) ?s) = Inl (feed_error b (e, m1, f1))"
    by (rule link.run_two_feeds_error [OF assms(2) p1])
  with assms(1) m' show ?thesis by (auto simp: receive_data_parse)
qed

lemma orderly_after:
  assumes "a \<noteq> []" and "orderly ev (feed_link (a @ b) (m, link_of p m))"
    and "receive_data ev a p m = Inr m'"
  shows "orderly ev (feed_link b (m', link_of p m'))"
proof -
  let ?s = "(m, link_of p m)"
  from assms obtain m1 f1 where p1: "parse ev (feed_link a ?s) = Inr (m1, f1)"
    and m': "m' = relink (AList.update p f1 (framers m)) m1"
    by (auto simp: receive_data_parse split: sum.splits)
  have "orderly ev (feed_link b (feed_link a ?s))" using assms(2) by simp
  from link.orderly_rest [OF this p1] have "orderly ev (feed_link b (m1, f1))" .
  then show ?thesis by (simp add: m' link_of_receive orderly_relink)
qed

text \<open>The driver's loop: one call per piece the socket returned.\<close>

fun receive_all :: "'c env \<Rightarrow> int \<Rightarrow> bytes list \<Rightarrow> 'c machine \<Rightarrow> 'c mres" where
  "receive_all ev p [] m = Inr m"
| "receive_all ev p (d # ds) m = bindE (receive_data ev d p m) (receive_all ev p ds)"

lemma receive_all_concat:
  assumes "ds \<noteq> []" and "[] \<notin> set ds" and "orderly ev (feed_link (concat ds) (m, link_of p m))"
  shows "case receive_data ev (concat ds) p m of
      Inr m' \<Rightarrow> receive_all ev p ds m = Inr m'
    | Inl (e, m') \<Rightarrow> \<exists>fs. receive_all ev p ds m = Inl (e, relink fs m')"
  using assms
proof (induction ds arbitrary: m)
  case (Cons d ds)
  show ?case
  proof (cases "ds = []")
    case True
    have "\<exists>fs. m' = relink fs m'" for m' :: "'a machine" by (rule exI [of _ "framers m'"]) simp
    with True show ?thesis by (auto split: sum.splits)
  next
    case False
    with Cons.prems have ne: "d \<noteq> []" "concat ds \<noteq> []" by (cases ds; auto)+
    show ?thesis
    proof (cases "receive_data ev d p m")
      case (Inl x)
      obtain e m' where x: "x = (e, m')" by (cases x)
      with Inl Cons.prems ne obtain fs where "receive_data ev (d @ concat ds) p m = Inl (e, relink fs m')"
        using receive_two_error [of d ev "concat ds" m p e m'] by auto
      then show ?thesis using Inl x by (auto intro: exI [of _ "framers m'"])
    next
      case (Inr m1)
      have "receive_data ev (concat ds) p m1 = receive_data ev (d @ concat ds) p m"
        using Cons.prems ne Inr by (intro receive_two) simp_all
      moreover have "orderly ev (feed_link (concat ds) (m1, link_of p m1))"
        using Cons.prems ne Inr by (intro orderly_after [of d ev "concat ds" m p m1]) simp_all
      ultimately have "case receive_data ev (d @ concat ds) p m of
          Inr m' \<Rightarrow> receive_all ev p ds m1 = Inr m'
        | Inl (e, m') \<Rightarrow> \<exists>fs. receive_all ev p ds m1 = Inl (e, relink fs m')"
        using Cons.IH [of m1] Cons.prems False by simp
      moreover have "receive_all ev p (d # ds) m = receive_all ev p ds m1" using Inr by simp
      ultimately show ?thesis unfolding concat.simps by metis
    qed
  qed
qed simp

section \<open>Whole frames\<close>

text \<open>A complete response at the head of an idle link is decoded and dispatched.\<close>

definition idle_link :: "bytes \<Rightarrow> framer" where
  "idle_link b = Framer\<lparr>fr_buffer := b\<rparr>"

lemma decode_response_frame:
  assumes "0 \<le> sid" "sid < 65536" "0 \<le> st" "st < 65536" "int (length body) \<le> MAX_RESPONSE_BODY"
  shows "decode_header (take 8 (response_frame sid st body @ rest))
    = Inr \<lparr>rh_streamid = sid, rh_status = st, rh_dlen = int (length body)\<rparr>"
  using assms
  by (simp add: response_frame_def decode_header_def Let_def struct_unpack_def fmt_defs be_int_be_bytes)

lemma parse_response_frame:
  assumes "0 \<le> sid" "sid < 65536" "0 \<le> st" "st < 65536" "int (length body) \<le> MAX_RESPONSE_BODY"
  shows "parse ev (m, idle_link (response_frame sid st body @ rest))
    = bindE (dispatch ev \<lparr>rh_streamid = sid, rh_status = st, rh_dlen = int (length body)\<rparr> body
               (m, idle_link rest)) (parse ev)"
proof -
  let ?h = "\<lparr>rh_streamid = sid, rh_status = st, rh_dlen = int (length body)\<rparr>"
  let ?f = "(idle_link (body @ rest))\<lparr>fr_header := Some ?h\<rparr>"
  have 1: "parse_step ev (m, idle_link (response_frame sid st body @ rest)) = Some (Inr (m, ?f))"
    using decode_response_frame [OF assms, of rest]
    by (simp add: parse_step_def idle_link_def Framer_def Let_def) (simp add: response_frame_def)
  have 2: "parse_step ev (m, ?f) = Some (dispatch ev ?h body (m, idle_link rest))"
    by (simp add: parse_step_def idle_link_def Framer_def Let_def)
  show ?thesis
    by (simp add: parse.simps [of ev "(m, idle_link (response_frame sid st body @ rest))"] 1
        parse.simps [of ev "(m, ?f)"] 2 bindE_def split: sum.split)
qed

lemma parse_idle: "parse ev (m, idle_link []) = Inr (m, idle_link [])"
  by (simp add: parse.simps parse_step_def idle_link_def Framer_def Let_def)

lemma dispatch_pending:
  assumes "rh_status h \<noteq> kXR_attn" "mstate m \<notin> bringup_states" "map_of (mpending m) (rh_streamid h) = Some q"
  shows "dispatch ev h body (m, f) = on_response h body q (m, f)"
  using assms by (simp add: dispatch_def dispatch_inner_def bringup_states_def)

section \<open>Reassembly\<close>

text \<open>
  An answer sent as any number of \<^verbatim>\<open>kXR_oksofar\<close> parts and a final \<^verbatim>\<open>kXR_ok\<close>, one frame each.
\<close>

definition partial_answer :: "int \<Rightarrow> bytes list \<Rightarrow> bytes \<Rightarrow> bytes" where
  "partial_answer sid parts tail =
     concat (map (response_frame sid kXR_oksofar) parts) @ response_frame sid kXR_ok tail"

lemma parse_partial_answer:
  assumes "mstate m \<notin> bringup_states" and "map_of (mpending m) sid = Some q"
    and "FIRST_SID \<le> sid" and "sid < 65536"
    and "\<forall>b\<in>set (tail # parts). int (length b) \<le> MAX_RESPONSE_BODY"
  shows "\<exists>m'. parse ev (m, idle_link (partial_answer sid parts tail)) = Inr (m', idle_link [])
    \<and> events m' = events m @ map (Chunk sid (pd_request q)) parts
         @ [Completed sid (pd_request q) (pd_buffer q @ concat parts @ tail) (pd_status q)]
    \<and> mpending m' = AList.delete sid (mpending m) \<and> free m' = free m @ [sid]
    \<and> mstate m' = mstate m \<and> out m' = out m"
  using assms
proof (induction parts arbitrary: m q)
  case Nil
  let ?m = "emit (Completed sid (pd_request q) (pd_buffer q @ tail) (pd_status q)) (release sid m)"
  let ?h = "\<lparr>rh_streamid = sid, rh_status = kXR_ok, rh_dlen = int (length tail)\<rparr>"
  have "dispatch ev ?h tail (m, idle_link []) = Inr (?m, idle_link [])"
    using Nil by (simp add: dispatch_pending on_response_def)
  then have "parse ev (m, idle_link (partial_answer sid [] tail)) = Inr (?m, idle_link [])"
    using Nil parse_response_frame [of sid kXR_ok tail ev m "[]"] by (simp add: partial_answer_def parse_idle)
  moreover have "free (release sid m) = free m @ [sid]" using Nil by (simp add: release_def Let_def)
  ultimately show ?case by simp
next
  case (Cons b parts)
  let ?q = "q\<lparr>pd_buffer := pd_buffer q @ b\<rparr>"
  let ?m = "emit (Chunk sid (pd_request q) b) (set_pending sid ?q m)"
  let ?h = "\<lparr>rh_streamid = sid, rh_status = kXR_oksofar, rh_dlen = int (length b)\<rparr>"
  let ?rest = "partial_answer sid parts tail"
  have "dispatch ev ?h b (m, idle_link ?rest) = Inr (?m, idle_link ?rest)"
    using Cons.prems by (simp add: dispatch_pending on_response_def)
  then have "parse ev (m, idle_link (partial_answer sid (b # parts) tail)) = parse ev (?m, idle_link ?rest)"
    using Cons.prems parse_response_frame [of sid kXR_oksofar b ev m ?rest] by (simp add: partial_answer_def)
  moreover have "map_of (mpending ?m) sid = Some ?q" by (simp add: update_conv)
  ultimately show ?case
    using Cons.IH [of ?m ?q] Cons.prems by (simp add: delete_update_same)
qed

section \<open>Properties\<close>

definition sample_busy :: "unit machine" where
  "sample_busy = final (submitted sample_env Ping [] False sample_ready)"

lemma sample_busy_reachable: "reachable sample_env sample_busy"
  unfolding sample_busy_def by (rule reach_step [OF sample_reachable(4) step_submit])

lemma sample_busy_facts:
  "mstate sample_busy = READY" "link_of 0 sample_busy = Framer"
  "\<exists>q. map_of (mpending sample_busy) 4 = Some q \<and> pd_request q = Ping \<and> pd_buffer q = []"
proof -
  show "mstate sample_busy = READY" by code_simp
  show "link_of 0 sample_busy = Framer" by code_simp
  have "case map_of (mpending sample_busy) 4 of None \<Rightarrow> False | Some q \<Rightarrow> pd_request q = Ping \<and> pd_buffer q = []"
    by code_simp
  then show "\<exists>q. map_of (mpending sample_busy) 4 = Some q \<and> pd_request q = Ping \<and> pd_buffer q = []"
    by (auto split: option.splits)
qed



text \<open>
  C6. Reassembly. When a request in flight is answered by any number of \<^verbatim>\<open>kXR_oksofar\<close> parts and
  a final \<^verbatim>\<open>kXR_ok\<close>, the caller sees one \<^verbatim>\<open>Chunk\<close> per part, in order and byte for byte, then one
  \<^verbatim>\<open>Completed\<close> carrying everything that had arrived for it before, the parts and the last body,
  concatenated; the stream is released for reuse and nothing else of the session changes.
\<close>

theorem partial_answer_reassembled:
  assumes "mstate m \<notin> bringup_states" and "map_of (mpending m) sid = Some q"
    and "link_of p m = Framer" and "FIRST_SID \<le> sid" and "sid < 65536"
    and "\<forall>b\<in>set (tail # parts). int (length b) \<le> MAX_RESPONSE_BODY"
  shows "\<exists>m'. receive_data ev (partial_answer sid parts tail) p m = Inr m'
    \<and> events m' = events m @ map (Chunk sid (pd_request q)) parts
         @ [Completed sid (pd_request q) (pd_buffer q @ concat parts @ tail) (pd_status q)]
    \<and> mpending m' = AList.delete sid (mpending m) \<and> free m' = free m @ [sid]
    \<and> mstate m' = mstate m \<and> out m' = out m"
proof -
  have "partial_answer sid parts tail \<noteq> []"
    by (simp add: partial_answer_def response_frame_def) (metis append_is_Nil_conv length_be_bytes list.size(3) zero_neq_numeral)
  moreover have "Framer\<lparr>fr_buffer := fr_buffer Framer @ b\<rparr> = idle_link b" for b
    by (simp add: idle_link_def Framer_def)
  ultimately show ?thesis
    using parse_partial_answer [OF assms(1,2,4-6), of ev] assms(3) by (auto simp: receive_data_parse)
qed

theorem partial_answer_reassembled_witness:
  "\<exists>m'. receive_data sample_env (partial_answer 4 [[1, 2], [3]] [4]) 0 sample_busy = Inr m'
     \<and> (\<exists>st. events m' = events sample_busy @ [Chunk 4 Ping [1, 2], Chunk 4 Ping [3], Completed 4 Ping [1, 2, 3, 4] st])"
proof -
  obtain q where q: "map_of (mpending sample_busy) 4 = Some q" "pd_request q = Ping" "pd_buffer q = []"
    using sample_busy_facts(3) by blast
  have "mstate sample_busy \<notin> bringup_states" by (simp add: sample_busy_facts bringup_states_def)
  from partial_answer_reassembled [OF this q(1) sample_busy_facts(2), of "[4]" "[[1, 2], [3]]" sample_env]
  show ?thesis using q(2,3) by auto
qed

section \<open>What happens without the hypothesis\<close>

text \<open>
  \<^verbatim>\<open>parse_status\<close> accepts a negative length and \<^verbatim>\<open>_parse\<close> slices with it: the trailer then is
  whatever is buffered, less the last bytes. The same stream yields the payload \<^verbatim>\<open>[1, 2]\<close> when
  it arrives at once and an empty payload when the status frame arrives first.
\<close>

definition completed_payloads :: "'c machine \<Rightarrow> bytes list" where
  "completed_payloads m = concat (map (\<lambda>e. case e of Completed _ _ d _ \<Rightarrow> [d] | _ \<Rightarrow> []) (events m))"

definition negative_status :: bytes where
  "negative_status = response_frame 4 kXR_status
     (be_bytes 4 0 @ be_bytes 2 4 @ [11, 0] @ replicate 4 0 @ be_bytes 4 (-1))"

theorem negative_status_depends_on_chunking:
  "completed_payloads (final (receive_all sample_env 0 [negative_status @ [1, 2, 3]] sample_busy)) = [[1, 2]]
   \<and> completed_payloads (final (receive_all sample_env 0 [negative_status, [1, 2, 3]] sample_busy)) = [[]]"
proof
  show "completed_payloads (final (receive_all sample_env 0 [negative_status @ [1, 2, 3]] sample_busy)) = [[1, 2]]"
    by code_simp
  show "completed_payloads (final (receive_all sample_env 0 [negative_status, [1, 2, 3]] sample_busy)) = [[]]"
    by code_simp
qed

text \<open>
  \<^verbatim>\<open>resume\<close> re-sends a request without dropping what had already arrived for it: a server that
  sends part of an answer, then \<^verbatim>\<open>kXR_wait\<close>, and the whole answer after the resend yields a
  \<^verbatim>\<open>Completed\<close> that starts with the stale part.
\<close>

theorem resume_keeps_stale_part:
  "completed_payloads (final
     (bindE (receive_data sample_env (response_frame 4 kXR_oksofar [1, 2] @ response_frame 4 kXR_wait (be_bytes 4 1))
        0 sample_busy) (\<lambda>m.
      bindE (resume 4 m) (\<lambda>m.
      receive_data sample_env (partial_answer 4 [[1, 2]] [3]) 0 m)))) = [[1, 2, 1, 2, 3]]"
  by code_simp

end
