(* ===== verification/Machine_Requests.thy ===== *)
theory Machine_Requests
  imports Machine_Framing
begin

text \<open>
  What becomes of requests. \<open>terminals\<close> lists the streams that an event list reports as over
  (\<^verbatim>\<open>Completed\<close> or \<^verbatim>\<open>Failed\<close>), and \<open>settled m m'\<close> says that between \<open>m\<close> and \<open>m'\<close> exactly the
  requests that left \<^verbatim>\<open>_pending\<close> were reported, each of them once. Every inbound path of
  \<^verbatim>\<open>src/src/xrd/proto/machine.py\<close> satisfies it: responses, bring-up answers, the loss of a data
  path and the loss of the connection.
\<close>

section \<open>Reports\<close>

definition terminal :: "event \<Rightarrow> int list" where
  "terminal e = (case e of Completed sid _ _ _ \<Rightarrow> [sid] | Failed (Some sid) _ _ \<Rightarrow> [sid] | _ \<Rightarrow> [])"

definition terminals :: "event list \<Rightarrow> int list" where
  "terminals es = concat (map terminal es)"

lemma terminals_simps [simp]:
  "terminals [] = []" "terminals (e # es) = terminal e @ terminals es"
  "terminals (es @ fs) = terminals es @ terminals fs"
  by (simp_all add: terminals_def)

lemma terminal_simps [simp]:
  "terminal (Completed sid r d st) = [sid]" "terminal (Failed (Some sid) rq x) = [sid]"
  "terminal (Failed None rq x) = []" "terminal (Chunk sid r d) = []" "terminal (Negotiated i) = []"
  "terminal (NeedTLS reason) = []" "terminal (Ready b c) = []" "terminal (Redirected sid r t) = []"
  "terminal (Waiting sid r s w b') = []" "terminal (Attention a) = []" "terminal (PathLost p) = []"
  "terminal (Disconnected reason) = []"
  by (simp_all add: terminal_def)

lemma terminals_fail_all: "terminals (fail_all e d) = map fst d"
  by (induction e d rule: fail_all.induct) simp_all

definition settled :: "'c machine \<Rightarrow> 'c machine \<Rightarrow> bool" where
  "settled m m' \<longleftrightarrow> (\<exists>evs. events m' = events m @ evs \<and> distinct (terminals evs)
     \<and> set (terminals evs) = keys (mpending m) - keys (mpending m')
     \<and> keys (mpending m') \<subseteq> keys (mpending m))"

lemma settled_refl [simp]: "settled m m"
  by (simp add: settled_def)

lemma settled_trans:
  assumes "settled m m'" and "settled m' m''"
  shows "settled m m''"
proof -
  from assms obtain es fs where
    e: "events m' = events m @ es" "events m'' = events m' @ fs" "distinct (terminals es)" "distinct (terminals fs)"
    and s: "set (terminals es) = keys (mpending m) - keys (mpending m')" "keys (mpending m') \<subseteq> keys (mpending m)"
      "set (terminals fs) = keys (mpending m') - keys (mpending m'')" "keys (mpending m'') \<subseteq> keys (mpending m')"
    by (auto simp: settled_def)
  have sets: "X \<inter> Y = {} \<and> X \<union> Y = A - C \<and> C \<subseteq> A" if "X = A - B" "B \<subseteq> A" "Y = B - C" "C \<subseteq> B"
    for A B C X Y :: "int set" using that by blast
  from sets [OF s] e show ?thesis unfolding settled_def by (intro exI [of _ "es @ fs"]) simp
qed

section \<open>Steps that settle nothing\<close>

definition unsettling :: "'c machine \<Rightarrow> 'c machine \<Rightarrow> bool" where
  "unsettling m m' \<longleftrightarrow> mpending m' = mpending m \<and> (\<exists>evs. events m' = events m @ evs \<and> terminals evs = [])"

lemma unsettling_settled: "unsettling m m' \<Longrightarrow> settled m m'"
  by (auto simp: unsettling_def settled_def)

lemma unsettling_same: "mpending m' = mpending m \<Longrightarrow> events m' = events m \<Longrightarrow> unsettling m m'"
  by (simp add: unsettling_def)

lemma unsettling_emit: "unsettling m n \<Longrightarrow> terminal e = [] \<Longrightarrow> unsettling m (emit e n)"
  by (auto simp: unsettling_def)

lemma unsettling_trans: "unsettling m n \<Longrightarrow> unsettling n k \<Longrightarrow> unsettling m k"
  by (auto simp: unsettling_def)

lemma fail_unsettling: "unsettling m n \<Longrightarrow> unsettling m (fail e n)"
  unfolding fail_def by (rule unsettling_emit) (auto simp: unsettling_def)

lemma begin_login_unsettling: "unsettling m (final (begin_login ev m))"
  by (auto simp: begin_login_def Let_def final_raise_at intro!: unsettling_same split: sum.splits)

lemma after_protocol_unsettling: "unsettling m (final (after_protocol ev m))"
proof -
  have "unsettling m (emit (NeedTLS r) (m\<lparr>mstate := TLS\<rparr>))" "unsettling m (fail e m)" for r e
    by (simp_all add: unsettling_def fail_def)
  then show ?thesis by (simp add: after_protocol_def Let_def begin_login_unsettling)
qed

lemma become_ready_unsettling: "unsettling m (become_ready ev m)"
  unfolding become_ready_def Let_def
  by (intro unsettling_emit unsettling_same) (auto split: option.splits)

lemma climb_unsettling: "unsettling m (final (climb ev rs m))"
proof (induction ev rs m rule: climb.induct)
  case (1 ev m)
  show ?case by (simp add: fail_unsettling unsettling_same)
next
  case (4 ev c rs m)
  show ?case
  proof (cases "env_initial ev c")
    case (Pair r c')
    with 4 show ?thesis
      by (cases r) (auto simp: final_raise_at Let_def unsettling_def split: sum.splits)
  qed
qed (simp_all add: unsettling_def)

lemma next_credential_unsettling:
  "mpending n = mpending m \<Longrightarrow> events n = events m \<Longrightarrow> unsettling m (final (next_credential ev sec n))"
  unfolding next_credential_def by (rule unsettling_trans [OF unsettling_same climb_unsettling])

lemma auth_step_unsettling: "unsettling m (final (auth_step ev b m))"
proof (cases "credential m")
  case None
  then show ?thesis by (simp add: auth_step_def fail_unsettling unsettling_same)
next
  case (Some c)
  have nc: "unsettling m (final (next_credential ev [] (m\<lparr>credential := c', auth_rejected := r\<rparr>)))" for c' r
    by (rule next_credential_unsettling) simp_all
  obtain r c' where e: "env_step ev c b = (r, c')" by (cases "env_step ev c b")
  consider (raised) x where "r = Inl x" | (stuck) "r = Inr None" | (more) blob where "r = Inr (Some blob)"
    by (cases r) auto
  then show ?thesis
  proof cases
    case stuck
    with Some e show ?thesis by (simp add: auth_step_def nc del: machine.simps)
  next
    case more
    with Some e show ?thesis
      by (auto simp: auth_step_def Let_def final_raise_at intro!: unsettling_same split: sum.splits)
  qed (use Some e nc in \<open>simp add: auth_step_def\<close>)
qed

lemma bringup_unsettling: "unsettling m (final (bringup ev h body m))"
proof -
  have ap: "unsettling m (final (after_protocol ev (emit (Negotiated i) (m\<lparr>proto_info := i\<rparr>))))" for i
    by (rule unsettling_trans [OF unsettling_emit [OF unsettling_same] after_protocol_unsettling]) simp_all
  have br: "unsettling m (become_ready ev n)" if "mpending n = mpending m" "events n = events m"
    for n :: "'a machine" by (rule unsettling_trans [OF unsettling_same [OF that] become_ready_unsettling])
  have "unsettling m (fail e m)" for e by (simp add: fail_unsettling unsettling_same)
  then show ?thesis
    using ap br auth_step_unsettling [of m ev body] next_credential_unsettling [of _ m ev]
    by (auto simp: bringup_def final_raise_at Let_def unsettling_same split: sum.splits)
qed

section \<open>Responses\<close>

lemma settled_release:
  assumes "map_of (mpending m) sid = Some q" and "terminal e = [sid]"
  shows "settled m (emit e (release sid m))"
  using assms map_of_in_keys [OF assms(1)] unfolding settled_def by (intro exI [of _ "[e]"]) auto

lemma settled_set_pending:
  assumes "map_of (mpending m) sid = Some q"
  shows "settled m (set_pending sid q' m)"
  using map_of_in_keys [OF assms] unfolding settled_def by (intro exI [of _ "[]"]) (simp add: insert_absorb)

lemma settled_emit: "settled m n \<Longrightarrow> terminal e = [] \<Longrightarrow> settled m (emit e n)"
  by (fastforce simp: settled_def)

lemma settled_status_data: "settled m (on_status_data sid data m)"
  by (auto simp: on_status_data_def settled_release settled_emit settled_set_pending split: option.splits)

lemma settled_response:
  assumes q: "map_of (mpending m) (rh_streamid h) = Some q"
  shows "settled m (fst (final (on_response h body q (m, f))))"
proof -
  note pend = settled_set_pending [OF q] settled_release [OF q]
  have "settled m (on_status_data (rh_streamid h) [] (set_pending (rh_streamid h) q' m))" for q'
    by (rule settled_trans [OF settled_set_pending [OF q] settled_status_data])
  with pend show ?thesis
    unfolding on_response_def by (auto simp: Let_def final_raise_at settled_emit split: sum.splits)
qed

lemma settled_dispatch_inner: "settled m (fst (final (dispatch_inner ev h body (m, f))))"
  using bringup_unsettling [of m ev h body, THEN unsettling_settled] settled_response [of m h _ body f]
  by (auto simp: dispatch_inner_def split: sum.splits option.splits)

lemma settled_dispatch: "settled m (fst (final (dispatch ev h body (m, f))))"
  by (auto simp: dispatch_def final_raise_at settled_emit settled_dispatch_inner split: sum.splits)

lemma settled_parse_step:
  assumes "parse_step ev (m, f) = Some r"
  shows "settled m (fst (final r))"
  using assms settled_dispatch [of m]
  by (auto simp: parse_step_def Let_def settled_status_data split: if_splits option.splits sum.splits)

lemma settled_parse: "settled m (fst (final (parse ev (m, f))))"
proof (induction "backlog f" arbitrary: m f rule: less_induct)
  case less
  show ?case
  proof (cases "parse_step ev (m, f)")
    case None
    then show ?thesis by (simp add: parse.simps)
  next
    case (Some r)
    then have r: "settled m (fst (final r))" by (rule settled_parse_step)
    show ?thesis
    proof (cases r)
      case (Inl x)
      with Some r show ?thesis by (simp add: parse.simps)
    next
      case (Inr mf')
      obtain m' f' where mf': "mf' = (m', f')" by (cases mf')
      with Some Inr have "backlog f' < backlog f" using parse_step_backlog [of ev "(m, f)" mf'] by simp
      from settled_trans [OF _ less [OF this, of m']] r Some Inr mf' show ?thesis
        by (simp add: parse.simps [of ev "(m, f)"])
    qed
  qed
qed

section \<open>Lost links\<close>

lemma settled_eof:
  assumes "distinct (map fst (mpending m))"
  shows "settled m (on_eof m)"
proof (cases "mstate m \<in> {CLOSED, FAILED}")
  case True
  then show ?thesis by (simp add: on_eof_def)
next
  case False
  with assms show ?thesis
    unfolding settled_def on_eof_def
    by (intro exI [of _ "fail_all (XrdConnectionError ''connection closed by peer'') (mpending m)
               @ [Disconnected ''connection closed by peer'']"]) (simp add: terminals_fail_all)
qed

lemma release_all:
  fixes d :: "(int, pending) dict"
  defines "rel m \<equiv> foldl (\<lambda>m' (sid, _). release sid m') m d"
  shows "keys (mpending (rel m)) = keys (mpending m) - keys d" and "events (rel m) = events m"
proof -
  have step: "rel m = foldl (\<lambda>m' (sid, _). release sid m') m d" for m by (simp add: rel_def)
  show "keys (mpending (rel m)) = keys (mpending m) - keys d"
    unfolding step
  proof (induction d arbitrary: m)
    case (Cons x d)
    have "keys (mpending (release (fst x) m)) - keys d = keys (mpending m) - keys (x # d)"
      unfolding release_sel keys_delete list.set image_insert by (rule Diff_insert2 [symmetric])
    with Cons [of "release (fst x) m"] show ?case by (simp add: split_def)
  qed simp
  show "events (rel m) = events m"
    unfolding step by (induction d arbitrary: m) (simp_all add: split_def)
qed

lemma forget_path_sel:
  "keys (mpending (forget_path p m)) = keys (mpending m) - keys (on_path p (mpending m))"
  "events (forget_path p m) = events m"
  by (simp_all add: forget_path_def Let_def release_all)

lemma on_path_keys: "keys (on_path p d) \<subseteq> keys d" "distinct (map fst d) \<Longrightarrow> distinct (map fst (on_path p d))"
  by (auto simp: on_path_def distinct_map_filter)

lemma settled_path_eof:
  assumes "distinct (map fst (mpending m))"
  shows "settled m (on_path_eof p m)"
  using assms on_path_keys [where p = p and d = "mpending m"] unfolding settled_def on_path_eof_def
  by (intro exI [of _ "fail_all (XrdConnectionError ''data path closed by peer'') (on_path p (mpending m)) @ [PathLost p]"])
     (auto simp: forget_path_sel terminals_fail_all)

lemma settled_receive:
  assumes "distinct (map fst (mpending m))"
  shows "settled m (final (receive_data ev d p m))"
proof -
  let ?m = "m\<lparr>framers := AList.update p (link_of p m) (framers m)\<rparr>"
  have same: "settled m n \<longleftrightarrow> settled ?m n" for n by (simp add: settled_def)
  show ?thesis
  proof (cases "d = []")
    case True
    with assms settled_eof [of ?m] settled_path_eof [of ?m p] show ?thesis
      by (auto simp: receive_data_def link_of_def [symmetric] Let_def same)
  next
    case False
    let ?f = "(link_of p m)\<lparr>fr_buffer := fr_buffer (link_of p m) @ d\<rparr>"
    have "settled m (relink fs n) \<longleftrightarrow> settled m n" for fs n by (simp add: settled_def)
    with False settled_parse [of m ev ?f] show ?thesis
      by (cases "parse ev (m, ?f)") (auto simp: receive_data_parse)
  qed
qed

lemma release_all_pending:
  fixes d :: "(int, pending) dict"
  shows "mpending (foldl (\<lambda>m' (sid, _). release sid m') m d) = filter (\<lambda>(s, _). s \<notin> keys d) (mpending m)
    \<and> mstate (foldl (\<lambda>m' (sid, _). release sid m') m d) = mstate m
    \<and> out (foldl (\<lambda>m' (sid, _). release sid m') m d) = out m"
proof (induction d arbitrary: m)
  case (Cons x d)
  have "(\<lambda>(s, _). s \<notin> keys d \<and> fst x \<noteq> s) = (\<lambda>(s :: int, _ :: pending). s \<notin> keys (x # d))" by auto
  then have "filter (\<lambda>(s, _). s \<notin> keys d) (AList.delete (fst x) (mpending m))
      = filter (\<lambda>(s, _). s \<notin> keys (x # d)) (mpending m)"
    by (simp add: AList.delete_eq split_def conj_commute)
  with Cons [of "release (fst x) m"] show ?case by (simp add: split_def)
qed (simp add: split_def)

lemma off_path:
  assumes "distinct (map fst d)"
  shows "filter (\<lambda>(s, _). s \<notin> keys (on_path p d)) d = filter (\<lambda>(_, q). pd_pathid q \<noteq> p) d"
proof (rule filter_cong)
  fix x assume x: "x \<in> set d"
  have "fst x \<in> keys (on_path p d) \<longleftrightarrow> (\<exists>y\<in>set d. fst y = fst x \<and> pd_pathid (snd y) = p)"
    unfolding on_path_def by (auto simp: image_iff split_def) (metis fst_conv snd_conv)
  also have "\<dots> \<longleftrightarrow> pd_pathid (snd x) = p"
    using assms x by (auto simp: distinct_map dest: inj_onD)
  finally show "(case x of (s, _) \<Rightarrow> s \<notin> keys (on_path p d)) = (case x of (_, q) \<Rightarrow> pd_pathid q \<noteq> p)"
    by (simp add: split_def)
qed simp

section \<open>One stream at a time\<close>

lemma on_status_data_other:
  "s \<noteq> sid \<Longrightarrow> map_of (mpending (on_status_data sid d m)) s = map_of (mpending m) s"
  by (auto simp: on_status_data_def delete_conv update_conv split: option.splits)

lemma on_response_other:
  assumes "s \<noteq> rh_streamid h"
  shows "map_of (mpending (fst (final (on_response h body q (m, f))))) s = map_of (mpending m) s
    \<and> mstate (fst (final (on_response h body q (m, f)))) = mstate m"
proof -
  have "mstate (on_status_data sid d n) = mstate n" for sid d and n :: "'a machine"
    by (auto simp: on_status_data_def split: option.splits)
  with assms show ?thesis
    unfolding on_response_def
    by (auto simp: Let_def final_raise_at delete_conv update_conv on_status_data_other split: sum.splits)
qed

section \<open>Properties\<close>

text \<open>
  C7. No request is lost and none is reported twice. Whatever bytes, or end of file, a link
  delivers to a reachable machine, and even if handling them raises, the new events report
  as completed or failed exactly the requests that are no longer in flight, each once.
\<close>

theorem every_request_settled_once:
  assumes "reachable ev m"
  shows "let m' = final (receive_data ev data p m) in
    \<exists>evs. events m' = events m @ evs \<and> distinct (terminals evs)
      \<and> set (terminals evs) = keys (mpending m) - keys (mpending m') \<and> keys (mpending m') \<subseteq> keys (mpending m)"
proof -
  have "distinct (map fst (mpending m))" using ids.inv_reachable [OF assms(1)] by (simp add: ids_ok_def)
  from settled_receive [OF this, of ev data p] show ?thesis by (simp add: settled_def Let_def)
qed

theorem every_request_settled_once_witness:
  "map fst (mpending sample_busy) = [4]
   \<and> mpending (final (receive_data sample_env (response_frame 4 kXR_ok []) 0 sample_busy)) = []
   \<and> (\<exists>evs. events (final (receive_data sample_env (response_frame 4 kXR_ok []) 0 sample_busy))
        = events sample_busy @ evs \<and> terminals evs = [4])"
proof -
  let ?m' = "final (receive_data sample_env (response_frame 4 kXR_ok []) 0 sample_busy)"
  have 1: "map fst (mpending sample_busy) = [4]" by code_simp
  have 2: "mpending ?m' = []" by code_simp
  have k: "keys (mpending sample_busy) = {4}" using 1 by (metis list.set_map list.set(1,2))
  obtain evs where e: "events ?m' = events sample_busy @ evs" "distinct (terminals evs)" "set (terminals evs) = {4}"
    using every_request_settled_once [OF sample_busy_reachable, of "response_frame 4 kXR_ok []" 0] k 2 by (auto simp: Let_def)
  then have "terminals evs = [4]"
    by (metis distinct_card card.empty card_insert_disjoint empty_iff finite.emptyI length_0_conv length_Suc_conv
        list.set_intros(1) singletonD)
  with 1 2 e show ?thesis by blast
qed

text \<open>
  C8. Streams do not interfere. Once the session is up, a response other than an asynchronous
  notice changes the record of the stream its header names and of no other, and leaves the
  session's state as it was.
\<close>

theorem response_touches_one_stream:
  assumes "mstate m \<notin> bringup_states" and "rh_status h \<noteq> kXR_attn" and "s \<noteq> rh_streamid h"
  shows "let m' = fst (final (dispatch ev h body (m, f))) in
    map_of (mpending m') s = map_of (mpending m) s \<and> mstate m' = mstate m"
  using assms on_response_other [of s h body _ m f]
  by (auto simp: dispatch_def dispatch_inner_def bringup_states_def split: option.splits)

theorem response_touches_one_stream_witness:
  "map_of (mpending (fst (final (dispatch sample_env \<lparr>rh_streamid = 9, rh_status = kXR_ok, rh_dlen = 0\<rparr> []
     (sample_busy, Framer))))) 4 = map_of (mpending sample_busy) 4"
  using response_touches_one_stream
    [of sample_busy "\<lparr>rh_streamid = 9, rh_status = kXR_ok, rh_dlen = 0\<rparr>" 4 sample_env "[]" Framer]
  by (simp add: sample_busy_facts bringup_states_def Let_def)

text \<open>
  C9. Losing a data path costs only its own requests. At end of file on a bound path the machine
  reports the requests routed over it as failed, in the order they were submitted, then the
  loss of the path; every other request stays in flight untouched, the session keeps its state,
  and what is queued for the control link stays queued.
\<close>

theorem path_loss_is_contained:
  assumes "reachable ev m" and "p \<noteq> 0"
  shows "let m' = final (receive_data ev [] p m) in
    mpending m' = filter (\<lambda>(_, q). pd_pathid q \<noteq> p) (mpending m)
    \<and> events m' = events m @ map (\<lambda>(s, q). Failed (Some s) (Some (pd_request q))
          (XrdConnectionError ''data path closed by peer'')) (filter (\<lambda>(_, q). pd_pathid q = p) (mpending m))
        @ [PathLost p]
    \<and> mstate m' = mstate m \<and> out m' = out m"
proof -
  let ?m = "m\<lparr>framers := AList.update p (link_of p m) (framers m),
     events := events m @ fail_all (XrdConnectionError ''data path closed by peer'') (on_path p (mpending m))\<rparr>"
  have d: "distinct (map fst (mpending m))" using ids.inv_reachable [OF assms(1)] by (simp add: ids_ok_def)
  have m': "final (receive_data ev [] p m) = emit (PathLost p) (forget_path p ?m)"
    using assms(2) by (simp add: receive_data_def link_of_def [symmetric] Let_def on_path_eof_def)
  have f: "fail_all e xs = map (\<lambda>(s, q). Failed (Some s) (Some (pd_request q)) e) xs" for e xs
    by (induction e xs rule: fail_all.induct) simp_all
  show ?thesis
    using release_all_pending [of ?m "on_path p (mpending m)"] release_all(2) [of ?m "on_path p (mpending m)"]
      off_path [OF d, of p]
    by (simp add: m' forget_path_def Let_def f on_path_def)
qed

theorem path_loss_is_contained_witness:
  "mpending (final (receive_data sample_env [] 3 sample_busy)) = mpending sample_busy
   \<and> events (final (receive_data sample_env [] 3 sample_busy)) = events sample_busy @ [PathLost 3]"
proof -
  have "filter (\<lambda>(_, q). pd_pathid q = 3) (mpending sample_busy) = []" by code_simp
  then have "filter (\<lambda>(_, q). pd_pathid q \<noteq> 3) (mpending sample_busy) = mpending sample_busy"
    by (simp add: filter_empty_conv filter_id_conv split_def)
  with \<open>filter _ _ = []\<close> path_loss_is_contained [OF sample_busy_reachable, of 3] show ?thesis
    by (simp add: Let_def)
qed

end
