(* ===== verification/Crc.thy ===== *)
theory Crc
  imports Xrd_Prelude
begin

text \<open>
  The cyclic redundancy checks of \<^verbatim>\<open>src/src/xrd/crypto/crc32c.py\<close> and \<^verbatim>\<open>crc64.py\<close>, and the paged-I/O
  framing built on the first. The register is a machine word: the code masks to 32 or 64 bits
  on entry and never leaves that range. \<open>crc_reference\<close> is the textbook definition, one bit at
  a time; the locale \<open>reflected_crc\<close> asks of a table that its entries are the eight-fold clocked
  indices, and proves for a register of any width that the table-driven loop then computes
  the reference. Its interpretations are the tables of the polynomials in use. The slice-by-eight loop of CRC-32C is proved equal to the reference too.

  The C implementation that replaces the fallback when \<^verbatim>\<open>google-crc32c\<close> is installed is the
  parameter \<open>accel\<close>: \<open>None\<close> when the import fails, \<open>Some extend\<close> otherwise.
\<close>

section \<open>Tables\<close>

text \<open>\<^verbatim>\<open>crc = (crc >> 1) ^ poly if crc & 1 else crc >> 1\<close>.\<close>

definition crc_bit :: "'a::len word \<Rightarrow> 'a word \<Rightarrow> 'a word" where
  "crc_bit poly c = (if bit c 0 then drop_bit 1 c XOR poly else drop_bit 1 c)"

definition crc_byte :: "'a::len word \<Rightarrow> 'a word \<Rightarrow> 'a word" where
  "crc_byte poly c = (crc_bit poly ^^ 8) c"

definition crc_table :: "'a::len word \<Rightarrow> 'a word list" where
  "crc_table poly = map (\<lambda>n. crc_byte poly (of_nat n)) [0..<256]"

text \<open>One turn of the byte loop: \<^verbatim>\<open>c = table[(c ^ byte) & 0xFF] ^ (c >> 8)\<close>.\<close>

definition table_step :: "'a::len word list \<Rightarrow> 'a word \<Rightarrow> byte \<Rightarrow> 'a word" where
  "table_step table c b = table ! unat ((c XOR ucast b) AND 0xFF) XOR drop_bit 8 c"

section \<open>The reference\<close>

text \<open>Feed a byte into the low end of the register and clock it eight times.\<close>

definition ref_step :: "'a::len word \<Rightarrow> 'a word \<Rightarrow> byte \<Rightarrow> 'a word" where
  "ref_step poly c b = crc_byte poly (c XOR ucast b)"

definition crc_reference :: "'a::len word \<Rightarrow> bytes \<Rightarrow> 'a word \<Rightarrow> 'a word" where
  "crc_reference poly data crc = NOT (foldl (ref_step poly) (NOT crc) data)"

lemma crc_bit_xor: "crc_bit poly (a XOR b) = crc_bit poly a XOR crc_bit poly b"
  by (rule bit_word_eqI) (auto simp: crc_bit_def bit_simps)

lemma crc_bit_pow_xor: "(crc_bit poly ^^ n) (a XOR b) = (crc_bit poly ^^ n) a XOR (crc_bit poly ^^ n) b"
  by (induction n) (simp_all add: crc_bit_xor)

lemma crc_byte_xor: "crc_byte poly (a XOR b) = crc_byte poly a XOR crc_byte poly b"
  by (simp add: crc_byte_def crc_bit_pow_xor)

lemma crc_bit_pow_shift:
  "(\<forall>i<n. \<not> bit c i) \<Longrightarrow> (crc_bit poly ^^ n) c = drop_bit n c"
proof (induction n arbitrary: c)
  case (Suc n)
  then have "crc_bit poly c = drop_bit 1 c" by (simp add: crc_bit_def)
  moreover from Suc.prems have "\<forall>i<n. \<not> bit (drop_bit 1 c) i" by (simp add: bit_simps)
  ultimately show ?case using Suc.IH [of "drop_bit 1 c"] by (simp add: funpow_swap1 del: funpow.simps add: funpow_Suc_right)
qed simp

lemma crc_byte_shift: "(\<forall>i<8. \<not> bit c i) \<Longrightarrow> crc_byte poly c = drop_bit 8 c"
  by (simp add: crc_byte_def crc_bit_pow_shift)

section \<open>What a table has to satisfy\<close>

lemma low_byte_parts:
  fixes c :: "'a::len word"
  shows "crc_byte poly c = crc_byte poly (c AND 0xFF) XOR drop_bit 8 c"
proof -
  have mask: "(0xFF :: 'a word) = mask 8" by (simp add: mask_eq_exp_minus_1)
  let ?high = "c AND NOT (mask 8)"
  have "c = (c AND mask 8) XOR ?high" by (rule bit_word_eqI) (auto simp: bit_simps)
  then have "crc_byte poly c = crc_byte poly (c AND mask 8) XOR crc_byte poly ?high"
    by (metis crc_byte_xor)
  also have "crc_byte poly ?high = drop_bit 8 ?high"
    by (rule crc_byte_shift) (simp add: bit_simps)
  also have "drop_bit 8 ?high = drop_bit 8 c"
    by (rule bit_word_eqI) (auto simp: bit_simps dest: bit_imp_le_length)
  finally show ?thesis by (simp add: mask)
qed

locale reflected_crc =
  fixes poly :: "'a::len word"
    and table :: "'a word list"
  assumes entries: "n < 256 \<Longrightarrow> table ! n = crc_byte poly (of_nat n)"
begin

lemma lookup: "table ! unat (c AND 0xFF) = crc_byte poly (c AND 0xFF)"
proof -
  have "c AND 0xFF \<le> (0xFF :: 'a word)" by (rule word_and_le1)
  then have "unat (c AND 0xFF) \<le> unat (0xFF :: 'a word)" by (simp add: word_le_nat_alt)
  moreover have "unat (0xFF :: 'a word) \<le> 255"
    by (metis of_nat_numeral unat_of_nat mod_less_eq_dividend)
  ultimately have "unat (c AND 0xFF) < 256" by linarith
  then show ?thesis by (simp add: entries)
qed

lemma step_is_reference: "table_step table c b = ref_step poly c b"
proof -
  have "drop_bit 8 (ucast b :: 'a word) = 0"
    by (rule bit_word_eqI) (auto simp: bit_simps dest: bit_imp_le_length)
  then have "drop_bit 8 (c XOR ucast b) = drop_bit 8 c" by simp
  then show ?thesis
    using low_byte_parts [of poly "c XOR ucast b"] lookup [of "c XOR ucast b"]
    by (simp add: table_step_def ref_step_def)
qed

lemma fold_is_reference: "foldl (table_step table) c bs = foldl (ref_step poly) c bs"
  by (simp add: step_is_reference [abs_def])

end

lemma crc_table_entries: "n < 256 \<Longrightarrow> crc_table poly ! n = crc_byte poly (of_nat n)"
  by (simp add: crc_table_def)

section \<open>CRC-32C\<close>

abbreviation (input) CRC32C_POLY :: "32 word" where "CRC32C_POLY \<equiv> 0x82F63B78"

text \<open>\<^verbatim>\<open>_build_tables\<close>: the first table, then seven more, each from the one before it.\<close>

definition next_table :: "32 word list \<Rightarrow> 32 word list \<Rightarrow> 32 word list" where
  "next_table first prev = map (\<lambda>v. drop_bit 8 v XOR first ! unat (v AND 0xFF)) prev"

fun more_tables :: "nat \<Rightarrow> 32 word list \<Rightarrow> 32 word list \<Rightarrow> 32 word list list" where
  "more_tables 0 first prev = []"
| "more_tables (Suc k) first prev = (let t = next_table first prev in t # more_tables k first t)"

definition build_tables :: "32 word list list" where
  "build_tables = (let first = crc_table CRC32C_POLY in first # more_tables 7 first first)"

text \<open>\<^verbatim>\<open>int.from_bytes(view[i:i+4], "little")\<close>, and one turn of the loop over blocks of eight.\<close>

definition le32 :: "byte \<Rightarrow> byte \<Rightarrow> byte \<Rightarrow> byte \<Rightarrow> 32 word" where
  "le32 b0 b1 b2 b3 = word_of_int (le_int [b0, b1, b2, b3])"

definition slice8 :: "32 word list list \<Rightarrow> 32 word \<Rightarrow> bytes \<Rightarrow> 32 word" where
  "slice8 T c0 bs =
     (let c = c0 XOR le32 (bs ! 0) (bs ! 1) (bs ! 2) (bs ! 3) in
      T ! 7 ! unat (c AND 0xFF) XOR T ! 6 ! unat (drop_bit 8 c AND 0xFF)
      XOR T ! 5 ! unat (drop_bit 16 c AND 0xFF) XOR T ! 4 ! unat (drop_bit 24 c)
      XOR T ! 3 ! unat (bs ! 4) XOR T ! 2 ! unat (bs ! 5) XOR T ! 1 ! unat (bs ! 6) XOR T ! 0 ! unat (bs ! 7))"

text \<open>Both loops of \<^verbatim>\<open>_crc32c_py\<close>: blocks of eight while there are any, then byte by byte.\<close>

fun crc32c_loop :: "32 word list list \<Rightarrow> 32 word \<Rightarrow> bytes \<Rightarrow> 32 word" where
  "crc32c_loop T c bs =
     (if length bs \<ge> 8 then crc32c_loop T (slice8 T c (take 8 bs)) (drop 8 bs)
      else foldl (table_step (T ! 0)) c bs)"

declare crc32c_loop.simps [simp del]

definition crc32c_py :: "bytes \<Rightarrow> int \<Rightarrow> int" where
  "crc32c_py data crc = uint (NOT (crc32c_loop build_tables (NOT (word_of_int crc)) data))"

type_synonym accel = "(int \<Rightarrow> bytes \<Rightarrow> int) option"

definition crc32c :: "accel \<Rightarrow> bytes \<Rightarrow> int \<Rightarrow> int" where
  "crc32c accel data crc = (case accel of None \<Rightarrow> crc32c_py data crc | Some extend \<Rightarrow> extend crc data)"

section \<open>CRC-64\<close>

definition XZ :: "64 word list" where "XZ = crc_table 0xC96C5795D7870F42"
definition NVME :: "64 word list" where "NVME = crc_table 0x9A6C9329AC4BC9B5"

definition crc_fold :: "64 word list \<Rightarrow> bytes \<Rightarrow> int \<Rightarrow> int" where
  "crc_fold table data crc = uint (NOT (foldl (table_step table) (NOT (word_of_int crc)) data))"

definition crc64 :: "bytes \<Rightarrow> int \<Rightarrow> int" where "crc64 data crc = crc_fold XZ data crc"
definition crc64nvme :: "bytes \<Rightarrow> int \<Rightarrow> int" where "crc64nvme data crc = crc_fold NVME data crc"

interpretation castagnoli: reflected_crc CRC32C_POLY "build_tables ! 0"
  by unfold_locales (simp add: build_tables_def Let_def crc_table_entries)

interpretation xz: reflected_crc "0xC96C5795D7870F42 :: 64 word" XZ
  by unfold_locales (simp add: XZ_def crc_table_entries)

interpretation nvme: reflected_crc "0x9A6C9329AC4BC9B5 :: 64 word" NVME
  by unfold_locales (simp add: NVME_def crc_table_entries)

section \<open>Slice by eight\<close>

lemma next_table_nth:
  assumes "n < length prev" "prev ! n = (crc_byte CRC32C_POLY ^^ k) (of_nat n)"
  shows "next_table (crc_table CRC32C_POLY) prev ! n = (crc_byte CRC32C_POLY ^^ Suc k) (of_nat n)"
  using assms castagnoli.lookup [of "prev ! n"] low_byte_parts [of CRC32C_POLY "prev ! n"]
  by (simp add: next_table_def build_tables_def Let_def xor.commute)

lemma more_tables_nth:
  assumes "\<forall>n<256. prev ! n = (crc_byte CRC32C_POLY ^^ j) (of_nat n)" "length prev = 256" "i < k" "n < 256"
  shows "more_tables k (crc_table CRC32C_POLY) prev ! i ! n = (crc_byte CRC32C_POLY ^^ (j + Suc i)) (of_nat n)"
  using assms
proof (induction k arbitrary: prev j i)
  case (Suc k)
  let ?t = "next_table (crc_table CRC32C_POLY) prev"
  have t: "\<forall>n<256. ?t ! n = (crc_byte CRC32C_POLY ^^ Suc j) (of_nat n)" "length ?t = 256"
    using Suc.prems next_table_nth [of _ prev j] by (simp, simp add: next_table_def)
  show ?case
  proof (cases i)
    case 0
    with t Suc.prems show ?thesis by (simp add: Let_def)
  next
    case (Suc i')
    with Suc.IH [OF t, of i'] Suc.prems show ?thesis by (simp add: Let_def del: funpow.simps)
  qed
qed simp

lemma build_tables_nth:
  assumes "k < 8" and "n < 256"
  shows "build_tables ! k ! n = (crc_byte CRC32C_POLY ^^ Suc k) (of_nat n)"
proof (cases k)
  case 0
  with assms show ?thesis by (simp add: build_tables_def Let_def crc_table_entries)
next
  case (Suc i)
  let ?t = "crc_table CRC32C_POLY"
  have "\<forall>n<256. ?t ! n = (crc_byte CRC32C_POLY ^^ 1) (of_nat n)" "length ?t = 256"
    by (simp_all add: crc_table_def)
  from more_tables_nth [OF this, of i 7 n] Suc assms show ?thesis
    by (simp add: build_tables_def Let_def del: funpow.simps)
qed

lemma byte_bits: "bit (ucast (b :: byte) :: 32 word) i \<Longrightarrow> i < 8"
  by (auto simp: bit_simps dest: bit_imp_le_length)

lemma add_above:
  fixes a b :: "32 word"
  assumes "\<And>i. bit a i \<Longrightarrow> i < n"
  shows "a + push_bit n b = a XOR push_bit n b"
proof (rule disjunctive_add_eq_xor)
  show "a AND push_bit n b = 0"
    by (rule bit_word_eqI) (use assms in \<open>fastforce simp: bit_simps\<close>)
qed

lemma le32_parts:
  "le32 b0 b1 b2 b3 = ucast b0 XOR push_bit 8 (ucast b1) XOR push_bit 16 (ucast b2) XOR push_bit 24 (ucast b3)"
proof -
  let ?a = "ucast b0 :: 32 word" let ?b = "ucast b1 :: 32 word" let ?c = "ucast b2 :: 32 word"
  have "le32 b0 b1 b2 b3 = ?a + push_bit 8 ?b + push_bit 16 ?c + push_bit 24 (ucast b3)"
    by (simp add: le32_def le_int_def be_int_def push_bit_eq_mult ring_distribs)
  also have "?a + push_bit 8 ?b = ?a XOR push_bit 8 ?b"
    by (rule add_above) (rule byte_bits)
  also have "(?a XOR push_bit 8 ?b) + push_bit 16 ?c = (?a XOR push_bit 8 ?b) XOR push_bit 16 ?c"
    by (rule add_above) (use byte_bits in \<open>fastforce simp: bit_xor_iff bit_push_bit_iff\<close>)
  also have "((?a XOR push_bit 8 ?b) XOR push_bit 16 ?c) + push_bit 24 (ucast b3)
      = ((?a XOR push_bit 8 ?b) XOR push_bit 16 ?c) XOR push_bit 24 (ucast b3)"
    by (rule add_above) (use byte_bits in \<open>fastforce simp: bit_xor_iff bit_push_bit_iff\<close>)
  finally show ?thesis by (simp only: xor.assoc)
qed

lemma crc_byte_pow_xor: "(crc_byte poly ^^ n) (a XOR b) = (crc_byte poly ^^ n) a XOR (crc_byte poly ^^ n) b"
  by (induction n) (simp_all add: crc_byte_xor)

text \<open>A byte that sits higher up in the register is as good as one fed later.\<close>

lemma crc_byte_high:
  fixes x :: "32 word"
  assumes "k \<le> 3" and "\<And>i. bit x i \<Longrightarrow> i < 8"
  shows "(crc_byte poly ^^ (k + j)) (push_bit (8 * k) x) = (crc_byte poly ^^ j) x"
  using assms(1)
proof (induction k)
  case (Suc k)
  have "crc_byte poly (push_bit (8 * Suc k) x) = drop_bit 8 (push_bit (8 * Suc k) x)"
    by (rule crc_byte_shift) (simp add: bit_simps)
  also have "\<dots> = push_bit (8 * k) x"
    by (rule bit_word_eqI) (use Suc.prems assms(2) in \<open>fastforce simp: bit_simps algebra_simps\<close>)
  finally show ?case using Suc by (simp add: funpow_swap1 funpow_Suc_right del: funpow.simps)
qed simp

lemma word_parts:
  fixes c :: "32 word"
  shows "c = (c AND 0xFF) XOR push_bit 8 (drop_bit 8 c AND 0xFF) XOR push_bit 16 (drop_bit 16 c AND 0xFF)
     XOR push_bit 24 (drop_bit 24 c)"
proof -
  have m: "(0xFF :: 32 word) = mask 8" by (simp add: mask_eq_exp_minus_1)
  show ?thesis unfolding m by (rule bit_word_eqI) (auto simp: bit_simps)
qed

text \<open>One byte time of the register.\<close>

abbreviation L :: "32 word \<Rightarrow> 32 word" where "L \<equiv> crc_byte CRC32C_POLY"

lemma table_byte: "k < 8 \<Longrightarrow> build_tables ! k ! unat (b :: byte) = (L ^^ Suc k) (ucast b)"
  using build_tables_nth [of k "unat b"] unsigned_less [of b, where 'a = nat] by (simp del: funpow.simps)

lemma table_word:
  fixes x :: "32 word"
  assumes "k < 8" and "\<And>i. bit x i \<Longrightarrow> i < 8"
  shows "build_tables ! k ! unat x = (L ^^ Suc k) x"
proof -
  have "take_bit 8 x = x" using assms(2) by (intro bit_word_eqI) (auto simp: bit_simps)
  then have "unat x = take_bit 8 (unat x)" by (metis unsigned_take_bit_eq)
  then have "unat x < 256" using take_bit_nat_less_exp [of 8 "unat x"] by simp
  with build_tables_nth [OF assms(1)] show ?thesis by (simp del: funpow.simps)
qed

lemma low_bits:
  fixes x :: "32 word"
  shows "bit (x AND 0xFF) i \<Longrightarrow> i < 8" "bit (drop_bit 24 x) i \<Longrightarrow> i < 8"
proof -
  have "(0xFF :: 32 word) = mask 8" by (simp add: mask_eq_exp_minus_1)
  then show "bit (x AND 0xFF) i \<Longrightarrow> i < 8" by (simp add: bit_simps)
  show "bit (drop_bit 24 x) i \<Longrightarrow> i < 8" by (auto simp: bit_simps dest: bit_imp_le_length)
qed

lemma clock_block:
  fixes x0 x1 x2 x3 :: "32 word"
  assumes "\<And>i. bit x1 i \<Longrightarrow> i < 8" "\<And>i. bit x2 i \<Longrightarrow> i < 8" "\<And>i. bit x3 i \<Longrightarrow> i < 8"
  shows "(L ^^ 8) (x0 XOR push_bit 8 x1 XOR push_bit 16 x2 XOR push_bit 24 x3)
    = (L ^^ 8) x0 XOR (L ^^ 7) x1 XOR (L ^^ 6) x2 XOR (L ^^ 5) x3"
  using crc_byte_high [where k = 1 and x = x1 and poly = CRC32C_POLY and j = 7, OF _ assms(1)] crc_byte_high [where k = 2 and x = x2 and poly = CRC32C_POLY and j = 6, OF _ assms(2)]
    crc_byte_high [where k = 3 and x = x3 and poly = CRC32C_POLY and j = 5, OF _ assms(3)]
  by (simp add: crc_byte_pow_xor)

lemma clock_tables:
  "(L ^^ 8) c = build_tables ! 7 ! unat (c AND 0xFF) XOR build_tables ! 6 ! unat (drop_bit 8 c AND 0xFF)
     XOR build_tables ! 5 ! unat (drop_bit 16 c AND 0xFF) XOR build_tables ! 4 ! unat (drop_bit 24 c)"
proof -
  have "(L ^^ 8) c = (L ^^ 8) (c AND 0xFF) XOR (L ^^ 7) (drop_bit 8 c AND 0xFF)
      XOR (L ^^ 6) (drop_bit 16 c AND 0xFF) XOR (L ^^ 5) (drop_bit 24 c)"
    by (subst word_parts [of c], rule clock_block) (fact low_bits)+
  with table_word [of 7 "c AND 0xFF"] table_word [of 6 "drop_bit 8 c AND 0xFF"]
    table_word [of 5 "drop_bit 16 c AND 0xFF"] table_word [of 4 "drop_bit 24 c"] low_bits
  show ?thesis by (simp del: funpow.simps)
qed

lemma slice8_clocked:
  "slice8 build_tables c [b0, b1, b2, b3, b4, b5, b6, b7] =
     (L ^^ 8) (c XOR le32 b0 b1 b2 b3) XOR (L ^^ 4) (ucast b4) XOR (L ^^ 3) (ucast b5)
       XOR (L ^^ 2) (ucast b6) XOR L (ucast b7)"
proof -
  define d where "d = c XOR le32 b0 b1 b2 b3"
  have "build_tables ! 3 ! unat b4 = (L ^^ 4) (ucast b4)" "build_tables ! 2 ! unat b5 = (L ^^ 3) (ucast b5)"
    "build_tables ! 1 ! unat b6 = (L ^^ 2) (ucast b6)" "build_tables ! 0 ! unat b7 = L (ucast b7)"
    using table_byte [of 3 b4] table_byte [of 2 b5] table_byte [of 1 b6] table_byte [of 0 b7]
    by (simp_all add: eval_nat_numeral)
  then show ?thesis
    by (simp add: slice8_def d_def [symmetric] clock_tables [of d] xor.assoc)
qed

lemma slice8_is_reference:
  assumes "length bs = 8"
  shows "slice8 build_tables c bs = foldl (ref_step CRC32C_POLY) c bs"
proof -
  from assms obtain b0 b1 b2 b3 b4 b5 b6 b7 where bs: "bs = [b0, b1, b2, b3, b4, b5, b6, b7]"
    by (auto simp: length_Suc_conv eval_nat_numeral)
  have "(L ^^ 8) (c XOR le32 b0 b1 b2 b3)
     = (L ^^ 8) c XOR (L ^^ 8) (ucast b0) XOR (L ^^ 7) (ucast b1) XOR (L ^^ 6) (ucast b2) XOR (L ^^ 5) (ucast b3)"
    using clock_block [of "ucast b1" "ucast b2" "ucast b3" "c XOR ucast b0"] byte_bits
    by (simp add: le32_parts crc_byte_pow_xor xor.assoc)
  then show ?thesis
    by (simp add: bs slice8_clocked ref_step_def crc_byte_xor eval_nat_numeral xor.assoc)
qed
section \<open>The three functions compute the reference\<close>

lemma crc32c_loop_is_reference: "crc32c_loop build_tables c bs = foldl (ref_step CRC32C_POLY) c bs"
proof (induction "length bs" arbitrary: c bs rule: less_induct)
  case less
  show ?case
  proof (cases "length bs \<ge> 8")
    case True
    then have "foldl (ref_step CRC32C_POLY) c bs
        = foldl (ref_step CRC32C_POLY) (slice8 build_tables c (take 8 bs)) (drop 8 bs)"
      by (simp add: slice8_is_reference flip: foldl_append)
    with True less [of "drop 8 bs"] show ?thesis by (simp add: crc32c_loop.simps)
  next
    case False
    then show ?thesis by (simp add: crc32c_loop.simps castagnoli.fold_is_reference)
  qed
qed

lemma crc32c_py_reference: "crc32c_py data crc = uint (crc_reference CRC32C_POLY data (word_of_int crc))"
  by (simp add: crc32c_py_def crc_reference_def crc32c_loop_is_reference)

lemma crc64_reference:
  "crc64 data crc = uint (crc_reference (0xC96C5795D7870F42 :: 64 word) data (word_of_int crc))"
  "crc64nvme data crc = uint (crc_reference (0x9A6C9329AC4BC9B5 :: 64 word) data (word_of_int crc))"
  by (simp_all add: crc64_def crc64nvme_def crc_fold_def crc_reference_def
      xz.fold_is_reference nvme.fold_is_reference)

lemma crc_reference_append:
  "crc_reference poly (a @ b) crc = crc_reference poly b (crc_reference poly a crc)"
  by (simp add: crc_reference_def)

lemma crc_reference_Nil [simp]: "crc_reference poly [] crc = crc"
  by (simp add: crc_reference_def)

section \<open>Pages\<close>

abbreviation (input) PAGE_SIZE :: nat where "PAGE_SIZE \<equiv> 4096"

text \<open>\<^verbatim>\<open>PAGE_SIZE - offset % PAGE_SIZE if offset % PAGE_SIZE else PAGE_SIZE\<close>.\<close>

definition first_page :: "int \<Rightarrow> nat" where
  "first_page offset = (if offset mod int PAGE_SIZE \<noteq> 0 then nat (int PAGE_SIZE - offset mod int PAGE_SIZE) else PAGE_SIZE)"

lemma first_page_bounds: "0 < first_page offset" "first_page offset \<le> PAGE_SIZE"
  by (auto simp: first_page_def)

lemma first_page_aligns: "int PAGE_SIZE dvd offset + int (first_page offset)"
proof -
  have "offset + int (first_page offset) = (offset - offset mod 4096) + 4096"
    by (simp add: first_page_def)
  moreover have "(4096 :: int) dvd (offset - offset mod 4096) + 4096"
    by (rule dvd_add [OF dvd_minus_mod dvd_refl])
  ultimately have "4096 dvd offset + int (first_page offset)" by (simp only:)
  then show ?thesis by simp
qed

text \<open>The loops over the pages; \<open>head\<close> is the length of the next page.\<close>

function pack_loop :: "accel \<Rightarrow> nat \<Rightarrow> bytes \<Rightarrow> bytes" where
  "pack_loop accel head data =
     (if data = [] then []
      else
        (let page = take head data
         in be_bytes 4 (crc32c accel page 0) @ page @ pack_loop accel PAGE_SIZE (drop head data)))"
  by pat_completeness auto
termination
  by (relation "measure (\<lambda>(_, head, data). length data + (if head = 0 then 1 else 0))") auto

declare pack_loop.simps [simp del]

definition pack_pages :: "accel \<Rightarrow> bytes \<Rightarrow> int \<Rightarrow> bytes" where
  "pack_pages accel data offset = pack_loop accel (first_page offset) data"

function unpack_loop :: "accel \<Rightarrow> nat \<Rightarrow> int \<Rightarrow> bytes \<Rightarrow> bytes \<times> int list" where
  "unpack_loop accel head start data =
     (if data = [] then ([], [])
      else
        (let want = be_int (take 4 data);
             page = take head (drop 4 data);
             (rest, corrupt) = unpack_loop accel PAGE_SIZE (start + int (length page)) (drop (4 + length page) data)
         in (page @ rest, (if crc32c accel page 0 \<noteq> want then [start] else []) @ corrupt)))"
  by pat_completeness auto
termination
  by (relation "measure (\<lambda>(_, _, _, data). length data)") auto

declare unpack_loop.simps [simp del]

definition unpack_pages :: "accel \<Rightarrow> bytes \<Rightarrow> int \<Rightarrow> bytes \<times> int list" where
  "unpack_pages accel data offset = unpack_loop accel (first_page offset) offset data"

text \<open>What is asked of the accelerated routine: a CRC-32C is a number of 32 bits.\<close>

definition crc_in_range :: "accel \<Rightarrow> bool" where
  "crc_in_range accel \<longleftrightarrow> (\<forall>d. 0 \<le> crc32c accel d 0 \<and> crc32c accel d 0 < 2 ^ 32)"

lemma crc_in_range_py: "crc_in_range None"
  using uint_bounded [where 'a = 32] by (auto simp: crc_in_range_def crc32c_def crc32c_py_def)

lemma unpack_loop_Nil: "unpack_loop accel head start [] = ([], [])"
  by (simp add: unpack_loop.simps)

lemma unpack_loop_page:
  assumes "length crc = 4" and "take head (page @ rest) = page"
  shows "unpack_loop accel head start (crc @ page @ rest) =
    (let (more, corrupt) = unpack_loop accel PAGE_SIZE (start + int (length page)) rest
     in (page @ more, (if crc32c accel page 0 \<noteq> be_int crc then [start] else []) @ corrupt))"
proof -
  let ?d = "crc @ page @ rest"
  have d: "?d \<noteq> []" "take 4 ?d = crc" "drop 4 ?d = page @ rest" "drop (4 + length page) ?d = rest"
    using assms(1) by auto
  show ?thesis
    unfolding unpack_loop.simps [of accel head start ?d] Let_def d assms(2) using assms(1) by auto
qed

lemma unpack_pack_loop:
  assumes "crc_in_range accel" and "0 < head"
  shows "unpack_loop accel head start (pack_loop accel head data) = (data, [])"
  using assms(2)
proof (induction "length data" arbitrary: head start data rule: less_induct)
  case less
  show ?case
  proof (cases "data = []")
    case True
    then show ?thesis by (simp add: pack_loop.simps unpack_loop.simps)
  next
    case False
    let ?page = "take head data"
    let ?rest = "pack_loop accel PAGE_SIZE (drop head data)"
    let ?crc = "be_bytes 4 (crc32c accel ?page 0)"
    have p: "pack_loop accel head data = ?crc @ ?page @ ?rest" using False by (simp add: pack_loop.simps Let_def)
    have want: "be_int ?crc = crc32c accel ?page 0"
      using assms(1) by (simp add: be_int_be_bytes crc_in_range_def)
    have page: "take head (?page @ ?rest) = ?page"
    proof (cases "head \<le> length data")
      case False
      then have "drop head data = []" by simp
      then show ?thesis by (simp add: pack_loop.simps)
    qed simp
    have "unpack_loop accel PAGE_SIZE (start + int (length ?page)) ?rest = (drop head data, [])"
      using False less.prems by (intro less.hyps) auto
    with want show ?thesis unfolding p by (subst unpack_loop_page [OF _ page]) simp_all
  qed
qed

lemma unpack_aligned:
  assumes "c \<in> set (snd (unpack_loop accel head start data))" and "int PAGE_SIZE dvd start + int head"
  shows "c = start \<or> int PAGE_SIZE dvd c"
  using assms
proof (induction accel head start data arbitrary: c rule: unpack_loop.induct)
  case (1 accel head start data)
  show ?case
  proof (cases "data = []")
    case True
    with 1 show ?thesis by (simp add: unpack_loop.simps)
  next
    case False
    let ?page = "take head (drop 4 data)"
    let ?next = "start + int (length ?page)"
    let ?rest = "unpack_loop accel PAGE_SIZE ?next (drop (4 + length ?page) data)"
    have "c = start \<or> c \<in> set (snd ?rest)"
      using 1(2) False by (auto simp: unpack_loop.simps [of accel head] Let_def split: prod.splits if_splits)
    moreover have "c = ?next \<or> int PAGE_SIZE dvd c" and "int PAGE_SIZE dvd ?next" if c: "c \<in> set (snd ?rest)"
    proof -
      have "length ?page = head"
      proof (rule ccontr)
        assume "length ?page \<noteq> head"
        then have "drop (4 + length ?page) data = []" by auto
        then have "?rest = ([], [])" by (simp only: unpack_loop_Nil)
        with c show False by simp
      qed
      then show n: "int PAGE_SIZE dvd ?next" using 1(3) by simp
      show "c = ?next \<or> int PAGE_SIZE dvd c"
        using 1(1) [OF False refl refl c] n by simp
    qed
    ultimately show ?thesis by blast
  qed
qed

section \<open>Detection\<close>

lemma xor_zero_iff: "a XOR b = 0 \<longleftrightarrow> a = b" for a b :: "'a::len word"
  by (metis xor.assoc xor.left_neutral xor.right_neutral xor_self_eq)

lemma xor_right_cancel: "a XOR w = b XOR w \<longleftrightarrow> a = b" for a b w :: "'a::len word"
  by (metis xor.assoc xor.right_neutral xor_self_eq)

lemma xor_left_cancel: "w XOR a = w XOR b \<longleftrightarrow> a = b" for a b w :: "'a::len word"
  by (metis xor_right_cancel xor.commute)

text \<open>With the top coefficient set, clocking the register loses nothing.\<close>

lemma crc_bit_zero:
  fixes c :: "'a::len word"
  assumes "bit poly (LENGTH('a) - 1)" and "crc_bit poly c = 0"
  shows "c = 0"
proof (cases "bit c 0")
  case True
  with assms(2) have "drop_bit 1 c = poly" by (simp add: crc_bit_def xor_zero_iff)
  with assms(1) have "bit (drop_bit 1 c) (LENGTH('a) - 1)" by simp
  then show ?thesis by (auto simp: bit_simps dest: bit_imp_le_length)
next
  case False
  with assms(2) have "drop_bit 1 c = 0" by (simp add: crc_bit_def)
  show ?thesis
  proof (rule bit_word_eqI)
    fix n
    show "bit c n \<longleftrightarrow> bit (0 :: 'a word) n"
      using False \<open>drop_bit 1 c = 0\<close> bit_drop_bit_eq [of 1 c] by (cases n) (auto simp: fun_eq_iff)
  qed
qed

lemma crc_byte_inj:
  fixes a b :: "'a::len word"
  assumes "bit poly (LENGTH('a) - 1)" and "crc_byte poly a = crc_byte poly b"
  shows "a = b"
proof -
  have zero: "(crc_bit poly ^^ n) c = 0 \<Longrightarrow> c = 0" for n c
    by (induction n) (auto dest: crc_bit_zero [OF assms(1)])
  have "crc_byte poly (a XOR b) = 0" using assms(2) by (simp add: crc_byte_xor)
  then have "a XOR b = 0" unfolding crc_byte_def by (rule zero)
  then show ?thesis by (simp add: xor_zero_iff)
qed

lemma ref_fold_inj:
  fixes a b :: "'a::len word"
  assumes "bit poly (LENGTH('a) - 1)"
  shows "foldl (ref_step poly) a bs = foldl (ref_step poly) b bs \<Longrightarrow> a = b"
proof (induction bs arbitrary: a b)
  case (Cons x bs)
  then have "ref_step poly a x = ref_step poly b x" by (metis foldl_Cons)
  then show ?case unfolding ref_step_def by (auto dest: crc_byte_inj [OF assms] simp: xor_right_cancel)
qed simp

lemma ref_fold_byte:
  fixes c :: "'a::len word"
  assumes "bit poly (LENGTH('a) - 1)" and "8 \<le> LENGTH('a)"
    and "foldl (ref_step poly) c (xs @ b # ys) = foldl (ref_step poly) c (xs @ b' # ys)"
  shows "b = b'"
proof -
  let ?d = "foldl (ref_step poly) c xs"
  from assms(3) have "foldl (ref_step poly) (ref_step poly ?d b) ys = foldl (ref_step poly) (ref_step poly ?d b') ys"
    by simp
  then have "ref_step poly ?d b = ref_step poly ?d b'" by (rule ref_fold_inj [OF assms(1)])
  then have eq: "(ucast b :: 'a word) = ucast b'"
    unfolding ref_step_def by (auto dest: crc_byte_inj [OF assms(1)] simp: xor_left_cancel)
  show ?thesis
  proof (rule bit_word_eqI)
    fix n assume n: "n < LENGTH(8)"
    from eq have "bit (ucast b :: 'a word) n = bit (ucast b' :: 'a word) n" by simp
    with n assms(2) show "bit b n = bit b' n" by (simp add: bit_simps)
  qed
qed

section \<open>Properties\<close>

text \<open>
  C21. The fast CRC-32C is CRC-32C. For every input and every running value, the slice-by-eight
  loop over the eight precomputed tables, with its byte-wise tail, returns what clocking the
  Castagnoli register bit by bit returns.
\<close>

theorem slice_by_eight_is_crc32c:
  "crc32c_py data crc = uint (crc_reference CRC32C_POLY data (word_of_int crc))"
  by (rule crc32c_py_reference)

text \<open>
  The two 64-bit checksums are table-driven evaluations of the bitwise register for the
  reflected ECMA-182 and Rocksoft polynomials, for every input and every running value.
\<close>

theorem crc64_tables_correct:
  "crc64 data crc = uint (crc_reference (0xC96C5795D7870F42 :: 64 word) data (word_of_int crc))
   \<and> crc64nvme data crc = uint (crc_reference (0x9A6C9329AC4BC9B5 :: 64 word) data (word_of_int crc))"
  using crc64_reference by blast

text \<open>
  Paged data survives the round trip. Whatever the data, the file offset it starts at and
  the CRC-32C implementation in use, stripping the page checksums that \<^verbatim>\<open>pack_pages\<close> interleaved
  gives back the data and reports no page as corrupt.
\<close>

theorem pages_round_trip:
  assumes "crc_in_range accel"
  shows "unpack_pages accel (pack_pages accel data offset) offset = (data, [])"
  unfolding unpack_pages_def pack_pages_def using assms first_page_bounds(1) by (rule unpack_pack_loop)

theorem pages_round_trip_witness:
  "crc_in_range None \<and> unpack_pages None (pack_pages None [1, 2, 3] 4095) 4095 = ([1, 2, 3], [])"
  using pages_round_trip [OF crc_in_range_py] crc_in_range_py by blast

text \<open>
  A damaged page is reported, at its own offset. When one byte of a page arrives different
  from what its checksum was computed over, \<^verbatim>\<open>unpack_pages\<close> reports the offset of the page.
\<close>

theorem damaged_page_reported:
  assumes "b \<noteq> b'" and "length (xs @ b # ys) \<le> first_page offset"
  shows "unpack_pages None (be_bytes 4 (crc32c_py (xs @ b # ys) 0) @ xs @ b' # ys) offset = (xs @ b' # ys, [offset])"
proof -
  let ?p = "xs @ b # ys" and ?q = "xs @ b' # ys"
  have "bit CRC32C_POLY (LENGTH(32) - 1)" by simp
  then have "foldl (ref_step CRC32C_POLY) c ?q \<noteq> foldl (ref_step CRC32C_POLY) c ?p" for c
    using assms(1) ref_fold_byte [of CRC32C_POLY c xs b ys b'] by auto
  then have "crc_reference CRC32C_POLY ?q 0 \<noteq> crc_reference CRC32C_POLY ?p 0"
    unfolding crc_reference_def by (metis bit.double_compl)
  then have "crc32c_py ?q 0 \<noteq> crc32c_py ?p 0" by (simp add: crc32c_py_reference word_uint_eq_iff)
  moreover have "be_int (be_bytes 4 (crc32c_py ?p 0)) = crc32c_py ?p 0"
    using crc_in_range_py by (simp add: be_int_be_bytes crc_in_range_def crc32c_def)
  moreover have "take (first_page offset) (?q @ []) = ?q" using assms(2) by simp
  ultimately show ?thesis
    using unpack_loop_page [of "be_bytes 4 (crc32c_py ?p 0)" "first_page offset" ?q "[]" None offset]
    by (simp add: unpack_pages_def unpack_loop_Nil crc32c_def)
qed

theorem damaged_page_reported_witness:
  "unpack_pages None (be_bytes 4 (crc32c_py ([1] @ 2 # [3]) 0) @ [1] @ 7 # [3]) 8192 = ([1, 7, 3], [8192])"
  using damaged_page_reported [of 2 7 "[1]" "[3]" 8192] by (simp add: first_page_def)

text \<open>
  Corruption is reported at page boundaries. Whatever bytes arrive, every offset that
  \<^verbatim>\<open>unpack_pages\<close> reports is the offset the read started at or a multiple of the page size.
\<close>

theorem corrupt_offsets_aligned:
  assumes "c \<in> set (snd (unpack_pages accel data offset))"
  shows "c = offset \<or> int PAGE_SIZE dvd c"
  using assms first_page_aligns unfolding unpack_pages_def by (rule unpack_aligned)

theorem corrupt_offsets_aligned_witness:
  "snd (unpack_pages (Some (\<lambda>_ _. 1)) [0, 0, 0, 0, 9] 5) = [5] \<and> (5 = (5 :: int) \<or> int PAGE_SIZE dvd 5)"
proof -
  have "snd (unpack_pages (Some (\<lambda>_ _. 1)) [0, 0, 0, 0, 9] 5) = [5]"
    by (simp add: unpack_pages_def unpack_loop.simps crc32c_def first_page_def be_int_def)
  with corrupt_offsets_aligned [of 5 "Some (\<lambda>_ _. 1)" "[0, 0, 0, 0, 9]" 5] show ?thesis by simp
qed

end
