(* ===== verification/Checksums.thy ===== *)
theory Checksums
  imports Crc Py_Text "HOL-Library.List_Lexorder"
begin

text \<open>
  The checksum registry of \<^verbatim>\<open>src/src/xrd/crypto/checksum.py\<close>: incremental digests by the names
  servers use. The locale \<open>incremental_digest\<close> is what \<^verbatim>\<open>Checksum\<close> relies on in a step function:
  folding a chunk and then another is folding both at once, the seed is the value of the
  empty input, and a value fits its printed width. It is interpreted on all five native
  algorithms. \<^verbatim>\<open>zlib\<close>'s two checksums are modelled here; a \<^verbatim>\<open>hashlib\<close> object is the bytes fed to
  it, and its digest is the parameter \<open>hash\<close> (algorithm, message \<open>\<mapsto>\<close> digest).
\<close>

section \<open>zlib\<close>

abbreviation (input) CRC32_POLY :: "32 word" where "CRC32_POLY \<equiv> 0xEDB88320"

definition zlib_crc32 :: "bytes \<Rightarrow> int \<Rightarrow> int" where
  "zlib_crc32 data crc = uint (crc_reference CRC32_POLY data (word_of_int crc))"

abbreviation (input) ADLER_BASE :: int where "ADLER_BASE \<equiv> 65521"

definition adler_step :: "int \<times> int \<Rightarrow> byte \<Rightarrow> int \<times> int" where
  "adler_step s x = (let a = (fst s + uint x) mod ADLER_BASE in (a, (snd s + a) mod ADLER_BASE))"

definition zlib_adler32 :: "bytes \<Rightarrow> int \<Rightarrow> int" where
  "zlib_adler32 data v =
     (let s = foldl adler_step (v mod 65536 mod ADLER_BASE, v div 65536 mod 65536 mod ADLER_BASE) data
      in snd s * 65536 + fst s)"

section \<open>What a step function has to satisfy\<close>

locale incremental_digest =
  fixes step :: "bytes \<Rightarrow> int \<Rightarrow> int"
    and seed :: int
    and width :: nat
  assumes step_seed: "step [] seed = seed"
    and step_append: "step (a @ b) v = step b (step a v)"
    and step_range: "0 \<le> step d v \<and> step d v < 16 ^ width"
begin

lemma fold_chunks: "chunks \<noteq> [] \<Longrightarrow> foldl (\<lambda>v c. step c v) v chunks = step (concat chunks) v"
proof (induction chunks arbitrary: v rule: list_nonempty_induct)
  case (cons x xs)
  then show ?case by (simp add: step_append)
qed simp

text \<open>However a stream is cut, even into no chunk at all, the value is that of the whole.\<close>

lemma fold_stream: "foldl (\<lambda>v c. step c v) seed chunks = step (concat chunks) seed"
  by (cases "chunks = []") (simp_all add: step_seed fold_chunks)

end

lemma uint_32: "0 \<le> uint (w :: 32 word) \<and> uint w < 16 ^ 8"
  using uint_bounded [of w] by simp

lemma uint_64: "0 \<le> uint (w :: 64 word) \<and> uint w < 16 ^ 16"
  using uint_bounded [of w] by simp

lemma reference_digest:
  fixes poly :: "'a::len word"
  assumes "\<And>w :: 'a word. 0 \<le> uint w \<and> uint w < 16 ^ n"
  shows "incremental_digest (\<lambda>d v. uint (crc_reference poly d (word_of_int v))) 0 n"
  by unfold_locales (use assms in \<open>simp_all add: crc_reference_append\<close>)

interpretation crc32: incremental_digest zlib_crc32 0 8
  unfolding zlib_crc32_def [abs_def] by (rule reference_digest) (rule uint_32)

interpretation crc32c: incremental_digest crc32c_py 0 8
  unfolding crc32c_py_reference [abs_def] by (rule reference_digest) (rule uint_32)

interpretation crc64: incremental_digest crc64 0 16
  unfolding crc64_reference(1) [abs_def] by (rule reference_digest) (rule uint_64)

interpretation crc64nvme: incremental_digest crc64nvme 0 16
  unfolding crc64_reference(2) [abs_def] by (rule reference_digest) (rule uint_64)

lemma adler_range:
  assumes "0 \<le> fst s" "fst s < ADLER_BASE" "0 \<le> snd s" "snd s < ADLER_BASE"
  shows "0 \<le> fst (foldl adler_step s d) \<and> fst (foldl adler_step s d) < ADLER_BASE
    \<and> 0 \<le> snd (foldl adler_step s d) \<and> snd (foldl adler_step s d) < ADLER_BASE"
  using assms by (induction d arbitrary: s) (simp_all add: adler_step_def Let_def)

lemma adler_unpack:
  assumes "0 \<le> a" "a < ADLER_BASE" "0 \<le> b" "b < ADLER_BASE"
  shows "(b * 65536 + a) mod 65536 mod ADLER_BASE = a" "(b * 65536 + a) div 65536 mod 65536 mod ADLER_BASE = b"
  using assms by (simp_all add: div_plus_div_distrib_dvd_left)

interpretation adler32: incremental_digest zlib_adler32 1 8
proof
  fix a b d :: bytes and v :: int
  let ?s = "(v mod 65536 mod ADLER_BASE, v div 65536 mod 65536 mod ADLER_BASE)"
  have r: "0 \<le> fst (foldl adler_step ?s d) \<and> fst (foldl adler_step ?s d) < ADLER_BASE
    \<and> 0 \<le> snd (foldl adler_step ?s d) \<and> snd (foldl adler_step ?s d) < ADLER_BASE" for d
    by (rule adler_range) simp_all
  show "zlib_adler32 [] 1 = 1" by (simp add: zlib_adler32_def)
  show "0 \<le> zlib_adler32 d v \<and> zlib_adler32 d v < 16 ^ 8"
    using r [of d] by (simp add: zlib_adler32_def Let_def)
  show "zlib_adler32 (a @ b) v = zlib_adler32 b (zlib_adler32 a v)"
    using r [of a] by (simp add: zlib_adler32_def Let_def adler_unpack)
qed

text \<open>What \<^verbatim>\<open>google_crc32c.extend\<close> documents: it continues a CRC-32C, a number of 32 bits.\<close>

definition accel_ok :: "accel \<Rightarrow> bool" where
  "accel_ok accel \<longleftrightarrow> (case accel of None \<Rightarrow> True | Some extend \<Rightarrow>
     extend 0 [] = 0 \<and> (\<forall>a b v. extend v (a @ b) = extend (extend v a) b)
     \<and> (\<forall>d v. 0 \<le> extend v d \<and> extend v d < 2 ^ 32))"

lemma crc32c_digest: "accel_ok accel \<Longrightarrow> incremental_digest (crc32c accel) 0 8"
proof (cases accel)
  case None
  then show ?thesis using crc32c.incremental_digest_axioms by (simp add: crc32c_def [abs_def])
next
  case (Some extend)
  assume "accel_ok accel"
  with Some show ?thesis by unfold_locales (simp_all add: crc32c_def accel_ok_def)
qed

section \<open>Hexadecimal\<close>

definition hex_digit :: "int \<Rightarrow> nat" where
  "hex_digit i = (if i < 10 then 48 + nat i else 87 + nat i)"

text \<open>\<^verbatim>\<open>f"{v:x}"\<close> of a number that is not negative, and with a minimal width \<^verbatim>\<open>f"{v:0{w}x}"\<close>.\<close>

function hex_int :: "int \<Rightarrow> str" where
  "hex_int v = (if v < 16 then [hex_digit v] else hex_int (v div 16) @ [hex_digit (v mod 16)])"
  by pat_completeness auto
termination
  by (relation "measure nat") auto

declare hex_int.simps [simp del]

definition hex_padded :: "nat \<Rightarrow> int \<Rightarrow> str" where
  "hex_padded w v = replicate (w - length (hex_int v)) 48 @ hex_int v"

definition bytes_hex :: "bytes \<Rightarrow> str" where
  "bytes_hex bs = concat (map (\<lambda>b. [hex_digit (uint b div 16), hex_digit (uint b mod 16)]) bs)"

text \<open>Exactly \<open>w\<close> digits, whatever the value.\<close>

fun hex_fixed :: "nat \<Rightarrow> int \<Rightarrow> str" where
  "hex_fixed 0 v = []"
| "hex_fixed (Suc w) v = hex_fixed w (v div 16) @ [hex_digit (v mod 16)]"

lemma length_hex_fixed [simp]: "length (hex_fixed w v) = w"
  by (induction w arbitrary: v) auto

lemma hex_fixed_zero: "hex_fixed w 0 = replicate w 48"
  by (induction w) (simp_all add: hex_digit_def replicate_append_same)

lemma hex_fixed_int:
  "0 \<le> v \<Longrightarrow> v < 16 ^ w \<Longrightarrow> 0 < w \<Longrightarrow>
     hex_fixed w v = replicate (w - length (hex_int v)) 48 @ hex_int v \<and> length (hex_int v) \<le> w"
proof (induction w arbitrary: v)
  case (Suc w)
  show ?case
  proof (cases "v < 16")
    case True
    with Suc.prems show ?thesis by (simp add: hex_int.simps hex_fixed_zero)
  next
    case False
    with Suc.prems have w: "0 < w" by (cases w) auto
    have "v div 16 < 16 ^ w" using Suc.prems by (simp add: div_less_iff_less_mult mult.commute)
    with Suc.IH [of "v div 16"] Suc.prems w False show ?thesis by (simp add: hex_int.simps [of v])
  qed
qed simp

lemma hex_padded_fixed: "0 \<le> v \<Longrightarrow> v < 16 ^ w \<Longrightarrow> 0 < w \<Longrightarrow> hex_padded w v = hex_fixed w v"
  using hex_fixed_int [of v w] by (simp add: hex_padded_def)

lemma bytes_hex_be_bytes: "bytes_hex (be_bytes n v) = hex_fixed (2 * n) v"
proof (induction n arbitrary: v)
  case 0
  then show ?case by (simp add: bytes_hex_def)
next
  case (Suc n)
  have "v mod 256 = 16 * (v div 16 mod 16) + v mod 16" using zmod_zmult2_eq [of 16 v 16] by simp
  then have "v mod 256 div 16 = v div 16 mod 16" "v mod 256 mod 16 = v mod 16" by simp_all
  moreover have "v div 256 = v div 16 div 16" by (simp add: zdiv_zmult2_eq [symmetric])
  ultimately show ?case
    using Suc [of "v div 256"] by (simp add: bytes_hex_def uint_word_of_int_byte)
qed

section \<open>Digests by name\<close>

type_synonym hash = "str \<Rightarrow> bytes \<Rightarrow> bytes"

text \<open>\<^verbatim>\<open>Checksum\<close> (name, step, value, width) and the \<^verbatim>\<open>hashlib\<close> adapter (name, bytes fed so far).\<close>

datatype digest =
    Checksum str "bytes \<Rightarrow> int \<Rightarrow> int" int nat
  | HashlibChecksum str bytes

fun dg_update :: "bytes \<Rightarrow> digest \<Rightarrow> digest" where
  "dg_update data (Checksum name step v w) = Checksum name step (step data v) w"
| "dg_update data (HashlibChecksum name fed) = HashlibChecksum name (fed @ data)"

fun dg_value :: "hash \<Rightarrow> digest \<Rightarrow> int" where
  "dg_value hash (Checksum name step v w) = v"
| "dg_value hash (HashlibChecksum name fed) = be_int (hash name fed)"

fun dg_hexdigest :: "hash \<Rightarrow> digest \<Rightarrow> str" where
  "dg_hexdigest hash (Checksum name step v w) = hex_padded w v"
| "dg_hexdigest hash (HashlibChecksum name fed) = bytes_hex (hash name fed)"

text \<open>\<^verbatim>\<open>int.to_bytes\<close> raises \<^verbatim>\<open>OverflowError\<close>, here \<open>None\<close>, when the value does not fit.\<close>

fun dg_digest :: "hash \<Rightarrow> digest \<Rightarrow> bytes option" where
  "dg_digest hash (Checksum name step v w) =
     (if 0 \<le> v \<and> v < 256 ^ (w div 2) then Some (be_bytes (w div 2) v) else None)"
| "dg_digest hash (HashlibChecksum name fed) = Some (hash name fed)"

definition NATIVE :: "accel \<Rightarrow> (str, (bytes \<Rightarrow> int \<Rightarrow> int) \<times> int \<times> nat) dict" where
  "NATIVE accel =
     [(lit ''adler32'', zlib_adler32, 1, 8), (lit ''crc32'', zlib_crc32, 0, 8),
      (lit ''crc32c'', crc32c accel, 0, 8), (lit ''crc64'', crc64, 0, 16),
      (lit ''crc64nvme'', crc64nvme, 0, 16)]"

definition ALIASES :: "(str, str) dict" where
  "ALIASES = [(lit ''crc64xz'', lit ''crc64'')]"

definition HASHLIB :: "str list" where
  "HASHLIB = map lit [''md5'', ''sha1'', ''sha224'', ''sha256'', ''sha384'', ''sha512'']"

definition algorithms :: "accel \<Rightarrow> str list" where
  "algorithms accel = sort (map fst (NATIVE accel)) @ HASHLIB"

text \<open>45 is the hyphen.\<close>

definition algorithm_key :: "str \<Rightarrow> str" where
  "algorithm_key name =
     (let key = filter (\<lambda>c. c \<noteq> 45) (lower name)
      in case map_of ALIASES key of None \<Rightarrow> key | Some k \<Rightarrow> k)"

definition new_digest :: "accel \<Rightarrow> str \<Rightarrow> exn + digest" where
  "new_digest accel name =
     (let key = algorithm_key name in
      case map_of (NATIVE accel) key of
        Some (step, seed, width) \<Rightarrow> Inr (Checksum key step seed width)
      | None \<Rightarrow>
          if key \<in> set HASHLIB then Inr (HashlibChecksum key [])
          else Inl (ValueError ''unknown checksum algorithm''))"

definition checksum_bytes :: "accel \<Rightarrow> hash \<Rightarrow> str \<Rightarrow> bytes \<Rightarrow> exn + str" where
  "checksum_bytes accel hash name data =
     bindE (new_digest accel name) (\<lambda>h. Inr (dg_hexdigest hash (dg_update data h)))"

definition checksum_file :: "accel \<Rightarrow> hash \<Rightarrow> str \<Rightarrow> bytes list \<Rightarrow> exn + str" where
  "checksum_file accel hash name chunks =
     bindE (new_digest accel name) (\<lambda>h. Inr (dg_hexdigest hash (foldl (\<lambda>h chunk. dg_update chunk h) h chunks)))"

lemma native_digest:
  assumes "accel_ok accel" and "map_of (NATIVE accel) key = Some (step, seed, width)"
  shows "incremental_digest step seed width \<and> width \<in> {8, 16}"
proof -
  from assms(2) have "(key, step, seed, width) \<in> set (NATIVE accel)" by (rule map_of_SomeD)
  with crc32c_digest [OF assms(1)] show ?thesis
    by (auto simp: NATIVE_def adler32.incremental_digest_axioms crc32.incremental_digest_axioms
        crc64.incremental_digest_axioms crc64nvme.incremental_digest_axioms)
qed

lemma new_digest_cases:
  assumes "accel_ok accel" and "new_digest accel name = Inr h"
  obtains (native) key step seed width where "h = Checksum key step seed width"
      "incremental_digest step seed width" "width \<in> {8, 16}"
  | (hashlib) key where "h = HashlibChecksum key []" "key \<in> set HASHLIB"
  using assms native_digest [OF assms(1)]
  by (fastforce simp: new_digest_def Let_def split: option.splits if_splits)

lemma update_all_native:
  "foldl (\<lambda>h chunk. dg_update chunk h) (Checksum key step v width) chunks
     = Checksum key step (foldl (\<lambda>v c. step c v) v chunks) width"
  by (induction chunks arbitrary: v) simp_all

lemma update_all_hashlib:
  "foldl (\<lambda>h chunk. dg_update chunk h) (HashlibChecksum key fed) chunks = HashlibChecksum key (fed @ concat chunks)"
  by (induction chunks arbitrary: fed) simp_all

lemma digest_of_pieces:
  assumes "accel_ok accel" "new_digest accel name = Inr h"
  shows "foldl (\<lambda>h chunk. dg_update chunk h) h chunks = dg_update (concat chunks) h"
  using assms
  by (cases rule: new_digest_cases)
     (simp_all add: update_all_native update_all_hashlib incremental_digest.fold_stream)

section \<open>Properties\<close>

text \<open>
  A checksum does not depend on how a file was read. For every algorithm name, known or
  not, digesting a stream chunk by chunk gives the digest, or the error, of digesting all its
  bytes at once; an empty stream included.
\<close>

theorem checksum_of_chunks:
  assumes "accel_ok accel"
  shows "checksum_file accel hash name chunks = checksum_bytes accel hash name (concat chunks)"
proof (cases "new_digest accel name")
  case (Inl e)
  then show ?thesis by (simp add: checksum_file_def checksum_bytes_def)
next
  case (Inr h)
  with digest_of_pieces [OF assms] show ?thesis by (simp add: checksum_file_def checksum_bytes_def)
qed

theorem checksum_of_chunks_witness:
  "accel_ok None \<and> checksum_file None (\<lambda>_ _. []) (lit ''adler32'') [[104], [105]]
     = checksum_bytes None (\<lambda>_ _. []) (lit ''adler32'') [104, 105]"
  using checksum_of_chunks [of None "\<lambda>_ _. []" "lit ''adler32''" "[[104], [105]]"] by (simp add: accel_ok_def)

text \<open>
  Both printed forms of a digest agree. After any input, the digest of a native algorithm
  fits its bytes, so \<^verbatim>\<open>digest()\<close> does not overflow, and \<^verbatim>\<open>hexdigest()\<close> is the hexadecimal form of those
  bytes, zero-padded to the algorithm's width.
\<close>

theorem hexdigest_is_hex_of_digest:
  assumes "accel_ok accel" and "new_digest accel name = Inr (Checksum key step seed width)"
  shows "\<exists>d. dg_digest hash (dg_update data (Checksum key step seed width)) = Some d
    \<and> length d = width div 2 \<and> dg_hexdigest hash (dg_update data (Checksum key step seed width)) = bytes_hex d"
proof -
  from assms have i: "incremental_digest step seed width" and w: "width \<in> {8, 16}"
    by (auto elim: new_digest_cases)
  from incremental_digest.step_range [OF i] have r: "0 \<le> step data seed" "step data seed < 16 ^ width" by auto
  have "(256 :: int) ^ (width div 2) = 16 ^ width" using w by auto
  with r w show ?thesis by (auto simp: hex_padded_fixed bytes_hex_be_bytes)
qed

theorem hexdigest_is_hex_of_digest_witness:
  "\<exists>d. dg_digest (\<lambda>_ _. []) (dg_update [104] (Checksum (lit ''crc64'') crc64 0 16)) = Some d \<and> length d = 8"
proof -
  have "new_digest None (lit ''CRC-64'') = Inr (Checksum (lit ''crc64'') crc64 0 16)"
    by (simp add: new_digest_def algorithm_key_def lower_def NATIVE_def ALIASES_def lit_def)
  moreover have "accel_ok None" by (simp add: accel_ok_def)
  ultimately obtain d where
    "dg_digest (\<lambda>_ _. []) (dg_update [104] (Checksum (lit ''crc64'') crc64 0 16)) = Some d" "length d = 16 div 2"
    using hexdigest_is_hex_of_digest [of None "lit ''CRC-64''"] by blast
  then show ?thesis by (intro exI [of _ d]) simp
qed

end
