(* ===== verification/Auth_Ladder.thy ===== *)
theory Auth_Ladder
  imports Machine_Lifecycle
begin

text \<open>
  The authentication ladder of \<^verbatim>\<open>src/src/xrd/auth\<close>: the security trailer of a login
  (\<^verbatim>\<open>base.py\<close>), the two mechanisms that carry no secret (\<^verbatim>\<open>simple.py\<close>) and \<^verbatim>\<open>select\<close>
  (\<^verbatim>\<open>__init__.py\<close>). \<open>select\<close> is a generator; here it is the list of what a caller that keeps asking
  it sees, \<open>rung\<close> by \<open>rung\<close>: a reason recorded in \<^verbatim>\<open>rejected\<close>, a reason removed, a credential
  handed out. That list is what \<open>env_select\<close> stands for in the session machine. A mechanism is
  what its class answers: \<open>available\<close> and \<open>missing\<close>, which read files and the environment, are
  parameters, as is the pass that asks a person.
\<close>

section \<open>Offers\<close>

record offer =
  of_name :: str
  of_params :: str

text \<open>\<^verbatim>\<open>Offer.options\<close>: 44 is the comma, 58 the colon.\<close>

fun offer_options_loop :: "str list \<Rightarrow> (str, str) dict \<Rightarrow> (str, str) dict" where
  "offer_options_loop [] d = d"
| "offer_options_loop (part # ps) d =
     (case partition_at 58 part of (key, sep, value) \<Rightarrow>
        offer_options_loop ps (if sep then AList.update (strip key) (strip value) d else d))"

definition offer_options :: "offer \<Rightarrow> (str, str) dict" where
  "offer_options o' = offer_options_loop (split_on 44 (of_params o')) []"

text \<open>
  \<^verbatim>\<open>_OFFER_RE.findall(sec)\<close> with the pattern \<^verbatim>\<open>&P=([^&]+)\<close>: the pieces that follow an ampersand (38),
  start with \<^verbatim>\<open>P=\<close> and have something after it.
\<close>

definition offer_clauses :: "str \<Rightarrow> str list" where
  "offer_clauses sec =
     map (drop 2) (filter (\<lambda>p. take 2 p = lit ''P='' \<and> length p > 2) (tl (split_on 38 sec)))"

definition parse_security_trailer :: "str \<Rightarrow> offer list" where
  "parse_security_trailer sec =
     map (\<lambda>clause. case partition_at 44 clause of (name, _, params) \<Rightarrow>
            \<lparr>of_name = strip name, of_params = strip params\<rparr>) (offer_clauses sec)"

section \<open>The mechanisms without a secret\<close>

definition unix_initial :: "str \<Rightarrow> exn + bytes" where
  "unix_initial user = bindE (utf8_encode user) (\<lambda>u. Inr (map (of_nat \<circ> of_char) ''unix'' @ 0 # u))"

definition unix_available :: "str \<Rightarrow> str \<Rightarrow> str" where
  "unix_available config_user user = (if user = [] then config_user else user)"

definition host_initial :: bytes where
  "host_initial = map (of_nat \<circ> of_char) ''host'' @ [0]"

section \<open>select\<close>

record 'c mechanism =
  available :: "offer \<Rightarrow> exn + 'c option"
  missing :: "offer \<Rightarrow> exn + (str \<times> str) option"    \<comment> \<open>reason and hint of an \<^verbatim>\<open>Ask\<close>\<close>

definition why_not :: "(exn \<Rightarrow> str) \<Rightarrow> 'c mechanism \<Rightarrow> offer \<Rightarrow> str" where
  "why_not exc_text mech o' =
     (case missing mech o' of
        Inl e \<Rightarrow> lit ''no credential material found ('' @ exc_text e @ lit '')''
      | Inr (Some (reason, hint)) \<Rightarrow> reason @ lit ''; try: '' @ hint
      | Inr None \<Rightarrow> lit ''no credential material found'')"

text \<open>\<^verbatim>\<open>_build\<close>: what one rung does to \<^verbatim>\<open>why\<close>, and the credential if there is one.\<close>

definition build :: "(exn \<Rightarrow> str) \<Rightarrow> str \<Rightarrow> 'c mechanism \<Rightarrow> offer \<Rightarrow> 'c rung list" where
  "build exc_text name mech o' =
     (case available mech o' of
        Inl e \<Rightarrow> [Rejected name (exc_text e)]
      | Inr None \<Rightarrow> [Rejected name (why_not exc_text mech o')]
      | Inr (Some c) \<Rightarrow> [Cleared name, Yielded c])"

text \<open>
  The order of the rungs: preferred names that are offered, then the other offered names. The
  dictionary \<^verbatim>\<open>by_name\<close> keeps the last offer of a name.
\<close>

definition by_name :: "offer list \<Rightarrow> (str, offer) dict" where
  "by_name offers = foldl (\<lambda>d o'. AList.update (of_name o') o' d) [] offers"

definition ladder_order :: "str list \<Rightarrow> offer list \<Rightarrow> str list" where
  "ladder_order auth_order offers =
     (let preferred = filter (\<lambda>n. n \<in> keys (by_name offers)) auth_order
      in preferred @ filter (\<lambda>n. n \<notin> set preferred) (map of_name offers))"

fun is_yield :: "'c rung \<Rightarrow> bool" where
  "is_yield (Yielded c) = True"
| "is_yield _ = False"

definition rung_of ::
  "(exn \<Rightarrow> str) \<Rightarrow> (str, 'c mechanism) dict \<Rightarrow> (str, offer) dict \<Rightarrow> str \<Rightarrow> 'c rung list" where
  "rung_of exc_text registry offered_by name =
     (case map_of registry name of
        None \<Rightarrow> [Rejected name (lit ''not supported by this client'')]
      | Some mech \<Rightarrow>
          (case map_of offered_by name of
             None \<Rightarrow> []
           | Some o' \<Rightarrow> build exc_text name mech o'))"

text \<open>
  \<open>asked\<close> is the last pass over the ladder, which asks a person; it runs only when nothing was
  handed out and \<^verbatim>\<open>prompt.interactive(config)\<close> holds.
\<close>

definition select ::
  "(exn \<Rightarrow> str) \<Rightarrow> (str, 'c mechanism) dict \<Rightarrow> str list \<Rightarrow> bool \<Rightarrow> (str list \<Rightarrow> 'c rung list)
    \<Rightarrow> str \<Rightarrow> 'c rung list" where
  "select exc_text registry auth_order interactive asked sec =
     (let offers = parse_security_trailer sec;
          order = ladder_order auth_order offers;
          rungs = concat (map (rung_of exc_text registry (by_name offers)) order)
      in if list_ex is_yield rungs \<or> \<not> interactive then rungs else rungs @ asked order)"

section \<open>Facts\<close>

lemma keys_by_name: "keys (by_name offers) = set (map of_name offers)"
proof -
  have "keys (foldl (\<lambda>d o'. AList.update (of_name o') o' d) d offers) = keys d \<union> set (map of_name offers)" for d
    by (induction offers arbitrary: d) (auto simp del: keys_update simp: keys_update)
  then show ?thesis by (simp add: by_name_def)
qed

lemma ladder_order_set: "set (ladder_order auth_order offers) = set (map of_name offers)"
  by (auto simp: ladder_order_def Let_def keys_by_name)

text \<open>
  A rung that leads nowhere: its mechanism is unknown or unavailable, or its credential cannot
  make a first blob.
\<close>

definition dead_end :: "'c env \<Rightarrow> str \<Rightarrow> 'c rung list \<Rightarrow> bool" where
  "dead_end ev name rs \<longleftrightarrow> (\<exists>reason. rs = [Rejected name reason])
     \<or> (\<exists>c. rs = [Cleared name, Yielded c] \<and> env_name ev c = name \<and> \<not> (\<exists>blob. fst (env_initial ev c) = Inr blob))"

lemma climb_dead_end:
  assumes "dead_end ev name rs"
  obtains d where "climb ev (rs @ later) m = climb ev later (m\<lparr>auth_rejected := d\<rparr>)"
    and "keys d = insert name (keys (auth_rejected m))"
proof -
  from assms consider (rej) reason where "rs = [Rejected name reason]"
    | (mute) c where "rs = [Cleared name, Yielded c]" "env_name ev c = name" "\<not> (\<exists>blob. fst (env_initial ev c) = Inr blob)"
    by (auto simp: dead_end_def)
  then show thesis
  proof cases
    case rej
    then show thesis by (intro that [of "AList.update name reason (auth_rejected m)"]) simp_all
  next
    case mute
    then obtain e c' where "env_initial ev c = (Inl e, c')"
      by (cases "env_initial ev c"; cases "fst (env_initial ev c)") auto
    with mute show thesis
      by (intro that [of "AList.update name (env_exc_text ev e) (AList.delete name (auth_rejected m))"]) auto
  qed
qed

lemma climb_dead_ends:
  assumes "\<And>n. n \<in> set names \<Longrightarrow> dead_end ev n (f n)"
  shows "\<exists>d. climb ev (concat (map f names) @ later) m = climb ev later (m\<lparr>auth_rejected := d\<rparr>)
    \<and> keys d = keys (auth_rejected m) \<union> set names"
  using assms
proof (induction names arbitrary: m)
  case Nil
  show ?case by (rule exI [of _ "auth_rejected m"]) simp
next
  case (Cons n names)
  from Cons.prems have "dead_end ev n (f n)" by simp
  then obtain d where d: "climb ev (f n @ concat (map f names) @ later) m
      = climb ev (concat (map f names) @ later) (m\<lparr>auth_rejected := d\<rparr>)" "keys d = insert n (keys (auth_rejected m))"
    by (rule climb_dead_end)
  from Cons.IH [of "m\<lparr>auth_rejected := d\<rparr>"] Cons.prems obtain d' where
    "climb ev (concat (map f names) @ later) (m\<lparr>auth_rejected := d\<rparr>) = climb ev later (m\<lparr>auth_rejected := d'\<rparr>)"
    "keys d' = keys d \<union> set names" by auto
  with d show ?case by (intro exI [of _ d']) auto
qed

section \<open>Properties\<close>

text \<open>A registry with one mechanism, for the examples; its credential works or not as told.\<close>

definition sample_registry :: "bool \<Rightarrow> (str, unit mechanism) dict" where
  "sample_registry ok = [(lit ''unix'', \<lparr>available = (\<lambda>_. Inr (if ok then Some () else None)), missing = (\<lambda>_. Inr None)\<rparr>)]"

definition sample_ladder_env :: "bool \<Rightarrow> unit env" where
  "sample_ladder_env ok = sample_env\<lparr>env_select := select (\<lambda>_. []) (sample_registry ok) [lit ''unix''] False (\<lambda>_. [])\<rparr>"

text \<open>
  C29. A failed login says why. When every mechanism the server offered leads nowhere, being
  unknown to the client, unavailable, or unable to make its first blob, and nobody can be
  asked, the session fails with an error that lists a reason for each of them.
\<close>

theorem exhausted_ladder_explains:
  assumes "credentials m = None"
    and "env_select ev = select exc_text registry auth_order False asked"
    and "\<forall>n\<in>set (map of_name (parse_security_trailer sec)).
       dead_end ev n (rung_of exc_text registry (by_name (parse_security_trailer sec)) n)"
  shows "\<exists>d. next_credential ev sec m =
      Inr (fail (NoMechanismError (offered m) d) (m\<lparr>credentials := Some [], auth_rejected := d\<rparr>))
    \<and> set (map of_name (parse_security_trailer sec)) \<subseteq> keys d"
proof -
  let ?offers = "parse_security_trailer sec"
  let ?order = "ladder_order auth_order ?offers"
  let ?f = "rung_of exc_text registry (by_name ?offers)"
  have sel: "env_select ev sec = concat (map ?f ?order) @ []" by (simp add: assms(2) select_def Let_def)
  have "\<And>n. n \<in> set ?order \<Longrightarrow> dead_end ev n (?f n)" using assms(3) unfolding ladder_order_set by blast
  from climb_dead_ends [where f = ?f and later = "[]" and m = m, OF this] obtain d where
    "climb ev (concat (map ?f ?order) @ []) m = climb ev [] (m\<lparr>auth_rejected := d\<rparr>)"
    "keys d = keys (auth_rejected m) \<union> set ?order" by blast
  moreover have "(m\<lparr>auth_rejected := d\<rparr>)\<lparr>credentials := Some []\<rparr> = m\<lparr>credentials := Some [], auth_rejected := d\<rparr>"
    by simp
  ultimately show ?thesis
    by (intro exI [of _ d]) (simp add: next_credential_def assms(1) sel ladder_order_set)
qed

theorem exhausted_ladder_explains_witness:
  "\<exists>d. next_credential (sample_ladder_env False) (lit ''&P=unix&P=gsi,v:1'') (sample_new False) =
      Inr (fail (NoMechanismError [] d) ((sample_new False)\<lparr>credentials := Some [], auth_rejected := d\<rparr>))
    \<and> {lit ''unix'', lit ''gsi''} \<subseteq> keys d"
proof -
  let ?sec = "lit ''&P=unix&P=gsi,v:1''"
  have o': "parse_security_trailer ?sec = [\<lparr>of_name = lit ''unix'', of_params = []\<rparr>, \<lparr>of_name = lit ''gsi'', of_params = lit ''v:1''\<rparr>]"
    by code_simp
  have u: "rung_of (\<lambda>_. []) (sample_registry False) (by_name (parse_security_trailer ?sec)) (lit ''unix'')
      = [Rejected (lit ''unix'') (lit ''no credential material found'')]" by code_simp
  have g: "rung_of (\<lambda>_. []) (sample_registry False) (by_name (parse_security_trailer ?sec)) (lit ''gsi'')
      = [Rejected (lit ''gsi'') (lit ''not supported by this client'')]" by code_simp
  have "\<forall>n\<in>set (map of_name (parse_security_trailer ?sec)). dead_end (sample_ladder_env False) n
      (rung_of (\<lambda>_. []) (sample_registry False) (by_name (parse_security_trailer ?sec)) n)"
    using u g by (simp add: o' dead_end_def)
  moreover have "credentials (sample_new False) = None" "offered (sample_new False) = []"
    by (simp_all add: sample_new_def SessionMachine_def)
  ultimately show ?thesis
    using exhausted_ladder_explains [of "sample_new False" "sample_ladder_env False" "\<lambda>_. []" "sample_registry False"
        "[lit ''unix'']" "\<lambda>_. []" ?sec]
    by (simp add: sample_ladder_env_def o')
qed

text \<open>
  The preferred mechanism that works is used. If, in the order of the configuration's
  preferences followed by the server's, the mechanisms before one lead nowhere and that one
  makes a first blob, then its \<^verbatim>\<open>kXR_auth\<close> frame is what the session sends, it becomes the
  session's mechanism, and nothing is asked of anybody even when prompting is allowed.
\<close>

theorem first_working_mechanism_used:
  assumes "credentials m = None"
    and "env_select ev = select exc_text registry auth_order interactive asked"
    and "ladder_order auth_order (parse_security_trailer sec) = before @ name # after"
    and "\<forall>n\<in>set before. dead_end ev n (rung_of exc_text registry (by_name (parse_security_trailer sec)) n)"
    and "rung_of exc_text registry (by_name (parse_security_trailer sec)) name = [Cleared name, Yielded c]"
    and "env_initial ev c = (Inr blob, c')"
    and "new_Auth (env_name ev c) blob = Inr req" and "encode (cls req) SID_AUTH = Inr frame"
  shows "\<exists>m'. next_credential ev sec m = Inr m' \<and> credential m' = Some c' \<and> mechanism m' = env_name ev c
    \<and> out m' = out m @ frame \<and> events m' = events m \<and> mstate m' = mstate m"
proof -
  let ?f = "rung_of exc_text registry (by_name (parse_security_trailer sec))"
  let ?rest = "[Cleared name, Yielded c] @ concat (map ?f after)"
  have "list_ex is_yield (concat (map ?f (before @ name # after)))" using assms(5) by simp
  then have sel: "env_select ev sec = concat (map ?f before) @ ?rest"
    by (simp add: assms(2,3,5) select_def Let_def)
  from climb_dead_ends [where f = ?f and names = before and ev = ev and later = ?rest and m = m] assms(4) obtain d where
    "climb ev (concat (map ?f before) @ ?rest) m = climb ev ?rest (m\<lparr>auth_rejected := d\<rparr>)" by blast
  then have "next_credential ev sec m = climb ev ?rest (m\<lparr>auth_rejected := d\<rparr>)"
    by (simp only: next_credential_def assms(1) sel option.case)
  then show ?thesis by (simp add: assms(6-8) Let_def queue_out_def)
qed

theorem first_working_mechanism_used_witness:
  "\<exists>m'. next_credential (sample_ladder_env True) (lit ''&P=gsi&P=unix'') (sample_new False) = Inr m'
     \<and> mechanism m' = lit ''unix''"
proof -
  let ?sec = "lit ''&P=gsi&P=unix''" and ?ev = "sample_ladder_env True"
  have l: "ladder_order [lit ''unix''] (parse_security_trailer ?sec) = [] @ lit ''unix'' # [lit ''gsi'']" by code_simp
  have r: "rung_of (\<lambda>_. []) (sample_registry True) (by_name (parse_security_trailer ?sec)) (lit ''unix'')
      = [Cleared (lit ''unix''), Yielded ()]" by code_simp
  have i: "env_initial ?ev () = (Inr [117, 0], ())" by (simp add: sample_ladder_env_def sample_env_def)
  have n: "env_name ?ev () = lit ''unix''" by (simp add: sample_ladder_env_def sample_env_def)
  have "case new_Auth (lit ''unix'') [117, 0] of Inl _ \<Rightarrow> False
      | Inr req \<Rightarrow> (case encode (cls req) SID_AUTH of Inl _ \<Rightarrow> False | Inr _ \<Rightarrow> True)" by code_simp
  then obtain req frame where a: "new_Auth (env_name ?ev ()) [117, 0] = Inr req" "encode (cls req) SID_AUTH = Inr frame"
    unfolding n by (auto split: sum.splits)
  have c: "credentials (sample_new False) = None" by (simp add: sample_new_def SessionMachine_def)
  have s: "env_select ?ev = select (\<lambda>_. []) (sample_registry True) [lit ''unix''] False (\<lambda>_. [])"
    by (simp add: sample_ladder_env_def)
  from first_working_mechanism_used [OF c s l _ r i a] n show ?thesis by auto
qed

end
