(* ===== verification/Session_Driver.thy ===== *)
theory Session_Driver
  imports Machine_Lifecycle
begin

text \<open>
  The blocking driver of \<^verbatim>\<open>src/src/xrd/session/sync.py\<close> around the session machine, and the
  in-memory transport of \<^verbatim>\<open>src/src/xrd/transport/memory.py\<close>. A \<open>driver\<close> is a \<^verbatim>\<open>Session\<close>: its
  transports are handles, and what they do to the world outside is the record \<open>io\<close>, one function
  per method of \<^verbatim>\<open>Transport\<close> plus \<^verbatim>\<open>SocketTransport.connect\<close> and \<^verbatim>\<open>time.sleep\<close>, over a world of any
  type. \<open>dr_chunks\<close> is what the \<^verbatim>\<open>on_chunk\<close> callback has been handed. The lock is held during every
  method, so that methods do not interleave.

  Methods return \<open>Inl (failure, driver)\<close> when they raise. The loops that wait for the peer are
  \<open>partial_function (option)\<close>s: \<open>None\<close> is a loop that never ends.
\<close>

section \<open>Transports\<close>

record 'w io =
  io_send :: "nat \<Rightarrow> bytes \<Rightarrow> 'w \<Rightarrow> exn option \<times> 'w"
  io_receive :: "nat \<Rightarrow> 'w \<Rightarrow> (exn + bytes) \<times> 'w"
  io_start_tls :: "nat \<Rightarrow> str \<Rightarrow> 'w \<Rightarrow> exn option \<times> 'w"
  io_close :: "nat \<Rightarrow> 'w \<Rightarrow> 'w"
  io_settimeout :: "nat \<Rightarrow> real \<Rightarrow> 'w \<Rightarrow> 'w"
  io_connect :: "str \<Rightarrow> int \<Rightarrow> 'w \<Rightarrow> (exn + nat) \<times> 'w"
  io_sleep :: "real \<Rightarrow> 'w \<Rightarrow> 'w"

section \<open>Sessions\<close>

record ('c, 'w) driver =
  dr_t :: nat
  dr_m :: "'c machine"
  dr_inbox :: "(int, event list) dict"
  dr_notices :: "attn_info list"
  dr_paths :: "(int, nat) dict"
  dr_arrives :: "bool option"
  dr_world :: 'w
  dr_chunks :: "bytes list"

definition Session :: "nat \<Rightarrow> 'c machine \<Rightarrow> 'w \<Rightarrow> ('c, 'w) driver" where
  "Session t m w = \<lparr>dr_t = t, dr_m = m, dr_inbox = [], dr_notices = [], dr_paths = [],
     dr_arrives = None, dr_world = w, dr_chunks = []\<rparr>"

datatype failure = Raised exn | RedirectRequired redirect_info | KeyError | PlainXRootDError string

type_synonym ('a, 'c, 'w) dres = "(failure \<times> ('c, 'w) driver) + 'a \<times> ('c, 'w) driver"

record result =
  res_data :: bytes
  res_status :: "status_info option"

definition dr_closed :: "('c, 'w) driver \<Rightarrow> bool" where
  "dr_closed d \<longleftrightarrow> mstate (dr_m d) \<in> {CLOSED, FAILED}"

definition notices :: "('c, 'w) driver \<Rightarrow> attn_info list \<times> ('c, 'w) driver" where
  "notices d = (dr_notices d, d\<lparr>dr_notices := []\<rparr>)"

section \<open>The pump\<close>

definition transmit :: "'w io \<Rightarrow> nat \<Rightarrow> bytes \<Rightarrow> ('c, 'w) driver \<Rightarrow> (failure \<times> ('c, 'w) driver) + ('c, 'w) driver" where
  "transmit io t data d =
     (case io_send io t data (dr_world d) of
        (Some e, w) \<Rightarrow> Inl (Raised e, d\<lparr>dr_world := w\<rparr>)
      | (None, w) \<Rightarrow> Inr (d\<lparr>dr_world := w\<rparr>))"

fun flush_paths ::
  "'w io \<Rightarrow> (int, nat) dict \<Rightarrow> ('c, 'w) driver \<Rightarrow> (failure \<times> ('c, 'w) driver) + ('c, 'w) driver" where
  "flush_paths io [] d = Inr d"
| "flush_paths io ((p, t) # ps) d =
     (case path_data_to_send p (dr_m d) of (queued, m) \<Rightarrow>
        let d1 = d\<lparr>dr_m := m\<rparr>
        in bindE (if queued \<noteq> [] then transmit io t queued d1 else Inr d1) (flush_paths io ps))"

definition flush :: "'w io \<Rightarrow> ('c, 'w) driver \<Rightarrow> (failure \<times> ('c, 'w) driver) + ('c, 'w) driver" where
  "flush io d =
     (case data_to_send (dr_m d) of (data, m) \<Rightarrow>
        let d1 = d\<lparr>dr_m := m\<rparr>
        in bindE (if data \<noteq> [] then transmit io (dr_t d) data d1 else Inr d1)
             (\<lambda>d2. flush_paths io (dr_paths d2) d2))"

text \<open>The link a path id names: 0 is the control link.\<close>

definition link_handle :: "int \<Rightarrow> ('c, 'w) driver \<Rightarrow> nat option" where
  "link_handle p d = (if p \<noteq> 0 then map_of (dr_paths d) p else Some (dr_t d))"

definition pump :: "'w io \<Rightarrow> 'c env \<Rightarrow> int \<Rightarrow> ('c, 'w) driver \<Rightarrow> (event list, 'c, 'w) dres" where
  "pump io ev p d =
     bindE (flush io d) (\<lambda>d1.
       case link_handle p d1 of
         None \<Rightarrow> Inl (KeyError, d1)
       | Some t \<Rightarrow>
           (case io_receive io t (dr_world d1) of
              (Inl e, w) \<Rightarrow> Inl (Raised e, d1\<lparr>dr_world := w\<rparr>)
            | (Inr data, w) \<Rightarrow>
                (case receive_data ev data p (dr_m d1) of
                   Inl (e, m) \<Rightarrow> Inl (Raised e, d1\<lparr>dr_world := w, dr_m := m\<rparr>)
                 | Inr m \<Rightarrow> Inr (events m, d1\<lparr>dr_world := w, dr_m := m\<lparr>events := []\<rparr>\<rparr>))))"

section \<open>Events of a stream\<close>

text \<open>\<^verbatim>\<open>getattr(event, "streamid", None)\<close>.\<close>

fun event_target :: "event \<Rightarrow> int option" where
  "event_target (Completed sid _ _ _) = Some sid"
| "event_target (Chunk sid _ _) = Some sid"
| "event_target (Redirected sid _ _) = Some sid"
| "event_target (Waiting sid _ _ _ _) = Some sid"
| "event_target (Failed sid _ _) = sid"
| "event_target _ = None"

definition close_path :: "'w io \<Rightarrow> int \<Rightarrow> ('c, 'w) driver \<Rightarrow> ('c, 'w) driver" where
  "close_path io p d =
     (let d1 = (case map_of (dr_paths d) p of
                  None \<Rightarrow> d
                | Some t \<Rightarrow> d\<lparr>dr_paths := AList.delete p (dr_paths d), dr_world := io_close io t (dr_world d)\<rparr>)
      in d1\<lparr>dr_m := forget_path p (dr_m d1)\<rparr>)"

definition deliver :: "int \<Rightarrow> event \<Rightarrow> ('c, 'w) driver \<Rightarrow> ('c, 'w) driver" where
  "deliver sid e d = d\<lparr>dr_inbox := AList.update sid
     ((case map_of (dr_inbox d) sid of None \<Rightarrow> [] | Some es \<Rightarrow> es) @ [e]) (dr_inbox d)\<rparr>"

text \<open>The \<^verbatim>\<open>for event in self._pump(pathid)\<close> loop of \<^verbatim>\<open>_events_for\<close>; \<open>mine\<close> are the events of stream \<open>sid\<close>.\<close>

fun sift :: "'w io \<Rightarrow> int \<Rightarrow> event list \<Rightarrow> event list \<Rightarrow> ('c, 'w) driver \<Rightarrow> (event list, 'c, 'w) dres" where
  "sift io sid [] mine d = Inr (mine, d)"
| "sift io sid (e # es) mine d =
     (if event_target e = Some sid then sift io sid es (mine @ [e]) d
      else case e of
        Attention i \<Rightarrow> sift io sid es mine (d\<lparr>dr_notices := dr_notices d @ [i]\<rparr>)
      | PathLost p \<Rightarrow> sift io sid es mine (close_path io p d)
      | Disconnected reason \<Rightarrow> Inl (Raised (XrdConnectionError ''connection lost''), d)
      | Failed None _ x \<Rightarrow> Inl (Raised x, d)
      | _ \<Rightarrow> (case event_target e of
                None \<Rightarrow> sift io sid es mine d
              | Some s \<Rightarrow> sift io sid es mine (deliver s e d)))"

partial_function (option) events_loop ::
  "'w io \<Rightarrow> 'c env \<Rightarrow> int \<Rightarrow> int \<Rightarrow> ('c, 'w) driver \<Rightarrow> (event list, 'c, 'w) dres option" where
  "events_loop io ev sid p d =
     (case bindE (pump io ev p d) (\<lambda>(es, d1). sift io sid es [] d1) of
        Inl x \<Rightarrow> Some (Inl x)
      | Inr (mine, d2) \<Rightarrow> if mine \<noteq> [] then Some (Inr (mine, d2)) else events_loop io ev sid p d2)"

definition events_for ::
  "'w io \<Rightarrow> 'c env \<Rightarrow> int \<Rightarrow> int \<Rightarrow> ('c, 'w) driver \<Rightarrow> (event list, 'c, 'w) dres option" where
  "events_for io ev sid p d =
     (let queued = (case map_of (dr_inbox d) sid of None \<Rightarrow> [] | Some es \<Rightarrow> es);
          d1 = d\<lparr>dr_inbox := AList.delete sid (dr_inbox d)\<rparr>
      in if queued \<noteq> [] then Some (Inr (queued, d1)) else events_loop io ev sid p d1)"

section \<open>Requests\<close>

text \<open>
  What \<^verbatim>\<open>_await\<close> does with the events of one turn: the result, or \<open>None\<close> to go on, with its
  counters \<^verbatim>\<open>waits\<close> and \<^verbatim>\<open>streamed\<close>. \<open>stream\<close> says whether there is an \<^verbatim>\<open>on_chunk\<close>, \<open>limit\<close> is
  \<^verbatim>\<open>config.redirect_limit\<close>.
\<close>

definition hand_out :: "bool \<Rightarrow> bytes \<Rightarrow> ('c, 'w) driver \<Rightarrow> ('c, 'w) driver" where
  "hand_out stream data d = (if stream then d\<lparr>dr_chunks := dr_chunks d @ [data]\<rparr> else d)"

fun absorb ::
  "'w io \<Rightarrow> int \<Rightarrow> bool \<Rightarrow> int \<Rightarrow> event list \<Rightarrow> int \<Rightarrow> nat \<Rightarrow> ('c, 'w) driver
     \<Rightarrow> (result option \<times> int \<times> nat, 'c, 'w) dres" where
  "absorb io limit stream sid [] waits streamed d = Inr ((None, waits, streamed), d)"
| "absorb io limit stream sid (e # es) waits streamed d =
     (case e of
        Completed _ _ data st \<Rightarrow>
          Inr ((Some \<lparr>res_data = data, res_status = st\<rparr>, waits, streamed),
               if length data > streamed then hand_out stream (drop streamed data) d else d)
      | Failed _ _ x \<Rightarrow> Inl (Raised x, d)
      | Chunk _ _ data \<Rightarrow>
          absorb io limit stream sid es waits (streamed + length data) (hand_out stream data d)
      | Redirected _ _ target \<Rightarrow> Inl (RedirectRequired target, d\<lparr>dr_m := release sid (dr_m d)\<rparr>)
      | Waiting _ _ seconds _ resend \<Rightarrow>
          if resend then
            (if waits + 1 > limit then Inl (Raised (WaitLimitError ''server kept asking to wait'' (waits + 1)), d)
             else
               (let d1 = d\<lparr>dr_world := io_sleep io seconds (dr_world d)\<rparr> in
                case resume sid (dr_m d1) of
                  Inl (x, m) \<Rightarrow> Inl (Raised x, d1\<lparr>dr_m := m\<rparr>)
                | Inr m \<Rightarrow> bindE (flush io (d1\<lparr>dr_m := m\<rparr>))
                    (absorb io limit stream sid es (waits + 1) 0)))
          else absorb io limit stream sid es waits streamed d
      | _ \<Rightarrow> absorb io limit stream sid es waits streamed d)"

partial_function (option) await ::
  "'w io \<Rightarrow> 'c env \<Rightarrow> int \<Rightarrow> bool \<Rightarrow> int \<Rightarrow> int \<Rightarrow> int \<Rightarrow> nat \<Rightarrow> ('c, 'w) driver \<Rightarrow> (result, 'c, 'w) dres option" where
  "await io ev limit stream sid p waits streamed d =
     (case events_for io ev sid p d of
        None \<Rightarrow> None
      | Some turn \<Rightarrow>
          (case bindE turn (\<lambda>(es, d1). absorb io limit stream sid es waits streamed d1) of
             Inl x \<Rightarrow> Some (Inl x)
           | Inr ((Some r, _, _), d2) \<Rightarrow> Some (Inr (r, d2))
           | Inr ((None, waits', streamed'), d2) \<Rightarrow> await io ev limit stream sid p waits' streamed' d2))"

text \<open>\<^verbatim>\<open>execute\<close>; the callback's record starts empty.\<close>

definition execute ::
  "'w io \<Rightarrow> 'c env \<Rightarrow> int \<Rightarrow> request \<Rightarrow> str \<Rightarrow> bool \<Rightarrow> bool \<Rightarrow> ('c, 'w) driver \<Rightarrow> (result, 'c, 'w) dres option" where
  "execute io ev limit req path stream arrive_on_path d0 =
     (let d = d0\<lparr>dr_chunks := []\<rparr>; p = rq_pathid (cls req) in
      if dr_closed d then Some (Inl (Raised (XrdConnectionError ''session is closed''), d))
      else if p \<noteq> 0 \<and> p \<notin> keys (dr_paths d) then Some (Inl (Raised (ValueError ''data path is not bound''), d))
      else
        (let on_path = (arrive_on_path \<and> dr_arrives d \<noteq> Some False \<and> p \<noteq> 0 \<and> p \<in> keys (dr_paths d)) in
         case submit ev req path on_path (dr_m d) of
           Inl (x, m) \<Rightarrow> Some (Inl (Raised x, d\<lparr>dr_m := m\<rparr>))
         | Inr (sid, m) \<Rightarrow>
             (let d1 = d\<lparr>dr_m := m\<rparr> in
              if \<not> on_path then
                await io ev limit stream sid (if rq_reply_on_path (cls req) then p else 0) 0 0 d1
              else
                (case await io ev limit stream sid p 0 0 d1 of
                   None \<Rightarrow> None
                 | Some (Inl (x, d2)) \<Rightarrow> Some (Inl (x, close_path io p (d2\<lparr>dr_arrives := Some False\<rparr>)))
                 | Some (Inr (r, d2)) \<Rightarrow> Some (Inr (r, d2\<lparr>dr_arrives := Some True\<rparr>))))))"

section \<open>Bring-up\<close>

record session_config =
  sc_wait_cap :: real
  sc_username :: str
  sc_require_tls :: bool
  sc_data_stream_timeout :: real

fun bringup_events ::
  "'w io \<Rightarrow> 'c env \<Rightarrow> event list \<Rightarrow> ('c, 'w) driver \<Rightarrow> (failure \<times> ('c, 'w) driver) + ('c, 'w) driver" where
  "bringup_events io ev [] d = Inr d"
| "bringup_events io ev (e # es) d =
     (case e of
        NeedTLS reason \<Rightarrow>
          bindE (flush io d) (\<lambda>d1.
            case io_start_tls io (dr_t d1) (host (dr_m d1)) (dr_world d1) of
              (Some x, w) \<Rightarrow> Inl (Raised x, d1\<lparr>dr_world := w\<rparr>)
            | (None, w) \<Rightarrow>
                (case tls_established ev (dr_m d1) of
                   Inl (x, m) \<Rightarrow> Inl (Raised x, d1\<lparr>dr_world := w, dr_m := m\<rparr>)
                 | Inr m \<Rightarrow> bringup_events io ev es (d1\<lparr>dr_world := w, dr_m := m\<rparr>)))
      | Failed _ _ x \<Rightarrow> Inl (Raised x, d)
      | Disconnected reason \<Rightarrow> Inl (Raised (XrdConnectionError ''connection lost during bring-up''), d)
      | _ \<Rightarrow> bringup_events io ev es d)"

partial_function (option) bring_up ::
  "'w io \<Rightarrow> 'c env \<Rightarrow> ('c, 'w) driver \<Rightarrow> ((failure \<times> ('c, 'w) driver) + ('c, 'w) driver) option" where
  "bring_up io ev d =
     (if mstate (dr_m d) \<in> {READY, FAILED, CLOSED} then
        Some (if mstate (dr_m d) \<noteq> READY
              then Inl (Raised (XrdConnectionError ''bring-up ended in another state''), d) else Inr d)
      else
        (case bindE (pump io ev 0 d) (\<lambda>(es, d1). bringup_events io ev es d1) of
           Inl x \<Rightarrow> Some (Inl x)
         | Inr d2 \<Rightarrow> bring_up io ev d2))"

text \<open>Bring up a fresh transport; whatever is raised, the transport is closed.\<close>

definition bring_up_on ::
  "'w io \<Rightarrow> 'c env \<Rightarrow> nat \<Rightarrow> 'c machine \<Rightarrow> 'w \<Rightarrow> ((failure \<times> 'w) + ('c, 'w) driver) option" where
  "bring_up_on io ev t m w =
     (case start m of
        Inl (x, _) \<Rightarrow> Some (Inl (Raised x, io_close io t w))
      | Inr m1 \<Rightarrow>
          (case bring_up io ev (Session t m1 w) of
             None \<Rightarrow> None
           | Some (Inl (x, d)) \<Rightarrow> Some (Inl (x, io_close io t (dr_world d)))
           | Some (Inr d) \<Rightarrow> Some (Inr d)))"

definition connect ::
  "'w io \<Rightarrow> 'c env \<Rightarrow> session_config \<Rightarrow> str \<Rightarrow> int \<Rightarrow> str \<Rightarrow> bool \<Rightarrow> str \<Rightarrow> 'w
     \<Rightarrow> ((failure \<times> 'w) + ('c, 'w) driver) option" where
  "connect io ev cfg t_host t_port t_username t_use_tls user w =
     (case io_connect io t_host t_port w of
        (Inl e, w1) \<Rightarrow> Some (Inl (Raised e, w1))
      | (Inr t, w1) \<Rightarrow>
          bring_up_on io ev t
            (SessionMachine t_host t_port (sc_wait_cap cfg) (sc_username cfg) (sc_require_tls cfg)
               (if user \<noteq> [] then user else if t_username \<noteq> [] then t_username else sc_username cfg)
               (t_use_tls \<or> sc_require_tls cfg) [] None) w1)"

declare events_loop.simps [code] await.simps [code] bring_up.simps [code]

section \<open>Data paths and teardown\<close>

definition bind_data_path ::
  "'w io \<Rightarrow> 'c env \<Rightarrow> session_config \<Rightarrow> ('c, 'w) driver \<Rightarrow> (int, 'c, 'w) dres option" where
  "bind_data_path io ev cfg d =
     (let m = dr_m d in
      if dr_closed d then Some (Inl (Raised (XrdConnectionError ''session is closed''), d))
      else if session_id m = [] then Some (Inl (PlainXRootDError ''no session id'', d))
      else
        (case io_connect io (host m) (port m) (dr_world d) of
           (Inl e, w) \<Rightarrow> Some (Inl (Raised e, d\<lparr>dr_world := w\<rparr>))
         | (Inr t, w) \<Rightarrow>
             (case bring_up_on io ev t
                 (SessionMachine (host m) (port m) (sc_wait_cap cfg) (sc_username cfg) (sc_require_tls cfg)
                    (username m) (tls_active m) (session_id m) None) w of
                None \<Rightarrow> None
              | Some (Inl (x, w1)) \<Rightarrow> Some (Inl (x, d\<lparr>dr_world := w1\<rparr>))
              | Some (Inr s) \<Rightarrow>
                  (let p = pathid (dr_m s); w1 = dr_world s in
                   if p \<in> keys (dr_paths d) then
                     Some (Inl (Raised (ProtocolError ''path id handed out twice''), d\<lparr>dr_world := io_close io t w1\<rparr>))
                   else
                     Some (Inr (p, d\<lparr>dr_world := io_settimeout io t (sc_data_stream_timeout cfg) w1,
                                     dr_paths := AList.update p t (dr_paths d)\<rparr>))))))"

text \<open>What \<^verbatim>\<open>except (XRootDError, OSError)\<close> catches.\<close>

fun is_xrootd_error :: "failure \<Rightarrow> bool" where
  "is_xrootd_error (Raised (ValueError m)) = False"
| "is_xrootd_error (Raised StructError) = False"
| "is_xrootd_error (Raised UnicodeEncodeError) = False"
| "is_xrootd_error (Raised IndexError) = False"
| "is_xrootd_error (Raised AssertionError) = False"
| "is_xrootd_error (Raised (OSError e)) = False"
| "is_xrootd_error (Raised UnsupportedOperation) = False"
| "is_xrootd_error (Raised ZeroDivisionError) = False"
| "is_xrootd_error KeyError = False"
| "is_xrootd_error _ = True"

definition close_session :: "'w io \<Rightarrow> ('c, 'w) driver \<Rightarrow> (failure \<times> ('c, 'w) driver) + ('c, 'w) driver" where
  "close_session io d =
     (let farewell =
            (if mstate (dr_m d) = READY then
               (case close True (dr_m d) of
                  Inl (x, m) \<Rightarrow> Inl (Raised x, d\<lparr>dr_m := m\<rparr>)
                | Inr m \<Rightarrow> flush io (d\<lparr>dr_m := m\<rparr>))
             else Inr d)
      in bindE (case farewell of
                  Inl (x, d1) \<Rightarrow> if is_xrootd_error x then Inr d1 else Inl (x, d1)
                | Inr d1 \<Rightarrow> Inr d1)
           (\<lambda>d1. Inr (d1\<lparr>dr_world := foldl (\<lambda>w (_, t). io_close io t w) (io_close io (dr_t d1) (dr_world d1)) (dr_paths d1),
                         dr_paths := [], dr_m := (dr_m d1)\<lparr>mstate := CLOSED\<rparr>\<rparr>)))"

section \<open>The in-memory transport\<close>

text \<open>
  Both ends of a pipe share two queues, so the world is a store of queues and of ends that refer
  to them.
\<close>

record mem_end =
  me_rx :: nat
  me_tx :: nat
  me_closed :: bool
  me_tls :: bool

record memory =
  mem_queues :: "(nat, bytes list) dict"
  mem_ends :: "(nat, mem_end) dict"

definition queue_at :: "nat \<Rightarrow> memory \<Rightarrow> bytes list" where
  "queue_at q w = (case map_of (mem_queues w) q of None \<Rightarrow> [] | Some c \<Rightarrow> c)"

definition put_queue :: "nat \<Rightarrow> bytes list \<Rightarrow> memory \<Rightarrow> memory" where
  "put_queue q c w = w\<lparr>mem_queues := AList.update q c (mem_queues w)\<rparr>"

definition put_end :: "nat \<Rightarrow> mem_end \<Rightarrow> memory \<Rightarrow> memory" where
  "put_end t e w = w\<lparr>mem_ends := AList.update t e (mem_ends w)\<rparr>"

text \<open>A method call on the end with handle \<open>t\<close>; there is no object to call when the handle is unknown.\<close>

definition mem_send :: "nat \<Rightarrow> bytes \<Rightarrow> memory \<Rightarrow> exn option \<times> memory" where
  "mem_send t data w =
     (case map_of (mem_ends w) t of
        None \<Rightarrow> (Some (XrdConnectionError ''transport is closed''), w)
      | Some e \<Rightarrow>
          if me_closed e then (Some (XrdConnectionError ''transport is closed''), w)
          else (None, if data \<noteq> [] then put_queue (me_tx e) (queue_at (me_tx e) w @ [data]) w else w))"

definition mem_receive :: "int \<Rightarrow> nat \<Rightarrow> memory \<Rightarrow> bytes \<times> memory" where
  "mem_receive limit t w =
     (case map_of (mem_ends w) t of
        None \<Rightarrow> ([], w)
      | Some e \<Rightarrow>
          (case queue_at (me_rx e) w of
             [] \<Rightarrow> ([], w)
           | chunk # rest \<Rightarrow>
               if int (length chunk) > limit
               then (take (nat limit) chunk, put_queue (me_rx e) (drop (nat limit) chunk # rest) w)
               else (chunk, put_queue (me_rx e) rest w)))"

definition mem_start_tls :: "nat \<Rightarrow> memory \<Rightarrow> memory" where
  "mem_start_tls t w =
     (case map_of (mem_ends w) t of None \<Rightarrow> w | Some e \<Rightarrow> put_end t (e\<lparr>me_tls := True\<rparr>) w)"

definition mem_close :: "nat \<Rightarrow> memory \<Rightarrow> memory" where
  "mem_close t w =
     (case map_of (mem_ends w) t of None \<Rightarrow> w | Some e \<Rightarrow> put_end t (e\<lparr>me_closed := True\<rparr>) w)"

definition mem_feed :: "nat \<Rightarrow> bytes \<Rightarrow> memory \<Rightarrow> memory" where
  "mem_feed t data w =
     (case map_of (mem_ends w) t of None \<Rightarrow> w | Some e \<Rightarrow> put_queue (me_rx e) (queue_at (me_rx e) w @ [data]) w)"

definition mem_sent :: "nat \<Rightarrow> memory \<Rightarrow> bytes \<times> memory" where
  "mem_sent t w =
     (case map_of (mem_ends w) t of
        None \<Rightarrow> ([], w) | Some e \<Rightarrow> (concat (queue_at (me_tx e) w), put_queue (me_tx e) [] w))"

text \<open>\<^verbatim>\<open>pipe()\<close> with fresh queues \<open>a\<close>, \<open>b\<close> and handles \<open>s\<close>, \<open>t\<close>.\<close>

definition pipe :: "nat \<Rightarrow> nat \<Rightarrow> nat \<Rightarrow> nat \<Rightarrow> memory \<Rightarrow> memory" where
  "pipe a b s t w =
     put_end t \<lparr>me_rx = b, me_tx = a, me_closed = False, me_tls = False\<rparr>
       (put_end s \<lparr>me_rx = a, me_tx = b, me_closed = False, me_tls = False\<rparr>
         (put_queue b [] (put_queue a [] w)))"

abbreviation (input) RECV :: int where "RECV \<equiv> 262144"

text \<open>The transports of a driver over pipes: nothing can be dialled, and sleeping does nothing.\<close>

definition memory_io :: "memory io" where
  "memory_io = \<lparr>io_send = mem_send,
     io_receive = (\<lambda>t w. case mem_receive RECV t w of (data, w') \<Rightarrow> (Inr data, w')),
     io_start_tls = (\<lambda>t _ w. if t \<in> keys (mem_ends w) then (None, mem_start_tls t w)
       else (Some (XrdConnectionError ''transport is closed''), w)), io_close = mem_close,
     io_settimeout = (\<lambda>_ _ w. w),
     io_connect = (\<lambda>_ _ w. (Inl (XrdConnectionError ''nothing to connect to''), w)),
     io_sleep = (\<lambda>_ w. w)\<rparr>"

section \<open>Turns that return\<close>

lemma flush_paths_Inr:
  assumes "flush_paths io (pt # ps) d = Inr d'"
  obtains d1 where "d1 = d\<lparr>dr_m := snd (path_data_to_send (fst pt) (dr_m d))\<rparr>
      \<or> (\<exists>q. transmit io (snd pt) q (d\<lparr>dr_m := snd (path_data_to_send (fst pt) (dr_m d))\<rparr>) = Inr d1)"
    and "flush_paths io ps d1 = Inr d'"
  using assms by (cases pt) (auto simp: bindE_eq_Inr Let_def split: prod.splits if_splits)

lemma flush_Inr:
  assumes "flush io d = Inr d'"
  obtains d1 where "d1 = d\<lparr>dr_m := snd (data_to_send (dr_m d))\<rparr>
      \<or> (\<exists>q. transmit io (dr_t d) q (d\<lparr>dr_m := snd (data_to_send (dr_m d))\<rparr>) = Inr d1)"
    and "flush_paths io (dr_paths d1) d1 = Inr d'"
proof -
  let ?d = "d\<lparr>dr_m := snd (data_to_send (dr_m d))\<rparr>" and ?q = "fst (data_to_send (dr_m d))"
  let ?sent = "if ?q \<noteq> [] then transmit io (dr_t d) ?q ?d else Inr ?d"
  have "flush io d = bindE ?sent (\<lambda>d2. flush_paths io (dr_paths d2) d2)"
    by (simp add: flush_def split_def Let_def)
  with assms obtain d1 where "?sent = Inr d1" "flush_paths io (dr_paths d1) d1 = Inr d'"
    by (auto simp only: bindE_eq_Inr)
  then show thesis by (intro that [of d1]) (auto split: if_splits)
qed

lemma pump_Inr:
  assumes "pump io ev p d = Inr (es, d1)"
  obtains d0 t data w m where "flush io d = Inr d0" "link_handle p d0 = Some t"
    "io_receive io t (dr_world d0) = (Inr data, w)" "receive_data ev data p (dr_m d0) = Inr m"
    "es = events m" "d1 = d0\<lparr>dr_world := w, dr_m := m\<lparr>events := []\<rparr>\<rparr>"
proof -
  from assms obtain d0 where d0: "flush io d = Inr d0"
    and rest: "(case link_handle p d0 of None \<Rightarrow> Inl (KeyError, d0)
       | Some t \<Rightarrow>
           (case io_receive io t (dr_world d0) of
              (Inl e, w) \<Rightarrow> Inl (Raised e, d0\<lparr>dr_world := w\<rparr>)
            | (Inr data, w) \<Rightarrow>
                (case receive_data ev data p (dr_m d0) of
                   Inl (e, m) \<Rightarrow> Inl (Raised e, d0\<lparr>dr_world := w, dr_m := m\<rparr>)
                 | Inr m \<Rightarrow> Inr (events m, d0\<lparr>dr_world := w, dr_m := m\<lparr>events := []\<rparr>\<rparr>)))) = Inr (es, d1)"
    unfolding pump_def bindE_eq_Inr by blast
  then show thesis using that [OF d0] by (auto split: option.splits prod.splits sum.splits)
qed

end
