(* ===== verification/Driver_Progress.thy ===== *)
theory Driver_Progress
  imports Session_Driver
begin

text \<open>
  A request always gets an answer. The locale \<open>finite_link\<close> is what the driver relies on in its
  transport: a count of the reads the peer may still satisfy, which every non-empty read lowers
  and nothing raises; after them come end of file or an error. Inside it the loops of
  \<^verbatim>\<open>_events_for\<close> and \<^verbatim>\<open>_await\<close> in \<^verbatim>\<open>src/src/xrd/session/sync.py\<close> are shown to end: every turn lowers
  \<open>weight\<close>. The in-memory transport is an interpretation.
\<close>

section \<open>The ready state is kept\<close>

lemma on_status_data_mstate [simp]: "mstate (on_status_data sid data m) = mstate m"
  by (auto simp: on_status_data_def split: option.splits)

lemma on_response_mstate: "mstate (fst (final (on_response h body q (m, f)))) = mstate m"
  unfolding on_response_def by (auto simp: Let_def final_raise_at split: sum.splits)

lemma dispatch_ready:
  assumes "mstate m = READY"
  shows "mstate (fst (final (dispatch ev h body (m, f)))) = READY"
  using assms on_response_mstate [of _ _ _ m f]
  by (auto simp: dispatch_def dispatch_inner_def final_raise_at split: sum.splits option.splits)

lemma parse_step_ready:
  assumes "mstate m = READY" "parse_step ev (m, f) = Some r"
  shows "mstate (fst (final r)) = READY"
  using assms dispatch_ready [OF assms(1)]
  by (auto simp: parse_step_def Let_def split: if_splits option.splits sum.splits)

lemma parse_ready: "mstate m = READY \<Longrightarrow> mstate (fst (final (parse ev (m, f)))) = READY"
proof (induction "backlog f" arbitrary: m f rule: less_induct)
  case less
  show ?case
  proof (cases "parse_step ev (m, f)")
    case None
    with less show ?thesis by (simp add: parse.simps)
  next
    case (Some r)
    with less have r: "mstate (fst (final r)) = READY" by (blast intro: parse_step_ready)
    show ?thesis
    proof (cases r)
      case (Inl x)
      with Some r show ?thesis by (simp add: parse.simps)
    next
      case (Inr mf')
      obtain m' f' where mf': "mf' = (m', f')" by (cases mf')
      with Some Inr have "backlog f' < backlog f" using parse_step_backlog [of ev "(m, f)" mf'] by simp
      with less.hyps [of f' m'] Some Inr mf' r show ?thesis by (simp add: parse.simps [of ev "(m, f)"])
    qed
  qed
qed

lemma receive_data_ready:
  assumes "mstate m = READY" "d \<noteq> []" "receive_data ev d p m = Inr m'"
  shows "mstate m' = READY"
  using assms parse_ready [where m = "m\<lparr>framers := x\<rparr>" for x]
  by (auto simp: receive_data_def Let_def split: sum.splits prod.splits) (metis fst_conv final_simps(2))+

lemma forget_path_mstate [simp]: "mstate (forget_path p m) = mstate m"
proof -
  have "mstate (foldl (\<lambda>m' (sid, _). release sid m') m ps) = mstate m" for ps :: "(int, pending) dict"
    by (induction ps arbitrary: m) (auto simp: split_def)
  then show ?thesis by (simp add: forget_path_def Let_def)
qed

section \<open>Transports that come to an end\<close>

locale finite_link =
  fixes io :: "'w io" and remaining :: "'w \<Rightarrow> nat" and ok :: "'w \<Rightarrow> bool"
  assumes receive_progress: "ok w \<Longrightarrow> io_receive io t w = (Inr data, w') \<Longrightarrow> data \<noteq> [] \<Longrightarrow> remaining w' < remaining w"
    and receive_ok: "ok w \<Longrightarrow> io_receive io t w = (Inr data, w') \<Longrightarrow> ok w' \<and> remaining w' \<le> remaining w"
    and send_ok: "ok w \<Longrightarrow> io_send io t data w = (r, w') \<Longrightarrow> ok w' \<and> remaining w' \<le> remaining w"
    and close_ok: "ok w \<Longrightarrow> ok (io_close io t w) \<and> remaining (io_close io t w) \<le> remaining w"
    and sleep_ok: "ok w \<Longrightarrow> ok (io_sleep io seconds w) \<and> remaining (io_sleep io seconds w) \<le> remaining w"

text \<open>
  What a turn of the loops for stream \<open>sid\<close> on link \<open>p\<close> may use up: reads, the path itself when it
  is lost, and the events already in the stream's inbox.
\<close>

definition weight :: "('w \<Rightarrow> nat) \<Rightarrow> int \<Rightarrow> int \<Rightarrow> ('c, 'w) driver \<Rightarrow> nat" where
  "weight remaining sid p d =
     2 * remaining (dr_world d) + (if p \<in> keys (dr_paths d) then 1 else 0)
       + (if sid \<in> keys (dr_inbox d) then 1 else 0)"

text \<open>\<open>no_more\<close>: nothing of what a turn may use has grown, and the session is as alive as it was.\<close>

definition no_more :: "('w \<Rightarrow> nat) \<Rightarrow> ('w \<Rightarrow> bool) \<Rightarrow> int \<Rightarrow> ('c, 'w) driver \<Rightarrow> ('c, 'w) driver \<Rightarrow> bool" where
  "no_more remaining ok sid d d' \<longleftrightarrow>
     (ok (dr_world d) \<longrightarrow> ok (dr_world d') \<and> remaining (dr_world d') \<le> remaining (dr_world d))
     \<and> keys (dr_paths d') \<subseteq> keys (dr_paths d)
     \<and> (sid \<in> keys (dr_inbox d') \<longrightarrow> sid \<in> keys (dr_inbox d))
     \<and> mstate (dr_m d') = mstate (dr_m d)"

lemma no_more_refl [simp]: "no_more rem ok sid d d"
  by (simp add: no_more_def)

lemma no_more_trans:
  assumes a: "no_more rem ok sid d d'" and b: "no_more rem ok sid d' d''"
  shows "no_more rem ok sid d d''"
  unfolding no_more_def
proof (intro conjI)
  show "ok (dr_world d) \<longrightarrow> ok (dr_world d'') \<and> rem (dr_world d'') \<le> rem (dr_world d)"
    using a b unfolding no_more_def by (meson order_trans)
  show "keys (dr_paths d'') \<subseteq> keys (dr_paths d)" using a b unfolding no_more_def by (meson subset_trans)
  show "sid \<in> keys (dr_inbox d'') \<longrightarrow> sid \<in> keys (dr_inbox d)" using a b unfolding no_more_def by meson
  show "mstate (dr_m d'') = mstate (dr_m d)" using a b unfolding no_more_def by simp
qed

lemma no_more_deliver: "s \<noteq> sid \<Longrightarrow> no_more rem ok sid d (deliver s e d)"
  by (simp add: no_more_def deliver_def)

lemma no_more_notices: "no_more rem ok sid d (d\<lparr>dr_notices := ns\<rparr>)"
  by (simp add: no_more_def)

lemma no_more_weight: "ok (dr_world d) \<Longrightarrow> no_more rem ok sid d d' \<Longrightarrow> weight rem sid p d' \<le> weight rem sid p d"
  unfolding no_more_def weight_def by auto

lemma sift_disconnected:
  "Disconnected r \<in> set es \<Longrightarrow> \<exists>x. sift io sid es mine d = Inl x"
  by (induction io sid es mine d rule: sift.induct) (auto split: event.splits option.splits)

lemma sift_step:
  assumes "sift io sid (e # es) mine d = Inr r"
  obtains mine1 d1 where "sift io sid es mine1 d1 = Inr r"
    and "d1 = d \<or> (\<exists>ns. d1 = d\<lparr>dr_notices := ns\<rparr>) \<or> (\<exists>p. e = PathLost p \<and> d1 = close_path io p d)
      \<or> (\<exists>s. s \<noteq> sid \<and> d1 = deliver s e d)"
proof (cases "event_target e")
  case None
  with assms that show thesis by (cases e) (auto split: option.splits)
next
  case (Some s)
  with assms that show thesis by (cases "s = sid"; cases e) auto
qed

lemma submit_ready:
  assumes "submit ev req path on m = Inr (sid, m')"
  shows "mstate m' = READY"
proof -
  from assms obtain m1 where "mstate m = READY" "acquire_sid m = Inr (sid, m1)" "send ev req sid path on m1 = Inr m'"
    by (rule submit_Inr)
  then show ?thesis using acquire_sid_sel(2) by (metis send_Inr)
qed

lemma resume_mstate: "resume sid m = Inr m' \<Longrightarrow> mstate m' = mstate m"
  by (auto simp: resume_def Let_def split: option.splits if_splits)

context finite_link
begin

lemma transmit_no_more: "transmit io t data d = Inr d' \<Longrightarrow> no_more remaining ok sid d d'"
  by (auto simp: transmit_def no_more_def dest: send_ok split: prod.splits option.splits)

lemma drain_no_more:
  "no_more remaining ok sid d (d\<lparr>dr_m := snd (data_to_send (dr_m d))\<rparr>)"
  "no_more remaining ok sid d (d\<lparr>dr_m := snd (path_data_to_send p (dr_m d))\<rparr>)"
  by (simp_all add: no_more_def data_to_send_def path_data_to_send_def)

lemma flush_paths_no_more: "flush_paths io ps d = Inr d' \<Longrightarrow> no_more remaining ok sid d d'"
proof (induction ps arbitrary: d)
  case (Cons pt ps)
  from Cons.prems obtain d1 where d1: "d1 = d\<lparr>dr_m := snd (path_data_to_send (fst pt) (dr_m d))\<rparr>
      \<or> (\<exists>q. transmit io (snd pt) q (d\<lparr>dr_m := snd (path_data_to_send (fst pt) (dr_m d))\<rparr>) = Inr d1)"
    and rest: "flush_paths io ps d1 = Inr d'" by (rule flush_paths_Inr)
  from d1 have "no_more remaining ok sid d d1" using drain_no_more(2) transmit_no_more no_more_trans by blast
  with Cons.IH [OF rest] show ?case by (rule no_more_trans [rotated])
qed simp

lemma flush_no_more:
  assumes "flush io d = Inr d'"
  shows "no_more remaining ok sid d d'"
  using assms
proof (rule flush_Inr)
  fix d1
  assume "d1 = d\<lparr>dr_m := snd (data_to_send (dr_m d))\<rparr>
      \<or> (\<exists>q. transmit io (dr_t d) q (d\<lparr>dr_m := snd (data_to_send (dr_m d))\<rparr>) = Inr d1)"
    and rest: "flush_paths io (dr_paths d1) d1 = Inr d'"
  then have "no_more remaining ok sid d d1" using drain_no_more(1) transmit_no_more no_more_trans by blast
  with flush_paths_no_more [OF rest] show ?thesis by (rule no_more_trans [rotated])
qed

lemma close_path_no_more: "no_more remaining ok sid d (close_path io p d)"
  using close_ok by (auto simp: close_path_def no_more_def Let_def split: option.splits)

lemma sift_no_more: "sift io sid es mine d = Inr (mine', d') \<Longrightarrow> no_more remaining ok sid d d'"
proof (induction es arbitrary: mine d)
  case (Cons e es)
  from Cons.prems obtain mine1 d1 where d1: "sift io sid es mine1 d1 = Inr (mine', d')"
    and "d1 = d \<or> (\<exists>ns. d1 = d\<lparr>dr_notices := ns\<rparr>) \<or> (\<exists>p. e = PathLost p \<and> d1 = close_path io p d)
      \<or> (\<exists>s. s \<noteq> sid \<and> d1 = deliver s e d)" by (rule sift_step)
  then have "no_more remaining ok sid d d1"
    using close_path_no_more no_more_deliver no_more_notices no_more_refl by metis
  with Cons.IH [OF d1] no_more_trans show ?case by blast
qed simp

lemma sift_path_lost:
  "sift io sid es mine d = Inr (mine', d') \<Longrightarrow> PathLost p \<in> set es \<Longrightarrow> p \<notin> keys (dr_paths d')"
proof (induction es arbitrary: mine d)
  case (Cons e es)
  show ?case
  proof (cases "e = PathLost p")
    case True
    with Cons.prems have "sift io sid es mine (close_path io p d) = Inr (mine', d')" by simp
    then have "keys (dr_paths d') \<subseteq> keys (dr_paths (close_path io p d))"
      by (drule_tac sift_no_more) (simp add: no_more_def)
    moreover have "p \<notin> keys (dr_paths (close_path io p d))"
      by (auto simp: close_path_def Let_def map_of_None_keys split: option.splits)
    ultimately show ?thesis by blast
  next
    case False
    from Cons.prems(1) obtain d1 mine1 where "sift io sid es mine1 d1 = Inr (mine', d')" by (rule sift_step)
    with Cons.IH Cons.prems(2) False show ?thesis by auto
  qed
qed simp

lemma turn_decreases:
  assumes ready: "mstate (dr_m d) = READY" and ok: "ok (dr_world d)"
    and turn: "bindE (pump io ev p d) (\<lambda>(es, d1). sift io sid es [] d1) = Inr (mine, d2)"
  shows "mstate (dr_m d2) = READY \<and> ok (dr_world d2) \<and> weight remaining sid p d2 < weight remaining sid p d"
proof -
  from turn obtain es d1 where "pump io ev p d = Inr (es, d1)" and sift: "sift io sid es [] d1 = Inr (mine, d2)"
    by (auto simp: bindE_eq_Inr)
  then obtain d0 t data w m where d0: "flush io d = Inr d0" and t: "link_handle p d0 = Some t"
    and recv: "io_receive io t (dr_world d0) = (Inr data, w)" and m: "receive_data ev data p (dr_m d0) = Inr m"
    and es: "es = events m" and d1: "d1 = d0\<lparr>dr_world := w, dr_m := m\<lparr>events := []\<rparr>\<rparr>"
    by (auto elim: pump_Inr)
  note n0 = flush_no_more [OF d0, of sid] and n2 = sift_no_more [OF sift]
  from n0 ready have r0: "mstate (dr_m d0) = READY" by (simp add: no_more_def)
  from n0 ok have k0: "ok (dr_world d0)" by (simp add: no_more_def)
  with receive_ok [OF k0 recv] have k1: "ok (dr_world d1)" by (simp add: d1)
  with n2 have k2: "ok (dr_world d2)" by (simp add: no_more_def)
  note w0 = no_more_weight [OF ok n0, of p] and w2 = no_more_weight [OF k1 n2, of p]
  show ?thesis
  proof (cases "data = []")
    case False
    have "weight remaining sid p d1 < weight remaining sid p d0"
      using receive_progress [OF k0 recv False] by (simp add: weight_def d1)
    moreover have "mstate m = READY" by (rule receive_data_ready [OF r0 False m])
    ultimately show ?thesis using w0 w2 n2 k2 by (simp add: d1 no_more_def)
  next
    case True
    show ?thesis
    proof (cases "p = 0")
      case True
      with m r0 \<open>data = []\<close> have "Disconnected ''connection closed by peer'' \<in> set es"
        by (auto simp: receive_data_def Let_def on_eof_def es)
      then show ?thesis using sift_disconnected sift by (metis Inl_Inr_False)
    next
      case False
      with m \<open>data = []\<close> have "PathLost p \<in> set es" and rm: "mstate m = READY"
        using r0 by (auto simp: receive_data_def Let_def on_path_eof_def es)
      then have gone: "p \<notin> keys (dr_paths d2)" using sift sift_path_lost by blast
      have "p \<in> keys (dr_paths d0)" using t False by (auto simp: link_handle_def dest: map_of_in_keys)
      with gone n2 k1 receive_ok [OF k0 recv]
      have "weight remaining sid p d2 < weight remaining sid p d0"
        by (auto simp: weight_def no_more_def d1)
      with w0 n2 rm k2 show ?thesis by (simp add: no_more_def d1)
    qed
  qed
qed

lemma events_loop_returns:
  "mstate (dr_m d) = READY \<Longrightarrow> ok (dr_world d) \<Longrightarrow>
    \<exists>r. events_loop io ev sid p d = Some r
      \<and> (\<forall>es d'. r = Inr (es, d') \<longrightarrow> mstate (dr_m d') = READY \<and> ok (dr_world d')
        \<and> weight remaining sid p d' < weight remaining sid p d)"
proof (induction "weight remaining sid p d" arbitrary: d rule: less_induct)
  case less
  show ?case
  proof (cases "bindE (pump io ev p d) (\<lambda>(es, d1). sift io sid es [] d1)")
    case (Inl x)
    then show ?thesis by (simp add: events_loop.simps)
  next
    case (Inr md)
    obtain mine d2 where md: "md = (mine, d2)" by (cases md)
    with turn_decreases [OF less.prems] Inr
    have d2: "mstate (dr_m d2) = READY" "ok (dr_world d2)" "weight remaining sid p d2 < weight remaining sid p d" by blast+
    show ?thesis
    proof (cases "mine = []")
      case True
      from less.hyps [OF d2(3,1,2)] d2(3) show ?thesis using True Inr md
        by (subst events_loop.simps) (fastforce dest: less_trans)
    next
      case False
      with Inr md d2 show ?thesis by (simp add: events_loop.simps)
    qed
  qed
qed

lemma events_for_returns:
  assumes "mstate (dr_m d) = READY" "ok (dr_world d)"
  shows "\<exists>r. events_for io ev sid p d = Some r
    \<and> (\<forall>es d'. r = Inr (es, d') \<longrightarrow> mstate (dr_m d') = READY \<and> ok (dr_world d')
        \<and> weight remaining sid p d' < weight remaining sid p d)"
proof -
  let ?d = "d\<lparr>dr_inbox := AList.delete sid (dr_inbox d)\<rparr>"
  have le: "weight remaining sid p ?d \<le> weight remaining sid p d" by (simp add: weight_def)
  show ?thesis
  proof (cases "map_of (dr_inbox d) sid")
    case None
    then show ?thesis using events_loop_returns [of ?d ev sid p] assms le
      by (auto simp: events_for_def Let_def dest: less_le_trans)
  next
    case (Some es)
    then have "weight remaining sid p ?d < weight remaining sid p d"
      by (auto simp: weight_def dest: map_of_in_keys)
    then show ?thesis using events_loop_returns [of ?d ev sid p] assms le Some
      by (auto simp: events_for_def Let_def dest: less_le_trans)
  qed
qed

lemma absorb_no_more:
  "absorb io limit stream sid es waits streamed d = Inr (x, d') \<Longrightarrow> no_more remaining ok s d d'"
proof (induction es arbitrary: waits streamed d)
  case (Cons e es)
  have hand: "no_more remaining ok s d (hand_out stream data d)" for data by (simp add: no_more_def hand_out_def)
  show ?case
  proof (cases e)
    case (Chunk a b data)
    with Cons.prems have "absorb io limit stream sid es waits (streamed + length data) (hand_out stream data d) = Inr (x, d')"
      by simp
    from no_more_trans [OF hand Cons.IH [OF this]] show ?thesis .
  next
    case (Waiting a b seconds c resend)
    show ?thesis
    proof (cases resend)
      case False
      with Waiting Cons show ?thesis by simp
    next
      case True
      let ?d = "d\<lparr>dr_world := io_sleep io seconds (dr_world d)\<rparr>"
      from True Waiting Cons.prems obtain m d1 where m: "resume sid (dr_m d) = Inr m"
        and d1: "flush io (?d\<lparr>dr_m := m\<rparr>) = Inr d1"
        and rest: "absorb io limit stream sid es (waits + 1) 0 d1 = Inr (x, d')"
        by (auto simp: bindE_eq_Inr Let_def split: if_splits sum.splits)
      have "no_more remaining ok s d (?d\<lparr>dr_m := m\<rparr>)"
        using sleep_ok resume_mstate [OF m] by (simp add: no_more_def)
      from no_more_trans [OF no_more_trans [OF this flush_no_more [OF d1]] Cons.IH [OF rest]] show ?thesis .
    qed
  qed (use Cons hand in auto)
qed simp

lemma await_returns:
  "mstate (dr_m d) = READY \<Longrightarrow> ok (dr_world d) \<Longrightarrow> \<exists>r. await io ev limit stream sid p waits streamed d = Some r"
proof (induction "weight remaining sid p d" arbitrary: waits streamed d rule: less_induct)
  case less
  from events_for_returns [OF less.prems, of ev sid p] obtain turn where
    turn: "events_for io ev sid p d = Some turn" and
    dec: "\<And>es d'. turn = Inr (es, d') \<Longrightarrow> mstate (dr_m d') = READY \<and> ok (dr_world d')
      \<and> weight remaining sid p d' < weight remaining sid p d"
    by blast
  show ?case
  proof (cases "bindE turn (\<lambda>(es, d1). absorb io limit stream sid es waits streamed d1)")
    case (Inl x)
    then show ?thesis using turn by (simp add: await.simps)
  next
    case (Inr y)
    obtain r waits' streamed' d2 where y: "y = ((r, waits', streamed'), d2)" by (cases y) auto
    from Inr obtain es d1 where es: "turn = Inr (es, d1)" and a: "absorb io limit stream sid es waits streamed d1 = Inr y"
      by (auto simp: bindE_eq_Inr)
    note n = absorb_no_more [OF a [unfolded y], of sid]
    from n no_more_weight [OF _ n, of p] dec [OF es]
    have "mstate (dr_m d2) = READY" "ok (dr_world d2)" "weight remaining sid p d2 < weight remaining sid p d"
      by (simp_all add: no_more_def)
    then show ?thesis using less.hyps [of d2 waits' streamed'] turn Inr y
      by (cases r) (simp_all add: await.simps [of io ev limit stream sid p waits streamed d])
  qed
qed

lemma execute_ends:
  assumes "ok (dr_world d)"
  shows "\<exists>r. execute io ev limit req path stream arrive d = Some r"
proof -
  let ?p = "rq_pathid (cls req)"
  define on where "on \<longleftrightarrow> arrive \<and> dr_arrives d \<noteq> Some False \<and> ?p \<noteq> 0 \<and> ?p \<in> keys (dr_paths d)"
  have nz: "on \<longrightarrow> ?p \<noteq> 0" by (simp add: on_def)
  show ?thesis
  proof (cases "submit ev req path on (dr_m d)")
    case (Inl x)
    then show ?thesis by (cases x) (simp add: execute_def Let_def on_def)
  next
    case (Inr y)
    obtain sid m where y: "y = (sid, m)" by (cases y)
    have "\<exists>r. await io ev limit stream sid p 0 0 (d\<lparr>dr_chunks := [], dr_m := m\<rparr>) = Some r" for p
      by (rule await_returns) (use submit_ready [OF Inr [unfolded y]] assms in simp_all)
    then obtain r where r: "\<And>p. await io ev limit stream sid p 0 0 (d\<lparr>dr_chunks := [], dr_m := m\<rparr>) = Some (r p)"
      by metis
    show ?thesis
    proof (cases "r ?p")
      case (Inl z)
      with Inr y r nz show ?thesis by (cases z) (auto simp: execute_def Let_def simp flip: on_def)
    next
      case (Inr z)
      with \<open>submit ev req path on (dr_m d) = Inr y\<close> y r nz show ?thesis
        by (cases z) (auto simp: execute_def Let_def simp flip: on_def)
    qed
  qed
qed

end

section \<open>The in-memory transport\<close>

definition rx_queues :: "memory \<Rightarrow> nat set" where
  "rx_queues w = {q. \<exists>t e. map_of (mem_ends w) t = Some e \<and> me_rx e = q}"

definition queued :: "bytes list \<Rightarrow> nat" where
  "queued c = sum_list (map (Suc \<circ> length) c)"

definition mem_remaining :: "memory \<Rightarrow> nat" where
  "mem_remaining w = (\<Sum>q\<in>rx_queues w. queued (queue_at q w))"

text \<open>No end of the store reads what another one writes: the peers are outside.\<close>

definition one_sided :: "memory \<Rightarrow> bool" where
  "one_sided w \<longleftrightarrow> (\<forall>t e. map_of (mem_ends w) t = Some e \<longrightarrow> me_tx e \<notin> rx_queues w)"

lemma finite_rx_queues: "finite (rx_queues w)"
proof -
  have "rx_queues w \<subseteq> (me_rx \<circ> snd) ` set (mem_ends w)"
    by (force simp: rx_queues_def dest: map_of_SomeD)
  then show ?thesis by (rule finite_subset) simp
qed

lemma put_queue_sel [simp]:
  "mem_ends (put_queue q c w) = mem_ends w" "rx_queues (put_queue q c w) = rx_queues w"
  "one_sided (put_queue q c w) = one_sided w"
  "queue_at q' (put_queue q c w) = (if q' = q then c else queue_at q' w)"
  by (simp_all add: put_queue_def rx_queues_def one_sided_def queue_at_def update_conv)

lemma put_queue_remaining:
  "q \<notin> rx_queues w \<Longrightarrow> mem_remaining (put_queue q c w) = mem_remaining w"
  "q \<in> rx_queues w \<Longrightarrow> mem_remaining (put_queue q c w) + queued (queue_at q w) = mem_remaining w + queued c"
proof -
  show "q \<notin> rx_queues w \<Longrightarrow> mem_remaining (put_queue q c w) = mem_remaining w"
    unfolding mem_remaining_def by (auto intro: sum.cong)
  assume q: "q \<in> rx_queues w"
  have "mem_remaining (put_queue q c w) = queued c + (\<Sum>q'\<in>rx_queues w - {q}. queued (queue_at q' w))"
    unfolding mem_remaining_def by (simp add: sum.remove [OF finite_rx_queues q])
  moreover have "mem_remaining w = queued (queue_at q w) + (\<Sum>q'\<in>rx_queues w - {q}. queued (queue_at q' w))"
    unfolding mem_remaining_def by (simp add: sum.remove [OF finite_rx_queues q])
  ultimately show "mem_remaining (put_queue q c w) + queued (queue_at q w) = mem_remaining w + queued c" by simp
qed

lemma put_end_same:
  assumes "map_of (mem_ends w) t = Some e" "me_rx e' = me_rx e" "me_tx e' = me_tx e"
  shows "one_sided (put_end t e' w) = one_sided w" "mem_remaining (put_end t e' w) = mem_remaining w"
proof -
  have rx: "rx_queues (put_end t e' w) = rx_queues w"
  proof (rule set_eqI)
    fix q
    have "(\<exists>e'. map_of (mem_ends (put_end t e'' w)) s = Some e' \<and> me_rx e' = q)
        \<longleftrightarrow> (\<exists>e'. map_of (mem_ends w) s = Some e' \<and> me_rx e' = q)" if "e'' = e'" for s e''
      using assms that by (auto simp: put_end_def update_conv)
    then show "q \<in> rx_queues (put_end t e' w) \<longleftrightarrow> q \<in> rx_queues w" by (simp add: rx_queues_def)
  qed
  show "one_sided (put_end t e' w) = one_sided w"
    unfolding one_sided_def rx using assms by (auto simp: put_end_def update_conv)
  show "mem_remaining (put_end t e' w) = mem_remaining w"
    unfolding mem_remaining_def rx by (simp add: queue_at_def put_end_def)
qed

lemma mem_close_ok: "one_sided (mem_close t w) = one_sided w" "mem_remaining (mem_close t w) = mem_remaining w"
  by (auto simp: mem_close_def put_end_same split: option.splits)

lemma mem_send_ok:
  "one_sided w \<Longrightarrow> mem_send t data w = (r, w') \<Longrightarrow> one_sided w' \<and> mem_remaining w' = mem_remaining w"
  by (auto simp: mem_send_def one_sided_def put_queue_remaining split: option.splits if_splits)

lemma mem_receive_ok:
  assumes "mem_receive limit t w = (data, w')" "limit > 0"
  shows "one_sided w' = one_sided w \<and> mem_remaining w' \<le> mem_remaining w \<and> (data \<noteq> [] \<longrightarrow> mem_remaining w' < mem_remaining w)"
proof (cases "map_of (mem_ends w) t")
  case None
  with assms show ?thesis by (simp add: mem_receive_def)
next
  case (Some e)
  then have q: "me_rx e \<in> rx_queues w" by (auto simp: rx_queues_def)
  show ?thesis
  proof (cases "queue_at (me_rx e) w")
    case Nil
    with Some assms show ?thesis by (simp add: mem_receive_def)
  next
    case (Cons chunk rest)
    with Some assms put_queue_remaining(2) [OF q, of rest] put_queue_remaining(2) [OF q, of "drop (nat limit) chunk # rest"]
    show ?thesis by (auto simp: mem_receive_def queued_def split: if_splits)
  qed
qed

interpretation pipes: finite_link memory_io mem_remaining one_sided
proof unfold_locales
  fix w t data w'
  assume "one_sided w" "io_receive memory_io t w = (Inr data, w')"
  then have "mem_receive RECV t w = (data, w')" by (auto simp: memory_io_def split: prod.splits)
  from mem_receive_ok [OF this] \<open>one_sided w\<close>
  show "one_sided w' \<and> mem_remaining w' \<le> mem_remaining w" "data \<noteq> [] \<Longrightarrow> mem_remaining w' < mem_remaining w" by simp_all
qed (simp_all add: memory_io_def mem_close_ok mem_send_ok)

section \<open>Properties\<close>

text \<open>
  C35. A request never hangs on a finite stream. Over any transport whose peer satisfies finitely
  many more reads and then ends the stream or fails, \<^verbatim>\<open>execute\<close> returns or raises, whatever the
  bytes are, however often the server asks to wait, and whichever link the answer is awaited on.
\<close>

theorem execute_returns:
  assumes "finite_link io remaining ok" and "ok (dr_world d)"
  shows "\<exists>r. execute io ev limit req path stream arrive d = Some r"
  by (rule finite_link.execute_ends [OF assms])

text \<open>A ready session over a pipe whose far end has written \<open>reads\<close> and then closed.\<close>

definition sample_pipe :: "bytes list \<Rightarrow> memory" where
  "sample_pipe reads = \<lparr>mem_queues = [(0, reads), (1, [])],
     mem_ends = [(0, \<lparr>me_rx = 0, me_tx = 1, me_closed = False, me_tls = False\<rparr>)]\<rparr>"

definition sample_driver :: "bytes list \<Rightarrow> (unit, memory) driver" where
  "sample_driver reads = Session 0 (sample_ready\<lparr>events := [], out := []\<rparr>) (sample_pipe reads)"

theorem execute_returns_witness:
  "\<exists>r. execute memory_io sample_env 16 Ping [] False False
     (sample_driver [response_frame 4 kXR_waitresp (be_bytes 4 5), response_frame 9 kXR_ok [1]]) = Some r"
proof (rule execute_returns)
  show "finite_link memory_io mem_remaining one_sided" by (rule pipes.finite_link_axioms)
  show "one_sided (dr_world (sample_driver [response_frame 4 kXR_waitresp (be_bytes 4 5), response_frame 9 kXR_ok [1]]))"
    by (auto simp: one_sided_def rx_queues_def sample_driver_def Session_def sample_pipe_def split: if_splits)
qed

section \<open>An answer to somebody else\<close>

text \<open>
  A request that is given up (the server asked to wait too often, or a read timed out) leaves its
  stream in flight. When its answer comes after all it goes to the stream's inbox and the
  machine frees the stream id; the next request that gets this id finds the old answer in its
  inbox and returns it, without having been sent.
\<close>

definition given_up :: "(unit, memory) driver" where
  "given_up = (case execute memory_io sample_env 0 (Readlink (lit ''/a'')) [] False False
      (sample_driver [response_frame 4 kXR_wait (be_bytes 4 1),
         response_frame 5 kXR_ok [5] @ response_frame 4 kXR_ok [1, 2, 3]]) of
     Some (Inl (_, d)) \<Rightarrow> d | Some (Inr (_, d)) \<Rightarrow> d | None \<Rightarrow> sample_driver [])"

definition answered :: "(unit, memory) driver" where
  "answered = (case execute memory_io sample_env 0 Ping [] False False given_up of
     Some (Inl (_, d)) \<Rightarrow> d | Some (Inr (_, d)) \<Rightarrow> d | None \<Rightarrow> sample_driver [])"

theorem stale_answer_returned:
  "case execute memory_io sample_env 0 (Readlink (lit ''/b'')) [] False False answered of
     Some (Inr (r, d)) \<Rightarrow> res_data r = [1, 2, 3] \<and> out (dr_m d) \<noteq> []
   | _ \<Rightarrow> False"
  by code_simp

end
