(* ===== verification/Xrd_Url.thy ===== *)
theory Xrd_Url
  imports Wire_Constants
begin

text \<open>
  Storage URLs, \<^verbatim>\<open>src/src/xrd/url.py\<close>, with what it uses of \<^verbatim>\<open>urllib.parse\<close> and \<^verbatim>\<open>posixpath\<close>. Text is a
  list of code points; characters are written as their code points with the character in a
  comment. Two things come from outside as arguments: \<open>low\<close> is \<^verbatim>\<open>str.lower\<close> (a table of the
  interpreter) and \<open>abspath\<close> is \<^verbatim>\<open>os.path.abspath\<close>, which depends on the working directory.
\<close>

section \<open>Percent encoding\<close>

definition unreserved :: "nat \<Rightarrow> bool" where
  "unreserved c \<longleftrightarrow> (48 \<le> c \<and> c \<le> 57) \<or> (65 \<le> c \<and> c \<le> 90) \<or> (97 \<le> c \<and> c \<le> 122)
     \<or> c \<in> {95, 46, 45, 126}"    \<comment> \<open>letters, digits, \<^verbatim>\<open>_.-~\<close>\<close>

definition upper_hex :: "nat \<Rightarrow> nat" where
  "upper_hex d = (if d < 10 then 48 + d else 55 + d)"

definition hex_value :: "nat \<Rightarrow> nat option" where
  "hex_value c = (if 48 \<le> c \<and> c \<le> 57 then Some (c - 48)
     else if 65 \<le> c \<and> c \<le> 70 then Some (c - 55)
     else if 97 \<le> c \<and> c \<le> 102 then Some (c - 87) else None)"

text \<open>\<^verbatim>\<open>quote(s, safe="")\<close> and \<^verbatim>\<open>quote_plus(s)\<close>: 37 is the percent sign, 43 plus, 32 space.\<close>

definition quote_byte :: "bool \<Rightarrow> nat \<Rightarrow> str" where
  "quote_byte form b =
     (if unreserved b then [b] else if form \<and> b = 32 then [43] else [37, upper_hex (b div 16), upper_hex (b mod 16)])"

definition url_quote :: "bool \<Rightarrow> str \<Rightarrow> exn + str" where
  "url_quote form s =
     bindE (utf8_encode s) (\<lambda>bs. Inr (concat (map (quote_byte form \<circ> unat) bs)))"

text \<open>\<^verbatim>\<open>unquote_to_bytes\<close> of ASCII text, as byte values.\<close>

fun unquote_bytes :: "str \<Rightarrow> nat list" where
  "unquote_bytes [] = []"
| "unquote_bytes (c # cs) =
     (if c = 37 then
        (case cs of
           a # b # rest \<Rightarrow>
             (case (hex_value a, hex_value b) of
                (Some x, Some y) \<Rightarrow> (16 * x + y) # unquote_bytes rest
              | _ \<Rightarrow> c # unquote_bytes cs)
         | _ \<Rightarrow> c # unquote_bytes cs)
      else c # unquote_bytes cs)"

text \<open>\<^verbatim>\<open>unquote\<close>: runs of ASCII characters are decoded, others are kept.\<close>

function unquote_runs :: "str \<Rightarrow> str" where
  "unquote_runs [] = []"
| "unquote_runs (c # cs) =
     (if c < 128
      then utf8_decode (map of_nat (unquote_bytes (c # takeWhile (\<lambda>d. d < 128) cs)))
             @ unquote_runs (dropWhile (\<lambda>d. d < 128) cs)
      else c # unquote_runs cs)"
  by pat_completeness auto
termination
  by (relation "measure length") (auto simp: le_imp_less_Suc length_dropWhile_le)

definition unquote :: "str \<Rightarrow> str" where
  "unquote s = (if 37 \<in> set s then unquote_runs s else s)"

section \<open>Query strings\<close>

text \<open>\<^verbatim>\<open>urlencode\<close>: 61 is the equals sign, 38 the ampersand.\<close>

fun join_with :: "str \<Rightarrow> str list \<Rightarrow> str" where
  "join_with sep [] = []"
| "join_with sep [s] = s"
| "join_with sep (s # t # ss) = s @ sep @ join_with sep (t # ss)"

fun encode_pairs :: "(str \<times> str) list \<Rightarrow> exn + str list" where
  "encode_pairs [] = Inr []"
| "encode_pairs ((k, v) # q) =
     bindE (url_quote True k) (\<lambda>k'. bindE (url_quote True v) (\<lambda>v'.
       bindE (encode_pairs q) (\<lambda>r. Inr ((k' @ 61 # v') # r))))"

definition urlencode :: "(str, str) dict \<Rightarrow> exn + str" where
  "urlencode q = bindE (encode_pairs q) (\<lambda>parts. Inr (join_with [38] parts))"

text \<open>\<^verbatim>\<open>parse_qsl(cgi, keep_blank_values=True)\<close>.\<close>

definition plus_to_space :: "str \<Rightarrow> str" where
  "plus_to_space s = map (\<lambda>c. if c = 43 then 32 else c) s"

definition qsl_pair :: "str \<Rightarrow> str \<times> str" where
  "qsl_pair nv = (case partition_at 61 nv of (name, _, value) \<Rightarrow>
     (unquote (plus_to_space name), unquote (plus_to_space value)))"

definition parse_qsl :: "str \<Rightarrow> (str \<times> str) list" where
  "parse_qsl qs = map qsl_pair (filter (\<lambda>nv. nv \<noteq> []) (split_on 38 qs))"

definition dict_of :: "('k \<times> 'v) list \<Rightarrow> ('k, 'v) dict" where
  "dict_of ps = foldl (\<lambda>d (k, v). AList.update k v d) [] ps"

section \<open>Paths\<close>

text \<open>\<^verbatim>\<open>posixpath.normpath\<close>: 47 is the slash, 46 the dot.\<close>

definition norm_step :: "bool \<Rightarrow> str list \<Rightarrow> str \<Rightarrow> str list" where
  "norm_step absolute acc part =
     (if part = [] \<or> part = [46] then acc
      else if part \<noteq> [46, 46] \<or> (\<not> absolute \<and> acc = []) \<or> (acc \<noteq> [] \<and> last acc = [46, 46])
      then acc @ [part]
      else butlast acc)"

definition normpath :: "str \<Rightarrow> str" where
  "normpath path =
     (if path = [] then [46]
      else
        (let absolute = (hd path = 47);
             slashes = (if \<not> absolute then 0
                        else if take 2 path = [47, 47] \<and> take 3 path \<noteq> [47, 47, 47] then 2 else 1 :: nat);
             comps = foldl (norm_step absolute) [] (split_on 47 path);
             text = replicate slashes 47 @ join_with [47] comps
         in if text = [] then [46] else text))"

definition lstrip_slash :: "str \<Rightarrow> str" where
  "lstrip_slash s = dropWhile (\<lambda>c. c = 47) s"

definition ends_with_slash :: "str \<Rightarrow> bool" where
  "ends_with_slash s \<longleftrightarrow> s \<noteq> [] \<and> last s = 47"

definition normalize :: "str \<Rightarrow> str" where
  "normalize path =
     (if path = [] then [47]
      else
        (let trailing = ends_with_slash path \<and> length path > 1;
             norm = normpath (47 # lstrip_slash path)
         in if trailing \<and> \<not> ends_with_slash norm then norm @ [47] else norm))"

definition posix_join1 :: "str \<Rightarrow> str \<Rightarrow> str" where
  "posix_join1 path b =
     (if b \<noteq> [] \<and> hd b = 47 then b
      else if path = [] \<or> ends_with_slash path then path @ b
      else path @ 47 # b)"

definition posix_join :: "str \<Rightarrow> str list \<Rightarrow> str" where
  "posix_join path parts = foldl posix_join1 path parts"

text \<open>\<^verbatim>\<open>posixpath.split\<close>: what precedes the last component, and the last component.\<close>

definition basename :: "str \<Rightarrow> str" where
  "basename p = rev (takeWhile (\<lambda>c. c \<noteq> 47) (rev p))"

definition dirname :: "str \<Rightarrow> str" where
  "dirname p =
     (let head = rev (dropWhile (\<lambda>c. c \<noteq> 47) (rev p))
      in if list_all (\<lambda>c. c = 47) head then head else rstrip_by (\<lambda>c. c = 47) head)"

section \<open>URLs\<close>

definition ROOT_SCHEMES :: "str list" where
  "ROOT_SCHEMES = map lit [''root'', ''roots'', ''xroot'', ''xroots'', ''xrootd'']"

definition HTTP_SCHEMES :: "str list" where
  "HTTP_SCHEMES = map lit [''http'', ''https'', ''dav'', ''davs'', ''webdav'']"

definition S3_SCHEMES :: "str list" where
  "S3_SCHEMES = map lit [''s3'']"

definition TLS_SCHEMES :: "str list" where
  "TLS_SCHEMES = map lit [''roots'', ''xroots'', ''https'', ''davs'', ''s3'']"

definition DEFAULT_PORT :: int where
  "DEFAULT_PORT = 1094"

record url =
  u_scheme :: str
  u_host :: str
  u_port :: int
  u_path :: str
  u_username :: str
  u_password :: str
  u_query :: "(str, str) dict"

text \<open>The constructor, with \<^verbatim>\<open>__post_init__\<close>.\<close>

definition XRootDURL ::
  "(str \<Rightarrow> str) \<Rightarrow> str \<Rightarrow> str \<Rightarrow> int \<Rightarrow> str \<Rightarrow> str \<Rightarrow> str \<Rightarrow> (str, str) dict \<Rightarrow> url" where
  "XRootDURL low scheme host port path username password query =
     \<lparr>u_scheme = low scheme, u_host = low host, u_port = port, u_path = path,
      u_username = username, u_password = password, u_query = query\<rparr>"

definition is_root :: "url \<Rightarrow> bool" where "is_root u \<longleftrightarrow> u_scheme u \<in> set ROOT_SCHEMES"
definition is_http :: "url \<Rightarrow> bool" where "is_http u \<longleftrightarrow> u_scheme u \<in> set HTTP_SCHEMES"
definition is_s3 :: "url \<Rightarrow> bool" where "is_s3 u \<longleftrightarrow> u_scheme u \<in> set S3_SCHEMES"
definition is_local :: "url \<Rightarrow> bool" where "is_local u \<longleftrightarrow> u_scheme u = lit ''file''"
definition use_tls :: "url \<Rightarrow> bool" where "use_tls u \<longleftrightarrow> u_scheme u \<in> set TLS_SCHEMES"

text \<open>58 is the colon, 91 and 93 are the square brackets.\<close>

definition netloc :: "url \<Rightarrow> str" where
  "netloc u =
     (if 58 \<in> set (u_host u) then [91] @ u_host u @ [93] else u_host u) @ 58 # lit (show_int (u_port u))"

definition endpoint :: "url \<Rightarrow> str \<times> str \<times> int" where
  "endpoint u = (u_scheme u, u_host u, u_port u)"

definition evolve :: "(str \<Rightarrow> str) \<Rightarrow> str \<Rightarrow> str \<Rightarrow> int \<Rightarrow> url \<Rightarrow> url" where
  "evolve low scheme host port u =
     XRootDURL low scheme host port (u_path u) (u_username u) (u_password u) (u_query u)"

definition replace_path :: "(str \<Rightarrow> str) \<Rightarrow> str \<Rightarrow> url \<Rightarrow> url" where
  "replace_path low path u =
     XRootDURL low (u_scheme u) (u_host u) (u_port u) path (u_username u) (u_password u) (u_query u)"

definition with_path :: "(str \<Rightarrow> str) \<Rightarrow> str \<Rightarrow> url \<Rightarrow> url" where
  "with_path low path u = replace_path low (normalize path) u"

definition url_join :: "(str \<Rightarrow> str) \<Rightarrow> str list \<Rightarrow> url \<Rightarrow> url" where
  "url_join low parts u = with_path low (posix_join (u_path u) parts) u"

definition url_name :: "url \<Rightarrow> str" where
  "url_name u = basename (rstrip_by (\<lambda>c. c = 47) (u_path u))"

definition url_parent :: "(str \<Rightarrow> str) \<Rightarrow> url \<Rightarrow> url" where
  "url_parent low u =
     (let d = dirname (rstrip_by (\<lambda>c. c = 47) (u_path u)) in with_path low (if d = [] then [47] else d) u)"

definition with_query :: "(str \<Rightarrow> str) \<Rightarrow> (str \<times> str) list \<Rightarrow> url \<Rightarrow> url" where
  "with_query low params u =
     XRootDURL low (u_scheme u) (u_host u) (u_port u) (u_path u) (u_username u) (u_password u)
       (foldl (\<lambda>d (k, v). AList.update k v d) (u_query u) params)"

definition without_query :: "(str \<Rightarrow> str) \<Rightarrow> url \<Rightarrow> url" where
  "without_query low u =
     XRootDURL low (u_scheme u) (u_host u) (u_port u) (u_path u) (u_username u) (u_password u) []"

section \<open>Formatting\<close>

text \<open>63 is the question mark, 64 the at sign.\<close>

definition path_with_cgi :: "url \<Rightarrow> exn + str" where
  "path_with_cgi u =
     (if u_query u = [] then Inr (u_path u)
      else bindE (urlencode (u_query u)) (\<lambda>q. Inr (u_path u @ 63 # q)))"

definition url_auth :: "url \<Rightarrow> exn + str" where
  "url_auth u =
     (if u_username u = [] then Inr []
      else bindE (url_quote False (u_username u)) (\<lambda>a.
        if u_password u = [] then Inr (a @ [64])
        else bindE (url_quote False (u_password u)) (\<lambda>p. Inr (a @ 58 # p @ [64]))))"

definition url_str :: "url \<Rightarrow> exn + str" where
  "url_str u =
     (if is_local u then Inr (lit ''file://'' @ u_path u)
      else
        bindE (url_auth u) (\<lambda>auth.
          let sep = (if is_root u then [47, 47] else [47]);
              place = (if is_s3 u then u_host u else netloc u);
              base = u_scheme u @ lit ''://'' @ auth @ place @ sep @ lstrip_slash (u_path u)
          in if u_query u \<noteq> [] then bindE (urlencode (u_query u)) (\<lambda>q. Inr (base @ 63 # q)) else Inr base))"

definition http_url :: "url \<Rightarrow> exn + str" where
  "http_url u =
     (let scheme = (if u_scheme u = lit ''dav'' then lit ''http''
                    else if u_scheme u = lit ''davs'' \<or> u_scheme u = lit ''webdav'' then lit ''https''
                    else u_scheme u);
          base = scheme @ lit ''://'' @ netloc u @ u_path u
      in if u_query u \<noteq> [] then bindE (urlencode (u_query u)) (\<lambda>q. Inr (base @ 63 # q)) else Inr base)"

section \<open>Parsing\<close>

text \<open>\<^verbatim>\<open>text.split("://", 1)\<close>, when the separator occurs.\<close>

fun split_scheme :: "str \<Rightarrow> (str \<times> str) option" where
  "split_scheme [] = None"
| "split_scheme (c # cs) =
     (if take 3 (c # cs) = lit ''://'' then Some ([], drop 3 (c # cs))
      else map_option (\<lambda>(a, b). (c # a, b)) (split_scheme cs))"

definition parse_userinfo :: "str \<Rightarrow> str \<times> str" where
  "parse_userinfo userinfo =
     (if userinfo = [] then ([], [])
      else (case partition_at 58 userinfo of (u, _, p) \<Rightarrow> (unquote u, unquote p)))"

definition parse_hostport :: "str \<Rightarrow> str \<times> str" where
  "parse_hostport hostport =
     (if hostport \<noteq> [] \<and> hd hostport = 91 then
        (case partition_at 93 (tl hostport) of (host, _, port_s) \<Rightarrow> (host, dropWhile (\<lambda>c. c = 58) port_s))
      else (case partition_at 58 hostport of (host, _, port_s) \<Rightarrow> (host, port_s)))"

definition default_port :: "str \<Rightarrow> int" where
  "default_port scheme =
     (if scheme \<in> set (map lit [''https'', ''davs'', ''webdav'', ''s3'']) then 443
      else if scheme \<in> set (map lit [''http'', ''dav'']) then 80 else DEFAULT_PORT)"

definition parse_port :: "str \<Rightarrow> str \<Rightarrow> exn + int" where
  "parse_port scheme port_s =
     (if port_s = [] then Inr (default_port scheme)
      else (case py_int port_s of
              Inl _ \<Rightarrow> Inl (ValueError ''invalid port in URL'')
            | Inr p \<Rightarrow> Inr p))"

definition parse_url :: "(str \<Rightarrow> str) \<Rightarrow> (str \<Rightarrow> str) \<Rightarrow> str \<Rightarrow> exn + url" where
  "parse_url low abspath text =
     (case split_scheme text of
        None \<Rightarrow> Inr (XRootDURL low (lit ''file'') [] 0 (abspath text) [] [] [])
      | Some (scheme0, rest) \<Rightarrow>
          (let scheme = low scheme0 in
           if scheme = lit ''file''
           then Inr (XRootDURL low (lit ''file'') [] 0 (if rest = [] then [47] else rest) [] [] [])
           else
             (case partition_at 47 rest of (authority, sep, tail) \<Rightarrow>
              case rpartition_at 64 authority of (userinfo, _, hostport) \<Rightarrow>
              case parse_userinfo userinfo of (username, password) \<Rightarrow>
              case parse_hostport hostport of (host, port_s) \<Rightarrow>
                bindE (parse_port scheme port_s) (\<lambda>port.
                  case partition_at 63 (if sep then 47 # tail else [47]) of (path_s, _, cgi) \<Rightarrow>
                    Inr (XRootDURL low scheme host port (normalize path_s) username password
                           (if cgi \<noteq> [] then dict_of (parse_qsl cgi) else []))))))"

end
