(* ===== verification/Url_Properties.thy ===== *)
theory Url_Properties
  imports Xrd_Url
begin

text \<open>
  URLs and paths of \<^verbatim>\<open>src/src/xrd/url.py\<close>: what \<^verbatim>\<open>_normalize\<close> guarantees of a path, and that
  formatting a URL and parsing the text again gives the same URL. The locale \<open>text_codec\<close> is the
  contract of the two ways a piece of text is escaped inside a URL (percent encoding, and its
  form variant with plus for space): escaping leaves only harmless characters and is undone by
  unescaping.
\<close>

section \<open>Splitting and joining\<close>

lemma take_drop_sep:
  "sep \<notin> set a \<Longrightarrow> takeWhile (\<lambda>c. c \<noteq> sep) (a @ sep # b) = a"
  "sep \<notin> set a \<Longrightarrow> dropWhile (\<lambda>c. c \<noteq> sep) (a @ sep # b) = sep # b"
  by (induction a) auto

lemma partition_at_found [simp]: "sep \<notin> set a \<Longrightarrow> partition_at sep (a @ sep # b) = (a, True, b)"
  by (simp add: partition_at_def take_drop_sep)

lemma partition_at_missing [simp]: "sep \<notin> set a \<Longrightarrow> partition_at sep a = (a, False, [])"
  by (simp add: partition_at_def)

lemma rpartition_at_found [simp]: "sep \<notin> set b \<Longrightarrow> rpartition_at sep (a @ sep # b) = (a, True, b)"
  by (simp add: rpartition_at_def take_drop_sep)

lemma rpartition_at_missing [simp]: "sep \<notin> set a \<Longrightarrow> rpartition_at sep a = ([], False, a)"
  by (simp add: rpartition_at_def)

lemma split_on_append: "sep \<notin> set a \<Longrightarrow> split_on sep (a @ sep # b) = a # split_on sep b"
  by (induction a) auto

lemma split_on_single: "sep \<notin> set a \<Longrightarrow> split_on sep a = [a]"
  by (induction a) auto

lemma split_on_join:
  "list_all (\<lambda>p. sep \<notin> set p) ps \<Longrightarrow> ps \<noteq> [] \<Longrightarrow> split_on sep (join_with [sep] ps) = ps"
  by (induction "[sep]" ps rule: join_with.induct) (auto simp: split_on_single split_on_append)

lemma set_join_with: "set (join_with sep ps) \<subseteq> set sep \<union> (\<Union>p\<in>set ps. set p)"
  by (induction sep ps rule: join_with.induct) auto

section \<open>Escaping\<close>

definition ascii :: "str \<Rightarrow> bool" where
  "ascii s \<longleftrightarrow> list_all (\<lambda>c. c < 128) s"

lemma utf8_decode_ascii: "ascii s \<Longrightarrow> utf8_decode (map of_nat s) = s"
  using utf8_roundtrip utf8_encode_lit unfolding ascii_def by blast

lemma unquote_bytes_plain: "37 \<notin> set s \<Longrightarrow> unquote_bytes s = s"
  by (induction s) auto

lemma unquote_ascii:
  assumes "ascii s"
  shows "unquote s = utf8_decode (map of_nat (unquote_bytes s))"
proof (cases "37 \<in> set s")
  case False
  with assms show ?thesis by (simp add: unquote_def unquote_bytes_plain utf8_decode_ascii)
next
  case True
  then obtain c cs where s: "s = c # cs" by (cases s) auto
  with assms have "takeWhile (\<lambda>d. d < 128) cs = cs" "dropWhile (\<lambda>d. d < 128) cs = []" and c: "c < 128"
    by (auto simp: ascii_def list_all_iff takeWhile_eq_all_conv dropWhile_eq_Nil_conv)
  then have "unquote_runs s = utf8_decode (map of_nat (unquote_bytes s))"
    by (simp only: s unquote_runs.simps if_True append_Nil2)
  with True show ?thesis by (simp add: unquote_def)
qed

lemma hex_round: "d < 16 \<Longrightarrow> hex_value (upper_hex d) = Some d"
  by (auto simp: hex_value_def upper_hex_def)

lemma unreserved_plain: "unreserved b \<Longrightarrow> b < 128 \<and> b \<noteq> 37 \<and> b \<noteq> 43 \<and> b \<noteq> 32"
  by (auto simp: unreserved_def)

text \<open>What may occur in escaped text.\<close>

definition harmless :: "nat \<Rightarrow> bool" where
  "harmless c \<longleftrightarrow> unreserved c \<or> c = 37 \<or> c = 43"

lemma harmless_not_reserved: "harmless c \<Longrightarrow> c \<notin> {38, 47, 58, 61, 63, 64, 91, 93} \<and> c < 128"
  by (auto simp: harmless_def unreserved_def)

lemma upper_hex_unreserved: "d < 16 \<Longrightarrow> unreserved (upper_hex d)"
  by (auto simp: upper_hex_def unreserved_def)

lemma quote_byte_harmless: "b < 256 \<Longrightarrow> list_all harmless (quote_byte form b)"
  by (auto simp: quote_byte_def harmless_def upper_hex_unreserved)

lemma plus_to_space_append [simp]:
  "plus_to_space [] = []" "plus_to_space (a @ b) = plus_to_space a @ plus_to_space b"
  by (simp_all add: plus_to_space_def)

lemma unquote_quote_byte:
  assumes "b < 256"
  shows "unquote_bytes (quote_byte False b @ s) = b # unquote_bytes s"
    and "unquote_bytes (plus_to_space (quote_byte True b) @ s) = b # unquote_bytes s"
proof -
  have d: "b div 16 < 16" "b mod 16 < 16" "16 * (b div 16) + b mod 16 = b" using assms by auto
  have n: "upper_hex (b div 16) \<noteq> 43" "upper_hex (b mod 16) \<noteq> 43"
    using unreserved_plain upper_hex_unreserved d by blast+
  show "unquote_bytes (quote_byte False b @ s) = b # unquote_bytes s"
    using d unreserved_plain [of b] by (auto simp: quote_byte_def hex_round)
  show "unquote_bytes (plus_to_space (quote_byte True b) @ s) = b # unquote_bytes s"
    using d n unreserved_plain [of b] by (auto simp: quote_byte_def plus_to_space_def hex_round)
qed

text \<open>An escape and its inverse, for text that can be encoded at all.\<close>

locale text_codec =
  fixes escape :: "str \<Rightarrow> exn + str" and unescape :: "str \<Rightarrow> str"
  assumes escape_harmless: "escape s = Inr q \<Longrightarrow> list_all harmless q"
    and unescape_escape: "escape s = Inr q \<Longrightarrow> unescape q = s"
    and escape_empty: "escape s = Inr q \<Longrightarrow> q = [] \<longleftrightarrow> s = []"
begin

lemma escaped_avoids:
  "escape s = Inr q \<Longrightarrow> c \<in> {38, 47, 58, 61, 63, 64, 91, 93} \<Longrightarrow> c \<notin> set q"
  using escape_harmless harmless_not_reserved by (metis list_all_iff)

end

lemma url_quote_Inr:
  assumes "url_quote form s = Inr q"
  obtains bs where "utf8_encode s = Inr bs" "q = concat (map (quote_byte form \<circ> unat) bs)"
  using assms by (auto simp: url_quote_def bindE_eq_Inr)

lemma byte_bound: "unat (b :: byte) < 256"
  using unsigned_less [of b, where 'a = nat] by simp

lemma url_quote_harmless: "url_quote form s = Inr q \<Longrightarrow> list_all harmless q"
proof (erule url_quote_Inr)
  fix bs :: bytes
  assume q: "q = concat (map (quote_byte form \<circ> unat) bs)"
  have "list_all harmless (concat (map (quote_byte form \<circ> unat) bs))"
    by (induction bs) (simp_all add: quote_byte_harmless byte_bound)
  with q show ?thesis by simp
qed

lemma harmless_ascii: "list_all harmless q \<Longrightarrow> ascii q"
  using harmless_not_reserved by (auto simp: ascii_def list_all_iff)

lemma url_quote_empty: "url_quote form s = Inr q \<Longrightarrow> q = [] \<longleftrightarrow> s = []"
proof (erule url_quote_Inr)
  fix bs
  assume e: "utf8_encode s = Inr bs" and q: "q = concat (map (quote_byte form \<circ> unat) bs)"
  have "quote_byte form b \<noteq> []" for b by (simp add: quote_byte_def)
  then have "q = [] \<longleftrightarrow> bs = []" by (simp add: q)
  also have "\<dots> \<longleftrightarrow> s = []"
    using utf8_roundtrip [OF e] e by (auto simp: utf8_decode_def utf8_encode_def)
  finally show ?thesis .
qed

interpretation percent: text_codec "url_quote False" unquote
proof
  fix s q
  assume q: "url_quote False s = Inr q"
  then show "list_all harmless q" "q = [] \<longleftrightarrow> s = []" by (rule url_quote_harmless, rule url_quote_empty)
  from q obtain bs where bs: "utf8_encode s = Inr bs" "q = concat (map (quote_byte False \<circ> unat) bs)"
    by (rule url_quote_Inr)
  have "unquote_bytes (concat (map (quote_byte False \<circ> unat) bs')) = map unat bs'" for bs' :: bytes
    by (induction bs') (simp_all add: unquote_quote_byte byte_bound)
  then have "unquote_bytes q = map unat bs" by (simp only: bs)
  moreover have "ascii q" by (rule harmless_ascii [OF url_quote_harmless [OF q]])
  ultimately show "unquote q = s" using utf8_roundtrip [OF bs(1)] by (simp add: unquote_ascii o_def)
qed

interpretation form: text_codec "url_quote True" "unquote \<circ> plus_to_space"
proof
  fix s q
  assume q: "url_quote True s = Inr q"
  then show "list_all harmless q" "q = [] \<longleftrightarrow> s = []" by (rule url_quote_harmless, rule url_quote_empty)
  from q obtain bs where bs: "utf8_encode s = Inr bs" "q = concat (map (quote_byte True \<circ> unat) bs)"
    by (rule url_quote_Inr)
  have "unquote_bytes (plus_to_space (concat (map (quote_byte True \<circ> unat) bs'))) = map unat bs'" for bs' :: bytes
    by (induction bs') (simp_all add: unquote_quote_byte byte_bound plus_to_space_append)
  then have "unquote_bytes (plus_to_space q) = map unat bs" by (simp only: bs)
  moreover have "ascii (plus_to_space q)"
    using harmless_ascii [OF url_quote_harmless [OF q]] by (auto simp: ascii_def plus_to_space_def list_all_iff)
  ultimately show "(unquote \<circ> plus_to_space) q = s"
    using utf8_roundtrip [OF bs(1)] by (simp add: unquote_ascii o_def)
qed

section \<open>Query strings\<close>

lemma encode_pairs_parts:
  "encode_pairs q = Inr parts \<Longrightarrow>
    list_all (\<lambda>p. 38 \<notin> set p \<and> p \<noteq> []) parts \<and> map qsl_pair parts = q \<and> length parts = length q"
proof (induction q arbitrary: parts)
  case (Cons kv q)
  obtain k v where kv: "kv = (k, v)" by (cases kv)
  from Cons.prems kv obtain k' v' r where k': "url_quote True k = Inr k'" and v': "url_quote True v = Inr v'"
    and r: "encode_pairs q = Inr r" and parts: "parts = (k' @ 61 # v') # r"
    by (auto simp: bindE_eq_Inr)
  have "61 \<notin> set k'" "38 \<notin> set k'" "38 \<notin> set v'"
    using form.escaped_avoids [OF k'] form.escaped_avoids [OF v'] by simp_all
  moreover have "unquote (plus_to_space k') = k" "unquote (plus_to_space v') = v"
    using form.unescape_escape [OF k'] form.unescape_escape [OF v'] by simp_all
  ultimately show ?case using Cons.IH [OF r] by (simp add: parts kv qsl_pair_def)
qed simp

lemma parse_qsl_urlencode:
  assumes "urlencode q = Inr t" "q \<noteq> []"
  shows "parse_qsl t = q \<and> t \<noteq> []"
proof -
  from assms(1) obtain parts where parts: "encode_pairs q = Inr parts" and t: "t = join_with [38] parts"
    by (auto simp: urlencode_def bindE_eq_Inr)
  note p = encode_pairs_parts [OF parts]
  have ne: "parts \<noteq> []" using p assms(2) by auto
  have "split_on 38 t = parts" unfolding t using p ne by (intro split_on_join) (auto simp: list_all_iff)
  moreover from this have "t \<noteq> []" using p ne by (cases parts) auto
  moreover have "filter (\<lambda>nv. nv \<noteq> []) parts = parts" using p by (auto simp: filter_id_conv list_all_iff)
  ultimately show ?thesis using p by (simp add: parse_qsl_def)
qed

lemma dict_of_distinct:
  assumes "distinct (map fst q)"
  shows "dict_of q = q"
proof -
  have "foldl (\<lambda>d (k, v). AList.update k v d) d q = d @ q" if "distinct (map fst (d @ q))" for d
    using that
  proof (induction q arbitrary: d)
    case (Cons kv q)
    obtain k v where kv: "kv = (k, v)" by (cases kv)
    with Cons.prems have "AList.update k v d = d @ [(k, v)]" by (intro update_new) auto
    with Cons.IH [of "d @ [(k, v)]"] Cons.prems kv show ?case by simp
  qed simp
  from this [of "[]"] assms show ?thesis by (simp add: dict_of_def)
qed

section \<open>Ports\<close>

lemma digits_value_show:
  "digits_value prev acc (lit (show_nat n) @ rest)
    = digits_value True (acc * 10 ^ length (show_nat n) + int n) rest"
proof (induction n arbitrary: prev acc rest rule: show_nat.induct)
  case (1 n)
  show ?case
  proof (cases "n < 10")
    case True
    then show ?thesis by (subst (1 2) show_nat.simps) (simp add: lit_def)
  next
    case False
    have "int n = int (n div 10) * 10 + int (n mod 10)" "n mod 10 \<le> 9" by presburger+
    with False show ?thesis using "1.IH" [OF False, of prev acc "lit [char_of (48 + n mod 10)] @ rest"]
      by (subst (1 2) show_nat.simps) (simp add: lit_def algebra_simps)
  qed
qed

lemma digits_of_show_nat: "list_all (\<lambda>c. 48 \<le> c \<and> c \<le> 57) (lit (show_nat n))"
proof (induction n rule: show_nat.induct)
  case (1 n)
  then show ?case by (subst show_nat.simps) (auto simp: lit_def)
qed

lemma strip_digits: "list_all (\<lambda>c. 48 \<le> c \<and> c \<le> 57) s \<Longrightarrow> strip s = s"
proof -
  assume s: "list_all (\<lambda>c. 48 \<le> c \<and> c \<le> 57) s"
  then have "\<forall>c\<in>set s. \<not> is_space c" by (auto simp: list_all_iff is_space_def)
  then have keep: "dropWhile is_space t = t" if "set t = set s" for t using that by (cases t) auto
  from keep [of s] keep [of "rev s"] show ?thesis by (simp add: strip_def rstrip_by_def)
qed

lemma show_nat_Nil [simp]: "show_nat n \<noteq> []"
  by (subst show_nat.simps) simp

lemma py_int_show: "0 \<le> i \<Longrightarrow> py_int (lit (show_int i)) = Inr i"
proof -
  assume i: "0 \<le> i"
  let ?s = "lit (show_nat (nat i))"
  have d: "list_all (\<lambda>c. 48 \<le> c \<and> c \<le> 57) ?s" by (rule digits_of_show_nat)
  have "?s \<noteq> []" by (simp add: lit_def)
  with d have "hd ?s \<noteq> 45" "hd ?s \<noteq> 43" by (cases ?s; simp)+
  moreover have "digits_value False 0 ?s = Some i" using digits_value_show [of False 0 "nat i" "[]"] i by simp
  ultimately show ?thesis using i strip_digits [OF d] by (simp add: py_int_def show_int_def Let_def)
qed

section \<open>Paths\<close>

text \<open>A component of a clean path.\<close>

definition clean :: "str \<Rightarrow> bool" where
  "clean c \<longleftrightarrow> c \<noteq> [] \<and> c \<noteq> [46] \<and> c \<noteq> [46, 46] \<and> 47 \<notin> set c"

lemma norm_step_clean:
  "list_all clean acc \<Longrightarrow> 47 \<notin> set c \<Longrightarrow> list_all clean (norm_step True acc c)"
  by (cases acc rule: rev_cases) (auto simp: norm_step_def clean_def)

lemma norm_fold_clean:
  "list_all clean acc \<Longrightarrow> list_all (\<lambda>c. 47 \<notin> set c) cs \<Longrightarrow> list_all clean (foldl (norm_step True) acc cs)"
  by (induction cs arbitrary: acc) (auto intro: norm_step_clean)

lemma norm_fold_id: "list_all clean cs \<Longrightarrow> foldl (norm_step True) acc cs = acc @ cs"
  by (induction cs arbitrary: acc) (auto simp: norm_step_def clean_def)

definition comps :: "str \<Rightarrow> str list" where
  "comps s = foldl (norm_step True) [] (split_on 47 s)"

lemma comps_clean: "list_all clean (comps s)"
  unfolding comps_def by (rule norm_fold_clean) (auto simp: list_all_iff dest: split_on_no_sep)

lemma normpath_absolute:
  assumes "s = [] \<or> hd s \<noteq> 47"
  shows "normpath (47 # s) = 47 # join_with [47] (comps s)"
proof -
  have "take 2 (47 # s) \<noteq> [47, 47]" using assms by (cases s) auto
  then show ?thesis by (simp add: normpath_def Let_def comps_def norm_step_def)
qed

lemma lstrip_slash_head: "lstrip_slash s = [] \<or> hd (lstrip_slash s) \<noteq> 47"
  unfolding lstrip_slash_def using hd_dropWhile [of "\<lambda>c. c = 47" s] by auto

lemma join_clean_ends:
  "list_all clean cs \<Longrightarrow> cs \<noteq> [] \<Longrightarrow>
    join_with [47] cs \<noteq> [] \<and> hd (join_with [47] cs) \<noteq> 47 \<and> last (join_with [47] cs) \<noteq> 47"
proof (induction "[47 :: nat]" cs rule: join_with.induct)
  case (2 s)
  then have "s \<noteq> []" "47 \<notin> set s" by (simp_all add: clean_def)
  then show ?case by (metis hd_in_set join_with.simps(2) last_in_set)
next
  case (3 s t ss)
  then have "s \<noteq> []" "47 \<notin> set s" by (simp_all add: clean_def)
  moreover have "hd s \<noteq> 47" using calculation by (metis hd_in_set)
  moreover have "join_with [47] (t # ss) \<noteq> []" "last (join_with [47] (t # ss)) \<noteq> 47" using 3 by simp_all
  ultimately show ?case by simp
qed simp

text \<open>What \<^verbatim>\<open>_normalize\<close> returns: clean components under one slash, with the trailing slash kept.\<close>

definition clean_path :: "str list \<Rightarrow> bool \<Rightarrow> str" where
  "clean_path cs trailing = 47 # join_with [47] cs @ (if trailing \<and> cs \<noteq> [] then [47] else [])"

lemma normalize_clean_path:
  "normalize s = clean_path (comps (lstrip_slash s)) (ends_with_slash s \<and> length s > 1)"
proof (cases "s = []")
  case True
  then show ?thesis by (simp add: normalize_def clean_path_def comps_def lstrip_slash_def norm_step_def)
next
  case False
  let ?cs = "comps (lstrip_slash s)"
  have n: "normpath (47 # lstrip_slash s) = 47 # join_with [47] ?cs"
    by (rule normpath_absolute [OF lstrip_slash_head])
  have "ends_with_slash (47 # join_with [47] ?cs) \<longleftrightarrow> ?cs = []"
    using join_clean_ends [OF comps_clean, of "lstrip_slash s"] by (cases "?cs = []") (auto simp: ends_with_slash_def)
  with False n show ?thesis by (simp add: normalize_def clean_path_def Let_def)
qed

lemma split_on_clean:
  assumes "list_all clean cs" "cs \<noteq> []"
  shows "split_on 47 (join_with [47] cs) = cs" "split_on 47 (join_with [47] cs @ [47]) = cs @ [[]]"
proof -
  have no: "list_all (\<lambda>p. 47 \<notin> set p) cs" using assms by (auto simp: list_all_iff clean_def)
  then show "split_on 47 (join_with [47] cs) = cs" using assms(2) by (rule split_on_join)
  have "join_with [47] (cs @ [[]]) = join_with [47] cs @ [47]"
    using assms(2) by (induction "[47 :: nat]" cs rule: join_with.induct) auto
  moreover have "split_on 47 (join_with [47] (cs @ [[]])) = cs @ [[]]" using no by (intro split_on_join) auto
  ultimately show "split_on 47 (join_with [47] cs @ [47]) = cs @ [[]]" by simp
qed

lemma comps_clean_path:
  assumes "list_all clean cs"
  shows "comps (lstrip_slash (clean_path cs trailing)) = cs"
proof (cases "cs = []")
  case True
  then show ?thesis by (simp add: clean_path_def lstrip_slash_def comps_def norm_step_def)
next
  case False
  from join_clean_ends [OF assms False] have
    l: "lstrip_slash (clean_path cs trailing) = join_with [47] cs @ (if trailing then [47] else [])"
    using False by (cases "join_with [47] cs") (auto simp: clean_path_def lstrip_slash_def)
  show ?thesis
    unfolding l comps_def using split_on_clean [OF assms False] norm_fold_id [OF assms, of "[]"]
    by (cases trailing) (simp_all add: norm_step_def)
qed

lemma clean_path_trailing:
  assumes "list_all clean cs"
  shows "ends_with_slash (clean_path cs trailing) \<and> length (clean_path cs trailing) > 1 \<longleftrightarrow> trailing \<and> cs \<noteq> []"
  using assms join_clean_ends [of cs] by (cases "cs = []") (auto simp: clean_path_def ends_with_slash_def)

text \<open>
  A normalised path stays inside the tree it names. Whatever text it is given, with any
  number of slashes, \<^verbatim>\<open>.\<close> and \<^verbatim>\<open>..\<close>, \<^verbatim>\<open>_normalize\<close> returns a path under a single leading slash whose
  components are all proper names, with a trailing slash only where the input had one, and
  normalising again changes nothing.
\<close>

theorem normalize_is_clean:
  "\<exists>cs trailing. normalize s = clean_path cs trailing \<and> list_all clean cs
    \<and> normalize (normalize s) = normalize s"
proof -
  let ?cs = "comps (lstrip_slash s)" and ?t = "ends_with_slash s \<and> length s > 1"
  have "normalize (clean_path ?cs ?t) = clean_path ?cs (?t \<and> ?cs \<noteq> [])"
    by (simp only: normalize_clean_path comps_clean_path [OF comps_clean] clean_path_trailing [OF comps_clean])
  also have "\<dots> = clean_path ?cs ?t" by (simp add: clean_path_def)
  finally show ?thesis using normalize_clean_path [of s] comps_clean by metis
qed

section \<open>Round trip\<close>

text \<open>
  The URLs that survive being printed: scheme and host as the constructor leaves them and free of
  the characters that delimit them, a normalised path without a question mark, no password
  without a user, a query without duplicate keys. (An \<^verbatim>\<open>s3\<close> URL is printed without its port, and
  a \<^verbatim>\<open>file\<close> URL without anything but its path.)
\<close>

definition url_wf :: "(str \<Rightarrow> str) \<Rightarrow> url \<Rightarrow> bool" where
  "url_wf low u \<longleftrightarrow> low (u_scheme u) = u_scheme u \<and> \<not> is_local u \<and> \<not> is_s3 u \<and> 58 \<notin> set (u_scheme u)
     \<and> low (u_host u) = u_host u \<and> list_all (\<lambda>c. c \<notin> {47, 64, 91, 93}) (u_host u)
     \<and> 0 \<le> u_port u \<and> normalize (u_path u) = u_path u \<and> 63 \<notin> set (u_path u)
     \<and> (u_username u = [] \<longrightarrow> u_password u = []) \<and> distinct (map fst (u_query u))"

lemma split_scheme_found: "58 \<notin> set a \<Longrightarrow> split_scheme (a @ lit ''://'' @ b) = Some (a, b)"
  by (induction a) (auto simp: lit_def)

lemma port_digits:
  assumes "0 \<le> i"
  shows "lit (show_int i) \<noteq> []" "list_all (\<lambda>c. 48 \<le> c \<and> c \<le> 57) (lit (show_int i))"
  using assms digits_of_show_nat [of "nat i"] by (simp_all add: show_int_def lit_def)

lemma parse_hostport_netloc:
  assumes "url_wf low u"
  shows "parse_hostport (netloc u) = (u_host u, lit (show_int (u_port u)))"
proof -
  let ?d = "lit (show_int (u_port u))"
  from assms have h: "91 \<notin> set (u_host u)" "93 \<notin> set (u_host u)" and d: "?d \<noteq> []" "list_all (\<lambda>c. 48 \<le> c \<and> c \<le> 57) ?d"
    using port_digits by (auto simp: url_wf_def list_all_iff)
  from d have drop: "dropWhile (\<lambda>c. c = 58) ?d = ?d" by (cases ?d) auto
  have part: "partition_at 93 (u_host u @ 93 # 58 # ?d) = (u_host u, True, 58 # ?d)" using h by simp
  show ?thesis
  proof (cases "58 \<in> set (u_host u)")
    case True
    with part drop show ?thesis by (simp add: parse_hostport_def netloc_def)
  next
    case False
    then have "hd (u_host u @ 58 # ?d) \<noteq> 91" using h by (cases "u_host u") auto
    with False show ?thesis by (simp add: parse_hostport_def netloc_def)
  qed
qed

lemma netloc_avoids:
  assumes "url_wf low u" "c \<in> {47, 64}"
  shows "c \<notin> set (netloc u)"
  using assms port_digits(2) [of "u_port u"] by (auto simp: url_wf_def netloc_def list_all_iff)

text \<open>The user information in front of the host, read back.\<close>

lemma userinfo_round_trip:
  assumes "url_auth u = Inr auth" "url_wf low u"
  shows "47 \<notin> set auth \<and> (\<exists>userinfo sep. rpartition_at 64 (auth @ netloc u) = (userinfo, sep, netloc u)
    \<and> parse_userinfo userinfo = (u_username u, u_password u))"
proof (cases "u_username u = []")
  case True
  with assms netloc_avoids [OF assms(2), of 64] show ?thesis
    by (auto simp: url_auth_def parse_userinfo_def url_wf_def)
next
  case False
  with assms(1) obtain a where a: "url_quote False (u_username u) = Inr a"
    and rest: "(if u_password u = [] then Inr (a @ [64])
        else bindE (url_quote False (u_password u)) (\<lambda>p. Inr (a @ 58 # p @ [64]))) = Inr auth"
    by (auto simp: url_auth_def bindE_eq_Inr)
  have av: "47 \<notin> set a" "58 \<notin> set a" "64 \<notin> set a" using percent.escaped_avoids [OF a] by simp_all
  have ne: "a \<noteq> []" using percent.escape_empty [OF a] False by simp
  have un: "unquote a = u_username u" by (rule percent.unescape_escape [OF a])
  note net = netloc_avoids [OF assms(2), of 64]
  show ?thesis
  proof (cases "u_password u = []")
    case True
    with rest have auth: "auth = a @ [64]" by simp
    have "unquote [] = []" by (simp add: unquote_def)
    with True auth av ne un net show ?thesis by (auto simp: parse_userinfo_def)
  next
    case pw: False
    with rest obtain p where p: "url_quote False (u_password u) = Inr p" and auth: "auth = a @ 58 # p @ [64]"
      by (auto simp: bindE_eq_Inr)
    have "47 \<notin> set p" using percent.escaped_avoids [OF p] by simp
    moreover have "rpartition_at 64 ((a @ 58 # p) @ 64 # netloc u) = (a @ 58 # p, True, netloc u)"
      using net by (intro rpartition_at_found) simp
    moreover have "parse_userinfo (a @ 58 # p) = (u_username u, u_password u)"
      using av un percent.unescape_escape [OF p] by (simp add: parse_userinfo_def)
    ultimately show ?thesis using auth av by auto
  qed
qed

lemma normalize_printed:
  assumes "normalize p = p"
  shows "normalize (47 # (if b then [47] else []) @ lstrip_slash p) = p"
proof -
  from normalize_clean_path [of p] assms obtain cs t where p: "p = clean_path cs t" and cs: "list_all clean cs"
    using comps_clean by metis
  let ?q = "47 # (if b then [47] else []) @ lstrip_slash p"
  have l: "lstrip_slash ?q = lstrip_slash p" by (simp add: lstrip_slash_def)
  show ?thesis
  proof (cases "cs = []")
    case True
    then have "p = [47]" by (simp add: p clean_path_def)
    then show ?thesis by (simp add: normalize_clean_path clean_path_def lstrip_slash_def comps_def norm_step_def)
  next
    case False
    from join_clean_ends [OF cs False] have "lstrip_slash p = tl p" "tl p \<noteq> []"
      using False by (cases "join_with [47] cs"; auto simp: p clean_path_def lstrip_slash_def)+
    then have "ends_with_slash ?q \<and> length ?q > 1 \<longleftrightarrow> ends_with_slash p \<and> length p > 1"
      by (auto simp: ends_with_slash_def p clean_path_def)
    then show ?thesis using assms unfolding normalize_clean_path [of ?q] normalize_clean_path [of p] l by simp
  qed
qed

text \<open>
  C38. A URL survives being printed. For every well-formed URL that can be printed at all (its
  text is valid Unicode), parsing what \<^verbatim>\<open>str\<close> gives returns the same URL: scheme, host (IPv6
  literals included), port, path, user, password and every query parameter in order, whatever
  characters they contain.
\<close>

theorem url_round_trip:
  assumes "url_wf low u" and "url_str u = Inr text"
  shows "parse_url low abspath text = Inr u"
proof -
  from assms obtain auth where auth: "url_auth u = Inr auth" by (auto simp: url_str_def url_wf_def bindE_eq_Inr)
  define slash where "slash = (if is_root u then [47] else [] :: str)"
  define path where "path = slash @ lstrip_slash (u_path u)"
  have path63: "63 \<notin> set path"
    using assms(1) by (auto simp: path_def slash_def url_wf_def lstrip_slash_def dest: set_dropWhileD)
  obtain cgi where printed: "text = u_scheme u @ lit ''://'' @ auth @ netloc u @ 47 # path @ cgi"
    and cgi: "u_query u = [] \<and> cgi = [] \<or> u_query u \<noteq> [] \<and> (\<exists>t. urlencode (u_query u) = Inr t \<and> cgi = 63 # t)"
    using assms auth unfolding url_str_def url_wf_def path_def slash_def
    by (auto simp: bindE_eq_Inr Let_def split: if_splits)
  from userinfo_round_trip [OF auth assms(1)] obtain userinfo sep where u: "47 \<notin> set auth"
    "rpartition_at 64 (auth @ netloc u) = (userinfo, sep, netloc u)"
    "parse_userinfo userinfo = (u_username u, u_password u)" by blast
  have "47 \<notin> set (auth @ netloc u)" using u(1) netloc_avoids [OF assms(1), of 47] by simp
  then have authority: "partition_at 47 ((auth @ netloc u) @ 47 # path @ cgi) = (auth @ netloc u, True, path @ cgi)"
    by (rule partition_at_found)
  have port: "parse_port (u_scheme u) (lit (show_int (u_port u))) = Inr (u_port u)"
    using assms(1) port_digits(1) py_int_show by (simp add: parse_port_def url_wf_def)
  have norm: "normalize (47 # path) = u_path u"
    using normalize_printed [of "u_path u" "is_root u"] assms(1) by (simp add: path_def slash_def url_wf_def)
  have query: "\<exists>q t. partition_at 63 (47 # path @ cgi) = (47 # path, q, t)
      \<and> (if t \<noteq> [] then dict_of (parse_qsl t) else []) = u_query u"
    using cgi
  proof (elim disjE conjE exE)
    assume "u_query u = []" "cgi = []"
    then show ?thesis using path63 by auto
  next
    fix t assume "u_query u \<noteq> []" "urlencode (u_query u) = Inr t" "cgi = 63 # t"
    moreover have "partition_at 63 ((47 # path) @ 63 # t) = (47 # path, True, t)"
      using path63 by (intro partition_at_found) simp
    ultimately show ?thesis using parse_qsl_urlencode dict_of_distinct assms(1) by (auto simp: url_wf_def)
  qed
  have scheme: "split_scheme text = Some (u_scheme u, (auth @ netloc u) @ 47 # path @ cgi)"
    using split_scheme_found assms(1) by (simp add: printed url_wf_def)
  from query obtain q t where query: "partition_at 63 (47 # path @ cgi) = (47 # path, q, t)"
    "(if t \<noteq> [] then dict_of (parse_qsl t) else []) = u_query u" by blast
  show ?thesis
    unfolding parse_url_def scheme using assms(1)
    by (simp add: authority u(2,3) parse_hostport_netloc [OF assms(1)] port query norm XRootDURL_def Let_def
        url_wf_def is_local_def del: append_assoc)
qed

definition sample_address :: url where
  "sample_address = \<lparr>u_scheme = lit ''roots'', u_host = lit ''2001:db8::1'', u_port = 1095, u_path = lit ''/eos/a b/'',
     u_username = lit ''al@ice'', u_password = lit ''p:w'', u_query = [(lit ''authz'', lit ''x&y=z''), (lit ''n'', [])]\<rparr>"

theorem url_round_trip_witness:
  "\<exists>text. url_str sample_address = Inr text \<and> parse_url lower id text = Inr sample_address"
proof -
  have "case url_str sample_address of Inl _ \<Rightarrow> False | Inr _ \<Rightarrow> True" by code_simp
  then obtain t where printed: "url_str sample_address = Inr t" by (auto split: sum.splits)
  have "url_wf lower sample_address" by code_simp
  from url_round_trip [OF this printed] printed show ?thesis by blast
qed

end
