(* ===== verification/Session_Pool.thy ===== *)
theory Session_Pool
  imports Py_Text "HOL-Library.Multiset"
begin

text \<open>
  The cache of idle logged-in connections, \<^verbatim>\<open>src/src/xrd/session/pool.py\<close>. A pool is the dictionary
  \<^verbatim>\<open>_idle\<close>: per key the connections released under it with the time of their release, oldest
  first. Sessions are opaque; \<open>shut\<close> is \<^verbatim>\<open>session.closed\<close> at the time of the call and the readings
  of \<^verbatim>\<open>time.monotonic()\<close> are arguments. Each operation returns, beside its result and the new
  pool, the sessions it closes after leaving the lock, in that order; the lock makes the
  operations atomic, so that a sequence of calls is what threads see.

  Who a connection belongs to is its key: \<open>pool_key\<close> with the digest of \<^verbatim>\<open>hashlib\<close> as the parameter
  \<open>sha\<close>. Of a configuration the pool reads the fields below; \<open>pc_identity\<close> are the values of
  \<^verbatim>\<open>_IDENTITY_FIELDS\<close> in order, each as \<^verbatim>\<open>repr(value).encode()\<close>.
\<close>

section \<open>Keys\<close>

record pool_config =
  pool_size :: int
  pool_idle_ttl :: real
  pc_require_tls :: bool
  pc_username :: str
  pc_identity :: "bytes list"

record pool_url =
  pu_use_tls :: bool
  pu_host :: str
  pu_port :: int
  pu_username :: str

type_synonym key = "str \<times> str \<times> int \<times> str"

definition effective_user :: "pool_url \<Rightarrow> pool_config \<Rightarrow> str" where
  "effective_user url config = (if pu_username url = [] then pc_username config else pu_username url)"

definition identity_input :: "(str \<Rightarrow> bytes) \<Rightarrow> pool_url \<Rightarrow> pool_config \<Rightarrow> bytes" where
  "identity_input repr url config =
     repr (effective_user url config) @ concat (map (\<lambda>f. 0 # f) (pc_identity config))"

definition identity :: "(bytes \<Rightarrow> str) \<Rightarrow> (str \<Rightarrow> bytes) \<Rightarrow> pool_url \<Rightarrow> pool_config \<Rightarrow> str" where
  "identity sha repr url config = sha (identity_input repr url config)"

definition pool_key :: "(bytes \<Rightarrow> str) \<Rightarrow> (str \<Rightarrow> bytes) \<Rightarrow> pool_url \<Rightarrow> pool_config \<Rightarrow> key" where
  "pool_key sha repr url config =
     (if pu_use_tls url \<or> pc_require_tls config then lit ''roots'' else lit ''root'',
      pu_host url, pu_port url, identity sha repr url config)"

section \<open>Operations\<close>

type_synonym 's bucket = "(real \<times> 's) list"
type_synonym 's pool = "(key, 's bucket) dict"

definition bucket_of :: "key \<Rightarrow> 's pool \<Rightarrow> 's bucket" where
  "bucket_of k pool = (case map_of pool k of None \<Rightarrow> [] | Some b \<Rightarrow> b)"

text \<open>The \<^verbatim>\<open>while bucket\<close> loop of \<^verbatim>\<open>acquire\<close>, over the bucket from its newest entry.\<close>

fun scan_newest :: "('s \<Rightarrow> bool) \<Rightarrow> real \<Rightarrow> 's bucket \<Rightarrow> 's list \<Rightarrow> 's option \<times> 's list \<times> 's bucket" where
  "scan_newest shut cutoff [] stale = (None, stale, [])"
| "scan_newest shut cutoff ((since, s) # older) stale =
     (if shut s then scan_newest shut cutoff older stale
      else if since < cutoff then scan_newest shut cutoff older (stale @ [s])
      else (Some s, stale, older))"

definition acquire ::
  "('s \<Rightarrow> bool) \<Rightarrow> real \<Rightarrow> key \<Rightarrow> pool_config \<Rightarrow> 's pool \<Rightarrow> 's option \<times> 's list \<times> 's pool" where
  "acquire shut now k config pool =
     (if pool_size config \<le> 0 then (None, [], pool)
      else
        (case scan_newest shut (now - pool_idle_ttl config) (rev (bucket_of k pool)) [] of
           (found, stale, older) \<Rightarrow>
             (found, stale,
              if older = [] then AList.delete k pool else AList.update k (rev older) pool)))"

definition pool_release ::
  "('s \<Rightarrow> bool) \<Rightarrow> real \<Rightarrow> real \<Rightarrow> 's \<Rightarrow> key \<Rightarrow> pool_config \<Rightarrow> 's pool \<Rightarrow> bool \<times> 's list \<times> 's pool" where
  "pool_release shut now later session k config pool =
     (if pool_size config \<le> 0 \<or> shut session then (False, [], pool)
      else
        (let cutoff = now - pool_idle_ttl config;
             bucket = bucket_of k pool;
             expired = filter (\<lambda>entry. fst entry < cutoff) bucket;
             live = filter (\<lambda>entry. fst entry \<ge> cutoff) bucket;
             kept = \<not> int (length live) \<ge> pool_size config;
             bucket' = (if kept then live @ [(later, session)] else live)
         in (kept, map snd expired, AList.update k bucket' pool)))"

definition pool_forget :: "'s pool \<Rightarrow> 's pool" where
  "pool_forget pool = []"

definition pool_clear :: "'s pool \<Rightarrow> 's list \<times> 's pool" where
  "pool_clear pool = (concat (map (map snd \<circ> snd) pool), [])"

definition pool_len :: "'s pool \<Rightarrow> nat" where
  "pool_len pool = sum_list (map (length \<circ> snd) pool)"

section \<open>Facts\<close>

text \<open>What a scan from the newest entry leaves behind, closes and finds.\<close>

definition skipped :: "('s \<Rightarrow> bool) \<Rightarrow> real \<Rightarrow> real \<times> 's \<Rightarrow> bool" where
  "skipped shut cutoff entry \<longleftrightarrow> shut (snd entry) \<or> fst entry < cutoff"

lemma skipped_Pair [simp]: "skipped shut cutoff (since, s) \<longleftrightarrow> shut s \<or> since < cutoff"
  by (simp add: skipped_def)

lemma scan_newest_result:
  "scan_newest shut cutoff es stale = (found, stale', older) \<Longrightarrow>
    (\<exists>newer. list_all (skipped shut cutoff) newer
      \<and> stale' = stale @ map snd (filter (\<lambda>e. \<not> shut (snd e)) newer)
      \<and> (case found of
           None \<Rightarrow> es = newer \<and> older = []
         | Some s \<Rightarrow> \<exists>since. es = newer @ (since, s) # older \<and> \<not> shut s \<and> since \<ge> cutoff))"
proof (induction shut cutoff es stale rule: scan_newest.induct)
  case (1 shut cutoff stale)
  then show ?case by (intro exI [of _ "[]"]) auto
next
  case (2 shut cutoff since s es stale)
  consider (gone) "shut s" | (old) "\<not> shut s" "since < cutoff" | (hit) "\<not> shut s" "since \<ge> cutoff" by linarith
  then show ?case
  proof cases
    case gone
    with 2 obtain newer where "list_all (skipped shut cutoff) newer"
      "stale' = stale @ map snd (filter (\<lambda>e. \<not> shut (snd e)) newer)"
      "case found of None \<Rightarrow> es = newer \<and> older = []
         | Some s \<Rightarrow> \<exists>since. es = newer @ (since, s) # older \<and> \<not> shut s \<and> since \<ge> cutoff" by auto
    with gone show ?thesis by (intro exI [of _ "(since, s) # newer"]) (auto split: option.splits)
  next
    case old
    with 2 obtain newer where "list_all (skipped shut cutoff) newer"
      "stale' = (stale @ [s]) @ map snd (filter (\<lambda>e. \<not> shut (snd e)) newer)"
      "case found of None \<Rightarrow> es = newer \<and> older = []
         | Some s \<Rightarrow> \<exists>since. es = newer @ (since, s) # older \<and> \<not> shut s \<and> since \<ge> cutoff" by auto
    with old show ?thesis by (intro exI [of _ "(since, s) # newer"]) (auto split: option.splits)
  next
    case hit
    with 2 show ?thesis by (intro exI [of _ "[]"]) auto
  qed
qed

lemma bucket_of_update [simp]:
  "bucket_of k (AList.update k b pool) = b" "k \<noteq> k' \<Longrightarrow> bucket_of k' (AList.update k b pool) = bucket_of k' pool"
  by (simp_all add: bucket_of_def update_conv)

lemma bucket_of_delete [simp]:
  "bucket_of k (AList.delete k pool) = []" "k \<noteq> k' \<Longrightarrow> bucket_of k' (AList.delete k pool) = bucket_of k' pool"
  by (simp_all add: bucket_of_def delete_conv)

lemma bucket_of_Nil [simp]: "bucket_of k [] = []"
  by (simp add: bucket_of_def)

section \<open>Keys tell people apart\<close>

definition nul_led :: "bytes \<Rightarrow> bool" where
  "nul_led bs \<longleftrightarrow> bs = [] \<or> hd bs = 0"

lemma nul_led_concat: "nul_led (concat (map (\<lambda>f. 0 # f) fs))"
  by (cases fs) (auto simp: nul_led_def)

lemma nul_split:
  "0 \<notin> set a \<Longrightarrow> 0 \<notin> set b \<Longrightarrow> nul_led x \<Longrightarrow> nul_led y \<Longrightarrow> a @ x = b @ y \<longleftrightarrow> a = b \<and> x = y"
proof (induction a arbitrary: b)
  case Nil
  then show ?case by (cases b) (auto simp: nul_led_def)
next
  case (Cons c a)
  then show ?case by (cases b) (auto simp: nul_led_def)
qed

lemma nul_fields_inj:
  "list_all (\<lambda>f. 0 \<notin> set f) fs \<Longrightarrow> list_all (\<lambda>f. 0 \<notin> set f) gs \<Longrightarrow>
    concat (map (\<lambda>f. 0 # f) fs) = concat (map (\<lambda>f. 0 # f) gs) \<Longrightarrow> fs = (gs :: bytes list)"
proof (induction fs arbitrary: gs)
  case Nil
  then show ?case by (cases gs) auto
next
  case (Cons f fs)
  then obtain g gs' where gs: "gs = g # gs'" by (cases gs) auto
  have head: "f = g" "concat (map (\<lambda>f. 0 # f) fs) = concat (map (\<lambda>f. 0 # f) gs')"
    using Cons.prems gs nul_split [of f g "concat (map (\<lambda>f. 0 # f) fs)" "concat (map (\<lambda>f. 0 # f) gs')"]
    by (auto simp: nul_led_concat)
  with Cons gs show ?case by auto
qed


definition sample_config :: pool_config where
  "sample_config = \<lparr>pool_size = 2, pool_idle_ttl = 120, pc_require_tls = False,
     pc_username = lit ''alice'', pc_identity = [[97], [98, 99]]\<rparr>"

definition sample_url :: "str \<Rightarrow> pool_url" where
  "sample_url user = \<lparr>pu_use_tls = True, pu_host = lit ''eos'', pu_port = 1094, pu_username = user\<rparr>"

definition sample_key :: key where
  "sample_key = pool_key (map unat) (\<lambda>u. 39 # map of_nat u @ [39]) (sample_url []) sample_config"


section \<open>What each operation does with the sessions\<close>

text \<open>
  \<^verbatim>\<open>acquire\<close> hands out the most recently released session of its own key that is open and
  no older than the time to live: every newer entry of the bucket was already closed or
  expired, exactly the expired ones are closed, older entries stay, and no other key's bucket
  changes. With nothing to hand out the bucket is emptied.
\<close>

theorem acquire_newest_live:
  assumes "acquire shut now k config pool = (found, stale, pool')" and "pool_size config > 0"
  shows "\<exists>older newer. list_all (skipped shut (now - pool_idle_ttl config)) newer
    \<and> stale = map snd (filter (\<lambda>entry. \<not> shut (snd entry)) (rev newer))
    \<and> bucket_of k pool' = older
    \<and> (\<forall>k'. k' \<noteq> k \<longrightarrow> bucket_of k' pool' = bucket_of k' pool)
    \<and> (case found of
         None \<Rightarrow> older = [] \<and> bucket_of k pool = newer
       | Some s \<Rightarrow> \<exists>since. bucket_of k pool = older @ (since, s) # newer
           \<and> \<not> shut s \<and> now - pool_idle_ttl config \<le> since)"
proof -
  obtain older where scan: "scan_newest shut (now - pool_idle_ttl config) (rev (bucket_of k pool)) []
      = (found, stale, older)"
    and pool': "pool' = (if older = [] then AList.delete k pool else AList.update k (rev older) pool)"
    using assms by (auto simp: acquire_def split: prod.splits)
  from scan_newest_result [OF scan] obtain newer where
    "list_all (skipped shut (now - pool_idle_ttl config)) newer"
    "stale = map snd (filter (\<lambda>e. \<not> shut (snd e)) newer)"
    "case found of None \<Rightarrow> rev (bucket_of k pool) = newer \<and> older = []
      | Some s \<Rightarrow> \<exists>since. rev (bucket_of k pool) = newer @ (since, s) # older \<and> \<not> shut s
          \<and> since \<ge> now - pool_idle_ttl config" by auto
  then show ?thesis
    by (intro exI [of _ "rev older"] exI [of _ "rev newer"])
      (auto simp: pool' rev_swap list_all_iff split: option.splits)
qed

definition sample_pool :: "nat pool" where
  "sample_pool = [(sample_key, [(10, 1), (200, 2), (20, 3), (205, 4)])]"

theorem acquire_newest_live_witness:
  "\<exists>older newer. list_all (skipped (\<lambda>s. s = 4) (300 - pool_idle_ttl sample_config)) newer
    \<and> [3] = map snd (filter (\<lambda>entry. \<not> snd entry = 4) (rev newer))
    \<and> bucket_of sample_key [(sample_key, [(10, 1 :: nat)])] = older
    \<and> (\<forall>k'. k' \<noteq> sample_key \<longrightarrow> bucket_of k' [(sample_key, [(10, 1 :: nat)])] = bucket_of k' sample_pool)
    \<and> (case Some 2 of
         None \<Rightarrow> older = [] \<and> bucket_of sample_key sample_pool = newer
       | Some s \<Rightarrow> \<exists>since. bucket_of sample_key sample_pool = older @ (since, s) # newer
           \<and> \<not> s = 4 \<and> 300 - pool_idle_ttl sample_config \<le> since)"
  by (rule acquire_newest_live)
    (simp_all add: acquire_def sample_pool_def sample_config_def bucket_of_def)

section \<open>Where every session is\<close>

text \<open>
  A cache of sessions as its clients see it: the sessions it holds, each under its key, are a
  multiset; taking removes one entry of that key, giving adds at most one, and neither
  duplicates an entry or moves it to another key.
\<close>

locale session_cache =
  fixes cache_take :: "key \<Rightarrow> 'p \<Rightarrow> 's option \<times> 's list \<times> 'p"
    and cache_give :: "'s \<Rightarrow> key \<Rightarrow> 'p \<Rightarrow> bool \<times> 's list \<times> 'p"
    and entries :: "'p \<Rightarrow> (key \<times> 's) multiset"
    and wf :: "'p \<Rightarrow> bool"
  assumes take_entries: "wf p \<Longrightarrow> cache_take k p = (found, dead, p') \<Longrightarrow>
      entries p' + (case found of None \<Rightarrow> {#} | Some s \<Rightarrow> {#(k, s)#}) + image_mset (Pair k) (mset dead) \<subseteq># entries p"
    and take_wf: "wf p \<Longrightarrow> cache_take k p = (found, dead, p') \<Longrightarrow> wf p'"
    and give_entries: "wf p \<Longrightarrow> cache_give s k p = (kept, dead, p') \<Longrightarrow>
      entries p' + image_mset (Pair k) (mset dead) = entries p + (if kept then {#(k, s)#} else {#})"
    and give_wf: "wf p \<Longrightarrow> cache_give s k p = (kept, dead, p') \<Longrightarrow> wf p'"

text \<open>
  Sessions are owned: \<open>owner s\<close> is the key a session logged in under. A cache is in order with
  the callers that hold \<open>held\<close> when it has each of its sessions once, under the owner's
  key, and none that a caller holds.
\<close>

definition in_order :: "('s \<Rightarrow> key) \<Rightarrow> 's set \<Rightarrow> (key \<times> 's) multiset \<Rightarrow> bool" where
  "in_order owner held M \<longleftrightarrow>
     (\<forall>(k, s) \<in># M. owner s = k \<and> s \<notin> held) \<and> (\<forall>e. count M e \<le> 1)"

lemma in_order_subset:
  assumes "N \<subseteq># M" "in_order owner held M"
  shows "in_order owner held N"
proof -
  have "count N e \<le> 1" for e
    using assms mset_subset_eq_count [OF assms(1), of e] unfolding in_order_def by (meson le_trans)
  with assms show ?thesis unfolding in_order_def by (auto dest: mset_subset_eqD)
qed

lemma in_order_add:
  "in_order owner held (add_mset (k, s) M) \<longleftrightarrow>
    owner s = k \<and> s \<notin> held \<and> (k, s) \<notin># M \<and> in_order owner held M" (is "?l \<longleftrightarrow> ?r")
proof
  assume l: ?l
  then have "count (add_mset (k, s) M) (k, s) \<le> 1" unfolding in_order_def by blast
  then have "(k, s) \<notin># M" by (simp add: not_in_iff)
  moreover have "in_order owner held M" by (rule in_order_subset [OF _ l]) simp
  ultimately show ?r using l by (simp add: in_order_def)
qed (auto simp: in_order_def not_in_iff)

lemma in_order_weaken: "in_order owner held M \<Longrightarrow> in_order owner (held - A) M"
  by (auto simp: in_order_def)

lemma in_order_insert:
  "in_order owner held M \<Longrightarrow> (owner s, s) \<notin># M \<Longrightarrow> in_order owner (insert s held) M"
  by (auto simp: in_order_def)

context session_cache
begin

lemma take_keeps_order:
  assumes "wf p" "in_order owner held (entries p)" "cache_take k p = (Some s, dead, p')"
  shows "owner s = k \<and> s \<notin> held \<and> in_order owner (insert s held) (entries p')"
proof -
  have sub: "add_mset (k, s) (entries p') \<subseteq># entries p"
    using take_entries [OF assms(1,3)] by (simp add: subset_mset.le_diff_conv2 mset_subset_eq_add_left
        subset_mset.dual_order.trans [OF _ mset_subset_eq_add_left])
  from in_order_subset [OF sub assms(2)] have ord: "in_order owner held (add_mset (k, s) (entries p'))" .
  then show ?thesis by (auto simp: in_order_add intro: in_order_insert)
qed

lemma take_none_keeps_order:
  assumes "wf p" "in_order owner held (entries p)" "cache_take k p = (None, dead, p')"
  shows "in_order owner held (entries p')"
  using take_entries [OF assms(1,3)] in_order_subset [OF _ assms(2)]
  by (simp add: subset_mset.dual_order.trans [OF _ mset_subset_eq_add_left])

lemma give_keeps_order:
  assumes "wf p" "in_order owner held (entries p)" "cache_give s k p = (kept, dead, p')"
    and "s \<in> held" "owner s = k"
  shows "in_order owner (held - {s}) (entries p')"
proof -
  have "(k, s) \<notin># entries p" using assms by (auto simp: in_order_def)
  then have "in_order owner (held - {s}) (entries p + (if kept then {#(k, s)#} else {#}))"
    using assms in_order_weaken [of owner held _ "{s}"] by (auto simp: in_order_add)
  then show ?thesis using give_entries [OF assms(1,3)] in_order_subset mset_subset_eq_add_left by metis
qed

end

subsection \<open>The pool is such a cache\<close>

definition pool_entries :: "'s pool \<Rightarrow> (key \<times> 's) multiset" where
  "pool_entries pool = mset (concat (map (\<lambda>(k, b). map (\<lambda>entry. (k, snd entry)) b) pool))"

definition pool_wf :: "'s pool \<Rightarrow> bool" where
  "pool_wf pool \<longleftrightarrow> distinct (map fst pool)"

definition filed :: "key \<Rightarrow> 's bucket \<Rightarrow> (key \<times> 's) multiset" where
  "filed k b = image_mset (\<lambda>entry. (k, snd entry)) (mset b)"

lemma filed_simps [simp]:
  "filed k [] = {#}" "filed k (e # b) = add_mset (k, snd e) (filed k b)"
  "filed k (b @ b') = filed k b + filed k b'"
  by (simp_all add: filed_def)

lemma filed_rev: "filed k (rev b) = filed k b"
  by (simp add: filed_def)

lemma filed_filter: "filed k (filter P b) + filed k (filter (\<lambda>e. \<not> P e) b) = filed k b"
  by (induction b) auto

lemma filed_map_snd: "image_mset (Pair k) (mset (map snd b)) = filed k b"
  by (induction b) auto

lemma pool_entries_Cons [simp]: "pool_entries ((k, b) # pool) = filed k b + pool_entries pool"
  by (simp add: pool_entries_def filed_def)

lemma bucket_of_Cons [simp]: "bucket_of k ((k', b) # pool) = (if k = k' then b else bucket_of k pool)"
  by (simp add: bucket_of_def)

lemma pool_entries_delete:
  "pool_wf pool \<Longrightarrow> pool_entries pool = pool_entries (AList.delete k pool) + filed k (bucket_of k pool)"
proof (induction pool)
  case (Cons kb pool)
  obtain k' b where kb: "kb = (k', b)" by (cases kb)
  have "map_of pool k' = None" using Cons.prems kb by (auto simp: pool_wf_def map_of_eq_None_iff)
  then have rest: "bucket_of k' pool = []" "AList.delete k' pool = pool"
    by (simp add: bucket_of_def) (use \<open>map_of pool k' = None\<close> in \<open>simp add: delete_id map_of_None_keys\<close>)
  have "pool_wf pool" using Cons.prems by (simp add: pool_wf_def)
  with Cons.IH rest kb show ?case
    by (cases "k = k'") simp_all
qed (simp add: pool_entries_def)

lemma pool_wf_update [simp]: "pool_wf pool \<Longrightarrow> pool_wf (AList.update k b pool)"
  by (simp add: pool_wf_def distinct_update)

lemma pool_wf_delete [simp]: "pool_wf pool \<Longrightarrow> pool_wf (AList.delete k pool)"
  by (simp add: pool_wf_def distinct_delete)

lemma pool_entries_update:
  "pool_wf pool \<Longrightarrow> pool_entries (AList.update k b pool) = pool_entries (AList.delete k pool) + filed k b"
  using pool_entries_delete [of "AList.update k b pool" k] by (simp add: delete_update_same)

lemma acquire_entries:
  assumes "pool_wf pool" "acquire shut now k config pool = (found, dead, pool')"
  shows "pool_entries pool' + (case found of None \<Rightarrow> {#} | Some s \<Rightarrow> {#(k, s)#}) + image_mset (Pair k) (mset dead)
    \<subseteq># pool_entries pool"
proof (cases "pool_size config \<le> 0")
  case True
  with assms show ?thesis by (simp add: acquire_def)
next
  case False
  with assms(2) obtain older where
    scan: "scan_newest shut (now - pool_idle_ttl config) (rev (bucket_of k pool)) [] = (found, dead, older)"
    and pool': "pool' = (if older = [] then AList.delete k pool else AList.update k (rev older) pool)"
    by (auto simp: acquire_def split: prod.splits)
  have after: "pool_entries pool' = pool_entries (AList.delete k pool) + filed k older"
    using assms(1) by (simp add: pool' pool_entries_update filed_rev)
  from scan_newest_result [OF scan] obtain newer where
    dead: "dead = map snd (filter (\<lambda>e. \<not> shut (snd e)) newer)" and
    case_found: "case found of None \<Rightarrow> rev (bucket_of k pool) = newer \<and> older = []
      | Some s \<Rightarrow> \<exists>since. rev (bucket_of k pool) = newer @ (since, s) # older \<and> \<not> shut s
          \<and> since \<ge> now - pool_idle_ttl config" by auto
  have "filed k (rev (bucket_of k pool)) =
      filed k newer + (case found of None \<Rightarrow> {#} | Some s \<Rightarrow> {#(k, s)#}) + filed k older"
    using case_found by (cases found) (auto simp: ac_simps)
  moreover have "image_mset (Pair k) (mset dead) \<subseteq># filed k newer"
    unfolding dead filed_map_snd by (metis filed_filter mset_subset_eq_add_left)
  ultimately show ?thesis
    using pool_entries_delete [OF assms(1), of k] by (simp add: after filed_rev subset_mset.add_mono ac_simps)
qed

lemma release_entries:
  assumes "pool_wf pool" "pool_release shut now later s k config pool = (kept, dead, pool')"
  shows "pool_entries pool' + image_mset (Pair k) (mset dead)
    = pool_entries pool + (if kept then {#(k, s)#} else {#})"
proof (cases "pool_size config \<le> 0 \<or> shut s")
  case False
  define cutoff where "cutoff = now - pool_idle_ttl config"
  have "filed k (filter (\<lambda>e. fst e < cutoff) (bucket_of k pool))
      + filed k (filter (\<lambda>e. fst e \<ge> cutoff) (bucket_of k pool)) = filed k (bucket_of k pool)"
    using filed_filter [of k "\<lambda>e. fst e < cutoff"] by (simp add: not_less)
  moreover have "dead = map snd (filter (\<lambda>e. fst e < cutoff) (bucket_of k pool))"
    using False assms(2) by (auto simp: pool_release_def Let_def cutoff_def)
  then have "image_mset (Pair k) (mset dead) = filed k (filter (\<lambda>e. fst e < cutoff) (bucket_of k pool))"
    by (simp only: filed_map_snd)
  moreover have "pool_entries pool' = pool_entries (AList.delete k pool)
      + filed k (filter (\<lambda>e. fst e \<ge> cutoff) (bucket_of k pool)) + (if kept then {#(k, s)#} else {#})"
    using False assms by (auto simp: pool_release_def Let_def pool_entries_update cutoff_def)
  ultimately show ?thesis using pool_entries_delete [OF assms(1), of k] by (simp add: ac_simps)
qed (use assms in \<open>auto simp: pool_release_def\<close>)

interpretation idle: session_cache "\<lambda>k. acquire shut now k config"
  "\<lambda>s k. pool_release shut now later s k config" pool_entries pool_wf
  for shut now later config
proof unfold_locales
  fix p :: "'a pool" and k found dead p'
  assume "pool_wf p" "acquire shut now k config p = (found, dead, p')"
  then show "pool_wf p'" by (auto simp: acquire_def split: prod.splits if_splits)
next
  fix p :: "'a pool" and s k kept dead p'
  assume "pool_wf p" "pool_release shut now later s k config p = (kept, dead, p')"
  then show "pool_wf p'" by (auto simp: pool_release_def Let_def split: if_splits)
qed (rule acquire_entries release_entries; assumption)+

subsection \<open>Every interleaving of callers\<close>

text \<open>
  Any number of threads use one pool: a caller dials a session of its own key, acquires one,
  or releases one it holds under the key it logged in with; the pool is cleared, or forgotten
  in a forked child together with everything the child held. The lock makes each call one step.
\<close>

inductive pool_step :: "('s \<Rightarrow> key) \<Rightarrow> ('s set \<times> 's pool) \<Rightarrow> ('s set \<times> 's pool) \<Rightarrow> bool"
  for owner where
  dial: "s \<notin> held \<Longrightarrow> (owner s, s) \<notin># pool_entries pool \<Longrightarrow>
    pool_step owner (held, pool) (insert s held, pool)"
| hit: "acquire shut now k config pool = (Some s, dead, pool') \<Longrightarrow>
    pool_step owner (held, pool) (insert s held, pool')"
| miss: "acquire shut now k config pool = (None, dead, pool') \<Longrightarrow>
    pool_step owner (held, pool) (held, pool')"
| give_back: "s \<in> held \<Longrightarrow>
    pool_release shut now later s (owner s) config pool = (kept, dead, pool') \<Longrightarrow>
    pool_step owner (held, pool) (held - {s}, pool')"
| clear_all: "pool_clear pool = (dead, pool') \<Longrightarrow> pool_step owner (held, pool) (held, pool')"
| fork: "pool_step owner (held, pool) ({}, pool_forget pool)"

inductive pool_reachable :: "('s \<Rightarrow> key) \<Rightarrow> ('s set \<times> 's pool) \<Rightarrow> bool" for owner where
  initially: "pool_reachable owner ({}, [])"
| onward: "pool_reachable owner st \<Longrightarrow> pool_step owner st st' \<Longrightarrow> pool_reachable owner st'"

lemma in_order_empty [simp]: "in_order owner held {#}"
  by (simp add: in_order_def)

lemma pool_entries_Nil [simp]: "pool_entries [] = {#}" and pool_wf_Nil [simp]: "pool_wf []"
  by (simp_all add: pool_entries_def pool_wf_def)

lemma pool_step_in_order:
  assumes "pool_step owner (held, pool) (held', pool')" "pool_wf pool" "in_order owner held (pool_entries pool)"
  shows "pool_wf pool' \<and> in_order owner held' (pool_entries pool')"
  using assms(1)
proof (cases rule: pool_step.cases)
  case (dial s)
  with assms show ?thesis by (auto intro: in_order_insert)
next
  case (hit shut now k config s dead)
  with idle.take_wf [OF assms(2) hit(2)] idle.take_keeps_order [OF assms(2,3) hit(2)] show ?thesis by simp
next
  case (miss shut now k config dead)
  with idle.take_wf [OF assms(2) miss(2)] idle.take_none_keeps_order [OF assms(2,3) miss(2)] show ?thesis by simp
next
  case (give_back s shut now later config kept dead)
  with idle.give_wf [OF assms(2) give_back(3)] idle.give_keeps_order [OF assms(2,3) give_back(3)]
  show ?thesis by simp
qed (simp_all add: pool_clear_def pool_forget_def)

lemma pool_reachable_in_order:
  "pool_reachable owner (held, pool) \<Longrightarrow> pool_wf pool \<and> in_order owner held (pool_entries pool)"
proof (induction "(held, pool)" arbitrary: held pool rule: pool_reachable.induct)
  case initially
  then show ?case by simp
next
  case (onward st)
  obtain held' pool' where st: "st = (held', pool')" by (cases st)
  with onward have "pool_wf pool' \<and> in_order owner held' (pool_entries pool')" by simp
  with onward(3) st show ?case using pool_step_in_order by blast
qed

text \<open>
  C33. Whatever threads do with the pool, in every reachable state an acquired session logged in
  under the very key it is asked for, no other caller holds it, and it is in the pool no more:
  a connection never has two users.
\<close>

theorem acquired_session_is_exclusive:
  assumes "pool_reachable owner (held, pool)"
    and "acquire shut now k config pool = (Some s, dead, pool')"
  shows "owner s = k \<and> s \<notin> held \<and> (\<forall>k'. (k', s) \<notin># pool_entries pool')"
proof -
  have "owner s = k \<and> s \<notin> held \<and> in_order owner (insert s held) (pool_entries pool')"
    using idle.take_keeps_order [OF _ _ assms(2)] pool_reachable_in_order [OF assms(1)] by blast
  then show ?thesis by (auto simp: in_order_def)
qed

theorem acquired_session_is_exclusive_witness:
  "(\<lambda>_. sample_key) (2 :: nat) = sample_key \<and> 2 \<notin> ({} :: nat set)
    \<and> (\<forall>k'. (k', 2 :: nat) \<notin># pool_entries [])"
proof (rule acquired_session_is_exclusive)
  have "pool_reachable (\<lambda>_. sample_key) ({2 :: nat}, [])"
    by (rule onward [OF initially]) (rule dial; simp)
  then have "pool_reachable (\<lambda>_. sample_key) ({2 :: nat} - {2}, [(sample_key, [(7, 2)])])"
  proof (rule onward [OF _ give_back])
    show "pool_release (\<lambda>_. False) 5 7 2 sample_key sample_config [] = (True, [], [(sample_key, [(7, 2 :: nat)])])"
      by (simp add: pool_release_def sample_config_def)
  qed simp
  then show "pool_reachable (\<lambda>_. sample_key) ({} :: nat set, [(sample_key, [(7, 2)])])" by simp
  show "acquire (\<lambda>_. False) 60 sample_key sample_config [(sample_key, [(7, 2 :: nat)])] = (Some 2, [], [])"
    by (simp add: acquire_def sample_config_def)
qed

text \<open>
  \<^verbatim>\<open>release\<close> loses nothing and keeps within bounds: the session is refused exactly when
  pooling is off, it is closed, or as many unexpired sessions as \<^verbatim>\<open>pool_size\<close> are idle; the
  expired ones of its bucket are closed; and the bucket never holds more than
  \<^verbatim>\<open>pool_size\<close> when it did not before.
\<close>

theorem release_bounded_and_conserving:
  assumes "pool_wf pool" "pool_release shut now later s k config pool = (kept, dead, pool')"
  shows "pool_entries pool' + image_mset (Pair k) (mset dead)
      = pool_entries pool + (if kept then {#(k, s)#} else {#})
    \<and> (kept \<longleftrightarrow> 0 < pool_size config \<and> \<not> shut s
        \<and> int (length (filter (\<lambda>entry. now - pool_idle_ttl config \<le> fst entry) (bucket_of k pool))) < pool_size config)
    \<and> (int (length (bucket_of k pool)) \<le> max 0 (pool_size config) \<longrightarrow>
        int (length (bucket_of k pool')) \<le> max 0 (pool_size config))
    \<and> (\<forall>k'. k' \<noteq> k \<longrightarrow> bucket_of k' pool' = bucket_of k' pool)"
proof (intro conjI)
  show "pool_entries pool' + image_mset (Pair k) (mset dead)
      = pool_entries pool + (if kept then {#(k, s)#} else {#})" by (rule release_entries [OF assms])
  have le: "length (filter P b) \<le> length b" for P and b :: "'a bucket" by (rule length_filter_le)
  show "int (length (bucket_of k pool)) \<le> max 0 (pool_size config) \<longrightarrow>
        int (length (bucket_of k pool')) \<le> max 0 (pool_size config)"
    using assms(2) le [of "\<lambda>entry. now - pool_idle_ttl config \<le> fst entry" "bucket_of k pool"]
    by (auto simp: pool_release_def Let_def simp del: length_filter_le split: if_splits)
qed (use assms(2) in \<open>auto simp: pool_release_def Let_def split: if_splits\<close>)

theorem release_bounded_and_conserving_witness:
  "pool_entries [(sample_key, [(200, 2), (205, 4), (310, 7)])] + image_mset (Pair sample_key) (mset [1, 3])
      = pool_entries [(sample_key, [(10, 1 :: nat), (200, 2), (20, 3), (205, 4)])]
        + (if True then {#(sample_key, 7)#} else {#})"
proof -
  have "pool_release (\<lambda>_. False) 300 310 7 sample_key (sample_config\<lparr>pool_size := 3\<rparr>)
      [(sample_key, [(10, 1 :: nat), (200, 2), (20, 3), (205, 4)])]
    = (True, [1, 3], [(sample_key, [(200, 2), (205, 4), (310, 7)])])"
    by (simp add: pool_release_def sample_config_def Let_def)
  then show ?thesis by (rule release_bounded_and_conserving [THEN conjunct1, rotated]) (simp add: pool_wf_def)
qed

end
