(* ===== verification/Session_Router.thy ===== *)
theory Session_Router
  imports Session_Driver Session_Pool Xrd_Url
begin

text \<open>
  Redirects and reconnection, \<^verbatim>\<open>src/src/xrd/session/router.py\<close>. A router holds at most one session
  and shares the process-wide pool; its methods work on \<open>rstate\<close>, the router with the pool and the
  world. What it calls of sessions, the clock and sleeping is the record \<open>net\<close>; \<open>fleet_net\<close> fills it
  with the driver of \<^verbatim>\<open>session/sync.py\<close>, sessions being handles into a store of drivers. A call that
  may wait forever returns \<open>None\<close> when it does.

  Of the configuration the router reads the fields of \<open>router_config\<close>; \<open>rc_key\<close> is the pool key of a
  URL under that configuration and \<open>rc_low\<close> is \<^verbatim>\<open>str.lower\<close>. \<open>path\<close> and the other keyword arguments only
  travel through to the session and to error messages.
\<close>

section \<open>State\<close>

record ('s, 'w) net =
  net_connect :: "url \<Rightarrow> 'w \<Rightarrow> ((failure + 's) \<times> 'w) option"
  net_execute :: "'s \<Rightarrow> request \<Rightarrow> 'w \<Rightarrow> ((failure + result) \<times> 'w) option"
  net_closed :: "'s \<Rightarrow> 'w \<Rightarrow> bool"
  net_close :: "'s \<Rightarrow> 'w \<Rightarrow> 'w"
  net_clock :: "'w \<Rightarrow> real \<times> 'w"
  net_sleep :: "real \<Rightarrow> 'w \<Rightarrow> 'w"

record router_config =
  rc_pool :: pool_config
  rc_key :: "url \<Rightarrow> key"
  rc_low :: "str \<Rightarrow> str"
  rc_redirect_limit :: int
  rc_connect_retries :: int
  rc_retry_backoff :: real
  rc_wait_cap :: real

record 's router =
  rt_url :: url
  rt_reconnect :: bool
  rt_session :: "'s option"
  rt_owns :: bool

record ('s, 'w) rstate =
  rs_router :: "'s router"
  rs_pool :: "'s pool"
  rs_world :: 'w

definition Router :: "url \<Rightarrow> bool \<Rightarrow> 's router" where
  "Router url reconnect = \<lparr>rt_url = url, rt_reconnect = reconnect, rt_session = None, rt_owns = True\<rparr>"

section \<open>The connection\<close>

definition close_many :: "('s, 'w) net \<Rightarrow> 's list \<Rightarrow> 'w \<Rightarrow> 'w" where
  "close_many net ss w = foldl (\<lambda>w' s. net_close net s w') w ss"

text \<open>\<^verbatim>\<open>SESSIONS.acquire(self.url, self.config)\<close> and \<^verbatim>\<open>SESSIONS.release\<close>, with the clock.\<close>

definition pool_take ::
  "('s, 'w) net \<Rightarrow> router_config \<Rightarrow> url \<Rightarrow> 's pool \<Rightarrow> 'w \<Rightarrow> 's option \<times> 's pool \<times> 'w" where
  "pool_take net cfg url pool w =
     (case net_clock net w of (now, w1) \<Rightarrow>
      case acquire (\<lambda>s. net_closed net s w1) now (rc_key cfg url) (rc_pool cfg) pool of
        (found, stale, pool') \<Rightarrow> (found, pool', close_many net stale w1))"

definition pool_give ::
  "('s, 'w) net \<Rightarrow> router_config \<Rightarrow> 's \<Rightarrow> url \<Rightarrow> 's pool \<Rightarrow> 'w \<Rightarrow> bool \<times> 's pool \<times> 'w" where
  "pool_give net cfg s url pool w =
     (case net_clock net w of (now, w1) \<Rightarrow>
      case net_clock net w1 of (later, w2) \<Rightarrow>
      case pool_release (\<lambda>s. net_closed net s w2) now later s (rc_key cfg url) (rc_pool cfg) pool of
        (kept, dead, pool') \<Rightarrow> (kept, pool', close_many net dead w2))"

definition connected :: "('s, 'w) net \<Rightarrow> ('s, 'w) rstate \<Rightarrow> bool" where
  "connected net st \<longleftrightarrow>
     (case rt_session (rs_router st) of None \<Rightarrow> False | Some s \<Rightarrow> \<not> net_closed net s (rs_world st))"

text \<open>The \<^verbatim>\<open>session\<close> property.\<close>

definition use_session ::
  "('s, 'w) net \<Rightarrow> router_config \<Rightarrow> ('s, 'w) rstate \<Rightarrow> ((failure + 's) \<times> ('s, 'w) rstate) option" where
  "use_session net cfg st =
     (let r = rs_router st in
      if connected net st then Some (Inr (the (rt_session r)), st)
      else if rt_session r \<noteq> None \<and> \<not> rt_reconnect r
      then Some (Inl (Raised (XrdConnectionError ''the connection was lost'')), st)
      else
        (let w1 = (case rt_session r of None \<Rightarrow> rs_world st | Some s \<Rightarrow> net_close net s (rs_world st));
             r1 = r\<lparr>rt_owns := True\<rparr> in
         case pool_take net cfg (rt_url r) (rs_pool st) w1 of
           (Some s, pool', w2) \<Rightarrow>
             Some (Inr s, \<lparr>rs_router = r1\<lparr>rt_session := Some s\<rparr>, rs_pool = pool', rs_world = w2\<rparr>)
         | (None, pool', w2) \<Rightarrow>
             (case net_connect net (rt_url r) w2 of
                None \<Rightarrow> None
              | Some (Inl x, w3) \<Rightarrow> Some (Inl x, \<lparr>rs_router = r1, rs_pool = pool', rs_world = w3\<rparr>)
              | Some (Inr s, w3) \<Rightarrow>
                  Some (Inr s, \<lparr>rs_router = r1\<lparr>rt_session := Some s\<rparr>, rs_pool = pool', rs_world = w3\<rparr>))))"

definition close_router :: "('s, 'w) net \<Rightarrow> router_config \<Rightarrow> ('s, 'w) rstate \<Rightarrow> ('s, 'w) rstate" where
  "close_router net cfg st =
     (let r = rs_router st; r1 = r\<lparr>rt_session := None, rt_owns := True\<rparr> in
      case rt_session r of
        None \<Rightarrow> st\<lparr>rs_router := r1\<rparr>
      | Some s \<Rightarrow>
          if \<not> rt_owns r then st\<lparr>rs_router := r1\<rparr>
          else
            (case pool_give net cfg s (rt_url r) (rs_pool st) (rs_world st) of
               (kept, pool', w) \<Rightarrow>
                 \<lparr>rs_router = r1, rs_pool = pool', rs_world = (if kept then w else net_close net s w)\<rparr>))"

definition drop_router :: "('s, 'w) net \<Rightarrow> ('s, 'w) rstate \<Rightarrow> ('s, 'w) rstate" where
  "drop_router net st =
     (let r = rs_router st in
      case rt_session r of
        None \<Rightarrow> st\<lparr>rs_router := r\<lparr>rt_owns := True\<rparr>\<rparr>
      | Some s \<Rightarrow> st\<lparr>rs_router := r\<lparr>rt_session := None, rt_owns := True\<rparr>,
                    rs_world := net_close net s (rs_world st)\<rparr>)"

definition discard :: "('s, 'w) net \<Rightarrow> ('s, 'w) rstate \<Rightarrow> ('s, 'w) rstate" where
  "discard net st = drop_router net st"

text \<open>\<^verbatim>\<open>pin\<close>: the pinned router, and what is left of this one.\<close>

definition pin :: "bool \<Rightarrow> 's router \<Rightarrow> 's router \<times> 's router" where
  "pin transfer r =
     ((Router (rt_url r) False)\<lparr>rt_session := rt_session r, rt_owns := transfer \<or> rt_session r = None\<rparr>,
      if transfer then r\<lparr>rt_session := None\<rparr> else r)"

section \<open>Redirects and retries\<close>

text \<open>\<^verbatim>\<open>_retarget\<close>: the requests that have a \<^verbatim>\<open>path\<close>. 63 is the question mark, 38 the ampersand.\<close>

definition add_token :: "str \<Rightarrow> str \<Rightarrow> str" where
  "add_token token path = path @ (if 63 \<in> set path then 38 else 63) # token"

fun map_path :: "(str \<Rightarrow> str) \<Rightarrow> request \<Rightarrow> request" where
  "map_path f (Stat p opts fh) = Stat (f p) opts fh"
| "map_path f (StatVFS p) = StatVFS (f p)"
| "map_path f (Dirlist p opts) = Dirlist (f p) opts"
| "map_path f (Locate p opts) = Locate (f p) opts"
| "map_path f (Mkdir p mode mkpath) = Mkdir (f p) mode mkpath"
| "map_path f (Rm p) = Rm (f p)"
| "map_path f (Rmdir p) = Rmdir (f p)"
| "map_path f (Readlink p) = Readlink (f p)"
| "map_path f (Setattr p flags atime mtime uid gid) = Setattr (f p) flags atime mtime uid gid"
| "map_path f (Chmod p mode) = Chmod (f p) mode"
| "map_path f (Truncate p sz fh) = Truncate (f p) sz fh"
| "map_path f (Open p opts mode) = Open (f p) opts mode"
| "map_path f req = req"

definition retarget :: "request \<Rightarrow> str \<Rightarrow> request" where
  "retarget req token = (if token = [] then req else map_path (add_token token) req)"

definition follow ::
  "('s, 'w) net \<Rightarrow> router_config \<Rightarrow> redirect_info \<Rightarrow> ('s, 'w) rstate \<Rightarrow> ('s, 'w) rstate" where
  "follow net cfg target st =
     (let url = rt_url (rs_router st);
          scheme = (if ri_port target < 0 then lit ''roots'' else u_scheme url);
          st1 = close_router net cfg st;
          port = (if ri_port target \<noteq> 0 then \<bar>ri_port target\<bar> else u_port url)
      in st1\<lparr>rs_router := (rs_router st1)\<lparr>rt_url := evolve (rc_low cfg) scheme (ri_host target) port url\<rparr>\<rparr>)"

definition pause :: "('s, 'w) net \<Rightarrow> router_config \<Rightarrow> int \<Rightarrow> ('s, 'w) rstate \<Rightarrow> ('s, 'w) rstate" where
  "pause net cfg attempts st =
     (if rc_retry_backoff cfg > 0
      then st\<lparr>rs_world := net_sleep net
             (min (rc_retry_backoff cfg * 2 ^ nat (attempts - 1)) (rc_wait_cap cfg)) (rs_world st)\<rparr>
      else st)"

text \<open>The body of the \<^verbatim>\<open>try\<close>: get a session and run the request on it.\<close>

definition try_once ::
  "('s, 'w) net \<Rightarrow> router_config \<Rightarrow> request \<Rightarrow> ('s, 'w) rstate \<Rightarrow> ((failure + result) \<times> ('s, 'w) rstate) option" where
  "try_once net cfg req st =
     (case use_session net cfg st of
        None \<Rightarrow> None
      | Some (Inl x, st1) \<Rightarrow> Some (Inl x, st1)
      | Some (Inr s, st1) \<Rightarrow>
          (case net_execute net s req (rs_world st1) of
             None \<Rightarrow> None
           | Some (r, w) \<Rightarrow> Some (r, st1\<lparr>rs_world := w\<rparr>)))"

text \<open>
  The \<^verbatim>\<open>except\<close> clauses: what is raised, or the next turn's \<^verbatim>\<open>hops\<close>, \<^verbatim>\<open>attempts\<close>, request and state.
\<close>

definition on_failure ::
  "('s, 'w) net \<Rightarrow> router_config \<Rightarrow> int \<Rightarrow> int \<Rightarrow> request \<Rightarrow> failure \<Rightarrow> ('s, 'w) rstate
     \<Rightarrow> failure + int \<times> int \<times> request \<times> ('s, 'w) rstate" where
  "on_failure net cfg hops attempts req x st =
     (case x of
        RedirectRequired target \<Rightarrow>
          if hops + 1 > rc_redirect_limit cfg then Inl (Raised (RedirectLimitError ''too many redirects''))
          else Inr (hops + 1, attempts, retarget req (ri_token target), follow net cfg target st)
      | Raised (WaitLimitError m a) \<Rightarrow> Inl x
      | Raised e \<Rightarrow>
          if is_connection_error e then
            (if \<not> rt_reconnect (rs_router st) \<or> attempts + 1 > rc_connect_retries cfg \<or> \<not> rq_idempotent (cls req)
             then Inl (Raised (if is_timeout_error e then XrdTimeoutError ''request failed'' (attempts + 1)
                               else TransientError ''request failed'' (attempts + 1)))
             else Inr (hops, attempts + 1, req, pause net cfg (attempts + 1) (drop_router net st)))
          else Inl x
      | _ \<Rightarrow> Inl x)"

lemma on_failure_progress:
  "on_failure net cfg hops attempts req x st = Inr (hops', attempts', req', st') \<Longrightarrow>
    nat (rc_redirect_limit cfg - hops') + nat (rc_connect_retries cfg - attempts')
      < nat (rc_redirect_limit cfg - hops) + nat (rc_connect_retries cfg - attempts)"
  by (auto simp: on_failure_def split: failure.splits exn.splits if_splits)

function route ::
  "('s, 'w) net \<Rightarrow> router_config \<Rightarrow> int \<Rightarrow> int \<Rightarrow> request \<Rightarrow> ('s, 'w) rstate
     \<Rightarrow> ((failure + result) \<times> request \<times> ('s, 'w) rstate) option" where
  "route net cfg hops attempts req st =
     (case try_once net cfg req st of
        None \<Rightarrow> None
      | Some (Inr r, st1) \<Rightarrow> Some (Inr r, req, st1)
      | Some (Inl x, st1) \<Rightarrow>
          (case on_failure net cfg hops attempts req x st1 of
             Inl y \<Rightarrow> Some (Inl y, req, st1)
           | Inr (hops', attempts', req', st2) \<Rightarrow> route net cfg hops' attempts' req' st2))"
  by pat_completeness auto
termination
  by (relation "measure (\<lambda>(net, cfg, hops, attempts, req, st).
        nat (rc_redirect_limit cfg - hops) + nat (rc_connect_retries cfg - attempts))")
     (auto dest: on_failure_progress)

declare route.simps [simp del]

text \<open>\<^verbatim>\<open>Router.execute\<close>; the request object comes back as the redirects left it.\<close>

definition router_execute ::
  "('s, 'w) net \<Rightarrow> router_config \<Rightarrow> request \<Rightarrow> ('s, 'w) rstate
     \<Rightarrow> ((failure + result) \<times> request \<times> ('s, 'w) rstate) option" where
  "router_execute net cfg req st = route net cfg 0 0 req st"

section \<open>Routers over drivers\<close>

text \<open>
  Sessions as the driver implements them: a store of drivers that share one world. \<open>fl_log\<close> records
  which request was handed to which session.
\<close>

record ('c, 'w) fleet =
  fl_sessions :: "(nat, ('c, 'w) driver) dict"
  fl_next :: nat
  fl_world :: 'w
  fl_log :: "(nat \<times> request) list"

definition put_driver :: "nat \<Rightarrow> ('c, 'w) driver \<Rightarrow> ('c, 'w) fleet \<Rightarrow> ('c, 'w) fleet" where
  "put_driver s d fl = fl\<lparr>fl_sessions := AList.update s d (fl_sessions fl), fl_world := dr_world d\<rparr>"

definition fleet_connect ::
  "'w io \<Rightarrow> 'c env \<Rightarrow> session_config \<Rightarrow> url \<Rightarrow> ('c, 'w) fleet \<Rightarrow> ((failure + nat) \<times> ('c, 'w) fleet) option" where
  "fleet_connect io ev cfg u fl =
     (case connect io ev cfg (u_host u) (u_port u) (u_username u) (use_tls u) [] (fl_world fl) of
        None \<Rightarrow> None
      | Some (Inl (x, w)) \<Rightarrow> Some (Inl x, fl\<lparr>fl_world := w\<rparr>)
      | Some (Inr d) \<Rightarrow> Some (Inr (fl_next fl), put_driver (fl_next fl) d (fl\<lparr>fl_next := Suc (fl_next fl)\<rparr>)))"

definition fleet_execute ::
  "'w io \<Rightarrow> 'c env \<Rightarrow> int \<Rightarrow> nat \<Rightarrow> request \<Rightarrow> ('c, 'w) fleet \<Rightarrow> ((failure + result) \<times> ('c, 'w) fleet) option" where
  "fleet_execute io ev limit s req fl =
     (let fl1 = fl\<lparr>fl_log := fl_log fl @ [(s, req)]\<rparr> in
      case map_of (fl_sessions fl) s of
        None \<Rightarrow> Some (Inl KeyError, fl1)
      | Some d \<Rightarrow>
          (case execute io ev limit req [] False False (d\<lparr>dr_world := fl_world fl\<rparr>) of
             None \<Rightarrow> None
           | Some (Inl (x, d')) \<Rightarrow> Some (Inl x, put_driver s d' fl1)
           | Some (Inr (r, d')) \<Rightarrow> Some (Inr r, put_driver s d' fl1)))"

definition fleet_closed :: "nat \<Rightarrow> ('c, 'w) fleet \<Rightarrow> bool" where
  "fleet_closed s fl \<longleftrightarrow> (case map_of (fl_sessions fl) s of None \<Rightarrow> True | Some d \<Rightarrow> dr_closed d)"

definition fleet_close :: "'w io \<Rightarrow> nat \<Rightarrow> ('c, 'w) fleet \<Rightarrow> ('c, 'w) fleet" where
  "fleet_close io s fl =
     (case map_of (fl_sessions fl) s of
        None \<Rightarrow> fl
      | Some d \<Rightarrow> put_driver s (final (close_session io (d\<lparr>dr_world := fl_world fl\<rparr>))) fl)"

definition fleet_net ::
  "'w io \<Rightarrow> 'c env \<Rightarrow> session_config \<Rightarrow> int \<Rightarrow> ('w \<Rightarrow> real \<times> 'w) \<Rightarrow> (nat, ('c, 'w) fleet) net" where
  "fleet_net io ev cfg limit clock =
     \<lparr>net_connect = fleet_connect io ev cfg, net_execute = fleet_execute io ev limit,
      net_closed = fleet_closed, net_close = fleet_close io,
      net_clock = (\<lambda>fl. case clock (fl_world fl) of (t, w) \<Rightarrow> (t, fl\<lparr>fl_world := w\<rparr>)),
      net_sleep = (\<lambda>t fl. fl\<lparr>fl_world := io_sleep io t (fl_world fl)\<rparr>)\<rparr>"

end
