(* ===== verification/File_Client.thy ===== *)
theory File_Client
  imports Session_Router Crc
begin

text \<open>
  An open remote file, \<^verbatim>\<open>src/src/xrd/client/file.py\<close>. \<open>rfile\<close> is the state of one \<^verbatim>\<open>File\<close>; its methods
  work on \<open>fstate\<close>, the file with the shared pool and the world, and return what they return or
  raise together with the new state; \<open>None\<close> is a call that never returns. \<open>bindF\<close> and \<open>catchF\<close> are
  the semicolon and the \<^verbatim>\<open>try\<close> of these methods. What a file calls of its session beyond the
  router is in \<open>client\<close>, which \<open>fleet_client\<close> fills with the driver.

  A builder of requests (\<^verbatim>\<open>lambda handle: ...\<close>) takes the file as it is when the builder is
  called, because the lambdas of the source read \<^verbatim>\<open>self._pathid\<close> then.
\<close>

section \<open>State\<close>

record 's rfile =
  f_url :: url
  f_router :: "'s router"
  f_owns_router :: bool
  f_handle :: "bytes option"
  f_stat :: "stat_info option"
  f_compression :: "int \<times> str"
  f_size_hint :: int
  f_flags :: int
  f_mode :: int
  f_checkpoint :: bool
  f_pathid :: int
  f_data_paths :: "int list"
  f_rr :: nat
  f_multistream :: bool
  f_recoveries :: int

record ('s, 'w) fstate =
  fs_file :: "'s rfile"
  fs_pool :: "'s pool"
  fs_world :: 'w

record file_config =
  fc_router :: router_config
  fc_chunk_size :: int
  fc_max_read_size :: int
  fc_data_streams :: int
  fc_recover_handles :: bool

record ('s, 'w) client =
  cl_net :: "('s, 'w) net"
  cl_cfg :: file_config
  cl_arriving :: "'s \<Rightarrow> request \<Rightarrow> 'w \<Rightarrow> ((failure + result) \<times> 'w) option"
  cl_arrives :: "'s \<Rightarrow> 'w \<Rightarrow> bool option"
  cl_bind :: "'s \<Rightarrow> 'w \<Rightarrow> ((failure + int) \<times> 'w) option"
  cl_accel :: accel

type_synonym ('st, 'a) comp = "'st \<Rightarrow> ((failure + 'a) \<times> 'st) option"

type_synonym ('s, 'w, 'a) fop = "(('s, 'w) fstate, 'a) comp"

definition new_File :: "url \<Rightarrow> 's router option \<Rightarrow> 's rfile" where
  "new_File url router =
     \<lparr>f_url = url, f_router = (case router of None \<Rightarrow> Router url True | Some r \<Rightarrow> r),
      f_owns_router = (router = None), f_handle = None, f_stat = None, f_compression = (0, []),
      f_size_hint = 0, f_flags = 0, f_mode = 0, f_checkpoint = False, f_pathid = 0, f_data_paths = [],
      f_rr = 0, f_multistream = True, f_recoveries = 0\<rparr>"

section \<open>Statements\<close>

definition retF :: "'a \<Rightarrow> ('st, 'a) comp" where "retF a st = Some (Inr a, st)"

definition raiseF :: "failure \<Rightarrow> ('st, 'a) comp" where "raiseF x st = Some (Inl x, st)"

definition bindF :: "('st, 'a) comp \<Rightarrow> ('a \<Rightarrow> ('st, 'b) comp) \<Rightarrow> ('st, 'b) comp" where
  "bindF m k st =
     (case m st of None \<Rightarrow> None | Some (Inl x, st') \<Rightarrow> Some (Inl x, st') | Some (Inr a, st') \<Rightarrow> k a st')"

definition catchF :: "('st, 'a) comp \<Rightarrow> (failure \<Rightarrow> ('st, 'a) comp) \<Rightarrow> ('st, 'a) comp" where
  "catchF m k st =
     (case m st of None \<Rightarrow> None | Some (Inl x, st') \<Rightarrow> k x st' | Some (Inr a, st') \<Rightarrow> Some (Inr a, st'))"

definition liftF :: "exn + 'a \<Rightarrow> ('st, 'a) comp" where
  "liftF r = (case r of Inl e \<Rightarrow> raiseF (Raised e) | Inr a \<Rightarrow> retF a)"

definition getsF :: "('s rfile \<Rightarrow> 'a) \<Rightarrow> ('s, 'w, 'a) fop" where
  "getsF f st = Some (Inr (f (fs_file st)), st)"

definition modifyF :: "('s rfile \<Rightarrow> 's rfile) \<Rightarrow> ('s, 'w, unit) fop" where
  "modifyF f st = Some (Inr (), st\<lparr>fs_file := f (fs_file st)\<rparr>)"

text \<open>A method of the file's router.\<close>

definition router_state :: "('s, 'w) fstate \<Rightarrow> ('s, 'w) rstate" where
  "router_state st = \<lparr>rs_router = f_router (fs_file st), rs_pool = fs_pool st, rs_world = fs_world st\<rparr>"

definition put_router :: "('s, 'w) rstate \<Rightarrow> ('s, 'w) fstate \<Rightarrow> ('s, 'w) fstate" where
  "put_router rs st = \<lparr>fs_file = (fs_file st)\<lparr>f_router := rs_router rs\<rparr>, fs_pool = rs_pool rs, fs_world = rs_world rs\<rparr>"

definition on_router :: "(('s, 'w) rstate \<Rightarrow> ((failure + 'a) \<times> ('s, 'w) rstate) option) \<Rightarrow> ('s, 'w, 'a) fop" where
  "on_router f st =
     (case f (router_state st) of None \<Rightarrow> None | Some (r, rs) \<Rightarrow> Some (r, put_router rs st))"

definition run_request :: "('s, 'w) client \<Rightarrow> request \<Rightarrow> ('s, 'w, result) fop" where
  "run_request cl req = on_router (\<lambda>rs.
     case router_execute (cl_net cl) (fc_router (cl_cfg cl)) req rs of
       None \<Rightarrow> None | Some (r, _, rs') \<Rightarrow> Some (r, rs'))"

definition the_session :: "('s, 'w) client \<Rightarrow> ('s, 'w, 's) fop" where
  "the_session cl = on_router (use_session (cl_net cl) (fc_router (cl_cfg cl)))"

definition release_router :: "('s, 'w) client \<Rightarrow> ('s, 'w, unit) fop" where
  "release_router cl st =
     Some (Inr (), put_router (close_router (cl_net cl) (fc_router (cl_cfg cl)) (router_state st)) st)"

definition discard_router :: "('s, 'w) client \<Rightarrow> ('s, 'w, unit) fop" where
  "discard_router cl st = Some (Inr (), put_router (discard (cl_net cl) (router_state st)) st)"

text \<open>A method of a session that the file calls directly.\<close>

definition on_session :: "('w \<Rightarrow> ((failure + 'a) \<times> 'w) option) \<Rightarrow> ('s, 'w, 'a) fop" where
  "on_session f st =
     (case f (fs_world st) of None \<Rightarrow> None | Some (r, w) \<Rightarrow> Some (r, st\<lparr>fs_world := w\<rparr>))"

fun is_transient :: "failure \<Rightarrow> bool" where
  "is_transient (Raised e) = is_transient_error e"
| "is_transient _ = False"

text \<open>\<^verbatim>\<open>except (XRootDError, ValueError)\<close>; \<^verbatim>\<open>UnicodeEncodeError\<close> is a \<^verbatim>\<open>ValueError\<close>.\<close>

fun is_bulk_error :: "failure \<Rightarrow> bool" where
  "is_bulk_error (Raised (ValueError m)) = True"
| "is_bulk_error (Raised UnicodeEncodeError) = True"
| "is_bulk_error (Raised UnsupportedOperation) = True"
| "is_bulk_error x = is_xrootd_error x"

section \<open>Data paths\<close>

definition is_open :: "'s rfile \<Rightarrow> bool" where
  "is_open f \<longleftrightarrow> f_handle f \<noteq> None"

definition file_handle :: "('s, 'w, bytes) fop" where
  "file_handle st =
     (case f_handle (fs_file st) of
        None \<Rightarrow> raiseF (Raised (ValueError ''I/O operation on closed file'')) st | Some h \<Rightarrow> retF h st)"

text \<open>\<^verbatim>\<open>self._router.bind_data_path()\<close>.\<close>

definition router_bind :: "('s, 'w) client \<Rightarrow> ('s, 'w, int) fop" where
  "router_bind cl = bindF (the_session cl) (\<lambda>s. on_session (cl_bind cl s))"

definition file_bind_data_path :: "('s, 'w) client \<Rightarrow> ('s, 'w, int) fop" where
  "file_bind_data_path cl = bindF (getsF f_pathid) (\<lambda>p.
     if p \<noteq> 0 then retF p
     else bindF (router_bind cl) (\<lambda>q. bindF (modifyF (f_pathid_update (\<lambda>_. q))) (\<lambda>_. retF q)))"

fun bind_streams_loop :: "('s, 'w) client \<Rightarrow> nat \<Rightarrow> ('s, 'w, unit) fop" where
  "bind_streams_loop cl 0 = retF ()"
| "bind_streams_loop cl (Suc n) =
     bindF (catchF (router_bind cl) (\<lambda>_. retF 0)) (\<lambda>p.
       if p = 0 then retF ()
       else bindF (modifyF (f_data_paths_update (\<lambda>ps. ps @ [p]))) (\<lambda>_. bind_streams_loop cl n))"

definition bind_data_streams :: "('s, 'w) client \<Rightarrow> ('s, 'w, unit) fop" where
  "bind_data_streams cl = bindF (getsF (\<lambda>f. nat (fc_data_streams (cl_cfg cl) - int (length (f_data_paths f)))))
     (bind_streams_loop cl)"

definition next_path :: "('s, 'w, int) fop" where
  "next_path = bindF (getsF (\<lambda>f. f)) (\<lambda>f.
     if \<not> f_multistream f \<or> f_data_paths f = [] then retF 0
     else bindF (modifyF (f_rr_update Suc)) (\<lambda>_. retF (f_data_paths f ! (f_rr f mod length (f_data_paths f)))))"

section \<open>Opening and recovery\<close>

text \<open>\<open>_WRITING\<close>: write, update, new, delete, append.\<close>

definition WRITING :: int where
  "WRITING = 0x8000 OR 0x0020 OR 0x0008 OR 0x0002 OR 0x0200"

definition recoverable :: "file_config \<Rightarrow> 's rfile \<Rightarrow> bool" where
  "recoverable cfg f \<longleftrightarrow> fc_recover_handles cfg \<and> f_flags f AND WRITING = 0"

definition do_open :: "('s, 'w) client \<Rightarrow> ('s, 'w, bytes) fop" where
  "do_open cl = bindF (getsF (\<lambda>f. f)) (\<lambda>f.
     bindF (liftF (path_with_cgi (f_url f))) (\<lambda>path.
     bindF (run_request cl (Open path (f_flags f OR kXR_retstat) (f_mode f))) (\<lambda>result.
     bindF (modifyF (\<lambda>f. f\<lparr>f_router := fst (pin (f_owns_router f) (f_router f))\<rparr>)) (\<lambda>_.
     bindF (liftF (parse_open (res_data result) (u_path (f_url f)))) (\<lambda>(h, st, comp).
     bindF (modifyF (\<lambda>f. f\<lparr>f_handle := Some h, f_stat := st, f_compression := comp,
               f_size_hint := (case st of None \<Rightarrow> f_size_hint f | Some s \<Rightarrow> st_size s)\<rparr>)) (\<lambda>_.
     file_handle))))))"

text \<open>\<^verbatim>\<open>open\<close>, with the flags and the mode as numbers.\<close>

definition file_open :: "('s, 'w) client \<Rightarrow> int \<Rightarrow> int \<Rightarrow> ('s, 'w, stat_info option) fop" where
  "file_open cl flags mode = bindF (getsF f_handle) (\<lambda>h.
     if h \<noteq> None then raiseF (Raised (ValueError ''already open''))
     else bindF (modifyF (\<lambda>f. f\<lparr>f_flags := flags, f_mode := mode\<rparr>)) (\<lambda>_.
       bindF (catchF (bindF (do_open cl) (\<lambda>_. bind_data_streams cl))
                (\<lambda>x. bindF (getsF f_owns_router) (\<lambda>owns.
                   if owns then bindF (release_router cl) (\<lambda>_. raiseF x) else raiseF x)))
         (\<lambda>_. getsF f_stat)))"

definition reopen :: "('s, 'w) client \<Rightarrow> ('s, 'w, bytes) fop" where
  "reopen cl = bindF (modifyF (\<lambda>f. f\<lparr>f_handle := None, f_stat := None, f_pathid := 0, f_data_paths := [],
       f_rr := 0, f_multistream := True\<rparr>)) (\<lambda>_.
     bindF (getsF f_owns_router) (\<lambda>owns.
     bindF (if owns then discard_router cl else retF ()) (\<lambda>_.
     bindF (modifyF (\<lambda>f. f\<lparr>f_router := Router (f_url f) True, f_owns_router := True,
               f_recoveries := f_recoveries f + 1\<rparr>)) (\<lambda>_.
     bindF (do_open cl) (\<lambda>h.
     bindF (bind_data_streams cl) (\<lambda>_. retF h))))))"

type_synonym 's builder = "'s rfile \<Rightarrow> bytes \<Rightarrow> exn + request"

text \<open>\<^verbatim>\<open>self._router.execute(build(handle), ...)\<close>.\<close>

definition run_built :: "('s, 'w) client \<Rightarrow> 's builder \<Rightarrow> bytes \<Rightarrow> ('s, 'w, result) fop" where
  "run_built cl build h = bindF (getsF (\<lambda>f. build f h)) (\<lambda>req. bindF (liftF req) (run_request cl))"

definition file_execute :: "('s, 'w) client \<Rightarrow> 's builder \<Rightarrow> ('s, 'w, result) fop" where
  "file_execute cl build =
     catchF (bindF file_handle (run_built cl build)) (\<lambda>x.
       if \<not> is_transient x then raiseF x
       else bindF (getsF (recoverable (cl_cfg cl))) (\<lambda>ok.
         if \<not> ok then raiseF x else bindF (reopen cl) (run_built cl build)))"

text \<open>
  \<^verbatim>\<open>_bulk\<close>. \<open>arriving\<close> is the attempt on the data socket itself, \<open>fallback\<close> the two-stage rest.
\<close>

definition bulk_fallback ::
  "('s, 'w) client \<Rightarrow> (int \<Rightarrow> 's builder) \<Rightarrow> int \<Rightarrow> ('s, 'w, result) fop" where
  "bulk_fallback cl build p =
     catchF (file_execute cl (build p)) (\<lambda>x.
       if \<not> is_bulk_error x then raiseF x
       else bindF (getsF is_open) (\<lambda>open.
         if \<not> open then raiseF x
         else bindF (modifyF (f_multistream_update (\<lambda>_. False))) (\<lambda>_. file_execute cl (build 0))))"

definition bulk_arriving ::
  "('s, 'w) client \<Rightarrow> (int \<Rightarrow> 's builder) \<Rightarrow> int \<Rightarrow> ('s, 'w, result) fop" where
  "bulk_arriving cl build p =
     catchF (bindF (the_session cl) (\<lambda>s. bindF file_handle (\<lambda>h.
               bindF (getsF (\<lambda>f. build p f h)) (\<lambda>req. bindF (liftF req) (\<lambda>q. on_session (cl_arriving cl s q))))))
       (\<lambda>x. if \<not> is_bulk_error x then raiseF x
            else bindF (modifyF (f_data_paths_update (remove1 p))) (\<lambda>_.
              bindF (bind_data_streams cl) (\<lambda>_.
              bindF next_path (\<lambda>q.
                if q = 0 then file_execute cl (build 0) else bulk_fallback cl build q))))"

definition bulk :: "('s, 'w) client \<Rightarrow> (int \<Rightarrow> 's builder) \<Rightarrow> ('s, 'w, result) fop" where
  "bulk cl build = bindF next_path (\<lambda>p. bindF (getsF f_checkpoint) (\<lambda>ck.
     if p = 0 \<or> ck then file_execute cl (\<lambda>f. build (f_pathid f) f)
     else bindF (the_session cl) (\<lambda>s st.
       if cl_arrives cl s (fs_world st) \<noteq> Some False then bulk_arriving cl build p st
       else bulk_fallback cl build p st)))"

definition file_close :: "('s, 'w) client \<Rightarrow> ('s, 'w, unit) fop" where
  "file_close cl = bindF (getsF f_handle) (\<lambda>h.
     bindF (modifyF (f_handle_update (\<lambda>_. None))) (\<lambda>_.
     let finally = (\<lambda>after. bindF (getsF f_owns_router) (\<lambda>owns.
           if owns then bindF (release_router cl) (\<lambda>_. after) else after))
     in bindF (catchF (case h of None \<Rightarrow> retF () | Some b \<Rightarrow> bindF (run_request cl (Close b)) (\<lambda>_. retF ()))
          (\<lambda>x. if is_transient x then retF () else finally (raiseF x)))
          (\<lambda>_. finally (retF ()))))"

section \<open>Metadata\<close>

definition file_stat_ask :: "('s, 'w) client \<Rightarrow> 's rfile \<Rightarrow> ('s, 'w, stat_info) fop" where
  "file_stat_ask cl f0 =
     bindF (file_execute cl (\<lambda>f h. Inr (Stat [] 0 h))) (\<lambda>result.
     bindF (liftF (parse_stat (res_data result) (u_path (f_url f0)))) (\<lambda>s.
     bindF (modifyF (\<lambda>f. f\<lparr>f_stat := Some s, f_size_hint := st_size s\<rparr>)) (\<lambda>_. retF s)))"

definition file_stat :: "('s, 'w) client \<Rightarrow> bool \<Rightarrow> ('s, 'w, stat_info) fop" where
  "file_stat cl refresh = bindF (getsF (\<lambda>f. f)) (\<lambda>f.
     case f_stat f of
       Some s \<Rightarrow> if \<not> refresh then retF s else file_stat_ask cl f
     | None \<Rightarrow> file_stat_ask cl f)"

text \<open>The \<^verbatim>\<open>size\<close> property.\<close>

definition file_size :: "('s, 'w) client \<Rightarrow> ('s, 'w, int) fop" where
  "file_size cl = bindF (getsF (\<lambda>f. f)) (\<lambda>f.
     if f_stat f \<noteq> None then retF (f_size_hint f)
     else bindF (file_stat cl False) (\<lambda>s. retF (st_size s)))"

text \<open>\<^verbatim>\<open>checksum\<close>; an empty algorithm is \<^verbatim>\<open>None\<close>. 63 is the question mark, 38 the ampersand.\<close>

definition file_checksum :: "('s, 'w) client \<Rightarrow> str \<Rightarrow> ('s, 'w, checksum_info) fop" where
  "file_checksum cl algorithm = bindF (getsF f_url) (\<lambda>url.
     bindF (liftF (path_with_cgi url)) (\<lambda>path.
     bindF (run_request cl (Query kXR_Qcksum
              (Inl (if algorithm = [] then path
                    else path @ (if 63 \<in> set path then 38 else 63) # lit ''cks.type='' @ algorithm)) NULL_FHANDLE))
       (\<lambda>result. liftF (parse_checksum (res_data result)))))"

definition file_visa :: "('s, 'w) client \<Rightarrow> ('s, 'w, bytes) fop" where
  "file_visa cl = bindF (file_execute cl (\<lambda>f h. Inr (Query kXR_Qvisa (Inl []) h))) (\<lambda>result. retF (res_data result))"

definition file_verify :: "('s, 'w) client \<Rightarrow> str \<Rightarrow> str \<Rightarrow> ('s, 'w, unit) fop" where
  "file_verify cl expected algorithm = bindF (file_checksum cl algorithm) (\<lambda>actual.
     if lower (ck_value actual) \<noteq> lower expected
     then raiseF (Raised (ChecksumMismatchError algorithm (lower expected) (lower (ck_value actual))))
     else retF ())"

section \<open>Reading\<close>

definition check_whole_read :: "file_config \<Rightarrow> int \<Rightarrow> str \<Rightarrow> exn + unit" where
  "check_whole_read cfg sz path =
     (if fc_max_read_size cfg \<noteq> 0 \<and> sz > fc_max_read_size cfg
      then Inl (TooLargeError sz (fc_max_read_size cfg) path) else Inr ())"

definition read_one :: "('s, 'w) client \<Rightarrow> int \<Rightarrow> int \<Rightarrow> ('s, 'w, bytes) fop" where
  "read_one cl offset len =
     bindF (bulk cl (\<lambda>pid f h. Inr (Read h offset len pid))) (\<lambda>result.
       if int (length (res_data result)) > len
       then raiseF (Raised (ProtocolError ''the server answered a read with too many bytes''))
       else retF (res_data result))"

text \<open>The \<^verbatim>\<open>while remaining\<close> loop; \<open>got\<close> is the join of \<^verbatim>\<open>parts\<close>.\<close>

partial_function (option) read_loop ::
  "('s, 'w) client \<Rightarrow> int \<Rightarrow> int \<Rightarrow> bytes \<Rightarrow> ('s, 'w) fstate \<Rightarrow> ((failure + bytes) \<times> ('s, 'w) fstate) option" where
  "read_loop cl remaining offset got st =
     (if remaining = 0 then Some (Inr got, st)
      else
        (let n = min remaining (fc_chunk_size (cl_cfg cl)) in
         case read_one cl offset n st of
           None \<Rightarrow> None
         | Some (Inl x, st1) \<Rightarrow> Some (Inl x, st1)
         | Some (Inr chunk, st1) \<Rightarrow>
             if int (length chunk) < n then Some (Inr (got @ chunk), st1)
             else read_loop cl (remaining - n) (offset + n) (got @ chunk) st1))"

definition read_sized :: "('s, 'w) client \<Rightarrow> int \<Rightarrow> int \<Rightarrow> ('s, 'w, bytes) fop" where
  "read_sized cl sz offset =
     (if sz = 0 then retF []
      else if sz \<le> fc_chunk_size (cl_cfg cl) then read_one cl offset sz
      else read_loop cl sz offset [])"

definition file_read :: "('s, 'w) client \<Rightarrow> int \<Rightarrow> int \<Rightarrow> ('s, 'w, bytes) fop" where
  "file_read cl sz offset =
     (if sz < 0 then
        bindF (file_size cl) (\<lambda>total. bindF (getsF (\<lambda>f. u_path (f_url f))) (\<lambda>path.
          bindF (liftF (check_whole_read (cl_cfg cl) (max (total - offset) 0) path)) (\<lambda>_.
            read_sized cl (max (total - offset) 0) offset)))
      else read_sized cl sz offset)"

text \<open>Everything that iterating over the file yields.\<close>

partial_function (option) file_iter ::
  "('s, 'w) client \<Rightarrow> int \<Rightarrow> bytes list \<Rightarrow> ('s, 'w) fstate \<Rightarrow> ((failure + bytes list) \<times> ('s, 'w) fstate) option" where
  "file_iter cl offset chunks st =
     (case read_one cl offset (fc_chunk_size (cl_cfg cl)) st of
        None \<Rightarrow> None
      | Some (Inl x, st1) \<Rightarrow> Some (Inl x, st1)
      | Some (Inr chunk, st1) \<Rightarrow>
          if chunk = [] then Some (Inr chunks, st1)
          else file_iter cl (offset + int (length chunk)) (chunks @ [chunk]) st1)"

declare read_loop.simps [code] file_iter.simps [code]

text \<open>
  \<^verbatim>\<open>_batches\<close> is a generator: the batches it yields, and the exception it ends with if it does.
\<close>

definition READV_MAX_CHUNKS :: int where "READV_MAX_CHUNKS = 1024"
definition READV_MAX_BYTES :: int where "READV_MAX_BYTES = 2097152"

fun batches_loop :: "read_range list \<Rightarrow> read_range list \<Rightarrow> int \<Rightarrow> read_range list list \<times> exn option" where
  "batches_loop [] batch tot = (if batch \<noteq> [] then [batch] else [], None)"
| "batches_loop (rng # rest) batch tot =
     (if rr_length rng > READV_MAX_BYTES then ([], Some (ProtocolError ''readv element exceeds the limit''))
      else if batch \<noteq> [] \<and> (int (length batch) \<ge> READV_MAX_CHUNKS \<or> tot + rr_length rng > READV_MAX_BYTES)
      then (case batches_loop rest [rng] (rr_length rng) of (bs, e) \<Rightarrow> (batch # bs, e))
      else batches_loop rest (batch @ [rng]) (tot + rr_length rng))"

definition batches :: "read_range list \<Rightarrow> read_range list list \<times> exn option" where
  "batches ranges = batches_loop ranges [] 0"

definition readv_for :: "read_range list \<Rightarrow> 's builder" where
  "readv_for batch f h = Inr (ReadV (map (\<lambda>r. (h, rr_offset r, rr_length r)) batch) (f_pathid f))"

definition file_segment :: "readv_segment \<Rightarrow> (int, bytes list) dict \<Rightarrow> (int, bytes list) dict" where
  "file_segment seg answers = AList.update (rv_offset seg)
     ((case map_of answers (rv_offset seg) of None \<Rightarrow> [] | Some ds \<Rightarrow> ds) @ [rv_data seg]) answers"

fun readv_batches ::
  "('s, 'w) client \<Rightarrow> read_range list list \<Rightarrow> (int, bytes list) dict \<Rightarrow> ('s, 'w, (int, bytes list) dict) fop" where
  "readv_batches cl [] answers = retF answers"
| "readv_batches cl (b # bs) answers =
     bindF (file_execute cl (readv_for b)) (\<lambda>result.
     bindF (liftF (parse_readv (res_data result))) (\<lambda>segs.
       readv_batches cl bs (foldl (\<lambda>d seg. file_segment seg d) answers segs)))"

text \<open>\<^verbatim>\<open>_segment_for\<close> removes the answer it takes from the list in \<^verbatim>\<open>out\<close>, unless it is the last one.\<close>

definition segment_for :: "read_range \<Rightarrow> (int, bytes list) dict \<Rightarrow> exn + bytes \<times> (int, bytes list) dict" where
  "segment_for wanted answers =
     (case map_of answers (rr_offset wanted) of
        None \<Rightarrow> Inl (ProtocolError ''left out of its vector read reply'')
      | Some [] \<Rightarrow> Inl (ProtocolError ''left out of its vector read reply'')
      | Some (data # later) \<Rightarrow>
          if int (length data) > rr_length wanted then Inl (ProtocolError ''vector-read segment too long'')
          else Inr (data, if later \<noteq> [] then AList.update (rr_offset wanted) later answers else answers))"

fun segments_for :: "read_range list \<Rightarrow> (int, bytes list) dict \<Rightarrow> exn + bytes list" where
  "segments_for [] answers = Inr []"
| "segments_for (w # ws) answers =
     bindE (segment_for w answers) (\<lambda>(data, answers2). bindE (segments_for ws answers2) (\<lambda>ds. Inr (data # ds)))"

definition file_readv :: "('s, 'w) client \<Rightarrow> read_range list \<Rightarrow> ('s, 'w, bytes list) fop" where
  "file_readv cl wanted =
     (if wanted = [] then retF []
      else (case batches wanted of (bs, e) \<Rightarrow>
        bindF (readv_batches cl bs []) (\<lambda>answers.
          case e of Some x \<Rightarrow> raiseF (Raised x) | None \<Rightarrow> liftF (segments_for wanted answers))))"

definition packed_length :: "int \<Rightarrow> int \<Rightarrow> int" where
  "packed_length sz offset =
     (if sz \<le> 0 then 0
      else (let rest = max (sz - (kXR_pgPageSZ - offset mod kXR_pgPageSZ)) 0
            in sz + 4 * (1 + - ((- rest) div kXR_pgPageSZ))))"

definition file_pgread :: "('s, 'w) client \<Rightarrow> int \<Rightarrow> int \<Rightarrow> bool \<Rightarrow> ('s, 'w, page_result) fop" where
  "file_pgread cl sz offset verify =
     bindF (file_execute cl (\<lambda>f h. Inr (new_PgRead h offset sz False (f_pathid f)))) (\<lambda>result.
       if int (length (res_data result)) > packed_length sz offset
       then raiseF (Raised (ProtocolError ''the server answered a paged read with too many bytes''))
       else (case unpack_pages (cl_accel cl) (res_data result) offset of (data, corrupt) \<Rightarrow>
         retF \<lparr>pg_data = data, pg_offset = offset, pg_corrupt_pages = (if verify then corrupt else [])\<rparr>))"

section \<open>Writing\<close>

definition file_submit :: "('s, 'w) client \<Rightarrow> request \<Rightarrow> ('s, 'w, result) fop" where
  "file_submit cl req = bindF (getsF f_checkpoint) (\<lambda>ck.
     if ck then bindF file_handle (\<lambda>h. bindF (liftF (ChkPoint_execute h req)) (run_request cl))
     else run_request cl req)"

definition invalidate :: "int \<Rightarrow> bool \<Rightarrow> ('s, 'w, unit) fop" where
  "invalidate high_water exact = modifyF (\<lambda>f. f\<lparr>f_size_hint := (if exact then high_water else max (f_size_hint f) high_water),
     f_stat := None\<rparr>)"

definition write_for :: "int \<Rightarrow> bytes \<Rightarrow> int \<Rightarrow> 's builder" where
  "write_for off body pid f h = Inr (Write h off body pid)"

definition write_piece :: "('s, 'w) client \<Rightarrow> int \<Rightarrow> bytes \<Rightarrow> ('s, 'w, result) fop" where
  "write_piece cl off body = bindF (getsF (\<lambda>f. f)) (\<lambda>f.
     if f_checkpoint f then bindF file_handle (\<lambda>h. file_submit cl (Write h off body (f_pathid f)))
     else bulk cl (write_for off body))"

partial_function (option) write_loop ::
  "('s, 'w) client \<Rightarrow> bytes \<Rightarrow> int \<Rightarrow> int \<Rightarrow> ('s, 'w) fstate \<Rightarrow> ((failure + int) \<times> ('s, 'w) fstate) option" where
  "write_loop cl data offset written st =
     (if \<not> written < int (length data) then Some (Inr written, st)
      else
        (let piece = slice_from (slice_to data (written + fc_chunk_size (cl_cfg cl))) written in
         case write_piece cl (offset + written) piece st of
           None \<Rightarrow> None
         | Some (Inl x, st1) \<Rightarrow> Some (Inl x, st1)
         | Some (Inr _, st1) \<Rightarrow> write_loop cl data offset (written + int (length piece)) st1))"

declare write_loop.simps [code]

definition file_write :: "('s, 'w) client \<Rightarrow> bytes \<Rightarrow> int \<Rightarrow> ('s, 'w, int) fop" where
  "file_write cl data offset = bindF (write_loop cl data offset 0) (\<lambda>written.
     bindF (invalidate (offset + written) False) (\<lambda>_. retF written))"

fun write_batches_loop :: "write_chunk list \<Rightarrow> write_chunk list \<Rightarrow> int \<Rightarrow> write_chunk list list" where
  "write_batches_loop [] batch tot = (if batch \<noteq> [] then [batch] else [])"
| "write_batches_loop (ch # rest) batch tot =
     (if batch \<noteq> [] \<and> (int (length batch) \<ge> READV_MAX_CHUNKS \<or> tot + int (length (wc_data ch)) > READV_MAX_BYTES)
      then batch # write_batches_loop rest [ch] (int (length (wc_data ch)))
      else write_batches_loop rest (batch @ [ch]) (tot + int (length (wc_data ch))))"

definition write_batches :: "write_chunk list \<Rightarrow> write_chunk list list" where
  "write_batches chunks = write_batches_loop chunks [] 0"

fun writev_batches :: "('s, 'w) client \<Rightarrow> bool \<Rightarrow> write_chunk list list \<Rightarrow> int \<Rightarrow> int \<Rightarrow> ('s, 'w, int \<times> int) fop" where
  "writev_batches cl sync [] tot high = retF (tot, high)"
| "writev_batches cl sync (b # bs) tot high =
     bindF file_handle (\<lambda>h.
     bindF (run_request cl (new_WriteV (map (\<lambda>ch. (h, wc_offset ch, wc_data ch)) b) sync)) (\<lambda>_.
       writev_batches cl sync bs (foldl (\<lambda>t ch. t + int (length (wc_data ch))) tot b)
         (foldl (\<lambda>m ch. max m (wc_offset ch + int (length (wc_data ch)))) high b)))"

definition file_writev :: "('s, 'w) client \<Rightarrow> write_chunk list \<Rightarrow> bool \<Rightarrow> ('s, 'w, int) fop" where
  "file_writev cl items sync =
     (if items = [] then retF 0
      else bindF (getsF f_checkpoint) (\<lambda>ck.
        if ck then raiseF (Raised (ServerError UnsupportedError 3013 (lit ''kXR_writev cannot be checkpointed'') None))
        else bindF (writev_batches cl sync (write_batches items) 0 0) (\<lambda>(tot, high).
          bindF (invalidate high False) (\<lambda>_. retF tot))))"

definition file_pgwrite :: "('s, 'w) client \<Rightarrow> bytes \<Rightarrow> int \<Rightarrow> ('s, 'w, int) fop" where
  "file_pgwrite cl data offset =
     (if data = [] then retF 0
      else bindF file_handle (\<lambda>h. bindF (getsF f_pathid) (\<lambda>pid.
        bindF (file_submit cl (new_PgWrite h offset (pack_pages (cl_accel cl) data offset) False pid)) (\<lambda>_.
        bindF (invalidate (offset + int (length data)) False) (\<lambda>_. retF (int (length data)))))))"

definition file_truncate :: "('s, 'w) client \<Rightarrow> int \<Rightarrow> ('s, 'w, int) fop" where
  "file_truncate cl sz = bindF file_handle (\<lambda>h.
     bindF (file_submit cl (Truncate [] sz h)) (\<lambda>_. bindF (invalidate sz True) (\<lambda>_. retF sz)))"

definition file_sync :: "('s, 'w) client \<Rightarrow> ('s, 'w, unit) fop" where
  "file_sync cl = bindF file_handle (\<lambda>h. bindF (run_request cl (Sync h)) (\<lambda>_. retF ()))"

section \<open>Cloning\<close>

text \<open>
  \<^verbatim>\<open>target.clone(source, ranges)\<close> works on two different \<^verbatim>\<open>File\<close> objects, so its state has the source
  beside the rest.
\<close>

definition CLONE_MAX_RANGES :: nat where "CLONE_MAX_RANGES = 1024"

definition on_source :: "('s, 'w, 'a) fop \<Rightarrow> ('s rfile \<times> ('s, 'w) fstate, 'a) comp" where
  "on_source m pst = (case pst of (src, st) \<Rightarrow>
     case m (st\<lparr>fs_file := src\<rparr>) of
       None \<Rightarrow> None | Some (r, st1) \<Rightarrow> Some (r, fs_file st1, st1\<lparr>fs_file := fs_file st\<rparr>))"

definition on_target :: "('s, 'w, 'a) fop \<Rightarrow> ('s rfile \<times> ('s, 'w) fstate, 'a) comp" where
  "on_target m pst = (case pst of (src, st) \<Rightarrow>
     case m st of None \<Rightarrow> None | Some (r, st1) \<Rightarrow> Some (r, src, st1))"

fun clone_ranges :: "clone_range list \<Rightarrow> exn + clone_range list" where
  "clone_ranges [] = Inr []"
| "clone_ranges (r # rs) =
     (if cr_offset r < 0 \<or> cr_length r < 0 \<or> cr_destination r < 0
      then Inl (ValueError ''a clone range is two offsets and a length'')
      else bindE (clone_ranges rs) (\<lambda>qs. Inr (r # qs)))"

function clone_groups :: "'a list \<Rightarrow> 'a list list" where
  "clone_groups xs = (if xs = [] then [] else take CLONE_MAX_RANGES xs # clone_groups (drop CLONE_MAX_RANGES xs))"
  by pat_completeness auto
termination
  by (relation "measure length") (auto simp: CLONE_MAX_RANGES_def)

declare clone_groups.simps [simp del]

fun clone_refused :: "failure \<Rightarrow> failure" where
  "clone_refused (Raised (ServerError c code m p)) =
     (if code \<noteq> 3006 then Raised (ServerError c code m p)
      else Raised (ServerError UnsupportedError 3013 (lit ''does not implement kXR_clone'') None))"
| "clone_refused x = x"

fun clone_batches ::
  "('s, 'w) client \<Rightarrow> bytes \<Rightarrow> (bytes \<times> int \<times> int \<times> int) list list \<Rightarrow> int \<Rightarrow> int \<Rightarrow> ('s, 'w, int \<times> int) fop" where
  "clone_batches cl target [] tot high = retF (tot, high)"
| "clone_batches cl target (b # bs) tot high =
     bindF (catchF (run_request cl (Clone target b)) (\<lambda>x. raiseF (clone_refused x))) (\<lambda>_.
       clone_batches cl target bs (foldl (\<lambda>t (_, _, len, _). t + len) tot b)
         (foldl (\<lambda>m (_, _, len, to). max m (to + len)) high b))"

definition file_clone ::
  "('s, 'w) client \<Rightarrow> clone_range list option \<Rightarrow> ('s rfile \<times> ('s, 'w) fstate, int) comp" where
  "file_clone cl ranges =
     bindF (on_target file_handle) (\<lambda>target. bindF (on_source file_handle) (\<lambda>origin.
     bindF (on_source (the_session cl)) (\<lambda>s. bindF (on_target (the_session cl)) (\<lambda>t.
       if s \<noteq> t then raiseF (Raised (ValueError ''open on different connections''))
       else bindF (on_target (getsF f_checkpoint)) (\<lambda>ck.
         if ck then raiseF (Raised (ServerError UnsupportedError 3013 (lit ''kXR_clone cannot be checkpointed'') None))
         else bindF (case ranges of
                 None \<Rightarrow> bindF (on_source (file_size cl)) (\<lambda>n.
                   retF [\<lparr>cr_offset = 0, cr_length = n, cr_target_offset = None\<rparr>])
               | Some rs \<Rightarrow> liftF (clone_ranges rs)) (\<lambda>wanted.
           bindF (on_target (clone_batches cl target
                    (clone_groups (map (\<lambda>r. (origin, cr_offset r, cr_length r, cr_destination r))
                       (filter (\<lambda>r. cr_length r \<noteq> 0) wanted))) 0 0)) (\<lambda>(tot, high).
           bindF (if tot \<noteq> 0 then on_target (invalidate high False) else retF ()) (\<lambda>_. retF tot))))))))"

section \<open>Extended attributes\<close>

fun first_value :: "fattr_item list \<Rightarrow> bytes option" where
  "first_value [] = None"
| "first_value (i # is) = (case fi_value i of
     Some v \<Rightarrow> if fi_code i = 0 then Some v else first_value is | None \<Rightarrow> first_value is)"

definition getxattr :: "('s, 'w) client \<Rightarrow> str \<Rightarrow> ('s, 'w, bytes) fop" where
  "getxattr cl name =
     bindF (file_execute cl (\<lambda>f h. Fattr_get [] name h)) (\<lambda>result.
     bindF (liftF (parse_fattr (res_data result) True)) (\<lambda>fr.
       case first_value (fr_items fr) of None \<Rightarrow> raiseF KeyError | Some v \<Rightarrow> retF v))"

definition setxattr :: "('s, 'w) client \<Rightarrow> str \<Rightarrow> bytes \<Rightarrow> ('s, 'w, unit) fop" where
  "setxattr cl name value = bindF file_handle (\<lambda>h.
     bindF (liftF (Fattr_set [] name value False h)) (\<lambda>req. bindF (run_request cl req) (\<lambda>_. retF ())))"

definition listxattr :: "('s, 'w) client \<Rightarrow> ('s, 'w, str list) fop" where
  "listxattr cl =
     bindF (file_execute cl (\<lambda>f h. Fattr_list [] False h False)) (\<lambda>result.
     bindF (liftF (parse_fattr (res_data result) False)) (\<lambda>fr. retF (map fi_name (fr_items fr))))"

definition removexattr :: "('s, 'w) client \<Rightarrow> str \<Rightarrow> ('s, 'w, unit) fop" where
  "removexattr cl name = bindF file_handle (\<lambda>h.
     bindF (liftF (Fattr_delete [] name h)) (\<lambda>req. bindF (run_request cl req) (\<lambda>_. retF ())))"

section \<open>Checkpoints\<close>

definition run_chkpoint :: "('s, 'w) client \<Rightarrow> int \<Rightarrow> ('s, 'w, result) fop" where
  "run_chkpoint cl subcode = bindF file_handle (\<lambda>h. run_request cl (ChkPoint h subcode [] []))"

text \<open>\<^verbatim>\<open>with fh.checkpoint(): body\<close>.\<close>

definition file_checkpoint :: "('s, 'w) client \<Rightarrow> ('s, 'w, 'a) fop \<Rightarrow> ('s, 'w, 'a) fop" where
  "file_checkpoint cl body = bindF (getsF f_checkpoint) (\<lambda>ck.
     if ck then raiseF (Raised (ServerError UnsupportedError 3013 (lit ''already has a checkpoint open'') None))
     else bindF (run_chkpoint cl kXR_ckpBegin) (\<lambda>_.
       bindF (modifyF (f_checkpoint_update (\<lambda>_. True))) (\<lambda>_.
       bindF (catchF body (\<lambda>x.
           bindF (modifyF (f_checkpoint_update (\<lambda>_. False))) (\<lambda>_.
           bindF (run_chkpoint cl kXR_ckpRollback) (\<lambda>_.
           bindF (modifyF (f_stat_update (\<lambda>_. None))) (\<lambda>_. raiseF x))))) (\<lambda>a.
       bindF (modifyF (f_checkpoint_update (\<lambda>_. False))) (\<lambda>_.
       bindF (run_chkpoint cl kXR_ckpCommit) (\<lambda>_. retF a))))))"

definition checkpoint_query :: "('s, 'w) client \<Rightarrow> ('s, 'w, checkpoint_info) fop" where
  "checkpoint_query cl = bindF (run_chkpoint cl kXR_ckpQuery) (\<lambda>result. liftF (parse_checkpoint (res_data result)))"

section \<open>Files over drivers\<close>

definition fleet_arriving ::
  "'w io \<Rightarrow> 'c env \<Rightarrow> int \<Rightarrow> nat \<Rightarrow> request \<Rightarrow> ('c, 'w) fleet \<Rightarrow> ((failure + result) \<times> ('c, 'w) fleet) option" where
  "fleet_arriving io ev limit s req fl =
     (let fl1 = fl\<lparr>fl_log := fl_log fl @ [(s, req)]\<rparr> in
      case map_of (fl_sessions fl) s of
        None \<Rightarrow> Some (Inl KeyError, fl1)
      | Some d \<Rightarrow>
          (case execute io ev limit req [] False True (d\<lparr>dr_world := fl_world fl\<rparr>) of
             None \<Rightarrow> None
           | Some (Inl (x, d')) \<Rightarrow> Some (Inl x, put_driver s d' fl1)
           | Some (Inr (r, d')) \<Rightarrow> Some (Inr r, put_driver s d' fl1)))"

definition fleet_bind ::
  "'w io \<Rightarrow> 'c env \<Rightarrow> session_config \<Rightarrow> nat \<Rightarrow> ('c, 'w) fleet \<Rightarrow> ((failure + int) \<times> ('c, 'w) fleet) option" where
  "fleet_bind io ev cfg s fl =
     (case map_of (fl_sessions fl) s of
        None \<Rightarrow> Some (Inl KeyError, fl)
      | Some d \<Rightarrow>
          (case bind_data_path io ev cfg (d\<lparr>dr_world := fl_world fl\<rparr>) of
             None \<Rightarrow> None
           | Some (Inl (x, d')) \<Rightarrow> Some (Inl x, put_driver s d' fl)
           | Some (Inr (p, d')) \<Rightarrow> Some (Inr p, put_driver s d' fl)))"

definition fleet_client ::
  "'w io \<Rightarrow> 'c env \<Rightarrow> session_config \<Rightarrow> int \<Rightarrow> ('w \<Rightarrow> real \<times> 'w) \<Rightarrow> file_config \<Rightarrow> accel
     \<Rightarrow> (nat, ('c, 'w) fleet) client" where
  "fleet_client io ev scfg limit clock cfg accel =
     \<lparr>cl_net = fleet_net io ev scfg limit clock, cl_cfg = cfg, cl_arriving = fleet_arriving io ev limit,
      cl_arrives = (\<lambda>s fl. case map_of (fl_sessions fl) s of None \<Rightarrow> None | Some d \<Rightarrow> dr_arrives d),
      cl_bind = fleet_bind io ev scfg, cl_accel = accel\<rparr>"

end
