(* ===== verification/Driver_Bringup.thy ===== *)
theory Driver_Bringup
  imports Session_Driver
begin

text \<open>
  What a caller of \<^verbatim>\<open>Session.connect\<close> (\<^verbatim>\<open>src/src/xrd/session/sync.py\<close>) gets. The TLS policy of the
  machine (\<open>secure\<close>) is about a flag; here it is followed down to the socket. The locale
  \<open>tls_transport\<close> is what the driver needs of a transport: a successful \<^verbatim>\<open>start_tls\<close> makes it
  encrypted, and sending and receiving never undo that. \<open>sealed\<close> says that a machine believes
  its link to be encrypted only when it is; every turn of the bring-up loop keeps it.
\<close>

section \<open>Two flags no link can change\<close>

interpretation tls_flag: inbound_preserved ev "\<lambda>m. tls_active m = b" for ev :: "'c env" and b
proof
  show "tls_active m = b \<Longrightarrow> mstate m \<in> bringup_states \<Longrightarrow> tls_active (final (bringup ev rh body m)) = b"
    for m :: "'c machine" and rh body
    using bringup_keeps [of m ev rh body] by (simp add: keeps_def)
qed (simp_all add: data_to_send_def on_eof_def)

interpretation tls_wish: inbound_preserved ev "\<lambda>m. want_tls m = b" for ev :: "'c env" and b
proof
  show "want_tls m = b \<Longrightarrow> mstate m \<in> bringup_states \<Longrightarrow> want_tls (final (bringup ev rh body m)) = b"
    for m :: "'c machine" and rh body
    using bringup_keeps [of m ev rh body] by (simp add: keeps_def)
qed (simp_all add: data_to_send_def on_eof_def)

lemma tls_established_flags:
  "want_tls (final (tls_established ev m)) = want_tls m"
  using begin_login_keeps [of "m\<lparr>tls_active := True\<rparr>" ev]
  by (auto simp: tls_established_def keeps_def)

lemma start_flags: "want_tls (final (start m)) = want_tls m" "tls_active (final (start m)) = tls_active m"
  by (cases rule: start_cases [of m]; simp)+

section \<open>Encrypted transports\<close>

locale tls_transport =
  fixes io :: "'w io" and encrypted :: "nat \<Rightarrow> 'w \<Rightarrow> bool"
  assumes start_tls_encrypts: "io_start_tls io t hostname w = (None, w') \<Longrightarrow> encrypted t w'"
    and send_encrypted: "encrypted t w \<Longrightarrow> io_send io s data w = (r, w') \<Longrightarrow> encrypted t w'"
    and receive_encrypted: "encrypted t w \<Longrightarrow> io_receive io s w = (r', w') \<Longrightarrow> encrypted t w'"

definition sealed :: "(nat \<Rightarrow> 'w \<Rightarrow> bool) \<Rightarrow> bool \<Rightarrow> ('c, 'w) driver \<Rightarrow> bool" where
  "sealed encrypted want d \<longleftrightarrow> (tls_active (dr_m d) \<longrightarrow> encrypted (dr_t d) (dr_world d))
     \<and> secure (dr_m d) \<and> want_tls (dr_m d) = want"

context tls_transport
begin

lemma transmit_sealed:
  "sealed encrypted want d \<Longrightarrow> transmit io t data d = Inr d' \<Longrightarrow> sealed encrypted want d'"
  by (auto simp: transmit_def sealed_def dest: send_encrypted split: prod.splits option.splits)

lemma drain_sealed:
  "sealed encrypted want d \<Longrightarrow> sealed encrypted want (d\<lparr>dr_m := snd (data_to_send (dr_m d))\<rparr>)"
  "sealed encrypted want d \<Longrightarrow> sealed encrypted want (d\<lparr>dr_m := snd (path_data_to_send p (dr_m d))\<rparr>)"
  by (simp_all add: sealed_def data_to_send_def path_data_to_send_def)

lemma flush_paths_sealed:
  "sealed encrypted want d \<Longrightarrow> flush_paths io ps d = Inr d' \<Longrightarrow> sealed encrypted want d'"
proof (induction ps arbitrary: d)
  case (Cons pt ps)
  from Cons.prems(2) obtain d1 where d1: "d1 = d\<lparr>dr_m := snd (path_data_to_send (fst pt) (dr_m d))\<rparr>
      \<or> (\<exists>q. transmit io (snd pt) q (d\<lparr>dr_m := snd (path_data_to_send (fst pt) (dr_m d))\<rparr>) = Inr d1)"
    and rest: "flush_paths io ps d1 = Inr d'" by (rule flush_paths_Inr)
  from d1 drain_sealed(2) [OF Cons.prems(1)] transmit_sealed have "sealed encrypted want d1" by blast
  then show ?case using rest by (rule Cons.IH)
qed simp

lemma flush_sealed: "flush io d = Inr d' \<Longrightarrow> sealed encrypted want d \<Longrightarrow> sealed encrypted want d'"
  by (erule flush_Inr) (blast intro: drain_sealed(1) transmit_sealed flush_paths_sealed)

lemma pump_sealed:
  assumes "sealed encrypted want d" "pump io ev p d = Inr (es, d1)"
  shows "sealed encrypted want d1"
  using assms(2)
proof (rule pump_Inr)
  fix d0 t data w m
  assume d0: "flush io d = Inr d0" and recv: "io_receive io t (dr_world d0) = (Inr data, w)"
    and m: "receive_data ev data p (dr_m d0) = Inr m" and d1: "d1 = d0\<lparr>dr_world := w, dr_m := m\<lparr>events := []\<rparr>\<rparr>"
  note s0 = flush_sealed [OF d0 assms(1)]
  have "tls_active m = tls_active (dr_m d0)" "want_tls m = want_tls (dr_m d0)"
    using tls_flag.inv_receive [of "dr_m d0" "tls_active (dr_m d0)" ev data p]
      tls_wish.inv_receive [of "dr_m d0" "want_tls (dr_m d0)" ev data p] m by simp_all
  moreover have "secure (dr_m d0) \<Longrightarrow> secure m" using tls.inv_receive [of "dr_m d0" ev data p] m by simp
  ultimately show ?thesis using s0 receive_encrypted [OF _ recv] by (simp add: sealed_def d1)
qed

lemma bringup_events_sealed:
  "bringup_events io ev es d = Inr d' \<Longrightarrow> sealed encrypted want d \<Longrightarrow> sealed encrypted want d'"
proof (induction es arbitrary: d)
  case (Cons e es)
  show ?case
  proof (cases e)
    case (NeedTLS reason)
    with Cons.prems(1) obtain d1 where d1: "flush io d = Inr d1"
      by (cases "flush io d") auto
    obtain x w where w0: "io_start_tls io (dr_t d1) (host (dr_m d1)) (dr_world d1) = (x, w)" by fastforce
    with NeedTLS Cons.prems(1) d1 have w: "io_start_tls io (dr_t d1) (host (dr_m d1)) (dr_world d1) = (None, w)"
      by (cases x) auto
    with NeedTLS Cons.prems(1) d1 obtain m where m: "tls_established ev (dr_m d1) = Inr m"
      and rest: "bringup_events io ev es (d1\<lparr>dr_world := w, dr_m := m\<rparr>) = Inr d'"
      by (cases "tls_established ev (dr_m d1)") auto
    have "sealed encrypted want (d1\<lparr>dr_world := w, dr_m := m\<rparr>)"
      using flush_sealed [OF d1 Cons.prems(2)] tls.inv_tls [of "dr_m d1" ev] start_tls_encrypts [OF w]
        tls_established_flags [of ev "dr_m d1"] m by (simp add: sealed_def)
    with rest show ?thesis by (rule Cons.IH)
  qed (use Cons in auto)
qed simp

lemma bring_up_sealed:
  fixes ev :: "'c env"
  assumes "bring_up io ev d = Some (Inr d')" "sealed encrypted want d"
  shows "sealed encrypted want d' \<and> mstate (dr_m d') = READY"
proof -
  let ?P = "\<lambda>(io' :: 'w io) (ev :: 'c env) (d :: ('c, 'w) driver)
    (r :: (failure \<times> ('c, 'w) driver) + ('c, 'w) driver). io' = io \<and> sealed encrypted want d \<longrightarrow>
    (\<forall>d'. r = Inr d' \<longrightarrow> sealed encrypted want d' \<and> mstate (dr_m d') = READY)"
  have "?P io ev d (Inr d')"
  proof (rule bring_up.raw_induct [where P = ?P, OF _ assms(1)])
    fix f io' ev d r
    assume IH: "\<And>io' ev d r. f io' ev d = Some r \<Longrightarrow> ?P io' ev d r"
      and body: "(if mstate (dr_m d) \<in> {READY, FAILED, CLOSED} then
        Some (if mstate (dr_m d) \<noteq> READY
              then Inl (Raised (XrdConnectionError ''bring-up ended in another state''), d) else Inr d)
      else
        (case bindE (pump io' ev 0 d) (\<lambda>(es, d1). bringup_events io' ev es d1) of
           Inl x \<Rightarrow> Some (Inl x)
         | Inr d2 \<Rightarrow> f io' ev d2)) = Some r"
    show "?P io' ev d r"
    proof (intro impI allI, elim conjE)
      fix d'
      assume r: "r = Inr d'" and io: "io' = io" and s: "sealed encrypted want d"
      show "sealed encrypted want d' \<and> mstate (dr_m d') = READY"
      proof (cases "mstate (dr_m d) \<in> {READY, FAILED, CLOSED}")
        case True
        with body r s show ?thesis by (auto split: if_splits)
      next
        case False
        with body r io obtain es d1 d2 where p: "pump io ev 0 d = Inr (es, d1)"
          and b: "bringup_events io ev es d1 = Inr d2" and f: "f io ev d2 = Some r"
          by (auto simp: bindE_eq_Inr split: if_splits sum.split_asm)
        from IH [OF f] bringup_events_sealed [OF b pump_sealed [OF s p]] r show ?thesis by simp
      qed
    qed
  qed
  with assms(2) show ?thesis by simp
qed

end

text \<open>A pipe is encrypted once its \<^verbatim>\<open>tls_started\<close> is set; \<open>dial\<close> says which ends dialling hands out.\<close>

definition mem_encrypted :: "nat \<Rightarrow> memory \<Rightarrow> bool" where
  "mem_encrypted t w \<longleftrightarrow> (case map_of (mem_ends w) t of None \<Rightarrow> False | Some e \<Rightarrow> me_tls e)"

lemma mem_encrypted_put [simp]:
  "mem_encrypted t (put_queue q c w) = mem_encrypted t w"
  "mem_encrypted t (put_end s e w) = (if t = s then me_tls e else mem_encrypted t w)"
  by (simp_all add: mem_encrypted_def put_queue_def put_end_def update_conv)

interpretation piped: tls_transport "memory_io\<lparr>io_connect := dial\<rparr>" mem_encrypted for dial
proof unfold_locales
  fix t hostname w w'
  assume "io_start_tls (memory_io\<lparr>io_connect := dial\<rparr>) t hostname w = (None, w')"
  then have "t \<in> keys (mem_ends w)" and w': "w' = mem_start_tls t w"
    by (auto simp: memory_io_def split: if_splits)
  then obtain e where "map_of (mem_ends w) t = Some e" by (metis map_of_None_keys not_None_eq)
  with w' show "mem_encrypted t w'" by (simp add: mem_start_tls_def)
next
  fix t w s data r w'
  assume "mem_encrypted t w" "io_send (memory_io\<lparr>io_connect := dial\<rparr>) s data w = (r, w')"
  then show "mem_encrypted t w'" by (auto simp: memory_io_def mem_send_def split: option.splits if_splits)
next
  fix t w s r w'
  assume "mem_encrypted t w" "io_receive (memory_io\<lparr>io_connect := dial\<rparr>) s w = (r, w')"
  then show "mem_encrypted t w'"
    by (auto simp: memory_io_def mem_receive_def split: prod.splits option.splits list.splits if_splits)
qed

section \<open>Properties\<close>

text \<open>
  C36. A session handed out is up and, when it had to be, encrypted. Whenever
  \<^verbatim>\<open>Session.connect\<close> returns, the machine is ready; and if the URL or the configuration asked for
  TLS, or the server's answer demanded it, the transport under the session has completed its TLS
  upgrade and every byte since then went through it.
\<close>

theorem connected_means_secured:
  fixes ev :: "'c env"
  assumes "tls_transport io encrypted"
    and "connect io ev cfg t_host t_port t_username t_use_tls user w = Some (Inr d)"
  shows "mstate (dr_m d) = READY
    \<and> (t_use_tls \<or> sc_require_tls cfg \<or> tls_demanded (proto_info (dr_m d)) \<longrightarrow>
        tls_active (dr_m d) \<and> encrypted (dr_t d) (dr_world d))"
proof -
  let ?want = "t_use_tls \<or> sc_require_tls cfg"
  let ?user = "if user \<noteq> [] then user else if t_username \<noteq> [] then t_username else sc_username cfg"
  let ?new = "SessionMachine t_host t_port (sc_wait_cap cfg) (sc_username cfg) (sc_require_tls cfg) ?user ?want [] None :: 'c machine"
  from assms(2) obtain t w1 where "bring_up_on io ev t ?new w1 = Some (Inr d)"
    unfolding connect_def by (auto split: prod.split_asm sum.split_asm)
  then obtain m1 where m1: "start ?new = Inr m1" and up: "bring_up io ev (Session t m1 w1) = Some (Inr d)"
    unfolding bring_up_on_def by (auto split: sum.split_asm option.split_asm)
  have "secure m1" using tls.inv_start [of ?new] tls.inv_init m1 by (metis final_simps(2))
  moreover have "want_tls m1 = ?want \<and> \<not> tls_active m1"
    using start_flags [of ?new] unfolding m1 final_simps by (simp add: SessionMachine_def)
  ultimately have "sealed encrypted ?want (Session t m1 w1)" by (simp add: sealed_def Session_def)
  from tls_transport.bring_up_sealed [OF assms(1) up this]
  show ?thesis by (auto simp: sealed_def secure_def tls_required_def)
qed

definition sample_cfg :: session_config where
  "sample_cfg = \<lparr>sc_wait_cap = 60, sc_username = lit ''user'', sc_require_tls = False, sc_data_stream_timeout = 5\<rparr>"

definition dialled :: "memory io" where
  "dialled = memory_io\<lparr>io_connect := (\<lambda>_ _ w. (Inr 0, w))\<rparr>"

definition greeting_pipe :: memory where
  "greeting_pipe = \<lparr>mem_queues = [(0, [sample_protocol_reply True, response_frame 2 kXR_ok (replicate 16 9)]), (1, [])],
     mem_ends = [(0, \<lparr>me_rx = 0, me_tx = 1, me_closed = False, me_tls = False\<rparr>)]\<rparr>"

theorem connected_means_secured_witness:
  "\<exists>d. connect dialled sample_env sample_cfg (lit ''host'') 1094 [] True [] greeting_pipe = Some (Inr d)
     \<and> mstate (dr_m d) = READY \<and> mem_encrypted (dr_t d) (dr_world d)"
proof -
  let ?c = "connect dialled sample_env sample_cfg (lit ''host'') 1094 [] True [] greeting_pipe"
  have "case ?c of Some (Inr _) \<Rightarrow> True | _ \<Rightarrow> False" by code_simp
  then obtain d where d: "?c = Some (Inr d)" by (auto split: option.splits sum.splits)
  have "tls_transport dialled mem_encrypted" unfolding dialled_def by (rule piped.tls_transport_axioms)
  from connected_means_secured [OF this d] d show ?thesis by blast
qed

end
