(* ===== verification/Router_Properties.thy ===== *)
theory Router_Properties
  imports Session_Router Driver_Bringup
begin

text \<open>
  What a router does with connections and how often it tries. \<open>identity_ok\<close> ties
  \<^verbatim>\<open>src/src/xrd/session/router.py\<close> to the pool: the session a router holds was opened for the URL it
  has, so that it goes back to the pool under the key it logged in with, which is the
  assumption under which the pool keeps people apart.
\<close>

section \<open>Whose connection it is\<close>

definition pool_owned :: "('s \<Rightarrow> key) \<Rightarrow> 's pool \<Rightarrow> bool" where
  "pool_owned owner pool \<longleftrightarrow> pool_wf pool \<and> (\<forall>(k, s) \<in># pool_entries pool. owner s = k)"

definition identity_ok :: "('s \<Rightarrow> key) \<Rightarrow> router_config \<Rightarrow> ('s, 'w) rstate \<Rightarrow> bool" where
  "identity_ok owner cfg st \<longleftrightarrow> pool_owned owner (rs_pool st)
     \<and> (\<forall>s. rt_session (rs_router st) = Some s \<longrightarrow> owner s = rc_key cfg (rt_url (rs_router st)))"

lemma pool_take_owned:
  assumes "pool_take net cfg url pool w = (found, pool', w')" "pool_owned owner pool"
  shows "pool_owned owner pool' \<and> (\<forall>s. found = Some s \<longrightarrow> owner s = rc_key cfg url)"
proof -
  from assms(1) obtain now w1 stale where
    a: "acquire (\<lambda>s. net_closed net s w1) now (rc_key cfg url) (rc_pool cfg) pool = (found, stale, pool')"
    by (auto simp: pool_take_def split: prod.splits)
  have wf: "pool_wf pool" and own: "\<forall>(k, s) \<in># pool_entries pool. owner s = k"
    using assms(2) by (simp_all add: pool_owned_def)
  note e = idle.take_entries [OF wf a]
  have "pool_entries pool' \<subseteq># pool_entries pool"
    using e by (meson mset_subset_eq_add_left subset_mset.order_trans)
  then have "\<forall>(k, s) \<in># pool_entries pool'. owner s = k" using own by (meson mset_subset_eqD)
  moreover have "owner s = rc_key cfg url" if "found = Some s" for s
  proof -
    have "(rc_key cfg url, s) \<in># pool_entries pool" using e that by (auto dest: mset_subset_eqD)
    then show ?thesis using own by auto
  qed
  ultimately show ?thesis using idle.take_wf [OF wf a] by (simp add: pool_owned_def)
qed

lemma pool_give_owned:
  assumes "pool_give net cfg s url pool w = (kept, pool', w')" "pool_owned owner pool" "owner s = rc_key cfg url"
  shows "pool_owned owner pool'"
proof -
  from assms(1) obtain now later w2 dead where
    a: "pool_release (\<lambda>s. net_closed net s w2) now later s (rc_key cfg url) (rc_pool cfg) pool = (kept, dead, pool')"
    by (auto simp: pool_give_def split: prod.splits)
  have wf: "pool_wf pool" and own: "\<forall>(k, s) \<in># pool_entries pool. owner s = k"
    using assms(2) by (simp_all add: pool_owned_def)
  have sub: "pool_entries pool' \<subseteq># pool_entries pool + (if kept then {#(rc_key cfg url, s)#} else {#})"
    using idle.give_entries [OF wf a] by (metis mset_subset_eq_add_left)
  have "owner s' = k" if "(k, s') \<in># pool_entries pool'" for k s'
    using mset_subset_eqD [OF sub that] own assms(3) by (auto split: if_splits)
  then show ?thesis using idle.give_wf [OF wf a] by (auto simp: pool_owned_def)
qed

text \<open>How a router comes by its session.\<close>

lemma use_session_cases:
  assumes "use_session net cfg st = Some (r, st')"
  obtains (same) "st' = st"
  | (pooled) s w w2 pool' where "pool_take net cfg (rt_url (rs_router st)) (rs_pool st) w = (Some s, pool', w2)"
      "st' = \<lparr>rs_router = (rs_router st)\<lparr>rt_owns := True, rt_session := Some s\<rparr>, rs_pool = pool', rs_world = w2\<rparr>"
  | (refused) w w2 w3 pool' x where "pool_take net cfg (rt_url (rs_router st)) (rs_pool st) w = (None, pool', w2)"
      "net_connect net (rt_url (rs_router st)) w2 = Some (Inl x, w3)"
      "st' = \<lparr>rs_router = (rs_router st)\<lparr>rt_owns := True\<rparr>, rs_pool = pool', rs_world = w3\<rparr>"
  | (dialled) s w w2 w3 pool' where "pool_take net cfg (rt_url (rs_router st)) (rs_pool st) w = (None, pool', w2)"
      "net_connect net (rt_url (rs_router st)) w2 = Some (Inr s, w3)"
      "st' = \<lparr>rs_router = (rs_router st)\<lparr>rt_owns := True, rt_session := Some s\<rparr>, rs_pool = pool', rs_world = w3\<rparr>"
proof -
  let ?r = "rs_router st"
  define w where "w = (case rt_session ?r of None \<Rightarrow> rs_world st | Some s \<Rightarrow> net_close net s (rs_world st))"
  obtain found pool' w2 where t: "pool_take net cfg (rt_url ?r) (rs_pool st) w = (found, pool', w2)"
    by (cases "pool_take net cfg (rt_url ?r) (rs_pool st) w") auto
  show thesis
  proof (cases "connected net st \<or> rt_session ?r \<noteq> None \<and> \<not> rt_reconnect ?r")
    case True
    with assms show thesis by (intro same) (auto simp: use_session_def Let_def split: if_splits)
  next
    case False
    then have eq: "use_session net cfg st = (case found of
        Some s \<Rightarrow> Some (Inr s, \<lparr>rs_router = ?r\<lparr>rt_owns := True, rt_session := Some s\<rparr>, rs_pool = pool', rs_world = w2\<rparr>)
      | None \<Rightarrow> (case net_connect net (rt_url ?r) w2 of None \<Rightarrow> None
          | Some (Inl x, w3) \<Rightarrow> Some (Inl x, \<lparr>rs_router = ?r\<lparr>rt_owns := True\<rparr>, rs_pool = pool', rs_world = w3\<rparr>)
          | Some (Inr s, w3) \<Rightarrow>
              Some (Inr s, \<lparr>rs_router = ?r\<lparr>rt_owns := True, rt_session := Some s\<rparr>, rs_pool = pool', rs_world = w3\<rparr>)))"
      using t unfolding use_session_def Let_def w_def [symmetric] by (auto split: option.split)
    show thesis
    proof (cases found)
      case (Some s)
      with t assms eq show thesis by (intro pooled [of w s pool' w2]) simp_all
    next
      case None
      with assms eq obtain y w3 where c: "net_connect net (rt_url ?r) w2 = Some (y, w3)"
        by (cases "net_connect net (rt_url ?r) w2") auto
      show thesis
      proof (cases y)
        case (Inl x)
        with None c t assms eq show thesis by (intro refused [of w pool' w2 x w3]) simp_all
      next
        case (Inr s)
        with None c t assms eq show thesis by (intro dialled [of w pool' w2 s w3]) simp_all
      qed
    qed
  qed
qed

lemma use_session_identity:
  assumes "use_session net cfg st = Some (r, st')" "identity_ok owner cfg st"
    and "\<And>u w s w'. net_connect net u w = Some (Inr s, w') \<Longrightarrow> owner s = rc_key cfg u"
  shows "identity_ok owner cfg st' \<and> rt_url (rs_router st') = rt_url (rs_router st)"
  using assms(1)
proof (cases rule: use_session_cases)
  case (pooled s w w2 pool')
  with assms(2) pool_take_owned [OF pooled(1), of owner] show ?thesis by (simp add: identity_ok_def)
next
  case (refused w w2 w3 pool' x)
  with assms(2) pool_take_owned [OF refused(1), of owner] show ?thesis by (simp add: identity_ok_def)
next
  case (dialled s w w2 w3 pool')
  with assms(2,3) pool_take_owned [OF dialled(1), of owner] show ?thesis by (simp add: identity_ok_def)
qed (use assms in simp)

lemma close_router_identity:
  assumes "identity_ok owner cfg st"
  shows "pool_owned owner (rs_pool (close_router net cfg st))
    \<and> rt_session (rs_router (close_router net cfg st)) = None
    \<and> rt_url (rs_router (close_router net cfg st)) = rt_url (rs_router st)"
proof (cases "rt_session (rs_router st)")
  case (Some s)
  obtain kept pool' w where g: "pool_give net cfg s (rt_url (rs_router st)) (rs_pool st) (rs_world st) = (kept, pool', w)"
    by (cases "pool_give net cfg s (rt_url (rs_router st)) (rs_pool st) (rs_world st)") auto
  with Some assms pool_give_owned [OF g, of owner] show ?thesis
    by (simp add: close_router_def Let_def identity_ok_def)
qed (use assms in \<open>simp add: close_router_def Let_def identity_ok_def\<close>)

lemma drop_router_identity:
  assumes "identity_ok owner cfg st"
  shows "identity_ok owner cfg (drop_router net st) \<and> rt_url (rs_router (drop_router net st)) = rt_url (rs_router st)"
  using assms unfolding drop_router_def by (auto simp: identity_ok_def Let_def split: option.splits)

lemma pause_same [simp]: "rs_router (pause net cfg a st) = rs_router st" "rs_pool (pause net cfg a st) = rs_pool st"
  by (simp_all add: pause_def)

lemma evolve_tls:
  assumes "\<forall>s\<in>set TLS_SCHEMES. low s = s" "use_tls u" "scheme = lit ''roots'' \<or> scheme = u_scheme u"
  shows "use_tls (evolve low scheme h p u)"
proof -
  have "lit ''roots'' \<in> set TLS_SCHEMES" by (simp add: TLS_SCHEMES_def)
  with assms show ?thesis by (auto simp: use_tls_def evolve_def XRootDURL_def)
qed

lemma follow_identity:
  assumes "identity_ok owner cfg st" "\<forall>s\<in>set TLS_SCHEMES. rc_low cfg s = s"
  shows "identity_ok owner cfg (follow net cfg target st)
    \<and> (use_tls (rt_url (rs_router st)) \<longrightarrow> use_tls (rt_url (rs_router (follow net cfg target st))))"
  using close_router_identity [OF assms(1), of net] evolve_tls [OF assms(2)]
  by (simp add: follow_def identity_ok_def Let_def)

lemma on_failure_cases:
  assumes "on_failure net cfg hops attempts req x st = Inr (hops', attempts', req', st')"
  obtains (redirect) target where "x = RedirectRequired target" "hops' = hops + 1" "hops' \<le> rc_redirect_limit cfg"
      "attempts' = attempts" "req' = retarget req (ri_token target)" "st' = follow net cfg target st"
  | (retry) e where "x = Raised e" "is_connection_error e" "hops' = hops" "attempts' = attempts + 1"
      "attempts' \<le> rc_connect_retries cfg" "rq_idempotent (cls req)" "rt_reconnect (rs_router st)"
      "req' = req" "st' = pause net cfg attempts' (drop_router net st)"
proof (cases x)
  case (Raised e)
  show thesis
  proof (cases "\<exists>m a. e = WaitLimitError m a")
    case True
    with assms Raised show thesis by (auto simp: on_failure_def)
  next
    case False
    then have "on_failure net cfg hops attempts req (Raised e) st =
       (if is_connection_error e then
          (if \<not> rt_reconnect (rs_router st) \<or> attempts + 1 > rc_connect_retries cfg \<or> \<not> rq_idempotent (cls req)
           then Inl (Raised (if is_timeout_error e then XrdTimeoutError ''request failed'' (attempts + 1)
                             else TransientError ''request failed'' (attempts + 1)))
           else Inr (hops, attempts + 1, req, pause net cfg (attempts + 1) (drop_router net st)))
        else Inl (Raised e))"
      by (cases e) (simp_all add: on_failure_def)
    with assms Raised show thesis by (intro retry [of e]) (auto split: if_splits)
  qed
next
  case (RedirectRequired target)
  with assms show thesis by (intro redirect [of target]) (simp_all add: on_failure_def split: if_splits)
qed (use assms in \<open>simp_all add: on_failure_def\<close>)

lemma try_once_identity:
  assumes "try_once net cfg req st = Some (r, st')" "identity_ok owner cfg st"
    and "\<And>u w s w'. net_connect net u w = Some (Inr s, w') \<Longrightarrow> owner s = rc_key cfg u"
  shows "identity_ok owner cfg st' \<and> rt_url (rs_router st') = rt_url (rs_router st)"
proof -
  from assms(1) obtain r1 st1 where u: "use_session net cfg st = Some (r1, st1)"
    and st': "st' = st1 \<or> (\<exists>w. st' = st1\<lparr>rs_world := w\<rparr>)"
    by (auto simp: try_once_def split: option.split_asm prod.split_asm sum.split_asm)
  from use_session_identity [OF u assms(2,3)] st' show ?thesis by (auto simp: identity_ok_def)
qed

text \<open>One turn of the loop.\<close>

lemma route_cases:
  assumes "route net cfg hops attempts req st = Some (r, req', st')"
  obtains (ends) x where "try_once net cfg req st = Some (x, st')" "req' = req"
      "(\<exists>a. x = Inr a \<and> r = Inr a) \<or> (\<exists>y z. x = Inl y \<and> r = Inl z)"
  | (turns) x st1 hops1 attempts1 req1 st2 where "try_once net cfg req st = Some (Inl x, st1)"
      "on_failure net cfg hops attempts req x st1 = Inr (hops1, attempts1, req1, st2)"
      "route net cfg hops1 attempts1 req1 st2 = Some (r, req', st')"
proof (cases "try_once net cfg req st")
  case None
  with assms show thesis by (simp add: route.simps)
next
  case (Some y)
  obtain x st1 where y: "y = (x, st1)" by (cases y)
  show thesis
  proof (cases x)
    case (Inr res)
    with Some y assms show thesis by (intro ends [of x]) (auto simp: route.simps)
  next
    case (Inl f)
    show thesis
    proof (cases "on_failure net cfg hops attempts req f st1")
      case (Inl g)
      with Some y \<open>x = Inl f\<close> assms show thesis by (intro ends [of x]) (auto simp: route.simps)
    next
      case (Inr n)
      obtain h a q st2 where n: "n = (h, a, q, st2)" by (cases n) auto
      from Some y \<open>x = Inl f\<close> Inr n assms show thesis
        by (intro turns [of f st1 h a q st2]) (simp_all add: route.simps [of net cfg hops attempts req st])
    qed
  qed
qed

lemma route_identity:
  assumes "\<And>u w s w'. net_connect net u w = Some (Inr s, w') \<Longrightarrow> owner s = rc_key cfg u"
    and "\<forall>s\<in>set TLS_SCHEMES. rc_low cfg s = s"
  shows "route net cfg hops attempts req st = Some (r, req', st') \<Longrightarrow> identity_ok owner cfg st \<Longrightarrow>
    identity_ok owner cfg st' \<and> (use_tls (rt_url (rs_router st)) \<longrightarrow> use_tls (rt_url (rs_router st')))"
proof (induction "nat (rc_redirect_limit cfg - hops) + nat (rc_connect_retries cfg - attempts)"
    arbitrary: hops attempts req st rule: less_induct)
  case less
  from less.prems(1) show ?case
  proof (cases rule: route_cases)
    case (ends x)
    from try_once_identity [OF ends(1) less.prems(2) assms(1)] show ?thesis by simp
  next
    case (turns x st1 hops1 attempts1 req1 st2)
    from try_once_identity [OF turns(1) less.prems(2) assms(1)]
    have st1: "identity_ok owner cfg st1" "rt_url (rs_router st1) = rt_url (rs_router st)" by simp_all
    from turns(2) have "identity_ok owner cfg st2
        \<and> (use_tls (rt_url (rs_router st1)) \<longrightarrow> use_tls (rt_url (rs_router st2)))"
      by (cases rule: on_failure_cases)
        (use follow_identity [OF st1(1) assms(2)] drop_router_identity [OF st1(1)] in \<open>simp_all add: identity_ok_def\<close>)
    with less.hyps [OF on_failure_progress [OF turns(2)] turns(3)] st1 show ?thesis by simp
  qed
qed

section \<open>How often it tries\<close>

text \<open>The kind of a request and whether a router may reconnect stay as they are.\<close>

lemma retarget_idempotent [simp]: "rq_idempotent (cls (retarget req token)) = rq_idempotent (cls req)"
  by (cases req) (simp_all add: retarget_def cls_defs)

lemma close_router_reconnect [simp]: "rt_reconnect (rs_router (close_router net cfg st)) = rt_reconnect (rs_router st)"
  by (simp add: close_router_def Let_def split: option.split prod.split)

lemma follow_reconnect [simp]: "rt_reconnect (rs_router (follow net cfg target st)) = rt_reconnect (rs_router st)"
  by (simp add: follow_def Let_def)

lemma drop_router_reconnect [simp]: "rt_reconnect (rs_router (drop_router net st)) = rt_reconnect (rs_router st)"
  by (simp add: drop_router_def Let_def split: option.split)

lemma use_session_reconnect:
  "use_session net cfg st = Some (r, st') \<Longrightarrow> rt_reconnect (rs_router st') = rt_reconnect (rs_router st)"
  by (elim use_session_cases) simp_all

lemma try_once_reconnect:
  assumes "try_once net cfg req st = Some (r, st')"
  shows "rt_reconnect (rs_router st') = rt_reconnect (rs_router st)"
proof -
  from assms obtain r1 st1 where u: "use_session net cfg st = Some (r1, st1)"
    and "st' = st1 \<or> (\<exists>w. st' = st1\<lparr>rs_world := w\<rparr>)"
    by (auto simp: try_once_def split: option.split_asm prod.split_asm sum.split_asm)
  with use_session_reconnect [OF u] show ?thesis by auto
qed

text \<open>
  What holds of the world as long as no request is run: the locale asks that connecting, closing,
  reading the clock and sleeping keep it.
\<close>

locale net_invariant =
  fixes net :: "('s, 'w) net" and inv :: "'w \<Rightarrow> bool"
  assumes connect_inv: "inv w \<Longrightarrow> net_connect net u w = Some (r, w') \<Longrightarrow> inv w'"
    and close_inv: "inv w \<Longrightarrow> inv (net_close net s w)"
    and clock_inv: "inv w \<Longrightarrow> net_clock net w = (t, w') \<Longrightarrow> inv w'"
    and sleep_inv: "inv w \<Longrightarrow> inv (net_sleep net t w)"
begin

lemma close_many_inv: "inv w \<Longrightarrow> inv (close_many net ss w)"
  by (induction ss arbitrary: w) (simp_all add: close_many_def close_inv)

lemma pool_take_inv:
  assumes "pool_take net cfg url pool w = (found, pool', w')" "inv w"
  shows "inv w'"
proof -
  from assms(1) obtain now w1 stale where c: "net_clock net w = (now, w1)" and "w' = close_many net stale w1"
    by (auto simp: pool_take_def split: prod.splits)
  with close_many_inv clock_inv [OF assms(2) c] show ?thesis by simp
qed

lemma pool_give_inv:
  assumes "pool_give net cfg s url pool w = (kept, pool', w')" "inv w"
  shows "inv w'"
proof -
  from assms(1) obtain now w1 later w2 dead where c: "net_clock net w = (now, w1)" "net_clock net w1 = (later, w2)"
    and "w' = close_many net dead w2"
    by (auto simp: pool_give_def split: prod.splits)
  with close_many_inv clock_inv [OF clock_inv [OF assms(2) c(1)] c(2)] show ?thesis by simp
qed

lemma use_session_inv:
  assumes "use_session net cfg st = Some (r, st')" "inv (rs_world st)"
  shows "inv (rs_world st')"
proof -
  define w where "w = (case rt_session (rs_router st) of None \<Rightarrow> rs_world st | Some s \<Rightarrow> net_close net s (rs_world st))"
  have w: "inv w" using assms(2) by (simp add: w_def close_inv split: option.split)
  obtain found pool' w2 where t: "pool_take net cfg (rt_url (rs_router st)) (rs_pool st) w = (found, pool', w2)"
    by (cases "pool_take net cfg (rt_url (rs_router st)) (rs_pool st) w") auto
  have "rs_world st' = rs_world st \<or> rs_world st' = w2
      \<or> (\<exists>y. net_connect net (rt_url (rs_router st)) w2 = Some (y, rs_world st'))"
    using assms(1) t unfolding use_session_def Let_def w_def [symmetric]
    by (auto split: if_splits option.splits sum.splits)
  with assms(2) pool_take_inv [OF t w] show ?thesis by (auto dest: connect_inv)
qed

lemma close_router_inv:
  assumes "inv (rs_world st)"
  shows "inv (rs_world (close_router net cfg st))"
proof (cases "rt_session (rs_router st)")
  case (Some s)
  obtain kept pool' w where g: "pool_give net cfg s (rt_url (rs_router st)) (rs_pool st) (rs_world st) = (kept, pool', w)"
    by (cases "pool_give net cfg s (rt_url (rs_router st)) (rs_pool st) (rs_world st)") auto
  with Some assms pool_give_inv [OF g] show ?thesis by (simp add: close_router_def Let_def close_inv)
qed (use assms in \<open>simp add: close_router_def Let_def\<close>)

lemma drop_router_inv: "inv (rs_world st) \<Longrightarrow> inv (rs_world (drop_router net st))"
  by (simp add: drop_router_def Let_def close_inv split: option.split)

lemma on_failure_inv:
  assumes "on_failure net cfg hops attempts req x st = Inr (hops', attempts', req', st')" "inv (rs_world st)"
  shows "inv (rs_world st')"
  using assms(1)
proof (cases rule: on_failure_cases)
  case (redirect target)
  with close_router_inv [OF assms(2), of cfg] show ?thesis by (simp add: follow_def Let_def)
next
  case (retry e)
  with drop_router_inv [OF assms(2)] show ?thesis by (simp add: pause_def sleep_inv)
qed

lemma try_once_split:
  assumes "try_once net cfg req st = Some (r, st')" "inv (rs_world st)"
  obtains (refused) x where "r = Inl x" "inv (rs_world st')"
  | (asked) s w where "inv w" "net_execute net s req w = Some (r, rs_world st')"
proof -
  from assms(1) obtain r1 st1 where u: "use_session net cfg st = Some (r1, st1)"
    by (auto simp: try_once_def split: option.split_asm)
  from use_session_inv [OF u assms(2)] have "inv (rs_world st1)" .
  with assms(1) u refused asked show thesis
    by (auto simp: try_once_def split: option.split_asm prod.split_asm sum.split_asm)
qed

text \<open>
  What \<^verbatim>\<open>execute\<close> returns is what some session answered to the request, as redirects changed it.
\<close>

lemma route_result:
  assumes run: "\<And>s q w r w'. K q \<Longrightarrow> inv w \<Longrightarrow> net_execute net s q w = Some (r, w') \<Longrightarrow>
        (case r of Inl _ \<Rightarrow> inv w' | Inr a \<Rightarrow> post a w')"
    and closed: "\<And>q token. K q \<Longrightarrow> K (retarget q token)"
  shows "route net cfg hops attempts req st = Some (r, req', st') \<Longrightarrow> K req \<Longrightarrow> inv (rs_world st) \<Longrightarrow>
    (case r of Inl _ \<Rightarrow> inv (rs_world st') | Inr a \<Rightarrow> post a (rs_world st'))"
proof (induction "nat (rc_redirect_limit cfg - hops) + nat (rc_connect_retries cfg - attempts)"
    arbitrary: hops attempts req st rule: less_induct)
  case less
  have once: "case x of Inl _ \<Rightarrow> inv (rs_world st1) | Inr a \<Rightarrow> post a (rs_world st1)"
    if "try_once net cfg req st = Some (x, st1)" for x st1
    using that less.prems(3)
    by (cases rule: try_once_split) (use run [OF less.prems(2)] in \<open>auto\<close>)
  from less.prems(1) show ?case
  proof (cases rule: route_cases)
    case (ends x)
    from once [OF ends(1)] ends(3) show ?thesis by auto
  next
    case (turns x st1 hops1 attempts1 req1 st2)
    have "inv (rs_world st2)" using on_failure_inv [OF turns(2)] once [OF turns(1)] by simp
    moreover from turns(2) have "K req1"
      by (cases rule: on_failure_cases) (use less.prems(2) closed in auto)
    ultimately show ?thesis using less.hyps [OF on_failure_progress [OF turns(2)] turns(3)] by simp
  qed
qed

end

text \<open>
  \<open>calls\<close> counts the requests that were handed to a session: running one adds at most one, and
  nothing else the router does adds any.
\<close>

locale counted_net =
  fixes net :: "('s, 'w) net" and calls :: "'w \<Rightarrow> nat"
  assumes execute_calls: "net_execute net s req w = Some (r, w') \<Longrightarrow> calls w' \<le> Suc (calls w)"
    and connect_calls: "net_connect net u w = Some (r', w') \<Longrightarrow> calls w' \<le> calls w"
    and close_calls: "calls (net_close net s w) \<le> calls w"
    and clock_calls: "net_clock net w = (t, w') \<Longrightarrow> calls w' \<le> calls w"
    and sleep_calls: "calls (net_sleep net t w) \<le> calls w"

sublocale counted_net \<subseteq> below: net_invariant net "\<lambda>w. calls w \<le> n" for n
  by unfold_locales (use connect_calls close_calls clock_calls sleep_calls in \<open>blast intro: order_trans\<close>)+

context counted_net
begin

lemma try_once_calls:
  assumes "try_once net cfg req st = Some (r, st')"
  shows "calls (rs_world st') \<le> Suc (calls (rs_world st))"
  using assms order_refl
proof (cases rule: below.try_once_split [consumes 2])
  case (asked s w)
  with execute_calls [OF asked(2)] show ?thesis by simp
qed simp

lemma on_failure_calls:
  assumes "on_failure net cfg hops attempts req x st = Inr (hops', attempts', req', st')"
  shows "calls (rs_world st') \<le> calls (rs_world st)"
  using below.on_failure_inv [OF assms order_refl] .

lemma route_calls:
  "route net cfg hops attempts req st = Some (r, req', st') \<Longrightarrow>
    calls (rs_world st') \<le> calls (rs_world st) + 1 + nat (rc_redirect_limit cfg - hops)
      + (if rq_idempotent (cls req) \<and> rt_reconnect (rs_router st) then nat (rc_connect_retries cfg - attempts) else 0)"
proof (induction "nat (rc_redirect_limit cfg - hops) + nat (rc_connect_retries cfg - attempts)"
    arbitrary: hops attempts req st rule: less_induct)
  case less
  from less.prems show ?case
  proof (cases rule: route_cases)
    case (ends x)
    from try_once_calls [OF ends(1)] show ?thesis by simp
  next
    case (turns x st1 hops1 attempts1 req1 st2)
    note step = try_once_calls [OF turns(1)] on_failure_calls [OF turns(2)]
    note rec = less.hyps [OF on_failure_progress [OF turns(2)] turns(3)]
    have same: "rt_reconnect (rs_router st1) = rt_reconnect (rs_router st)" by (rule try_once_reconnect [OF turns(1)])
    from turns(2) show ?thesis
    proof (cases rule: on_failure_cases)
      case (redirect target)
      then have "rq_idempotent (cls req1) = rq_idempotent (cls req)" "rt_reconnect (rs_router st2) = rt_reconnect (rs_router st)"
        by (simp_all add: same)
      moreover have "nat (rc_redirect_limit cfg - hops) = Suc (nat (rc_redirect_limit cfg - hops1))"
        using redirect(2,3) by simp
      ultimately show ?thesis using redirect(4) rec step by (simp split: if_splits)
    next
      case (retry e)
      then have "rq_idempotent (cls req1)" "rt_reconnect (rs_router st2)" "rt_reconnect (rs_router st)" "req1 = req"
        by (simp_all add: same [symmetric])
      moreover have "nat (rc_connect_retries cfg - attempts) = Suc (nat (rc_connect_retries cfg - attempts1))"
        using retry(4,5) by simp
      ultimately show ?thesis using retry(3) rec step by (simp split: if_splits)
    qed
  qed
qed

end

text \<open>The drivers of a fleet: one entry of the log per request that a session was asked to run.\<close>

lemma put_driver_log [simp]: "fl_log (put_driver s d fl) = fl_log fl"
  by (simp add: put_driver_def)

interpretation fleet: counted_net "fleet_net io ev cfg limit clock" "\<lambda>fl. length (fl_log fl)" for io ev cfg limit clock
proof unfold_locales
  fix s req w r w'
  assume "net_execute (fleet_net io ev cfg limit clock) s req w = Some (r, w')"
  then show "length (fl_log w') \<le> Suc (length (fl_log w))"
    by (auto simp: fleet_net_def fleet_execute_def Let_def split: option.splits sum.splits prod.splits)
next
  fix u w r w'
  assume "net_connect (fleet_net io ev cfg limit clock) u w = Some (r, w')"
  then show "length (fl_log w') \<le> length (fl_log w)"
    by (auto simp: fleet_net_def fleet_connect_def split: option.splits sum.splits prod.splits)
qed (auto simp: fleet_net_def fleet_close_def split: option.splits prod.splits)

section \<open>Properties\<close>

text \<open>
  C39. A request is put to a bounded number of sessions. \<^verbatim>\<open>Router.execute\<close> hands the request to a
  session once, once more for each redirect up to the redirect limit, and once more for each lost
  connection up to the retry limit; the retries only happen when the request is idempotent and
  the router may reconnect, so a write, or a request on a pinned router, is never repeated
  because a connection broke.
\<close>

theorem router_attempts_bounded:
  assumes "router_execute (fleet_net io ev scfg limit clock) cfg req st = Some (r, req', st')"
  shows "length (fl_log (rs_world st')) \<le> length (fl_log (rs_world st)) + 1 + nat (rc_redirect_limit cfg)
    + (if rq_idempotent (cls req) \<and> rt_reconnect (rs_router st) then nat (rc_connect_retries cfg) else 0)"
  using fleet.route_calls [of io ev scfg limit clock cfg 0 0 req st r req' st'] assms
  by (simp add: router_execute_def split: if_splits)

text \<open>A router that finds its server closing the connection, and nobody answering afterwards.\<close>

definition sample_router_config :: router_config where
  "sample_router_config = \<lparr>rc_pool = sample_config,
     rc_key = (\<lambda>u. (u_scheme u, u_host u, u_port u, u_username u)), rc_low = (\<lambda>s. s),
     rc_redirect_limit = 3, rc_connect_retries = 2, rc_retry_backoff = 0, rc_wait_cap = 60\<rparr>"

definition root_url :: "string \<Rightarrow> url" where
  "root_url h = XRootDURL (\<lambda>s. s) (lit ''root'') (lit h) 1094 (lit ''/'') [] [] []"

definition silent_pipe :: memory where
  "silent_pipe = greeting_pipe\<lparr>mem_queues := []\<rparr>"

definition sample_fleet :: "(nat, (unit, memory) fleet) rstate" where
  "sample_fleet = \<lparr>rs_router = (Router (root_url ''a'') True)\<lparr>rt_session := Some 0\<rparr>, rs_pool = [],
     rs_world = \<lparr>fl_sessions = [(0, Session 0 (sample_ready\<lparr>events := [], out := []\<rparr>) silent_pipe)],
                 fl_next = 1, fl_world = silent_pipe, fl_log = []\<rparr>\<rparr>"

theorem router_attempts_bounded_witness:
  "\<exists>r req' st'. router_execute (fleet_net memory_io sample_env sample_cfg 16 (\<lambda>w. (0, w))) sample_router_config
      (Readlink (lit ''/f'')) sample_fleet = Some (r, req', st') \<and> length (fl_log (rs_world st')) \<le> 6"
proof -
  let ?x = "router_execute (fleet_net memory_io sample_env sample_cfg 16 (\<lambda>w. (0, w))) sample_router_config
      (Readlink (lit ''/f'')) sample_fleet"
  have "?x \<noteq> None" by code_simp
  then obtain r req' st' where x: "?x = Some (r, req', st')" by auto
  have "length (fl_log (rs_world sample_fleet)) + 1 + nat (rc_redirect_limit sample_router_config)
      + (if rq_idempotent (cls (Readlink (lit ''/f''))) \<and> rt_reconnect (rs_router sample_fleet)
         then nat (rc_connect_retries sample_router_config) else 0) \<le> 6"
    by (simp add: sample_fleet_def sample_router_config_def)
  with router_attempts_bounded [OF x] x show ?thesis by (meson le_trans)
qed

text \<open>
  C40. A router never files a connection under somebody else's key. Suppose each session was
  opened for the key of the URL it was dialled with (\<open>owner\<close>), and that \<^verbatim>\<open>str.lower\<close> leaves the
  scheme names alone. If the pool and the router agree with that before \<^verbatim>\<open>execute\<close>, then they do
  afterwards, whatever redirects, failures and reconnections it went through; and a router
  that was on a TLS URL is still on one, so no redirect takes it off encryption.
\<close>

theorem router_keeps_identity:
  assumes "router_execute net cfg req st = Some (r, req', st')"
    and "\<And>u w s w'. net_connect net u w = Some (Inr s, w') \<Longrightarrow> owner s = rc_key cfg u"
    and "\<forall>s\<in>set TLS_SCHEMES. rc_low cfg s = s"
    and "identity_ok owner cfg st"
  shows "identity_ok owner cfg st' \<and> (use_tls (rt_url (rs_router st)) \<longrightarrow> use_tls (rt_url (rs_router st')))"
  using route_identity [OF assms(2,3) assms(1) [unfolded router_execute_def] assms(4)] .

text \<open>Sessions that are the URLs they were dialled with; host \<open>a\<close> redirects to host \<open>b\<close> with TLS.\<close>

definition redirecting_net :: "(url, unit) net" where
  "redirecting_net = \<lparr>net_connect = (\<lambda>u w. Some (Inr u, w)),
     net_execute = (\<lambda>s req w. Some
       (if u_host s = lit ''a'' then Inl (RedirectRequired \<lparr>ri_host = lit ''b'', ri_port = -1095, ri_token = []\<rparr>)
        else Inr \<lparr>res_data = [], res_status = None\<rparr>, w)),
     net_closed = (\<lambda>s w. False), net_close = (\<lambda>s w. w), net_clock = (\<lambda>w. (0, w)), net_sleep = (\<lambda>t w. w)\<rparr>"

definition redirected_state :: "(url, unit) rstate" where
  "redirected_state = (case router_execute redirecting_net sample_router_config Ping
       \<lparr>rs_router = Router (root_url ''a'') True, rs_pool = [], rs_world = ()\<rparr> of
     Some (_, _, st) \<Rightarrow> st | None \<Rightarrow> \<lparr>rs_router = Router (root_url ''a'') True, rs_pool = [], rs_world = ()\<rparr>)"

theorem router_keeps_identity_witness:
  "identity_ok (rc_key sample_router_config) sample_router_config redirected_state
    \<and> pool_entries (rs_pool redirected_state) = {#(rc_key sample_router_config (root_url ''a''), root_url ''a'')#}
    \<and> use_tls (rt_url (rs_router redirected_state))"
proof -
  let ?st = "\<lparr>rs_router = Router (root_url ''a'') True, rs_pool = [], rs_world = ()\<rparr> :: (url, unit) rstate"
  let ?x = "router_execute redirecting_net sample_router_config Ping ?st"
  have "?x \<noteq> None" by code_simp
  then obtain r req' where x: "?x = Some (r, req', redirected_state)" by (auto simp: redirected_state_def)
  have "identity_ok (rc_key sample_router_config) sample_router_config ?st"
    by (simp add: identity_ok_def pool_owned_def Router_def)
  from router_keeps_identity [OF x _ _ this]
  have "identity_ok (rc_key sample_router_config) sample_router_config redirected_state"
    by (auto simp: redirecting_net_def sample_router_config_def)
  moreover have "rs_pool redirected_state = [(rc_key sample_router_config (root_url ''a''), [(0, root_url ''a'')])]"
    "use_tls (rt_url (rs_router redirected_state))"
    by code_simp+
  ultimately show ?thesis by simp
qed

end
