(* ===== verification/File_Logic.thy ===== *)
theory File_Logic
  imports File_Client Router_Properties
begin

text \<open>
  Reasoning about the methods of \<^verbatim>\<open>src/src/xrd/client/file.py\<close>. \<open>triple P m Q E\<close> says that when \<open>m\<close> is run in
  a state with \<open>P\<close> and comes to an end, \<open>Q\<close> holds if it returned and \<open>E\<close> if it raised. The locale
  \<open>file_requests\<close> is what a method that asks a server one kind of question needs to know: what every
  answer guarantees, whichever session and handle it comes from, and that connecting, closing,
  binding and re-opening do not disturb that; \<open>file_service\<close> adds the answers that come on a
  data socket. Inside them the whole of \<^verbatim>\<open>_execute\<close> and \<^verbatim>\<open>_bulk\<close>, with recovery and with every
  fallback between data paths and the control link, is shown to give the same guarantee.
\<close>

section \<open>Triples\<close>

named_theorems triples "rules for triples, by the shape of the method"

definition triple ::
  "('st \<Rightarrow> bool) \<Rightarrow> ('st, 'a) comp \<Rightarrow> ('a \<Rightarrow> 'st \<Rightarrow> bool) \<Rightarrow> ('st \<Rightarrow> bool) \<Rightarrow> bool" where
  "triple P m Q E \<longleftrightarrow> (\<forall>st r st'. P st \<longrightarrow> m st = Some (r, st') \<longrightarrow> (case r of Inl x \<Rightarrow> E st' | Inr a \<Rightarrow> Q a st'))"

lemma triple_ret [triples]: "(\<And>st. P st \<Longrightarrow> Q a st) \<Longrightarrow> triple P (retF a) Q E"
  by (simp add: triple_def retF_def)

lemma triple_raise [triples]: "(\<And>st. P st \<Longrightarrow> E st) \<Longrightarrow> triple P (raiseF x) Q E"
  by (simp add: triple_def raiseF_def)

lemma triple_bind:
  assumes "triple P m R E" "\<And>a. triple (R a) (k a) Q E"
  shows "triple P (bindF m k) Q E"
  unfolding triple_def bindF_def
proof (intro allI impI)
  fix st r st'
  assume "P st" and run: "(case m st of None \<Rightarrow> None | Some (Inl x, st') \<Rightarrow> Some (Inl x, st')
      | Some (Inr a, st') \<Rightarrow> k a st') = Some (r, st')"
  then obtain y st1 where m: "m st = Some (y, st1)" by (auto split: option.split_asm)
  with assms(1) \<open>P st\<close> have y: "case y of Inl x \<Rightarrow> E st1 | Inr a \<Rightarrow> R a st1" by (simp add: triple_def)
  show "case r of Inl x \<Rightarrow> E st' | Inr a \<Rightarrow> Q a st'"
  proof (cases y)
    case (Inr a)
    with assms(2) [of a] y run m show ?thesis unfolding triple_def by simp
  qed (use y run m in auto)
qed

lemma triple_catch:
  assumes "triple P m Q R" "\<And>x. triple R (k x) Q E"
  shows "triple P (catchF m k) Q E"
  unfolding triple_def catchF_def
proof (intro allI impI)
  fix st r st'
  assume "P st" and run: "(case m st of None \<Rightarrow> None | Some (Inl x, st') \<Rightarrow> k x st'
      | Some (Inr a, st') \<Rightarrow> Some (Inr a, st')) = Some (r, st')"
  then obtain y st1 where m: "m st = Some (y, st1)" by (auto split: option.split_asm)
  with assms(1) \<open>P st\<close> have y: "case y of Inl x \<Rightarrow> R st1 | Inr a \<Rightarrow> Q a st1" by (simp add: triple_def)
  show "case r of Inl x \<Rightarrow> E st' | Inr a \<Rightarrow> Q a st'"
  proof (cases y)
    case (Inl x)
    with assms(2) [of x] y run m show ?thesis unfolding triple_def by simp
  qed (use y run m in auto)
qed

lemma triple_if [triples]:
  "(c \<Longrightarrow> triple P m Q E) \<Longrightarrow> (\<not> c \<Longrightarrow> triple P n Q E) \<Longrightarrow> triple P (if c then m else n) Q E"
  by simp

lemma triple_lift [triples]:
  "(\<And>a st. r = Inr a \<Longrightarrow> P st \<Longrightarrow> Q a st) \<Longrightarrow> (\<And>st. P st \<Longrightarrow> E st) \<Longrightarrow> triple P (liftF r) Q E"
  by (cases r) (simp_all add: liftF_def triple_def raiseF_def retF_def)

lemma triple_gets [triples]: "(\<And>st. P st \<Longrightarrow> Q (f (fs_file st)) st) \<Longrightarrow> triple P (getsF f) Q E"
  by (simp add: triple_def getsF_def)

lemma triple_modify [triples]:
  "(\<And>st. P st \<Longrightarrow> Q () (st\<lparr>fs_file := f (fs_file st)\<rparr>)) \<Longrightarrow> triple P (modifyF f) Q E"
  by (simp add: triple_def modifyF_def)

lemma triple_handle [triples]:
  assumes "\<And>h st. P st \<Longrightarrow> f_handle (fs_file st) = Some h \<Longrightarrow> Q h st" "\<And>st. P st \<Longrightarrow> E st"
  shows "triple P file_handle Q E"
  using assms by (auto simp: triple_def file_handle_def retF_def raiseF_def split: option.splits)

lemma triple_never: "(\<And>st. \<not> P st) \<Longrightarrow> triple P m Q E"
  by (simp add: triple_def)

lemma triple_weaken:
  assumes "triple P m Q E" "\<And>st. P' st \<Longrightarrow> P st" "\<And>a st. Q a st \<Longrightarrow> Q' a st" "\<And>st. E st \<Longrightarrow> E' st"
  shows "triple P' m Q' E'"
  using assms unfolding triple_def by (fastforce split: sum.splits)

lemma tripleD:
  "triple P m Q E \<Longrightarrow> m st = Some (r, st') \<Longrightarrow> P st \<Longrightarrow> (case r of Inl x \<Rightarrow> E st' | Inr a \<Rightarrow> Q a st')"
  by (simp add: triple_def)

section \<open>Asking a server\<close>

text \<open>
  \<open>inv\<close> is what is known of the world, \<open>own\<close> the requests the method may build, \<open>post\<close> what an answer to
  one of them guarantees; \<open>opens\<close> says whether handles may be re-opened, \<open>ck\<close> whether a
  checkpoint is open, which no request changes.
\<close>

locale file_requests = net_invariant "cl_net cl" inv
  for cl :: "('s, 'w) client" and inv :: "'w \<Rightarrow> bool" +
  fixes own :: "request \<Rightarrow> bool" and post :: "result \<Rightarrow> 'w \<Rightarrow> bool" and opens :: bool
    and ck :: bool
  assumes run: "own q \<Longrightarrow> inv w \<Longrightarrow> net_execute (cl_net cl) s q w = Some (r, w') \<Longrightarrow>
        (case r of Inl _ \<Rightarrow> inv w' | Inr a \<Rightarrow> post a w')"
    and run_open: "opens \<Longrightarrow> flags AND WRITING = 0 \<Longrightarrow> inv w \<Longrightarrow>
        net_execute (cl_net cl) s (Open p flags mode) w = Some (r, w') \<Longrightarrow> inv w'"
    and bind_inv: "inv w \<Longrightarrow> cl_bind cl s w = Some (r', w') \<Longrightarrow> inv w'"
    and own_pathless: "own q \<Longrightarrow> map_path f q = q"
begin

text \<open>The invariant of a file's methods.\<close>

definition fit :: "'s rfile \<Rightarrow> bool" where
  "fit f \<longleftrightarrow> (recoverable (cl_cfg cl) f \<longrightarrow> opens) \<and> f_checkpoint f = ck"

definition steady :: "('s, 'w) fstate \<Rightarrow> bool" where
  "steady st \<longleftrightarrow> inv (fs_world st) \<and> fit (fs_file st)"

abbreviation got :: "result \<Rightarrow> ('s, 'w) fstate \<Rightarrow> bool" where
  "got a st \<equiv> post a (fs_world st) \<and> fit (fs_file st)"

lemma fit_cong: "f_flags f = f_flags f' \<Longrightarrow> f_checkpoint f = f_checkpoint f' \<Longrightarrow> fit f = fit f'"
  by (simp add: fit_def recoverable_def)

lemma fit_put_router [simp]: "fit (fs_file (put_router rs st)) = fit (fs_file st)"
  by (rule fit_cong) (simp_all add: put_router_def)

lemma steady_put_router [simp]: "steady (put_router rs st) \<longleftrightarrow> inv (rs_world rs) \<and> fit (fs_file st)"
  by (simp add: steady_def) (simp add: put_router_def)

lemma triple_request:
  assumes "own q"
  shows "triple steady (run_request cl q) got steady"
  unfolding triple_def
proof (intro allI impI)
  fix st r st'
  assume st: "steady st" and r: "run_request cl q st = Some (r, st')"
  from r obtain q' rs where x: "router_execute (cl_net cl) (fc_router (cl_cfg cl)) q (router_state st) = Some (r, q', rs)"
    and st': "st' = put_router rs st"
    by (auto simp: run_request_def on_router_def split: option.split_asm prod.split_asm)
  have "case r of Inl _ \<Rightarrow> inv (rs_world rs) | Inr a \<Rightarrow> post a (rs_world rs)"
    by (rule route_result [of own, OF run _ x [unfolded router_execute_def]])
      (use assms st own_pathless in \<open>auto simp: retarget_def steady_def router_state_def\<close>)
  with st st' show "case r of Inl _ \<Rightarrow> steady st' | Inr a \<Rightarrow> got a st'"
    by (auto simp: steady_def put_router_def split: sum.splits intro: fit_cong [THEN iffD1, rotated 2])
qed

lemma triple_open_request:
  assumes "flags AND WRITING = 0" "opens"
  shows "triple steady (run_request cl (Open path flags mode)) (\<lambda>_. steady) steady"
  unfolding triple_def
proof (intro allI impI)
  fix st r st'
  assume st: "steady st" and r: "run_request cl (Open path flags mode) st = Some (r, st')"
  from r obtain q' rs where x: "router_execute (cl_net cl) (fc_router (cl_cfg cl)) (Open path flags mode) (router_state st)
      = Some (r, q', rs)" and st': "st' = put_router rs st"
    by (auto simp: run_request_def on_router_def split: option.split_asm prod.split_asm)
  have "case r of Inl _ \<Rightarrow> inv (rs_world rs) | Inr a \<Rightarrow> inv (rs_world rs)"
    by (rule route_result [of "\<lambda>q. \<exists>p. q = Open p flags mode", OF _ _ x [unfolded router_execute_def]])
      (use st run_open [OF assms(2,1)] in \<open>auto simp: retarget_def steady_def router_state_def split: sum.split\<close>)
  with st st' show "case r of Inl _ \<Rightarrow> steady st' | Inr a \<Rightarrow> steady st'"
    by (auto simp: steady_def put_router_def split: sum.splits intro: fit_cong [THEN iffD1, rotated 2])
qed

lemma triple_session: "triple steady (the_session cl) (\<lambda>_. steady) steady"
  unfolding triple_def
proof (intro allI impI)
  fix st r st'
  assume st: "steady st" and "the_session cl st = Some (r, st')"
  then obtain rs where u: "use_session (cl_net cl) (fc_router (cl_cfg cl)) (router_state st) = Some (r, rs)"
    and st': "st' = put_router rs st"
    by (auto simp: the_session_def on_router_def split: option.split_asm prod.split_asm)
  from use_session_inv [OF u] st st' show "case r of Inl x \<Rightarrow> steady st' | Inr a \<Rightarrow> steady st'"
    by (simp add: router_state_def split: sum.split) (simp add: steady_def)
qed

abbreviation keeps_steady :: "('s, 'w, 'a) fop \<Rightarrow> bool" where
  "keeps_steady m \<equiv> triple steady m (\<lambda>_. steady) steady"

lemma steady_bind: "keeps_steady m \<Longrightarrow> (\<And>a. keeps_steady (k a)) \<Longrightarrow> keeps_steady (bindF m k)"
  by (rule triple_bind)

lemma steady_catch: "keeps_steady m \<Longrightarrow> (\<And>x. keeps_steady (k x)) \<Longrightarrow> keeps_steady (catchF m k)"
  by (rule triple_catch)

lemma steady_if: "(c \<Longrightarrow> keeps_steady m) \<Longrightarrow> (\<not> c \<Longrightarrow> keeps_steady n) \<Longrightarrow> keeps_steady (if c then m else n)"
  by simp

lemma steady_prod: "(\<And>a b. keeps_steady (k a b)) \<Longrightarrow> keeps_steady (case p of (a, b) \<Rightarrow> k a b)"
  by (cases p) simp

lemma steady_gets: "keeps_steady (getsF f)" and steady_ret: "keeps_steady (retF a)"
  and steady_raise: "keeps_steady (raiseF x)" and steady_lift: "keeps_steady (liftF r)"
  and steady_handle: "keeps_steady file_handle"
  by (auto intro: triples)

lemma steady_modify:
  "(\<And>f. f_flags (u f) = f_flags f \<and> f_checkpoint (u f) = f_checkpoint f) \<Longrightarrow> keeps_steady (modifyF u)"
  by (rule triple_modify) (simp add: steady_def fit_def recoverable_def)

lemma steady_bind_session: "keeps_steady (on_session (cl_bind cl s))"
  unfolding triple_def
proof (intro allI impI)
  fix st r st'
  assume "steady st" "on_session (cl_bind cl s) st = Some (r, st')"
  then obtain w where "inv (fs_world st)" "cl_bind cl s (fs_world st) = Some (r, w)" "st' = st\<lparr>fs_world := w\<rparr>"
    by (auto simp: steady_def on_session_def split: option.split_asm)
  with bind_inv [of "fs_world st" s r w] \<open>steady st\<close> show "case r of Inl x \<Rightarrow> steady st' | Inr a \<Rightarrow> steady st'"
    by (simp add: steady_def split: sum.split)
qed

lemmas steady_rules = steady_bind steady_catch steady_if steady_prod steady_gets steady_ret steady_raise steady_lift
  steady_handle steady_modify steady_bind_session triple_session

lemma steady_streams: "keeps_steady (bind_data_streams cl)"
proof -
  have "keeps_steady (bind_streams_loop cl n)" for n
    by (induction n) (auto simp: router_bind_def intro!: steady_rules)
  then show ?thesis unfolding bind_data_streams_def by (intro steady_rules)
qed

lemma steady_next_path: "keeps_steady next_path"
  unfolding next_path_def by (intro steady_rules) simp

text \<open>Re-opening happens only to recoverable files, whose flags write nothing.\<close>

lemma retstat_writes_nothing: "flags AND WRITING = 0 \<Longrightarrow> (flags OR kXR_retstat) AND WRITING = 0"
  by (simp add: bit.conj_disj_distrib2 WRITING_def)

lemma triple_do_open:
  "triple (\<lambda>st. steady st \<and> recoverable (cl_cfg cl) (fs_file st)) (do_open cl) (\<lambda>_. steady) steady"
  unfolding do_open_def
proof (rule triple_bind [where R = "\<lambda>f st. steady st \<and> recoverable (cl_cfg cl) f \<and> opens"])
  show "triple (\<lambda>st. steady st \<and> recoverable (cl_cfg cl) (fs_file st)) (getsF (\<lambda>f. f))
      (\<lambda>f st. steady st \<and> recoverable (cl_cfg cl) f \<and> opens) steady"
    by (rule triple_gets, unfold steady_def fit_def) blast
next
  fix f :: "'s rfile"
  let ?rest = "bindF (liftF (path_with_cgi (f_url f))) (\<lambda>path.
     bindF (run_request cl (Open path (f_flags f OR kXR_retstat) (f_mode f))) (\<lambda>result.
     bindF (modifyF (\<lambda>f. f\<lparr>f_router := fst (pin (f_owns_router f) (f_router f))\<rparr>)) (\<lambda>_.
     bindF (liftF (parse_open (res_data result) (u_path (f_url f)))) (\<lambda>(h, st, comp).
     bindF (modifyF (\<lambda>f. f\<lparr>f_handle := Some h, f_stat := st, f_compression := comp,
               f_size_hint := (case st of None \<Rightarrow> f_size_hint f | Some s \<Rightarrow> st_size s)\<rparr>)) (\<lambda>_.
     file_handle)))))"
  show "triple (\<lambda>st. steady st \<and> recoverable (cl_cfg cl) f \<and> opens) ?rest (\<lambda>_. steady) steady"
  proof (cases "recoverable (cl_cfg cl) f \<and> opens")
    case True
    then have flags: "(f_flags f OR kXR_retstat) AND WRITING = 0"
      by (auto simp: recoverable_def intro: retstat_writes_nothing)
    have "keeps_steady (run_request cl (Open path (f_flags f OR kXR_retstat) (f_mode f)))" for path
      by (rule triple_open_request [OF flags]) (use True in blast)
    then have "keeps_steady ?rest" by (intro steady_rules) simp_all
    then show ?thesis by (rule triple_weaken) auto
  qed (rule triple_never, blast)
qed

lemma triple_reopen:
  "triple (\<lambda>st. steady st \<and> recoverable (cl_cfg cl) (fs_file st)) (reopen cl) (\<lambda>_. steady) steady"
proof -
  let ?P = "\<lambda>st. steady st \<and> recoverable (cl_cfg cl) (fs_file st)"
  have keep: "triple ?P (modifyF u) (\<lambda>_. ?P) steady" if "\<And>f. f_flags (u f) = f_flags f \<and> f_checkpoint (u f) = f_checkpoint f" for u
    by (rule triple_modify, unfold steady_def fit_def recoverable_def) (simp add: that)
  have discard: "triple ?P (if owns then discard_router cl else retF ()) (\<lambda>_. ?P) steady" for owns
    unfolding steady_def fit_def by (auto simp: triple_def discard_router_def discard_def put_router_def recoverable_def retF_def
        router_state_def intro!: drop_router_inv)
  have rest: "keeps_steady (bindF (bind_data_streams cl) (\<lambda>_. retF h))" for h
    by (intro steady_rules steady_streams)
  show ?thesis
    unfolding reopen_def
    by (rule triple_bind [OF keep], simp, rule triple_bind [where R = "\<lambda>_. ?P"], rule triple_gets, assumption,
        rule triple_bind [OF discard], rule triple_bind [OF keep], simp, rule triple_bind [OF triple_do_open], rule rest)
qed

section \<open>Whole calls\<close>

abbreviation gives :: "('s, 'w, result) fop \<Rightarrow> bool" where
  "gives m \<equiv> triple steady m got steady"

lemma gives_bind: "keeps_steady m \<Longrightarrow> (\<And>a. gives (k a)) \<Longrightarrow> gives (bindF m k)"
  by (rule triple_bind)

lemma gives_catch: "gives m \<Longrightarrow> (\<And>x. gives (k x)) \<Longrightarrow> gives (catchF m k)"
  by (rule triple_catch)

lemma gives_if: "(c \<Longrightarrow> gives m) \<Longrightarrow> (\<not> c \<Longrightarrow> gives n) \<Longrightarrow> gives (if c then m else n)"
  by simp

lemma gives_raise: "gives (raiseF x)"
  by (rule triple_raise)

lemmas gives_rules = gives_bind gives_catch gives_if gives_raise steady_rules

lemma gives_built:
  assumes "\<And>f h q. build f h = Inr q \<Longrightarrow> own q"
  shows "gives (run_built cl build h)"
proof -
  have request: "triple (\<lambda>st. own q \<and> steady st) (run_request cl q) got steady" for q
  proof (cases "own q")
    case True
    from triple_request [OF this] show ?thesis by (rule triple_weaken) auto
  qed (simp add: triple_def)
  have built: "triple (\<lambda>st. (\<forall>q. req = Inr q \<longrightarrow> own q) \<and> steady st) (bindF (liftF req) (run_request cl)) got steady" for req
    by (rule triple_bind [OF triple_lift request]) auto
  show ?thesis
    unfolding run_built_def by (rule triple_bind [OF triple_gets built]) (auto intro: assms)
qed

lemma gives_execute:
  assumes "\<And>f h q. build f h = Inr q \<Longrightarrow> own q"
  shows "gives (file_execute cl build)"
proof -
  note built = gives_built [of build, OF assms]
  let ?again = "\<lambda>x. bindF (getsF (recoverable (cl_cfg cl)))
    (\<lambda>ok. if \<not> ok then raiseF x else bindF (reopen cl) (run_built cl build))"
  have again: "gives (?again x)" for x
  proof (rule triple_bind [where R = "\<lambda>ok st. steady st \<and> (ok \<longrightarrow> recoverable (cl_cfg cl) (fs_file st))"])
    fix ok
    show "triple (\<lambda>st. steady st \<and> (ok \<longrightarrow> recoverable (cl_cfg cl) (fs_file st)))
        (if \<not> ok then raiseF x else bindF (reopen cl) (run_built cl build)) got steady"
      using triple_bind [OF triple_reopen, of "run_built cl build", OF built] triple_weaken [OF gives_raise [of x]]
      by (cases ok) auto
  qed (rule triple_gets, simp)
  show ?thesis
    unfolding file_execute_def by (intro gives_rules again built) simp_all
qed

lemma gives_fallback:
  assumes "\<And>p f h q. build p f h = Inr q \<Longrightarrow> own q"
  shows "gives (bulk_fallback cl build p)"
  unfolding bulk_fallback_def by (intro gives_rules gives_execute assms) simp_all

text \<open>The same without a triple.\<close>

lemma execute_answers:
  assumes "file_execute cl build st = Some (r, st')" "inv (fs_world st)" "recoverable (cl_cfg cl) (fs_file st) \<Longrightarrow> opens"
    "f_checkpoint (fs_file st) = ck"
    and "\<And>f h q. build f h = Inr q \<Longrightarrow> own q"
  shows "(case r of Inl _ \<Rightarrow> inv (fs_world st') | Inr a \<Rightarrow> post a (fs_world st')) \<and> f_checkpoint (fs_file st') = ck"
  using tripleD [OF gives_execute assms(1)] assms(2-5) by (auto simp: steady_def fit_def split: sum.splits)

end

text \<open>Bulk requests may also be answered on the data socket they arrive on.\<close>

locale file_service = file_requests cl inv own post opens ck
  for cl :: "('s, 'w) client" and inv :: "'w \<Rightarrow> bool" and own post opens ck +
  assumes run_arriving: "own q \<Longrightarrow> inv w \<Longrightarrow> cl_arriving cl s q w = Some (r, w') \<Longrightarrow>
        (case r of Inl _ \<Rightarrow> inv w' | Inr a \<Rightarrow> post a w')"
begin

lemma gives_arriving:
  assumes "own q"
  shows "gives (on_session (cl_arriving cl s q))"
  unfolding triple_def
proof (intro allI impI)
  fix st r st'
  assume st: "steady st" and "on_session (cl_arriving cl s q) st = Some (r, st')"
  then obtain w where w: "cl_arriving cl s q (fs_world st) = Some (r, w)" "st' = st\<lparr>fs_world := w\<rparr>"
    by (auto simp: on_session_def split: option.split_asm)
  with run_arriving [OF assms _ w(1)] st show "case r of Inl x \<Rightarrow> steady st' | Inr a \<Rightarrow> got a st'"
    by (auto simp: steady_def split: sum.splits)
qed

lemma gives_bulk_arriving:
  assumes "\<And>p f h q. build p f h = Inr q \<Longrightarrow> own q"
  shows "gives (bulk_arriving cl build p)"
proof -
  have ask: "triple (\<lambda>st. (\<forall>q. req = Inr q \<longrightarrow> own q) \<and> steady st)
      (bindF (liftF req) (\<lambda>q. on_session (cl_arriving cl s q))) got steady" for req s
  proof (rule triple_bind [where R = "\<lambda>q st. own q \<and> steady st"])
    show "triple (\<lambda>st. own q \<and> steady st) (on_session (cl_arriving cl s q)) got steady" for q
      using gives_arriving [of q s] by (cases "own q") (auto elim: triple_weaken intro: triple_never)
  qed (rule triple_lift, auto)
  have built: "gives (bindF (getsF (\<lambda>f. build p f h)) (\<lambda>req. bindF (liftF req) (\<lambda>q. on_session (cl_arriving cl s q))))" for h s
    by (rule triple_bind [OF triple_gets ask]) (auto intro: assms)
  show ?thesis
    unfolding bulk_arriving_def
    by (intro built gives_rules gives_execute gives_fallback assms steady_streams steady_next_path) simp_all
qed

lemma gives_bulk:
  assumes "\<And>p f h q. build p f h = Inr q \<Longrightarrow> own q"
  shows "gives (bulk cl build)"
proof -
  have pick: "gives (\<lambda>st. if c st then bulk_arriving cl build p st else bulk_fallback cl build p st)" for c p
    using gives_bulk_arriving [of build p, OF assms] gives_fallback [of build p, OF assms]
    by (auto simp: triple_def)
  show ?thesis
    unfolding bulk_def by (intro gives_rules gives_execute pick steady_next_path) (use assms in auto)
qed

lemma bulk_answers:
  assumes "bulk cl build st = Some (r, st')" "inv (fs_world st)" "recoverable (cl_cfg cl) (fs_file st) \<Longrightarrow> opens"
    "f_checkpoint (fs_file st) = ck"
    and "\<And>p f h q. build p f h = Inr q \<Longrightarrow> own q"
  shows "(case r of Inl _ \<Rightarrow> inv (fs_world st') | Inr a \<Rightarrow> post a (fs_world st')) \<and> f_checkpoint (fs_file st') = ck"
  using tripleD [OF gives_bulk assms(1)] assms(2-5) by (auto simp: steady_def fit_def split: sum.splits)

end

end
