(* ===== verification/File_Properties.thy ===== *)
theory File_Properties
  imports File_Logic
begin

text \<open>
  What an open file (\<^verbatim>\<open>src/src/xrd/client/file.py\<close>) promises its user, in terms of the content on the
  server: \<open>window\<close> is the abstract positional read, \<open>patch\<close> the abstract positional write. The
  hypotheses about servers say what single answers contain; that the client puts them together
  correctly, however it splits, recovers and falls back, is what is proved.
\<close>

section \<open>Reading\<close>

definition window :: "bytes \<Rightarrow> int \<Rightarrow> int \<Rightarrow> bytes" where
  "window content offset len = take (nat len) (drop (nat offset) content)"

text \<open>Every answer to a read, from whichever server, is the part of the content that was asked for.\<close>

definition truthful :: "('s, 'w) client \<Rightarrow> bytes \<Rightarrow> bool" where
  "truthful cl content \<longleftrightarrow>
     (\<forall>s h offset len pid w r w'.
        net_execute (cl_net cl) s (Read h offset len pid) w = Some (Inr r, w')
          \<or> cl_arriving cl s (Read h offset len pid) w = Some (Inr r, w')
        \<longrightarrow> res_data r = window content offset len)"

lemma truthful_service:
  assumes "truthful cl content"
  shows "file_service cl (\<lambda>_. True) (\<lambda>q. \<exists>h pid. q = Read h offset len pid)
    (\<lambda>a _. res_data a = window content offset len) True"
  using assms by unfold_locales (fastforce simp: truthful_def split: sum.split)+

lemma read_one_window:
  assumes "truthful cl content" "read_one cl offset len st = Some (Inr data, st')"
  shows "data = window content offset len"
proof -
  from assms(2) obtain a st1 where b: "bulk cl (\<lambda>pid f h. Inr (Read h offset len pid)) st = Some (Inr a, st1)"
    and "data = res_data a"
    by (auto simp: read_one_def bindF_def raiseF_def retF_def split: option.split_asm sum.split_asm if_splits)
  with file_service.bulk_answers [OF truthful_service [OF assms(1)] b] show ?thesis by simp
qed

lemma window_parts:
  assumes "0 \<le> offset" "0 \<le> n" "n \<le> len"
  shows "window content offset n @ window content (offset + n) (len - n) = window content offset len"
proof -
  have "nat len = nat n + nat (len - n)" "nat (offset + n) = nat offset + nat n" using assms by simp_all
  then show ?thesis by (simp add: window_def take_add add.commute)
qed

lemma window_short:
  assumes "0 \<le> offset" "n \<le> len" "int (length (window content offset n)) < n"
  shows "window content offset n = window content offset len"
  using assms by (simp add: window_def)

lemma read_loop_0 [simp]: "read_loop cl 0 offset got st = Some (Inr got, st)"
  by (subst read_loop.simps) simp

lemma read_loop_window:
  assumes "truthful cl content" "0 < fc_chunk_size (cl_cfg cl)"
  shows "read_loop cl remaining offset got st = Some (Inr data, st') \<Longrightarrow> 0 \<le> remaining \<Longrightarrow> 0 \<le> offset \<Longrightarrow>
    data = got @ window content offset remaining"
proof (induction "nat remaining" arbitrary: remaining offset got st rule: less_induct)
  case less
  show ?case
  proof (cases "remaining = 0")
    case True
    with less.prems(1) show ?thesis by (simp add: window_def)
  next
    case False
    define n where "n = min remaining (fc_chunk_size (cl_cfg cl))"
    have n: "0 < n" "n \<le> remaining" using False less.prems(2) assms(2) by (simp_all add: n_def)
    from less.prems(1) False obtain chunk st1 where c: "read_one cl offset n st = Some (Inr chunk, st1)"
      and go: "if int (length chunk) < n then got @ chunk = data
        else read_loop cl (remaining - n) (offset + n) (got @ chunk) st1 = Some (Inr data, st')"
      by (subst (asm) read_loop.simps)
        (auto simp: Let_def n_def [symmetric] split: option.split_asm prod.split_asm sum.split_asm if_splits)
    note w = read_one_window [OF assms(1) c]
    show ?thesis
    proof (cases "int (length chunk) < n")
      case True
      with go w window_short [of offset n remaining content] less.prems(3) n show ?thesis by simp
    next
      case False
      then have "data = (got @ chunk) @ window content (offset + n) (remaining - n)"
        using go n less.prems by (intro less.hyps) simp_all
      with w window_parts [of offset n remaining content] less.prems(3) n show ?thesis by simp
    qed
  qed
qed

section \<open>A server that stays\<close>

text \<open>
  \<open>serves cl s h content up\<close>: while the world is \<open>up\<close>, session \<open>s\<close> is open and answers reads of handle \<open>h\<close>
  from the content, and the world stays up.
\<close>

definition serves :: "('s, 'w) client \<Rightarrow> 's \<Rightarrow> bytes \<Rightarrow> bytes \<Rightarrow> ('w \<Rightarrow> bool) \<Rightarrow> bool" where
  "serves cl s h content up \<longleftrightarrow>
     (\<forall>w. up w \<longrightarrow> \<not> net_closed (cl_net cl) s w
        \<and> (\<forall>offset len pid. \<exists>r w'. net_execute (cl_net cl) s (Read h offset len pid) w = Some (Inr r, w')
             \<and> res_data r = window content offset len \<and> up w'))"

text \<open>An open file on that session that has no data path of its own in use.\<close>

definition attached :: "'s \<Rightarrow> bytes \<Rightarrow> 's rfile \<Rightarrow> bool" where
  "attached s h f \<longleftrightarrow> f_handle f = Some h \<and> rt_session (f_router f) = Some s
     \<and> (f_data_paths f = [] \<or> \<not> f_multistream f)"

lemma served_read:
  assumes "serves cl s h content up" "attached s h (fs_file st)" "up (fs_world st)"
  shows "\<exists>r w. file_execute cl (\<lambda>f h. Inr (Read h offset len (pid f))) st = Some (Inr r, st\<lparr>fs_world := w\<rparr>)
    \<and> res_data r = window content offset len \<and> up w"
proof -
  let ?q = "Read h offset len (pid (fs_file st))"
  from assms obtain r w where open_s: "\<not> net_closed (cl_net cl) s (fs_world st)"
    and x: "net_execute (cl_net cl) s ?q (fs_world st) = Some (Inr r, w)" "res_data r = window content offset len" "up w"
    unfolding serves_def by blast
  have session: "rt_session (f_router (fs_file st)) = Some s" and handle: "f_handle (fs_file st) = Some h"
    using assms(2) by (simp_all add: attached_def)
  let ?rs = "router_state st"
  have "try_once (cl_net cl) (fc_router (cl_cfg cl)) ?q ?rs = Some (Inr r, ?rs\<lparr>rs_world := w\<rparr>)"
    using session open_s x by (simp add: try_once_def use_session_def connected_def router_state_def)
  then have "router_execute (cl_net cl) (fc_router (cl_cfg cl)) ?q ?rs = Some (Inr r, ?q, ?rs\<lparr>rs_world := w\<rparr>)"
    by (simp add: router_execute_def route.simps [of "cl_net cl" "fc_router (cl_cfg cl)" 0 0 ?q])
  then have "run_request cl ?q st = Some (Inr r, st\<lparr>fs_world := w\<rparr>)"
    by (simp add: run_request_def on_router_def put_router_def router_state_def)
  then have "file_execute cl (\<lambda>f h. Inr (Read h offset len (pid f))) st = Some (Inr r, st\<lparr>fs_world := w\<rparr>)"
    using handle
    by (simp add: file_execute_def catchF_def bindF_def file_handle_def retF_def run_built_def getsF_def liftF_def)
  with x show ?thesis by blast
qed

lemma served_read_one:
  assumes "serves cl s h content up" "attached s h (fs_file st)" "up (fs_world st)" "0 \<le> len"
  shows "\<exists>w. read_one cl offset len st = Some (Inr (window content offset len), st\<lparr>fs_world := w\<rparr>) \<and> up w"
proof -
  have "next_path st = Some (Inr 0, st)"
    using assms(2) by (auto simp: next_path_def bindF_def getsF_def retF_def attached_def)
  then have "bulk cl (\<lambda>pid f h. Inr (Read h offset len pid)) st
      = file_execute cl (\<lambda>f h. Inr (Read h offset len (f_pathid f))) st"
    by (simp add: bulk_def bindF_def getsF_def)
  moreover have "int (length (window content offset len)) \<le> len" using assms(4) by (simp add: window_def)
  ultimately show ?thesis using served_read [OF assms(1-3), of offset len f_pathid]
    by (auto simp: read_one_def bindF_def retF_def raiseF_def)
qed

lemma served_read_loop:
  assumes "serves cl s h content up" "0 < fc_chunk_size (cl_cfg cl)"
  shows "attached s h (fs_file st) \<Longrightarrow> up (fs_world st) \<Longrightarrow> 0 \<le> remaining \<Longrightarrow> 0 \<le> offset \<Longrightarrow>
    \<exists>w. read_loop cl remaining offset got st = Some (Inr (got @ window content offset remaining), st\<lparr>fs_world := w\<rparr>) \<and> up w"
proof (induction "nat remaining" arbitrary: remaining offset got st rule: less_induct)
  case less
  show ?case
  proof (cases "remaining = 0")
    case True
    with less.prems(2) show ?thesis
      by (intro exI [of _ "fs_world st"]) (simp add: window_def)
  next
    case False
    define n where "n = min remaining (fc_chunk_size (cl_cfg cl))"
    have n: "0 < n" "n \<le> remaining" using False less.prems(3) assms(2) by (simp_all add: n_def)
    from served_read_one [OF assms(1) less.prems(1,2), of n offset] n
    obtain w where w: "read_one cl offset n st = Some (Inr (window content offset n), st\<lparr>fs_world := w\<rparr>)" "up w" by auto
    have step: "read_loop cl remaining offset got st =
        (if int (length (window content offset n)) < n
         then Some (Inr (got @ window content offset n), st\<lparr>fs_world := w\<rparr>)
         else read_loop cl (remaining - n) (offset + n) (got @ window content offset n) (st\<lparr>fs_world := w\<rparr>))"
      using False w by (subst read_loop.simps) (simp add: Let_def n_def [symmetric])
    show ?thesis
    proof (cases "int (length (window content offset n)) < n")
      case True
      with step w window_short [of offset n remaining content] less.prems(4) n show ?thesis by auto
    next
      case False
      obtain w' where "read_loop cl (remaining - n) (offset + n) (got @ window content offset n) (st\<lparr>fs_world := w\<rparr>)
          = Some (Inr ((got @ window content offset n) @ window content (offset + n) (remaining - n)), st\<lparr>fs_world := w'\<rparr>)"
        "up w'"
        using less.hyps [of "remaining - n" "st\<lparr>fs_world := w\<rparr>" "offset + n" "got @ window content offset n"] w n less.prems
        by auto
      with False step window_parts [of offset n remaining content] less.prems(4) n show ?thesis by auto
    qed
  qed
qed

section \<open>Reads, as a user sees them\<close>


text \<open>A server that holds \<open>content\<close> and answers every request at once.\<close>

definition library_net :: "bytes \<Rightarrow> (unit, unit) net" where
  "library_net content = \<lparr>net_connect = (\<lambda>u w. Some (Inr (), w)),
     net_execute = (\<lambda>s req w. Some (Inr \<lparr>res_data =
       (case req of Read h offset len pid \<Rightarrow> window content offset len | _ \<Rightarrow> []), res_status = None\<rparr>, w)),
     net_closed = (\<lambda>s w. False), net_close = (\<lambda>s w. w), net_clock = (\<lambda>w. (0, w)), net_sleep = (\<lambda>t w. w)\<rparr>"

definition sample_file_config :: file_config where
  "sample_file_config = \<lparr>fc_router = sample_router_config, fc_chunk_size = 3, fc_max_read_size = 100,
     fc_data_streams = 1, fc_recover_handles = True\<rparr>"

definition library :: "bytes \<Rightarrow> (unit, unit) client" where
  "library content = \<lparr>cl_net = library_net content, cl_cfg = sample_file_config,
     cl_arriving = (\<lambda>s req w. net_execute (library_net content) s req w), cl_arrives = (\<lambda>s w. None),
     cl_bind = (\<lambda>s w. Some (Inr 0, w)), cl_accel = None\<rparr>"

definition reading :: "('s \<Rightarrow> 's rfile) \<Rightarrow> 's \<Rightarrow> 'w \<Rightarrow> ('s, 'w) fstate" where
  "reading f s w = \<lparr>fs_file = f s, fs_pool = [], fs_world = w\<rparr>"

definition opened :: "'s \<Rightarrow> 's rfile" where
  "opened s = (new_File (root_url ''a'') None)\<lparr>f_handle := Some [0, 0, 0, 1], f_flags := 0x10,
     f_router := (Router (root_url ''a'') False)\<lparr>rt_session := Some s\<rparr>\<rparr>"


text \<open>
  A read on a live connection comes back. While its session stays up and answers reads of
  the handle from the content, \<^verbatim>\<open>File.read\<close> behaves as the abstract read it refines: it returns the
  requested part of the content (with a negative size the rest of it, provided that is no more
  than \<^verbatim>\<open>max_read_size\<close>), after finitely many requests, and the file object is as before.
\<close>

lemma read_refines_window:
  assumes "serves cl s h content up" and "attached s h (fs_file st)" and "up (fs_world st)"
    and "0 < fc_chunk_size (cl_cfg cl)" and "0 \<le> offset"
    and "sz < 0 \<Longrightarrow> f_stat (fs_file st) \<noteq> None \<and> f_size_hint (fs_file st) = int (length content)
      \<and> (fc_max_read_size (cl_cfg cl) = 0 \<or> max (int (length content) - offset) 0 \<le> fc_max_read_size (cl_cfg cl))"
  shows "\<exists>w. file_read cl sz offset st
      = Some (Inr (if sz < 0 then drop (nat offset) content else window content offset sz), st\<lparr>fs_world := w\<rparr>)
    \<and> up w"
proof -
  have sized: "\<exists>w. read_sized cl n offset st = Some (Inr (window content offset n), st\<lparr>fs_world := w\<rparr>) \<and> up w"
    if "0 \<le> n" for n
    using served_read_one [OF assms(1-3) that, of offset] served_read_loop [OF assms(1,4,2,3) that assms(5), of "[]"]
      assms(3) that by (auto simp: read_sized_def retF_def window_def intro: exI [of _ "fs_world st"])
  show ?thesis
  proof (cases "sz < 0")
    case True
    let ?n = "max (int (length content) - offset) 0"
    have "file_read cl sz offset st = read_sized cl ?n offset st"
      using True assms(6) by (auto simp: file_read_def file_size_def bindF_def getsF_def retF_def liftF_def check_whole_read_def)
    moreover have "window content offset ?n = drop (nat offset) content" by (simp add: window_def assms(5))
    ultimately show ?thesis using sized [of ?n] True by simp
  qed (use sized [of sz] in \<open>simp add: file_read_def\<close>)
qed

section \<open>Writing\<close>

text \<open>A positional write; a gap behind the end is filled with zeros, and writing nothing does nothing.\<close>

definition patch :: "nat \<Rightarrow> bytes \<Rightarrow> bytes \<Rightarrow> bytes" where
  "patch offset data content =
     (if data = [] then content
      else take offset content @ replicate (offset - length content) 0 @ data @ drop (offset + length data) content)"

lemma length_patch: "length (patch offset data content) = (if data = [] then length content else max (length content) (offset + length data))"
  by (auto simp: patch_def)

lemma nth_patch:
  "i < length (patch offset data content) \<Longrightarrow> patch offset data content ! i =
     (if offset \<le> i \<and> i < offset + length data then data ! (i - offset)
      else if i < length content then content ! i else 0)"
  by (auto simp: patch_def nth_append min_def split: if_splits)

lemma patch_twice [simp]: "patch offset data (patch offset data content) = patch offset data content"
  by (rule nth_equalityI) (auto simp: length_patch nth_patch split: if_splits)

lemma patch_append: "patch (offset + length a) b (patch offset a content) = patch offset (a @ b) content"
  by (rule nth_equalityI) (auto simp: length_patch nth_patch nth_append split: if_splits)

lemma patch_Nil [simp]: "patch offset [] content = content"
  by (simp add: patch_def)

text \<open>
  \<open>stores cl store\<close>: \<open>store\<close> is the content as the servers hold it. An acknowledged \<^verbatim>\<open>kXR_write\<close> has
  been applied, a failed one may have been; opening without writing flags, connecting, closing,
  binding and waiting leave the content alone.
\<close>

definition stores :: "('s, 'w) client \<Rightarrow> ('w \<Rightarrow> bytes) \<Rightarrow> bool" where
  "stores cl store \<longleftrightarrow>
     (\<forall>s h offset data pid w r w'.
        net_execute (cl_net cl) s (Write h offset data pid) w = Some (r, w')
          \<or> cl_arriving cl s (Write h offset data pid) w = Some (r, w')
        \<longrightarrow> store w' = patch (nat offset) data (store w) \<or> (isl r \<and> store w' = store w))
     \<and> (\<forall>s p flags mode w r w'. flags AND WRITING = 0 \<longrightarrow>
          net_execute (cl_net cl) s (Open p flags mode) w = Some (r, w') \<longrightarrow> store w' = store w)
     \<and> (\<forall>u w r w'. net_connect (cl_net cl) u w = Some (r, w') \<longrightarrow> store w' = store w)
     \<and> (\<forall>s w. store (net_close (cl_net cl) s w) = store w)
     \<and> (\<forall>w t w'. net_clock (cl_net cl) w = (t, w') \<longrightarrow> store w' = store w)
     \<and> (\<forall>t w. store (net_sleep (cl_net cl) t w) = store w)
     \<and> (\<forall>s w r w'. cl_bind cl s w = Some (r, w') \<longrightarrow> store w' = store w)"

lemma stores_service:
  assumes "stores cl store"
  shows "file_service cl (\<lambda>w. store w = c \<or> store w = patch (nat offset) data c)
    (\<lambda>q. \<exists>h pid. q = Write h offset data pid) (\<lambda>_ w. store w = patch (nat offset) data c) True"
proof -
  note s = assms [unfolded stores_def]
  show ?thesis
  proof unfold_locales
    fix q w s' r w'
    assume "\<exists>h pid. q = Write h offset data pid" "store w = c \<or> store w = patch (nat offset) data c"
      "net_execute (cl_net cl) s' q w = Some (r, w')"
    with s show "case r of Inl _ \<Rightarrow> store w' = c \<or> store w' = patch (nat offset) data c
        | Inr a \<Rightarrow> store w' = patch (nat offset) data c"
      by (cases r) fastforce+
  next
    fix q w s' r w'
    assume "\<exists>h pid. q = Write h offset data pid" "store w = c \<or> store w = patch (nat offset) data c"
      "cl_arriving cl s' q w = Some (r, w')"
    with s show "case r of Inl _ \<Rightarrow> store w' = c \<or> store w' = patch (nat offset) data c
        | Inr a \<Rightarrow> store w' = patch (nat offset) data c"
      by (cases r) fastforce+
  qed (use s in \<open>fastforce\<close>)+
qed

lemma write_piece_patch:
  assumes "stores cl store" "write_piece cl offset data st = Some (r, st')" "\<not> f_checkpoint (fs_file st)"
  shows "\<not> f_checkpoint (fs_file st') \<and>
    (store (fs_world st') = patch (nat offset) data (store (fs_world st)) \<or> (isl r \<and> store (fs_world st') = store (fs_world st)))"
proof -
  have "bulk cl (write_for offset data) st = Some (r, st')"
    using assms(2,3) by (simp add: write_piece_def bindF_def getsF_def)
  from file_service.bulk_answers [OF stores_service [OF assms(1), of "store (fs_world st)" offset data] this, of False] assms(3)
  show ?thesis by (cases r) (auto simp: write_for_def)
qed

lemma write_loop_patch:
  assumes "stores cl store" "0 < fc_chunk_size (cl_cfg cl)" "0 \<le> offset"
  shows "write_loop cl data offset written st = Some (r, st') \<Longrightarrow> 0 \<le> written \<Longrightarrow> written \<le> int (length data) \<Longrightarrow>
    \<not> f_checkpoint (fs_file st) \<Longrightarrow>
    store (fs_world st) = patch (nat offset) (take (nat written) data) c \<Longrightarrow>
    \<exists>k \<le> length data. store (fs_world st') = patch (nat offset) (take k data) c
      \<and> (\<forall>n. r = Inr n \<longrightarrow> n = int (length data) \<and> k = length data)"
proof (induction "nat (int (length data) - written)" arbitrary: written st rule: less_induct)
  case less
  show ?case
  proof (cases "written < int (length data)")
    case False
    then have "write_loop cl data offset written st = Some (Inr written, st)" by (subst write_loop.simps) simp
    with less.prems False show ?thesis by (intro exI [of _ "length data"]) auto
  next
    case True
    define k where "k = nat written"
    define piece where "piece = slice_from (slice_to data (written + fc_chunk_size (cl_cfg cl))) written"
    have piece: "piece = take (nat (fc_chunk_size (cl_cfg cl))) (drop k data)"
      using less.prems(2) assms(2) by (simp add: piece_def k_def nat_add_distrib drop_take)
    then have len: "0 < length piece" "k + length piece \<le> length data" and k: "int k = written" "k < length data"
      using True less.prems(2) assms(2) by (auto simp: k_def)
    have "patch (nat offset + length (take k data)) piece (patch (nat offset) (take k data) c)
        = patch (nat offset) (take (k + length piece) data) c"
      unfolding patch_append by (simp add: piece take_add min_def)
    then have grow: "patch (nat (offset + written)) piece (store (fs_world st)) = patch (nat offset) (take (k + length piece) data) c"
      using less.prems(5) k assms(3) by (simp add: k_def nat_add_distrib less.prems(2))
    from less.prems(1) True obtain y st1 where w: "write_piece cl (offset + written) piece st = Some (y, st1)"
      and go: "case y of Inl x \<Rightarrow> r = Inl x \<and> st' = st1
        | Inr _ \<Rightarrow> write_loop cl data offset (written + int (length piece)) st1 = Some (r, st')"
      by (subst (asm) write_loop.simps)
        (auto simp: Let_def piece_def [symmetric] split: option.split_asm prod.split_asm sum.split_asm)
    note sent = write_piece_patch [OF assms(1) w less.prems(4), unfolded grow]
    show ?thesis
    proof (cases y)
      case (Inl x)
      with go sent less.prems(5) k len show ?thesis
        by (auto intro: exI [of _ "k + length piece"] exI [of _ k] simp: k_def)
    next
      case (Inr a)
      have after: "nat (written + int (length piece)) = k + length piece" using k by simp
      show ?thesis
        by (rule less.hyps [of "written + int (length piece)" st1]) (use Inr go sent after len k in auto)
    qed
  qed
qed


text \<open>A server whose content is the world, and whose data sockets never answer.\<close>

definition disk_net :: "(unit, bytes) net" where
  "disk_net = \<lparr>net_connect = (\<lambda>u w. Some (Inr (), w)),
     net_execute = (\<lambda>s req w. Some (Inr \<lparr>res_data = [], res_status = None\<rparr>,
       case req of Write h offset data pid \<Rightarrow> patch (nat offset) data w | _ \<Rightarrow> w)),
     net_closed = (\<lambda>s w. False), net_close = (\<lambda>s w. w), net_clock = (\<lambda>w. (0, w)), net_sleep = (\<lambda>t w. w)\<rparr>"

definition disk :: "(unit, bytes) client" where
  "disk = \<lparr>cl_net = disk_net, cl_cfg = sample_file_config,
     cl_arriving = (\<lambda>s req w. Some (Inl (Raised (XrdTimeoutError ''no answer'' 1)), w)), cl_arrives = (\<lambda>s w. None),
     cl_bind = (\<lambda>s w. Some (Inr 2, w)), cl_accel = None\<rparr>"


section \<open>Recovery\<close>

text \<open>
  The requests a fleet of drivers was handed beyond \<open>old\<close>: the method's own, and, where handles may be
  re-opened, opens that write nothing.
\<close>

definition asked :: "(nat \<times> request) list \<Rightarrow> request set \<Rightarrow> bool \<Rightarrow> ('c, 'w) fleet \<Rightarrow> bool" where
  "asked old Q opens fl \<longleftrightarrow>
     (\<exists>new. fl_log fl = old @ new \<and>
        (\<forall>(s, q) \<in> set new. q \<in> Q \<or> opens \<and> (\<exists>p flags mode. q = Open p flags mode \<and> flags AND WRITING = 0)))"

lemma asked_more:
  "asked old Q opens fl \<Longrightarrow> fl_log fl' = fl_log fl @ [(s, q)] \<Longrightarrow>
    q \<in> Q \<or> opens \<and> (\<exists>p flags mode. q = Open p flags mode \<and> flags AND WRITING = 0) \<Longrightarrow> asked old Q opens fl'"
  unfolding asked_def by (elim exE) (intro exI [of _ "_ @ [(s, q)]"], auto)

lemma asked_same: "asked old Q opens fl \<Longrightarrow> fl_log fl' = fl_log fl \<Longrightarrow> asked old Q opens fl'"
  by (simp add: asked_def)

lemma fleet_logs:
  "fleet_execute io ev limit s q fl = Some (r, fl') \<Longrightarrow> fl_log fl' = fl_log fl @ [(s, q)]"
  "fleet_arriving io ev limit s q fl = Some (r, fl') \<Longrightarrow> fl_log fl' = fl_log fl @ [(s, q)]"
  "fleet_connect io ev scfg u fl = Some (r', fl') \<Longrightarrow> fl_log fl' = fl_log fl"
  "fleet_bind io ev scfg s fl = Some (r'', fl') \<Longrightarrow> fl_log fl' = fl_log fl"
  "fl_log (fleet_close io s fl) = fl_log fl"
  by (auto simp: fleet_execute_def fleet_arriving_def fleet_connect_def fleet_bind_def fleet_close_def Let_def
      split: option.split_asm sum.split_asm prod.split_asm option.split)

interpretation logged: file_service "fleet_client io ev scfg limit clock cfg accel" "asked old Q opens"
    "\<lambda>q. q \<in> Q \<and> (\<forall>f. map_path f q = q)" "\<lambda>_. asked old Q opens" opens ck
  for io :: "'w io" and ev :: "'c env" and scfg limit clock cfg accel old Q opens ck
proof unfold_locales
  let ?cl = "fleet_client io ev scfg limit clock cfg accel"
  let ?inv = "asked old Q opens :: ('c, 'w) fleet \<Rightarrow> bool"
  have parts: "cl_net ?cl = fleet_net io ev scfg limit clock" "cl_arriving ?cl = fleet_arriving io ev limit"
    "cl_bind ?cl = fleet_bind io ev scfg" by (simp_all add: fleet_client_def)
  note net = fleet_net_def [of io ev scfg limit clock]
  fix w w' :: "('c, 'w) fleet" and u t s
  assume a: "?inv w"
  show "?inv w'" if "net_connect (cl_net ?cl) u w = Some (r, w')" for r
    using that asked_same [OF a fleet_logs(3)] by (simp add: parts net)
  show "?inv (net_close (cl_net ?cl) s w)"
    using asked_same [OF a fleet_logs(5)] by (simp add: parts net)
  show "?inv w'" if "net_clock (cl_net ?cl) w = (t, w')"
    using that asked_same [OF a, of w'] by (auto simp: parts net split: prod.splits)
  show "?inv (net_sleep (cl_net ?cl) t w)"
    using a by (simp add: parts net asked_def)
  show "?inv w'" if "cl_bind ?cl s w = Some (r, w')" for r
    using that asked_same [OF a fleet_logs(4)] by (simp add: parts)
  show "case r of Inl _ \<Rightarrow> ?inv w' | Inr a \<Rightarrow> ?inv w'"
    if "q \<in> Q \<and> (\<forall>f. map_path f q = q)" "net_execute (cl_net ?cl) s q w = Some (r, w')" for q r
    using that asked_more [OF a fleet_logs(1)] by (simp add: parts net split: sum.split)
  show "case r of Inl _ \<Rightarrow> ?inv w' | Inr a \<Rightarrow> ?inv w'"
    if "q \<in> Q \<and> (\<forall>f. map_path f q = q)" "cl_arriving ?cl s q w = Some (r, w')" for q r
    using that asked_more [OF a fleet_logs(2)] by (simp add: parts split: sum.split)
  show "?inv w'" if opens "flags AND WRITING = 0" "net_execute (cl_net ?cl) s (Open p flags mode) w = Some (r, w')"
    for p flags mode r
    using that asked_more [OF a fleet_logs(1)] by (simp add: parts net)
qed simp

lemma run_request_same:
  "run_request cl q st = Some (r, st') \<Longrightarrow> \<exists>rs. st' = put_router rs st"
  by (auto simp: run_request_def on_router_def split: option.split_asm prod.split_asm)

lemma run_built_same:
  assumes "run_built cl build h st = Some (r, st')"
  shows "\<exists>rt pool w. st' = \<lparr>fs_file = (fs_file st)\<lparr>f_router := rt\<rparr>, fs_pool = pool, fs_world = w\<rparr>"
proof (cases "build (fs_file st) h")
  case (Inl e)
  with assms have "st' = st" by (simp add: run_built_def bindF_def getsF_def liftF_def raiseF_def)
  then show ?thesis 
    by (intro exI [of _ "f_router (fs_file st)"] exI [of _ "fs_pool st"] exI [of _ "fs_world st"]) simp
next
  case (Inr q)
  with assms have "run_request cl q st = Some (r, st')"
    by (simp add: run_built_def bindF_def getsF_def liftF_def retF_def)
  from run_request_same [OF this] show ?thesis by (auto simp: put_router_def)
qed

lemma unrecovered_same:
  assumes "file_execute cl build st = Some (r, st')" "\<not> recoverable (cl_cfg cl) (fs_file st)"
  shows "f_handle (fs_file st') = f_handle (fs_file st) \<and> f_recoveries (fs_file st') = f_recoveries (fs_file st)"
proof (cases "f_handle (fs_file st)")
  case None
  with assms show ?thesis
    by (auto simp: file_execute_def catchF_def bindF_def file_handle_def raiseF_def getsF_def split: if_splits)
next
  case (Some h)
  with assms(1) obtain r1 st1 where b: "run_built cl build h st = Some (r1, st1)"
    by (auto simp: file_execute_def catchF_def bindF_def file_handle_def retF_def split: option.split_asm)
  from run_built_same [OF this] obtain rt pool w
    where st1: "st1 = \<lparr>fs_file = (fs_file st)\<lparr>f_router := rt\<rparr>, fs_pool = pool, fs_world = w\<rparr>" by blast
  then have "\<not> recoverable (cl_cfg cl) (fs_file st1)" using assms(2) by (simp add: recoverable_def)
  with assms(1) Some b have "st' = st1"
    by (auto simp: file_execute_def catchF_def bindF_def file_handle_def retF_def raiseF_def getsF_def
        split: sum.split_asm if_splits)
  with st1 show ?thesis by simp
qed

text \<open>
  C25. Only handles that write nothing are re-opened. Whatever connections break during a request
  on an open handle, the requests that reach any session are the method's own and, if and
  only if the handle is recoverable, opens without a single writing flag. A handle that was
  opened for writing, or with recovery switched off, keeps its handle and is never opened again
  behind the caller's back.
\<close>

theorem writers_never_reopened:
  assumes "file_execute (fleet_client io ev scfg limit clock cfg accel) build st = Some (r, st')"
    and "\<And>f h q g. build f h = Inr q \<Longrightarrow> map_path g q = q"
  shows "(\<exists>new. fl_log (fs_world st') = fl_log (fs_world st) @ new \<and>
      (\<forall>(s, q) \<in> set new. (\<exists>f h. build f h = Inr q)
         \<or> recoverable cfg (fs_file st) \<and> (\<exists>p flags mode. q = Open p flags mode \<and> flags AND WRITING = 0)))
    \<and> (\<not> recoverable cfg (fs_file st) \<longrightarrow>
        f_handle (fs_file st') = f_handle (fs_file st) \<and> f_recoveries (fs_file st') = f_recoveries (fs_file st))"
proof -
  let ?cl = "fleet_client io ev scfg limit clock cfg accel" and ?own = "{q. \<exists>f h. build f h = Inr q}"
  have cfg: "cl_cfg ?cl = cfg" by (simp add: fleet_client_def)
  have "asked (fl_log (fs_world st)) ?own (recoverable cfg (fs_file st)) (fs_world st)"
    by (simp add: asked_def)
  then have "asked (fl_log (fs_world st)) ?own (recoverable cfg (fs_file st)) (fs_world st')"
    using logged.execute_answers [OF assms(1) _ _ refl, of "fl_log (fs_world st)" ?own "recoverable cfg (fs_file st)"] assms(2)
    by (auto simp: cfg split: sum.splits)
  moreover have "f_handle (fs_file st') = f_handle (fs_file st) \<and> f_recoveries (fs_file st') = f_recoveries (fs_file st)"
    if "\<not> recoverable cfg (fs_file st)"
    using unrecovered_same [OF assms(1)] that by (simp add: cfg)
  ultimately show ?thesis by (auto simp: asked_def)
qed

text \<open>A writer whose server has closed the connection.\<close>

definition lost_writer :: "(nat, (unit, memory) fleet) fstate" where
  "lost_writer = \<lparr>fs_file = (opened 0)\<lparr>f_flags := 0x8000\<rparr>, fs_pool = [], fs_world = rs_world sample_fleet\<rparr>"

definition lost_client :: "(nat, (unit, memory) fleet) client" where
  "lost_client = fleet_client memory_io sample_env sample_cfg 16 (\<lambda>w. (0, w)) sample_file_config None"

theorem writers_never_reopened_witness:
  "\<exists>r st'. file_execute lost_client (\<lambda>f h. Inr (Sync h)) lost_writer = Some (r, st')
     \<and> f_handle (fs_file st') = Some [0, 0, 0, 1] \<and> f_recoveries (fs_file st') = 0"
proof -
  have "file_execute lost_client (\<lambda>f h. Inr (Sync h)) lost_writer \<noteq> None" by code_simp
  then obtain r st' where x: "file_execute lost_client (\<lambda>f h. Inr (Sync h)) lost_writer = Some (r, st')" by auto
  have "\<not> recoverable sample_file_config (fs_file lost_writer)" by code_simp
  moreover have "f_handle (fs_file lost_writer) = Some [0, 0, 0, 1]" "f_recoveries (fs_file lost_writer) = 0"
    by (simp_all add: lost_writer_def opened_def new_File_def)
  moreover have "map_path g q = q" if "Inr (Sync h) = (Inr q :: exn + request)" for h q g using that by auto
  ultimately show ?thesis
    using writers_never_reopened [OF x [unfolded lost_client_def]] x by auto
qed

end
