(* ===== verification/File_Vector.thy ===== *)
theory File_Vector
  imports File_Properties Wire_Properties
begin

text \<open>
  Vector reads of an open file (\<^verbatim>\<open>readv\<close>, \<^verbatim>\<open>_batches\<close> and \<^verbatim>\<open>_segment_for\<close> of
  \<^verbatim>\<open>src/src/xrd/client/file.py\<close>): how the ranges are batched, how the answers of all batches are filed by
  offset, and that each range gets its own answer back.
\<close>

section \<open>Vector reads\<close>

lemma batches_loop_concat:
  "batches_loop ranges batch tot = (bs, None) \<Longrightarrow> concat bs = batch @ ranges"
  by (induction ranges batch tot arbitrary: bs rule: batches_loop.induct) (auto split: if_splits prod.splits)

definition within_limits :: "read_range list \<Rightarrow> bool" where
  "within_limits b \<longleftrightarrow> int (length b) \<le> READV_MAX_CHUNKS \<and> sum_list (map rr_length b) \<le> READV_MAX_BYTES"

lemma within_limits_one: "rr_length rng \<le> READV_MAX_BYTES \<Longrightarrow> within_limits [rng]"
  by (simp add: within_limits_def READV_MAX_CHUNKS_def)

lemma within_limits_snoc:
  "int (length batch) < READV_MAX_CHUNKS \<Longrightarrow> sum_list (map rr_length batch) + rr_length rng \<le> READV_MAX_BYTES \<Longrightarrow>
    within_limits (batch @ [rng])"
  by (simp add: within_limits_def)

lemma batches_loop_limits:
  "within_limits batch \<Longrightarrow> tot = sum_list (map rr_length batch) \<Longrightarrow>
    list_all within_limits (fst (batches_loop ranges batch tot))"
proof (induction ranges batch tot rule: batches_loop.induct)
  case (2 rng rest batch tot)
  show ?case
  proof (cases "rr_length rng > READV_MAX_BYTES")
    case small: False
    show ?thesis
    proof (cases "batch \<noteq> [] \<and> (int (length batch) \<ge> READV_MAX_CHUNKS \<or> tot + rr_length rng > READV_MAX_BYTES)")
      case True
      then have "fst (batches_loop (rng # rest) batch tot) = batch # fst (batches_loop rest [rng] (rr_length rng))"
        unfolding batches_loop.simps using small by (simp only: if_False if_True split_def fst_conv simp_thms)
      moreover have "within_limits [rng]" using small by (intro within_limits_one) simp
      ultimately show ?thesis using 2(1) [OF small True] 2(3) by simp
    next
      case False
      then have "fst (batches_loop (rng # rest) batch tot) = fst (batches_loop rest (batch @ [rng]) (tot + rr_length rng))"
        unfolding batches_loop.simps using small by (simp only: if_False)
      moreover have "within_limits (batch @ [rng])"
      proof (cases "batch = []")
        case True
        with small show ?thesis by (simp add: within_limits_one)
      next
        case False
        with \<open>\<not> (batch \<noteq> [] \<and> _)\<close> 2(4) show ?thesis by (intro within_limits_snoc) simp_all
      qed
      ultimately show ?thesis using 2(2) [OF small False] 2(4) by simp
    qed
  qed simp
qed simp

text \<open>
  Every answer to a vector read has one segment for each element that was asked for, with that
  part of the content, in any order.
\<close>

definition truthful_readv :: "('s, 'w) client \<Rightarrow> bytes \<Rightarrow> bool" where
  "truthful_readv cl content \<longleftrightarrow>
     (\<forall>s chunks pid w r w'. net_execute (cl_net cl) s (ReadV chunks pid) w = Some (Inr r, w') \<longrightarrow>
        (\<exists>segs. parse_readv (res_data r) = Inr segs
           \<and> mset (map (\<lambda>seg. (rv_offset seg, rv_data seg)) segs)
             = mset (map (\<lambda>(h, offset, len). (offset, window content offset len)) chunks)))"

definition window_of :: "bytes \<Rightarrow> read_range \<Rightarrow> bytes" where
  "window_of content r = window content (rr_offset r) (rr_length r)"

lemma readv_answer:
  assumes "truthful_readv cl content" "file_execute cl (readv_for b) st = Some (Inr a, st')"
  shows "\<exists>segs. parse_readv (res_data a) = Inr segs
    \<and> mset (map (\<lambda>seg. (rv_offset seg, rv_data seg)) segs) = mset (map (\<lambda>r. (rr_offset r, window_of content r)) b)"
    (is "?answer a")
proof -
  have svc: "file_requests cl (\<lambda>_. True)
      (\<lambda>q. \<exists>h pid. q = ReadV (map (\<lambda>r. (h, rr_offset r, rr_length r)) b) pid) (\<lambda>a _. ?answer a) True"
  proof unfold_locales
    fix q w s r w'
    assume "\<exists>h pid. q = ReadV (map (\<lambda>r. (h, rr_offset r, rr_length r)) b) pid"
      "net_execute (cl_net cl) s q w = Some (r, w')"
    then obtain h pid where "net_execute (cl_net cl) s (ReadV (map (\<lambda>r. (h, rr_offset r, rr_length r)) b) pid) w = Some (r, w')"
      by blast
    with assms(1) [unfolded truthful_readv_def, rule_format, of s "map (\<lambda>r. (h, rr_offset r, rr_length r)) b" pid w _ w']
    show "case r of Inl _ \<Rightarrow> True | Inr a \<Rightarrow> ?answer a"
      by (cases r) (auto simp: window_of_def comp_def)
  qed auto
  from file_requests.execute_answers [OF svc assms(2), of "f_checkpoint (fs_file st)"] show ?thesis
    by (auto simp: readv_for_def)
qed

lemma segments_filed:
  assumes "distinct (map rv_offset segs)" "rv_offset ` set segs \<inter> keys answers = {}"
  shows "map_of (foldl (\<lambda>d seg. file_segment seg d) answers segs)
    = map_of answers ++ map_of (map (\<lambda>seg. (rv_offset seg, [rv_data seg])) segs)"
  using assms
proof (induction segs arbitrary: answers)
  case (Cons seg segs)
  have new: "map_of answers (rv_offset seg) = None" using Cons.prems(2) by (auto simp: map_of_None_keys)
  then have one: "map_of (file_segment seg answers) = (map_of answers)(rv_offset seg \<mapsto> [rv_data seg])"
    by (simp add: file_segment_def update_conv')
  then have "keys (file_segment seg answers) = insert (rv_offset seg) (keys answers)"
    by (metis dom_fun_upd dom_map_of_conv_image_fst option.distinct(1))
  moreover have "map_of (map (\<lambda>seg. (rv_offset seg, [rv_data seg])) segs) (rv_offset seg) = None"
    using Cons.prems(1) by (auto simp: map_of_eq_None_iff)
  ultimately show ?case using Cons one by (auto simp: map_add_def fun_eq_iff split: option.splits)
qed simp

lemma readv_batches_filed:
  assumes "truthful_readv cl content"
  shows "readv_batches cl bs answers st = Some (Inr answers', st') \<Longrightarrow> distinct (map rr_offset (ds @ concat bs)) \<Longrightarrow>
    map_of answers = map_of (map (\<lambda>r. (rr_offset r, [window_of content r])) ds) \<Longrightarrow>
    map_of answers' = map_of (map (\<lambda>r. (rr_offset r, [window_of content r])) (ds @ concat bs))"
proof (induction bs arbitrary: answers st ds)
  case Nil
  then show ?case by (simp add: retF_def)
next
  case (Cons b bs)
  let ?file = "\<lambda>r. (rr_offset r, [window_of content r])"
  from Cons.prems(1) obtain a st1 segs where x: "file_execute cl (readv_for b) st = Some (Inr a, st1)"
    and p: "parse_readv (res_data a) = Inr segs"
    and go: "readv_batches cl bs (foldl (\<lambda>d seg. file_segment seg d) answers segs) st1 = Some (Inr answers', st')"
    by (auto simp: bindF_def liftF_def raiseF_def retF_def split: option.split_asm sum.split_asm)
  from readv_answer [OF assms x] p
  have m: "mset (map (\<lambda>seg. (rv_offset seg, rv_data seg)) segs) = mset (map (\<lambda>r. (rr_offset r, window_of content r)) b)" by simp
  have off: "mset (map rv_offset segs) = mset (map rr_offset b)"
    using arg_cong [OF m, of "image_mset fst"] by (simp add: multiset.map_comp comp_def)
  have dist: "distinct (map rv_offset segs)"
    using off Cons.prems(2) by (metis distinct_append concat.simps(2) map_append mset_eq_imp_distinct_iff)
  have "set (map rv_offset segs) = set (map rr_offset b)" by (rule mset_eq_setD [OF off])
  moreover have "keys answers = rr_offset ` set ds"
    using arg_cong [OF Cons.prems(3), of dom] by (simp add: dom_map_of_conv_image_fst image_image)
  ultimately have fresh: "rv_offset ` set segs \<inter> keys answers = {}" using Cons.prems(2) by auto
  have "set (map (\<lambda>seg. (rv_offset seg, [rv_data seg])) segs) = set (map ?file b)"
    using arg_cong [OF mset_eq_setD [OF m], of "image (\<lambda>(o', d). (o', [d]))"] by (simp add: image_image)
  then have "map_of (map (\<lambda>seg. (rv_offset seg, [rv_data seg])) segs) = map_of (map ?file b)"
    using dist Cons.prems(2) by (intro map_of_inject_set [THEN iffD2]) (simp_all add: comp_def)
  moreover have "map_of (map ?file ds) ++ map_of (map ?file b) = map_of (map ?file b) ++ map_of (map ?file ds)"
    using Cons.prems(2) by (intro map_add_comm) (auto simp: dom_map_of_conv_image_fst)
  ultimately have "map_of (foldl (\<lambda>d seg. file_segment seg d) answers segs) = map_of (map ?file (ds @ b))"
    using segments_filed [OF dist fresh] Cons.prems(3) by (simp only: map_append map_of_append)
  from Cons.IH [OF go _ this] Cons.prems(2) show ?case by simp
qed

lemma segments_for_windows:
  assumes "map_of answers = map_of (map (\<lambda>r. (rr_offset r, [window_of content r])) all)" "distinct (map rr_offset all)"
  shows "segments_for wanted answers = Inr datas \<Longrightarrow> set wanted \<subseteq> set all \<Longrightarrow> datas = map (window_of content) wanted"
proof (induction wanted arbitrary: datas)
  case (Cons r rs)
  have "map_of answers (rr_offset r) = Some [window_of content r]"
    unfolding assms(1) using Cons.prems(2) assms(2) by (intro map_of_is_SomeI) (auto simp: comp_def)
  then have "segment_for r answers = Inr (window_of content r, answers)"
    using Cons.prems(1) by (auto simp: segment_for_def bindE_eq_Inr split: if_splits)
  with Cons show ?case by (auto simp: bindE_eq_Inr)
qed simp


text \<open>A server that answers the elements of a vector read last to first, and refuses what does not fit its fields.\<close>

definition shelf_net :: "bytes \<Rightarrow> (unit, unit) net" where
  "shelf_net content = (library_net content)\<lparr>net_execute := (\<lambda>s req w. case req of
     ReadV chunks pid \<Rightarrow>
       (let segs = map (\<lambda>(h, offset, len). \<lparr>rv_fhandle = h, rv_offset = offset, rv_data = window content offset len\<rparr>) (rev chunks)
        in Some (if list_all segment_ok segs then Inr \<lparr>res_data = concat (map segment_bytes segs), res_status = None\<rparr>
                 else Inl (Raised StructError), w))
   | _ \<Rightarrow> Some (Inl (Raised StructError), w))\<rparr>"

definition shelf :: "bytes \<Rightarrow> (unit, unit) client" where
  "shelf content = (library content)\<lparr>cl_net := shelf_net content\<rparr>"

lemma shelf_truthful: "truthful_readv (shelf content) content"
  unfolding truthful_readv_def
proof (intro allI impI)
  fix s chunks pid w r w'
  assume run: "net_execute (cl_net (shelf content)) s (ReadV chunks pid) w = Some (Inr r, w')"
  define segs where "segs = map (\<lambda>(h, offset, len). \<lparr>rv_fhandle = h, rv_offset = offset, rv_data = window content offset len\<rparr>) (rev chunks)"
  from run have ok: "list_all segment_ok segs" "res_data r = concat (map segment_bytes segs)"
    by (auto simp: shelf_def shelf_net_def Let_def segs_def split: if_splits)
  have "parse_readv (res_data r) = Inr segs"
    using readv_loop_complete [OF ok(1), of "Reader (res_data r) ''kXR_readv''"] ok(2)
    by (simp add: parse_readv_def reader_ok_def Reader_def)
  moreover have "mset (map (\<lambda>seg. (rv_offset seg, rv_data seg)) segs)
      = mset (map (\<lambda>(h, offset, len). (offset, window content offset len)) chunks)"
    by (simp add: segs_def multiset.map_comp comp_def split_def)
  ultimately show "\<exists>segs. parse_readv (res_data r) = Inr segs
      \<and> mset (map (\<lambda>seg. (rv_offset seg, rv_data seg)) segs)
        = mset (map (\<lambda>(h, offset, len). (offset, window content offset len)) chunks)" by blast
qed


section \<open>Where the code falls short\<close>

text \<open>
  Two ranges with the same offset and different lengths: the answers are filed under the offset
  in the order they arrive, so a server that reorders them makes the shorter range receive the
  longer answer, and a correct reply is refused.
\<close>

lemma same_offset_reordered_refused:
  "case file_readv (shelf [1, 2, 3, 4, 5]) [\<lparr>rr_offset = 1, rr_length = 2\<rparr>, \<lparr>rr_offset = 1, rr_length = 4\<rparr>]
     (reading opened () ()) of
     Some (Inl (Raised (ProtocolError _)), _) \<Rightarrow> True | _ \<Rightarrow> False"
  by code_simp

text \<open>
  \<^verbatim>\<open>_bulk\<close> looks at its router's session before it tries anything. A recoverable file that has data
  paths and whose connection was found closed by an earlier call raises there, instead of being
  re-opened as it is without data paths.
\<close>

definition lost_reader :: "int list \<Rightarrow> (nat, (unit, memory) fleet) fstate" where
  "lost_reader paths = lost_writer\<lparr>fs_file := (opened 0)\<lparr>f_data_paths := paths\<rparr>,
     fs_world := (fs_world lost_writer)\<lparr>fl_sessions := [(0, Session 0 (sample_ready\<lparr>mstate := CLOSED\<rparr>) silent_pipe)]\<rparr>\<rparr>"

lemma lost_reader_with_paths_raises:
  "case file_read lost_client 2 0 (lost_reader [1]) of
     Some (Inl (Raised (XrdConnectionError _)), st) \<Rightarrow> f_recoveries (fs_file st) = 0 | _ \<Rightarrow> False"
  "case file_read lost_client 2 0 (lost_reader []) of Some (_, st) \<Rightarrow> f_recoveries (fs_file st) = 1 | _ \<Rightarrow> False"
  by code_simp+

text \<open>
  A checkpointed write on a handle with a bound data path: the embedded request announces its data
  for the path, the checkpoint request has none of its own, and so the bytes are never sent.
\<close>

lemma checkpointed_write_loses_path_data:
  assumes "pid \<noteq> 0" "ChkPoint_execute h (Write h offset data pid) = Inr q"
  shows "\<exists>header. q = ChkPoint h kXR_ckpXeq header [] \<and> rq_path_data (cls q) = []"
proof -
  from assms(2) obtain frame where f: "encode (cls (Write h offset data pid)) 0 = Inr frame"
    and q: "q = ChkPoint h kXR_ckpXeq (slice_to frame REQUEST_HDRLEN) (slice_from frame REQUEST_HDRLEN)"
    by (auto simp: ChkPoint_execute_def bindE_eq_Inr split: if_splits)
  have "length frame = 24" using f assms(1) by (elim encode_Inr) (simp add: cls_defs)
  then show ?thesis using q by (simp add: cls_defs)
qed

end
