(* ===== verification/Xrd_Flags.thy ===== *)
theory Xrd_Flags
  imports Wire_Constants
begin

text \<open>
  Flags, permissions and mode strings, \<^verbatim>\<open>src/src/xrd/flags.py\<close>. An enumeration is the dictionary
  of its members in the order of the source; a value of one is its integer. Whatever the source
  takes as bits or as words is a \<open>wordy\<close>. An \<^verbatim>\<open>IntFlag\<close> accepts any combination of bits, an
  \<^verbatim>\<open>IntEnum\<close> only its members. The hint in the text of a refusal, which needs \<^verbatim>\<open>difflib\<close>, and
  \<^verbatim>\<open>__str__\<close> are left out. Characters are code points, the character in a comment.
\<close>

section \<open>Words\<close>

datatype wordy = Bits int | Words str

definition upper :: "str \<Rightarrow> str" where
  "upper s = map (\<lambda>c. if 97 \<le> c \<and> c \<le> 122 then c - 32 else c) s"

text \<open>\<^verbatim>\<open>_SEPARATORS\<close>: white space, comma, bar, plus.\<close>

definition is_separator :: "nat \<Rightarrow> bool" where
  "is_separator c \<longleftrightarrow> is_space c \<or> c \<in> {44, 124, 43}"

fun words_of :: "str \<Rightarrow> str \<Rightarrow> str list" where
  "words_of word [] = (if word = [] then [] else [word])"
| "words_of word (c # cs) =
     (if is_separator c then (if word = [] then words_of [] cs else word # words_of [] cs)
      else words_of (word @ [c]) cs)"

fun fold_words :: "(str, int) dict \<Rightarrow> str list \<Rightarrow> int \<Rightarrow> exn + int" where
  "fold_words members [] bits = Inr bits"
| "fold_words members (w # ws) bits =
     (case map_of members w of
        None \<Rightarrow> Inl (ValueError ''no such flag'')
      | Some b \<Rightarrow> fold_words members ws (bits OR b))"

text \<open>\<^verbatim>\<open>_Words._missing_\<close> of a string; 45 is the hyphen, 95 the underscore.\<close>

definition missing_words :: "bool \<Rightarrow> (str, int) dict \<Rightarrow> str \<Rightarrow> exn + int" where
  "missing_words many members value =
     (let ws = words_of [] (map (\<lambda>c. if c = 45 then 95 else c) (upper (strip value)))
      in if ws = [] then Inl (ValueError ''needs a name'')
         else if length ws > 1 \<and> \<not> many then Inl (ValueError ''takes one name'')
         else fold_words members ws 0)"

definition flag_value :: "(str, int) dict \<Rightarrow> wordy \<Rightarrow> exn + int" where
  "flag_value members v = (case v of Bits n \<Rightarrow> Inr n | Words s \<Rightarrow> missing_words True members s)"

definition enum_value :: "(str, int) dict \<Rightarrow> wordy \<Rightarrow> exn + int" where
  "enum_value members v =
     (case v of
        Bits n \<Rightarrow> if n \<in> snd ` set members then Inr n else Inl (ValueError ''not a valid value'')
      | Words s \<Rightarrow> missing_words False members s)"

section \<open>The enumerations\<close>

definition named :: "(string \<times> int) list \<Rightarrow> (str, int) dict" where
  "named ms = map (\<lambda>(n, b). (lit n, b)) ms"

definition member :: "(str, int) dict \<Rightarrow> string \<Rightarrow> int" where
  "member members n = (case map_of members (lit n) of None \<Rightarrow> 0 | Some b \<Rightarrow> b)"

definition OpenFlags :: "(str, int) dict" where
  "OpenFlags = named
    [(''NONE'', 0), (''COMPRESS'', 0x0001), (''DELETE'', 0x0002), (''FORCE'', 0x0004), (''NEW'', 0x0008),
     (''READ'', 0x0010), (''UPDATE'', 0x0020), (''REFRESH'', 0x0080), (''MAKEPATH'', 0x0100),
     (''APPEND'', 0x0200), (''RETSTAT'', 0x0400), (''REPLICA'', 0x0800), (''POSC'', 0x1000),
     (''NOWAIT'', 0x2000), (''SEQIO'', 0x4000), (''WRITE'', 0x8000)]"

text \<open>The permission bits, octal in the source.\<close>

definition Access :: "(str, int) dict" where
  "Access = named
    [(''NONE'', 0), (''OTHER_EXEC'', 0x001), (''OTHER_WRITE'', 0x002), (''OTHER_READ'', 0x004),
     (''GROUP_EXEC'', 0x008), (''GROUP_WRITE'', 0x010), (''GROUP_READ'', 0x020),
     (''OWNER_EXEC'', 0x040), (''OWNER_WRITE'', 0x080), (''OWNER_READ'', 0x100)]"

definition RWX :: "int list" where
  "RWX = [0x100, 0x080, 0x040, 0x020, 0x010, 0x008, 0x004, 0x002, 0x001]"

definition DirListFlags :: "(str, int) dict" where
  "DirListFlags = named [(''NONE'', 0), (''ONLINE'', 0x01), (''STAT'', 0x02), (''CKSUM'', 0x04), (''RECURSIVE'', 0x08)]"

definition MkDirFlags :: "(str, int) dict" where
  "MkDirFlags = named [(''NONE'', 0), (''MAKEPATH'', 0x01)]"

definition QueryCode :: "(str, int) dict" where
  "QueryCode = named
    [(''STATS'', 1), (''PREPARE'', 2), (''CHECKSUM'', 3), (''XATTR'', 4), (''SPACE'', 5),
     (''CHECKSUM_CANCEL'', 6), (''CONFIG'', 7), (''VISA'', 8), (''OPAQUE'', 16), (''OPAQUE_FILE'', 32),
     (''OPAQUE_GROUP'', 64)]"

definition StatInfoFlags :: "(str, int) dict" where
  "StatInfoFlags = named
    [(''NONE'', 0), (''X_SET'', 0x01), (''IS_DIR'', 0x02), (''OTHER'', 0x04), (''OFFLINE'', 0x08),
     (''IS_READABLE'', 0x10), (''IS_WRITABLE'', 0x20), (''POSC_PENDING'', 0x40), (''BACKUP_EXISTS'', 0x80)]"

definition PrepareFlags :: "(str, int) dict" where
  "PrepareFlags = named
    [(''NONE'', 0), (''CANCEL'', 1), (''NOTIFY'', 2), (''NO_ERRORS'', 4), (''STAGE'', 8),
     (''WRITE_MODE'', 16), (''COLOCATE'', 32), (''FRESH'', 64), (''USE_TCP'', 128), (''EVICT'', 256)]"

definition LocateFlags :: "(str, int) dict" where
  "LocateFlags = named
    [(''NONE'', 0), (''ADD_PEERS'', 1), (''REFRESH'', 128), (''PREFER_NAME'', 256), (''FOR_DIRLIST'', 1024),
     (''NO_WAIT'', 8192)]"

definition FattrCode :: "(str, int) dict" where
  "FattrCode = named [(''DEL'', 0), (''GET'', 1), (''LIST'', 2), (''SET'', 3)]"

definition ChkPointCode :: "(str, int) dict" where
  "ChkPointCode = named [(''BEGIN'', 0), (''COMMIT'', 1), (''QUERY'', 2), (''ROLLBACK'', 3), (''XEQ'', 4)]"

section \<open>Permissions\<close>

text \<open>\<^verbatim>\<open>int(text, 8)\<close> of a string of decimal digits.\<close>

fun octal_value :: "int \<Rightarrow> str \<Rightarrow> exn + int" where
  "octal_value acc [] = Inr acc"
| "octal_value acc (c # cs) =
     (if 48 \<le> c \<and> c \<le> 55 then octal_value (8 * acc + int (c - 48)) cs
      else Inl (ValueError ''invalid literal for int''))"

definition digits_only :: "str \<Rightarrow> bool" where
  "digits_only s \<longleftrightarrow> s \<noteq> [] \<and> list_all (\<lambda>c. 48 \<le> c \<and> c \<le> 57) s"

text \<open>\<^verbatim>\<open>Access._missing_\<close> of a string: 114, 119, 120, 45 are \<^verbatim>\<open>rwx-\<close>.\<close>

definition Access_words :: "str \<Rightarrow> exn + int" where
  "Access_words value =
     (let text = strip value in
      if length text = 9 \<and> set text \<subseteq> {114, 119, 120, 45}
      then Inr (foldl (\<lambda>bits (c, b). bits OR (if c \<noteq> 45 then b else 0)) 0 (zip text RWX))
      else if digits_only text then octal_value 0 text
      else missing_words True Access value)"

definition permissions :: "wordy \<Rightarrow> exn + int" where
  "permissions mode =
     (case mode of
        Words s \<Rightarrow> bindE (Access_words s) (\<lambda>n. Inr (n AND 0x1FF))
      | Bits n \<Rightarrow> Inr (n AND 0x1FF))"

section \<open>Options in words\<close>

definition dirlist_flags :: "bool \<Rightarrow> bool \<Rightarrow> str \<Rightarrow> wordy option \<Rightarrow> exn + int" where
  "dirlist_flags stat online algorithm flags =
     (case flags of
        Some f \<Rightarrow> flag_value DirListFlags f
      | None \<Rightarrow>
          (let c0 = (if stat then member DirListFlags ''STAT'' else member DirListFlags ''NONE'');
               c1 = (if online then c0 OR member DirListFlags ''ONLINE'' else c0)
           in Inr (if algorithm \<noteq> [] then c1 OR (member DirListFlags ''STAT'' OR member DirListFlags ''CKSUM'') else c1)))"

text \<open>The \<^verbatim>\<open>for asked, flag in ...\<close> loop the two option builders share.\<close>

definition add_asked :: "(str, int) dict \<Rightarrow> (bool \<times> string) list \<Rightarrow> int \<Rightarrow> int" where
  "add_asked members choices start =
     foldl (\<lambda>chosen (asked, n). if asked then chosen OR member members n else chosen) start choices"

definition locate_flags :: "bool \<Rightarrow> bool \<Rightarrow> bool \<Rightarrow> bool \<Rightarrow> wordy option \<Rightarrow> exn + int" where
  "locate_flags refresh no_wait add_peers prefer_name flags =
     (case flags of
        Some f \<Rightarrow> flag_value LocateFlags f
      | None \<Rightarrow> Inr (add_asked LocateFlags
          [(refresh, ''REFRESH''), (no_wait, ''NO_WAIT''), (add_peers, ''ADD_PEERS''), (prefer_name, ''PREFER_NAME'')]
          (member LocateFlags ''NONE'')))"

definition prepare_flags :: "bool option \<Rightarrow> bool \<Rightarrow> bool \<Rightarrow> bool \<Rightarrow> wordy option \<Rightarrow> exn + int" where
  "prepare_flags stage evict notify fresh flags =
     (case flags of
        Some f \<Rightarrow> flag_value PrepareFlags f
      | None \<Rightarrow> Inr (add_asked PrepareFlags [(evict, ''EVICT''), (notify, ''NOTIFY''), (fresh, ''FRESH'')]
          (if (case stage of None \<Rightarrow> \<not> evict | Some s \<Rightarrow> s) then member PrepareFlags ''STAGE''
           else member PrepareFlags ''NONE'')))"

section \<open>Mode strings\<close>

text \<open>
  114 \<^verbatim>\<open>r\<close>, 119 \<^verbatim>\<open>w\<close>, 120 \<^verbatim>\<open>x\<close>, 97 \<^verbatim>\<open>a\<close>, 98 \<^verbatim>\<open>b\<close>, 116 \<^verbatim>\<open>t\<close>, 43 plus, 85 \<^verbatim>\<open>U\<close>.
\<close>

definition parse_mode :: "str \<Rightarrow> exn + nat \<times> bool \<times> bool" where
  "parse_mode mode =
     (let cleaned = filter (\<lambda>c. c \<noteq> 85) mode;
          binary = (98 \<in> set cleaned);
          bases = filter (\<lambda>c. c \<in> {114, 119, 120, 97}) cleaned
      in if binary \<and> 116 \<in> set cleaned then Inl (ValueError ''text and binary mode at once'')
         else if length bases \<noteq> 1 then Inl (ValueError ''must have exactly one of create/read/write/append mode'')
         else if \<not> set cleaned \<subseteq> {114, 119, 120, 97, 43, 98, 116} then Inl (ValueError ''invalid mode'')
         else Inr (hd bases, binary, 43 \<in> set cleaned))"

definition mode_base_flags :: "nat \<Rightarrow> bool \<Rightarrow> int" where
  "mode_base_flags base updating =
     (if base = 114 then (if updating then member OpenFlags ''UPDATE'' else member OpenFlags ''READ'')
      else if base = 119 then member OpenFlags ''UPDATE'' OR member OpenFlags ''DELETE''
      else if base = 120 then member OpenFlags ''UPDATE'' OR member OpenFlags ''NEW''
      else if base = 97 then member OpenFlags ''UPDATE'' OR member OpenFlags ''APPEND''
      else member OpenFlags ''NONE'')"

definition flags_for_mode :: "str \<Rightarrow> bool \<Rightarrow> bool \<Rightarrow> exn + int" where
  "flags_for_mode mode posc makepath =
     bindE (parse_mode mode) (\<lambda>(base, _, updating).
       let f0 = mode_base_flags base updating;
           f1 = (if base \<noteq> 114 \<and> makepath then f0 OR member OpenFlags ''MAKEPATH'' else f0)
       in Inr (if base \<noteq> 114 \<and> posc then f1 OR member OpenFlags ''POSC'' else f1))"

definition MODE_LETTERS :: "nat set" where
  "MODE_LETTERS = {114, 119, 120, 97, 98, 116, 43, 85}"

definition open_flags :: "wordy \<Rightarrow> exn + int" where
  "open_flags flags =
     (case flags of
        Words s \<Rightarrow> if set s \<subseteq> MODE_LETTERS then flags_for_mode s False True else missing_words True OpenFlags s
      | Bits n \<Rightarrow> Inr n)"

section \<open>What the builders guarantee\<close>

lemma permissions_nine_bits: "permissions mode = Inr bits \<Longrightarrow> 0 \<le> bits \<and> bits < 512"
proof -
  assume "permissions mode = Inr bits"
  then obtain n where n: "bits = n AND 0x1FF"
    by (auto simp: permissions_def bindE_eq_Inr split: wordy.splits)
  have "bits = take_bit 9 n" by (simp add: n take_bit_eq_mask mask_eq_exp_minus_1)
  then show ?thesis using take_bit_int_less_exp [of 9 n] by simp
qed

lemma parse_mode_base: "parse_mode mode = Inr (base, binary, updating) \<Longrightarrow> base \<in> {114, 119, 120, 97}"
proof -
  assume p: "parse_mode mode = Inr (base, binary, updating)"
  let ?bs = "filter (\<lambda>c. c \<in> {114, 119, 120, 97}) (filter (\<lambda>c. c \<noteq> 85) mode)"
  from p have "length ?bs = 1" "base = hd ?bs"
    by (auto simp: parse_mode_def Let_def split: if_splits)
  then have "base \<in> set ?bs" by (cases ?bs) auto
  then show ?thesis by auto
qed

end
