(* ===== verification/Raw_IO.thy ===== *)
theory Raw_IO
  imports File_Client Xrd_Flags
begin

text \<open>
  Unbuffered file objects, \<^verbatim>\<open>src/src/xrd/io/raw.py\<close>, with the opening of a \<^verbatim>\<open>File\<close> by words or mode
  letters that they rest on. \<open>raw\<close> is the state of one \<^verbatim>\<open>XRootDRawIO\<close> beside its file; its methods work
  on both. What the source inherits from \<^verbatim>\<open>io.RawIOBase\<close> is written out where the methods use it:
  \<open>raw_read\<close> is \<^verbatim>\<open>read\<close>, which goes through \<^verbatim>\<open>readinto\<close> and \<^verbatim>\<open>readall\<close>, and \<open>base_close\<close> flushes first and marks the
  object closed even when that fails.
\<close>

section \<open>State\<close>

record raw =
  raw_mode :: str
  raw_base :: nat
  raw_readable :: bool
  raw_writable :: bool
  raw_pos :: int
  raw_closed :: bool

record ('s, 'w) raw_state =
  ri_raw :: raw
  ri_file :: "('s, 'w) fstate"

type_synonym ('s, 'w, 'a) rop = "(('s, 'w) raw_state, 'a) comp"

definition on_file :: "('s, 'w, 'a) fop \<Rightarrow> ('s, 'w, 'a) rop" where
  "on_file m st = (case m (ri_file st) of None \<Rightarrow> None | Some (r, fst') \<Rightarrow> Some (r, st\<lparr>ri_file := fst'\<rparr>))"

definition getsR :: "(raw \<Rightarrow> 'a) \<Rightarrow> ('s, 'w, 'a) rop" where
  "getsR f st = Some (Inr (f (ri_raw st)), st)"

definition modifyR :: "(raw \<Rightarrow> raw) \<Rightarrow> ('s, 'w, unit) rop" where
  "modifyR f st = Some (Inr (), st\<lparr>ri_raw := f (ri_raw st)\<rparr>)"

section \<open>Opening\<close>

text \<open>\<^verbatim>\<open>File.open(flags, mode)\<close>, with either spelling of both.\<close>

definition open_with :: "('s, 'w) client \<Rightarrow> wordy \<Rightarrow> wordy \<Rightarrow> ('s, 'w, stat_info option) fop" where
  "open_with cl flags mode = bindF (getsF f_handle) (\<lambda>h.
     if h \<noteq> None then raiseF (Raised (ValueError ''already open''))
     else bindF (liftF (open_flags flags)) (\<lambda>fl. bindF (liftF (permissions mode)) (\<lambda>m. file_open cl fl m)))"

fun is_not_found :: "failure \<Rightarrow> bool" where
  "is_not_found (Raised (ServerError NotFoundError code m p)) = True"
| "is_not_found _ = False"

definition raw_open :: "('s, 'w) client \<Rightarrow> str \<Rightarrow> bool \<Rightarrow> ('s, 'w, unit) fop" where
  "raw_open cl mode posc =
     (let access = member Access ''OWNER_READ'' OR member Access ''OWNER_WRITE'' OR member Access ''GROUP_READ'' in
      bindF (liftF (flags_for_mode mode posc True)) (\<lambda>flags.
      bindF (catchF (open_with cl (Bits flags) (Bits access)) (\<lambda>x.
          if \<not> is_not_found x then raiseF x
          else if flags AND member OpenFlags ''APPEND'' = 0 then raiseF x
          else open_with cl (Bits (flags OR member OpenFlags ''NEW'')) (Bits access)))
        (\<lambda>_. retF ())))"

text \<open>
  \<^verbatim>\<open>XRootDRawIO(file, mode, posc=..., opened=...)\<close> on the file of the state. 97 is \<^verbatim>\<open>a\<close>, 114 \<^verbatim>\<open>r\<close>; the test
  \<^verbatim>\<open>base in "wxa"\<close> is that the base is another letter than \<^verbatim>\<open>r\<close>.
\<close>

definition XRootDRawIO :: "('s, 'w) client \<Rightarrow> str \<Rightarrow> bool \<Rightarrow> bool \<Rightarrow> ('s, 'w, raw) fop" where
  "XRootDRawIO cl mode posc opened =
     bindF (liftF (parse_mode mode)) (\<lambda>(base, _, updating).
     bindF (if opened then retF () else raw_open cl mode posc) (\<lambda>_.
     bindF (if base = 97 then file_size cl else retF 0) (\<lambda>pos.
       retF \<lparr>raw_mode = mode, raw_base = base, raw_readable = (base = 114 \<or> updating),
         raw_writable = (base \<in> {119, 120, 97} \<or> updating), raw_pos = pos, raw_closed = False\<rparr>)))"

section \<open>Position\<close>

definition raw_tell :: "('s, 'w, int) rop" where
  "raw_tell = getsR raw_pos"

definition raw_seek :: "('s, 'w) client \<Rightarrow> int \<Rightarrow> int \<Rightarrow> ('s, 'w, int) rop" where
  "raw_seek cl offset whence =
     bindF (if whence = 0 then retF offset
            else if whence = 1 then bindF (getsR raw_pos) (\<lambda>p. retF (p + offset))
            else if whence = 2 then bindF (on_file (file_size cl)) (\<lambda>n. retF (n + offset))
            else raiseF (Raised (ValueError ''invalid whence'')))
       (\<lambda>target. if target < 0 then raiseF (Raised (OSError EINVAL))
          else bindF (modifyR (raw_pos_update (\<lambda>_. target))) (\<lambda>_. retF target))"

section \<open>Data\<close>

definition check_readable :: "('s, 'w, unit) rop" where
  "check_readable = bindF (getsR (\<lambda>r. r)) (\<lambda>r.
     if raw_closed r then raiseF (Raised (ValueError ''I/O operation on closed file''))
     else if \<not> raw_readable r then raiseF (Raised UnsupportedOperation) else retF ())"

definition check_writable :: "('s, 'w, unit) rop" where
  "check_writable = bindF (getsR (\<lambda>r. r)) (\<lambda>r.
     if raw_closed r then raiseF (Raised (ValueError ''I/O operation on closed file''))
     else if \<not> raw_writable r then raiseF (Raised UnsupportedOperation) else retF ())"

text \<open>\<^verbatim>\<open>readinto\<close>: how many bytes arrived, and the buffer afterwards.\<close>

definition readinto :: "('s, 'w) client \<Rightarrow> bytes \<Rightarrow> ('s, 'w, int \<times> bytes) rop" where
  "readinto cl buffer = bindF check_readable (\<lambda>_.
     if buffer = [] then retF (0, buffer)
     else bindF (getsR raw_pos) (\<lambda>pos. bindF (on_file (file_read cl (int (length buffer)) pos)) (\<lambda>data.
       if length data > length buffer then raiseF (Raised (ValueError ''different structures''))
       else bindF (modifyR (raw_pos_update (\<lambda>p. p + int (length data)))) (\<lambda>_.
         retF (int (length data), data @ drop (length data) buffer)))))"

definition readall :: "('s, 'w) client \<Rightarrow> ('s, 'w, bytes) rop" where
  "readall cl = bindF check_readable (\<lambda>_. bindF (getsR raw_pos) (\<lambda>pos.
     bindF (on_file (file_read cl (- 1) pos)) (\<lambda>data.
     bindF (modifyR (raw_pos_update (\<lambda>p. p + int (length data)))) (\<lambda>_. retF data))))"

definition raw_read :: "('s, 'w) client \<Rightarrow> int \<Rightarrow> ('s, 'w, bytes) rop" where
  "raw_read cl n =
     (if n < 0 then readall cl
      else bindF (readinto cl (replicate (nat n) 0)) (\<lambda>(got, buffer). retF (take (nat got) buffer)))"

definition raw_write :: "('s, 'w) client \<Rightarrow> bytes \<Rightarrow> ('s, 'w, int) rop" where
  "raw_write cl payload = bindF check_writable (\<lambda>_.
     if payload = [] then retF 0
     else bindF (getsR raw_pos) (\<lambda>pos. bindF (on_file (file_write cl payload pos)) (\<lambda>written.
       bindF (modifyR (raw_pos_update (\<lambda>p. p + written))) (\<lambda>_. retF written))))"

definition raw_truncate :: "('s, 'w) client \<Rightarrow> int option \<Rightarrow> ('s, 'w, int) rop" where
  "raw_truncate cl sz = bindF check_writable (\<lambda>_. bindF (getsR raw_pos) (\<lambda>pos.
     let target = (case sz of None \<Rightarrow> pos | Some n \<Rightarrow> n)
     in bindF (on_file (file_truncate cl target)) (\<lambda>_. retF target)))"

definition raw_flush :: "('s, 'w) client \<Rightarrow> ('s, 'w, unit) rop" where
  "raw_flush cl = bindF (getsR (\<lambda>r. raw_writable r \<and> \<not> raw_closed r)) (\<lambda>w.
     if \<not> w then retF ()
     else bindF (on_file (getsF is_open)) (\<lambda>open. if open then on_file (file_sync cl) else retF ()))"

definition base_close :: "('s, 'w) client \<Rightarrow> ('s, 'w, unit) rop" where
  "base_close cl = bindF (catchF (raw_flush cl) (\<lambda>x.
       bindF (modifyR (raw_closed_update (\<lambda>_. True))) (\<lambda>_. raiseF x)))
     (\<lambda>_. modifyR (raw_closed_update (\<lambda>_. True)))"

definition raw_close :: "('s, 'w) client \<Rightarrow> ('s, 'w, unit) rop" where
  "raw_close cl = bindF (getsR raw_closed) (\<lambda>closed.
     if closed then retF ()
     else bindF (catchF (base_close cl) (\<lambda>x. bindF (on_file (file_close cl)) (\<lambda>_. raiseF x)))
       (\<lambda>_. on_file (file_close cl)))"

end
