(* ===== verification/Raw_Properties.thy ===== *)
theory Raw_Properties
  imports Raw_IO File_Properties
begin

text \<open>
  What a file object over a remote file is to its user. Reading, seeking and telling behave as on
  the bytes in memory (\<open>cursor\<close> is that abstract file); writing appends at the position; and the mode a
  file was opened with decides whether its handle may be re-opened behind the user's back.
\<close>

section \<open>Flags\<close>

text \<open>A method that leaves the open flags of the file alone.\<close>

definition same_flags :: "('s, 'w, 'a) fop \<Rightarrow> bool" where
  "same_flags m \<longleftrightarrow> (\<forall>v. triple (\<lambda>st. f_flags (fs_file st) = v) m
     (\<lambda>_ st. f_flags (fs_file st) = v) (\<lambda>st. f_flags (fs_file st) = v))"

lemma same_flagsD: "same_flags m \<Longrightarrow> m st = Some (r, st') \<Longrightarrow> f_flags (fs_file st') = f_flags (fs_file st)"
  unfolding same_flags_def triple_def by (cases r) fastforce+

lemma same_flagsI:
  "(\<And>st r st'. m st = Some (r, st') \<Longrightarrow> f_flags (fs_file st') = f_flags (fs_file st)) \<Longrightarrow> same_flags m"
  unfolding same_flags_def triple_def by (fastforce split: sum.split)

lemma same_bind: "same_flags m \<Longrightarrow> (\<And>a. same_flags (k a)) \<Longrightarrow> same_flags (bindF m k)"
  unfolding same_flags_def by (blast intro: triple_bind)

lemma same_catch: "same_flags m \<Longrightarrow> (\<And>x. same_flags (k x)) \<Longrightarrow> same_flags (catchF m k)"
  unfolding same_flags_def by (blast intro: triple_catch)

lemma same_if: "(c \<Longrightarrow> same_flags m) \<Longrightarrow> (\<not> c \<Longrightarrow> same_flags n) \<Longrightarrow> same_flags (if c then m else n)"
  by simp

lemma same_cases:
  "(\<And>a b. same_flags (g a b)) \<Longrightarrow> same_flags (case p of (a, b) \<Rightarrow> g a b)"
  "same_flags n \<Longrightarrow> (\<And>a. same_flags (j a)) \<Longrightarrow> same_flags (case q of None \<Rightarrow> n | Some a \<Rightarrow> j a)"
  by (cases p, simp) (cases q, simp_all)

lemma same_basic:
  "same_flags (retF a)" "same_flags (raiseF x)" "same_flags (getsF f)" "same_flags (liftF r)" "same_flags file_handle"
  by (auto intro!: same_flagsI simp: retF_def raiseF_def getsF_def liftF_def file_handle_def split: sum.splits option.splits)

lemma same_modify: "(\<And>f. f_flags (u f) = f_flags f) \<Longrightarrow> same_flags (modifyF u)"
  by (auto intro!: same_flagsI simp: modifyF_def)

lemma same_router: "same_flags (on_router f)"
  by (auto intro!: same_flagsI simp: on_router_def put_router_def split: option.splits)

lemma same_session: "same_flags (on_session f)"
  by (auto intro!: same_flagsI simp: on_session_def split: option.splits)

lemma same_release: "same_flags (release_router cl)" "same_flags (discard_router cl)"
  by (auto intro!: same_flagsI simp: release_router_def discard_router_def put_router_def)

lemmas same_rules = same_bind same_catch same_if same_cases same_basic same_modify same_router same_session same_release

lemma same_request: "same_flags (run_request cl q)" "same_flags (the_session cl)"
  unfolding run_request_def the_session_def by (rule same_router)+

lemma same_streams: "same_flags (bind_data_streams cl)"
proof -
  have "same_flags (bind_streams_loop cl n)" for n
    by (induction n) (auto simp: router_bind_def intro!: same_rules same_request)
  then show ?thesis unfolding bind_data_streams_def by (intro same_rules)
qed

lemma same_do_open: "same_flags (do_open cl)"
  unfolding do_open_def by (intro same_rules same_request) simp_all

lemma same_reopen: "same_flags (reopen cl)"
  unfolding reopen_def by (intro same_rules same_do_open same_streams) simp_all

lemma same_execute: "same_flags (file_execute cl build)"
  unfolding file_execute_def run_built_def by (intro same_rules same_request same_reopen)

lemma same_size: "same_flags (file_size cl)"
  unfolding file_size_def file_stat_def file_stat_ask_def by (intro same_rules same_execute) simp_all

lemma file_open_flags:
  assumes "file_open cl flags mode st = Some (Inr a, st')"
  shows "f_flags (fs_file st') = flags"
proof -
  let ?rest = "bindF (catchF (bindF (do_open cl) (\<lambda>_. bind_data_streams cl))
                (\<lambda>x. bindF (getsF f_owns_router) (\<lambda>owns.
                   if owns then bindF (release_router cl) (\<lambda>_. raiseF x) else raiseF x)))
         (\<lambda>_. getsF f_stat)"
  let ?st = "st\<lparr>fs_file := (fs_file st)\<lparr>f_flags := flags, f_mode := mode\<rparr>\<rparr>"
  have "same_flags ?rest" by (intro same_rules same_do_open same_streams)
  moreover have "?rest ?st = Some (Inr a, st')"
    using assms by (auto simp: file_open_def modifyF_def bindF_def [of "modifyF _"] bindF_def [of "getsF f_handle"] getsF_def
        raiseF_def split: if_splits)
  ultimately show ?thesis using same_flagsD by fastforce
qed

lemma open_with_flags:
  assumes "open_with cl (Bits flags) (Bits mode) st = Some (Inr a, st')"
  shows "f_flags (fs_file st') = flags"
proof -
  from assms have "file_open cl flags (mode AND 0x1FF) st = Some (Inr a, st')"
    by (auto simp: open_with_def open_flags_def permissions_def liftF_def retF_def raiseF_def bindF_def getsF_def split: if_splits)
  then show ?thesis by (rule file_open_flags)
qed

lemma raw_open_flags:
  assumes "raw_open cl mode posc st = Some (Inr a, st')"
  obtains flags where "flags_for_mode mode posc True = Inr flags"
    and "f_flags (fs_file st') \<in> {flags, flags OR member OpenFlags ''NEW''}"
    and "f_flags (fs_file st') = flags \<or> flags AND member OpenFlags ''APPEND'' \<noteq> 0"
proof (cases "flags_for_mode mode posc True")
  case (Inl e)
  with assms show ?thesis by (simp add: raw_open_def Let_def liftF_def bindF_def raiseF_def)
next
  case (Inr flags)
  define access where "access = member Access ''OWNER_READ'' OR member Access ''OWNER_WRITE'' OR member Access ''GROUP_READ''"
  let ?first = "open_with cl (Bits flags) (Bits access)"
  let ?second = "open_with cl (Bits (flags OR member OpenFlags ''NEW'')) (Bits access)"
  from assms Inr have "\<exists>b. ?first st = Some (Inr b, st') \<or>
      (flags AND member OpenFlags ''APPEND'' \<noteq> 0 \<and> (\<exists>st1. ?second st1 = Some (Inr b, st')))"
    unfolding raw_open_def access_def [symmetric]
    by (auto simp: Let_def liftF_def retF_def bindF_def catchF_def raiseF_def
        split: option.split_asm prod.split_asm sum.split_asm if_splits)
  then show ?thesis using Inr that open_with_flags by fast
qed

lemma open_members:
  "member OpenFlags ''UPDATE'' = 0x20" "member OpenFlags ''READ'' = 0x10" "member OpenFlags ''DELETE'' = 0x02"
  "member OpenFlags ''NEW'' = 0x08" "member OpenFlags ''APPEND'' = 0x200" "member OpenFlags ''NONE'' = 0"
  "member OpenFlags ''MAKEPATH'' = 0x100" "member OpenFlags ''POSC'' = 0x1000"
  by code_simp+

text \<open>The flags of a mode write nothing exactly for reading without updating.\<close>

lemma mode_writes:
  assumes "parse_mode mode = Inr (base, binary, updating)" "flags_for_mode mode posc makepath = Inr flags"
  shows "(flags AND WRITING = 0 \<longleftrightarrow> base = 114 \<and> \<not> updating)
    \<and> ((flags OR member OpenFlags ''NEW'') AND WRITING \<noteq> 0)
    \<and> (flags AND member OpenFlags ''APPEND'' \<noteq> 0 \<longleftrightarrow> base = 97)"
proof -
  have flags: "flags = (mode_base_flags base updating OR (if base \<noteq> 114 \<and> makepath then 0x100 else 0))
      OR (if base \<noteq> 114 \<and> posc then 0x1000 else 0)"
    using assms by (auto simp: flags_for_mode_def Let_def open_members)
  have w: "WRITING = 0x822A" by (simp add: WRITING_def)
  have "base \<in> {114, 119, 120, 97}" by (rule parse_mode_base [OF assms(1)])
  then consider "base = 114" | "base = 119" | "base = 120" | "base = 97" by auto
  then show ?thesis
    by cases (cases updating; cases makepath; cases posc; simp add: flags w mode_base_flags_def open_members)+
qed

text \<open>
  C14. The mode decides about recovery. After a file was opened as a file object with any mode
  string, its handle may be re-opened after a lost connection exactly when recovery is switched on
  and the file object cannot write. This covers the second open that mode \<^verbatim>\<open>"a"\<close> makes when the file was
  missing, which asks for a new file and so must never be repeated.
\<close>

theorem writable_file_objects_never_reopened:
  assumes "XRootDRawIO cl mode posc False st = Some (Inr raw, st')"
  shows "recoverable (cl_cfg cl) (fs_file st') \<longleftrightarrow> fc_recover_handles (cl_cfg cl) \<and> \<not> raw_writable raw"
proof (cases "parse_mode mode")
  case (Inl e)
  with assms show ?thesis by (simp add: XRootDRawIO_def liftF_def raiseF_def bindF_def)
next
  case (Inr p)
  obtain base binary updating where p: "p = (base, binary, updating)" by (cases p)
  let ?pos = "if base = 97 then file_size cl else retF 0"
  from assms Inr p obtain a st1 n where o: "raw_open cl mode posc st = Some (Inr a, st1)"
    and pos: "?pos st1 = Some (Inr n, st')" and raw: "raw_writable raw \<longleftrightarrow> base \<in> {119, 120, 97} \<or> updating"
    by (auto simp: XRootDRawIO_def liftF_def bindF_def retF_def split: option.split_asm sum.split_asm)
  have "same_flags ?pos" by (intro same_rules same_size)
  from same_flagsD [OF this pos] have f: "f_flags (fs_file st') = f_flags (fs_file st1)" .
  obtain flags where "flags_for_mode mode posc True = Inr flags"
    and "f_flags (fs_file st1) \<in> {flags, flags OR member OpenFlags ''NEW''}"
    and "f_flags (fs_file st1) = flags \<or> flags AND member OpenFlags ''APPEND'' \<noteq> 0"
    by (rule raw_open_flags [OF o])
  with mode_writes [OF Inr [unfolded p], of posc True flags] parse_mode_base [OF Inr [unfolded p]] f raw show ?thesis
    by (auto simp: recoverable_def)
qed

text \<open>A server that has no file until one is created: it grants opens of new files only.\<close>

definition attic_net :: "(unit, unit) net" where
  "attic_net = \<lparr>net_connect = (\<lambda>u w. Some (Inr (), w)),
     net_execute = (\<lambda>s req w. Some (
       case req of
         Open p flags mode \<Rightarrow>
           if flags AND 0x08 = 0 then Inl (Raised (ServerError NotFoundError 3011 [] None))
           else Inr \<lparr>res_data = [0, 0, 0, 1], res_status = None\<rparr>
       | Stat p opts h \<Rightarrow> Inr \<lparr>res_data = map (\<lambda>c. of_nat c) (lit ''1 0 48 7''), res_status = None\<rparr>
       | _ \<Rightarrow> Inr \<lparr>res_data = [], res_status = None\<rparr>, w)),
     net_closed = (\<lambda>s w. False), net_close = (\<lambda>s w. w), net_clock = (\<lambda>w. (0, w)), net_sleep = (\<lambda>t w. w)\<rparr>"

definition attic :: "(unit, unit) client" where
  "attic = (library [])\<lparr>cl_net := attic_net\<rparr>"

theorem writable_file_objects_never_reopened_witness:
  "\<exists>raw st'. XRootDRawIO attic (lit ''ab'') False False (reading (\<lambda>s. new_File (root_url ''a'') None) () ()) = Some (Inr raw, st')
     \<and> \<not> recoverable (cl_cfg attic) (fs_file st')"
proof -
  let ?r = "XRootDRawIO attic (lit ''ab'') False False (reading (\<lambda>s. new_File (root_url ''a'') None) () ())"
  have "case ?r of Some (Inr raw, _) \<Rightarrow> raw_writable raw | _ \<Rightarrow> False" by code_simp
  then obtain raw st' where r: "?r = Some (Inr raw, st')" and w: "raw_writable raw"
    by (auto split: option.splits sum.splits)
  from writable_file_objects_never_reopened [OF r] w r show ?thesis by blast
qed

section \<open>Reading\<close>

text \<open>
  The abstract file: its bytes and a position. \<open>Tell\<close>, \<open>SeekTo offset whence\<close> and \<open>ReadOp n\<close> (everything
  for a negative \<open>n\<close>) are what a reader may do with it.
\<close>

datatype read_op = Tell | SeekTo int int | ReadOp int

datatype answer = Number int | Content bytes | Refused failure

definition seek_target :: "bytes \<Rightarrow> int \<Rightarrow> int \<Rightarrow> int \<Rightarrow> int" where
  "seek_target content offset whence pos =
     (if whence = 0 then offset else if whence = 1 then pos + offset else int (length content) + offset)"

fun cursor :: "bytes \<Rightarrow> read_op \<Rightarrow> int \<Rightarrow> answer \<times> int" where
  "cursor content Tell pos = (Number pos, pos)"
| "cursor content (SeekTo offset whence) pos =
     (if whence \<notin> {0, 1, 2} then (Refused (Raised (ValueError ''invalid whence'')), pos)
      else (let target = seek_target content offset whence pos in
        if target < 0 then (Refused (Raised (OSError EINVAL)), pos) else (Number target, target)))"
| "cursor content (ReadOp n) pos =
     (let data = (if n < 0 then drop (nat pos) content else window content pos n)
      in (Content data, pos + int (length data)))"

text \<open>The same requests made of a file object; an exception is caught by the reader, who goes on.\<close>

definition answering :: "('s, 'w, 'a) rop \<Rightarrow> ('a \<Rightarrow> answer) \<Rightarrow> ('s, 'w, answer) rop" where
  "answering m f = catchF (bindF m (\<lambda>a. retF (f a))) (\<lambda>x. retF (Refused x))"

fun ask :: "('s, 'w) client \<Rightarrow> read_op \<Rightarrow> ('s, 'w, answer) rop" where
  "ask cl Tell = answering raw_tell Number"
| "ask cl (SeekTo offset whence) = answering (raw_seek cl offset whence) Number"
| "ask cl (ReadOp n) = answering (raw_read cl n) Content"

fun ask_all :: "('s, 'w) client \<Rightarrow> read_op list \<Rightarrow> ('s, 'w, answer list) rop" where
  "ask_all cl [] = retF []"
| "ask_all cl (q # qs) = bindF (ask cl q) (\<lambda>a. bindF (ask_all cl qs) (\<lambda>as. retF (a # as)))"

fun cursor_all :: "bytes \<Rightarrow> read_op list \<Rightarrow> int \<Rightarrow> answer list \<times> int" where
  "cursor_all content [] pos = ([], pos)"
| "cursor_all content (q # qs) pos =
     (case cursor content q pos of (a, pos1) \<Rightarrow> case cursor_all content qs pos1 of (as, pos2) \<Rightarrow> (a # as, pos2))"

text \<open>An open file object for reading over a session that stays up.\<close>

definition reader_of ::
  "('s, 'w) client \<Rightarrow> 's \<Rightarrow> bytes \<Rightarrow> bytes \<Rightarrow> ('w \<Rightarrow> bool) \<Rightarrow> ('s, 'w) raw_state \<Rightarrow> bool" where
  "reader_of cl s h content up st \<longleftrightarrow>
     attached s h (fs_file (ri_file st)) \<and> up (fs_world (ri_file st))
     \<and> f_stat (fs_file (ri_file st)) \<noteq> None \<and> f_size_hint (fs_file (ri_file st)) = int (length content)
     \<and> raw_readable (ri_raw st) \<and> \<not> raw_closed (ri_raw st) \<and> 0 \<le> raw_pos (ri_raw st)"

definition at_pos :: "int \<Rightarrow> 'w \<Rightarrow> ('s, 'w) raw_state \<Rightarrow> ('s, 'w) raw_state" where
  "at_pos p w st = st\<lparr>ri_raw := (ri_raw st)\<lparr>raw_pos := p\<rparr>, ri_file := (ri_file st)\<lparr>fs_world := w\<rparr>\<rparr>"

lemma at_pos_sel [simp]:
  "raw_pos (ri_raw (at_pos p w st)) = p" "fs_world (ri_file (at_pos p w st)) = w"
  "at_pos q v (at_pos p w st) = at_pos q v st"
  by (simp_all add: at_pos_def)

lemma at_pos_same: "at_pos (raw_pos (ri_raw st)) (fs_world (ri_file st)) st = st"
  by (simp add: at_pos_def)

lemma advance_at: "modifyR (raw_pos_update (\<lambda>p. p + k)) (at_pos p w st) = Some (Inr (), at_pos (p + k) w st)"
  by (cases st) (simp add: modifyR_def at_pos_def)

lemma reader_of_at: "reader_of cl s h content up st \<Longrightarrow> up w \<Longrightarrow> 0 \<le> p \<Longrightarrow> reader_of cl s h content up (at_pos p w st)"
  by (simp add: reader_of_def at_pos_def)

lemma check_readable_ok: "reader_of cl s h content up st \<Longrightarrow> check_readable st = Some (Inr (), st)"
  by (simp add: check_readable_def reader_of_def bindF_def getsR_def retF_def)

lemma served_file_size: "reader_of cl s h content up st \<Longrightarrow>
    on_file (file_size cl) st = Some (Inr (int (length content)), st)"
  by (simp add: on_file_def file_size_def bindF_def getsF_def retF_def reader_of_def)

lemma served_file_read:
  assumes "serves cl s h content up" "reader_of cl s h content up st" "0 < fc_chunk_size (cl_cfg cl)"
    and "fc_max_read_size (cl_cfg cl) = 0 \<or> int (length content) \<le> fc_max_read_size (cl_cfg cl)"
  shows "\<exists>w. on_file (file_read cl n (raw_pos (ri_raw st))) st
      = Some (Inr (if n < 0 then drop (nat (raw_pos (ri_raw st))) content else window content (raw_pos (ri_raw st)) n),
              at_pos (raw_pos (ri_raw st)) w st) \<and> up w"
proof -
  from assms(2) have r: "attached s h (fs_file (ri_file st))" "up (fs_world (ri_file st))" "0 \<le> raw_pos (ri_raw st)"
    "f_stat (fs_file (ri_file st)) \<noteq> None" "f_size_hint (fs_file (ri_file st)) = int (length content)"
    by (auto simp: reader_of_def)
  then have "\<exists>w. file_read cl n (raw_pos (ri_raw st)) (ri_file st)
      = Some (Inr (if n < 0 then drop (nat (raw_pos (ri_raw st))) content else window content (raw_pos (ri_raw st)) n),
              (ri_file st)\<lparr>fs_world := w\<rparr>) \<and> up w"
    using assms(1,3,4) by (intro read_refines_window) auto
  then show ?thesis by (auto simp: on_file_def at_pos_def)
qed

lemma raw_read_cursor:
  fixes n :: int
  assumes "serves cl s h content up" "reader_of cl s h content up st" "0 < fc_chunk_size (cl_cfg cl)"
    and "fc_max_read_size (cl_cfg cl) = 0 \<or> int (length content) \<le> fc_max_read_size (cl_cfg cl)"
  defines "pos \<equiv> raw_pos (ri_raw st)"
  defines "data \<equiv> (if n < 0 then drop (nat pos) content else window content pos n)"
  shows "\<exists>w. raw_read cl n st = Some (Inr data, at_pos (pos + int (length data)) w st) \<and> up w"
proof -
  note check = check_readable_ok [OF assms(2)]
  from served_file_read [OF assms(1-4), of n] obtain w
    where w: "on_file (file_read cl n pos) st = Some (Inr data, at_pos pos w st)" "up w"
    unfolding pos_def [symmetric] data_def [symmetric] by blast
  have up: "up (fs_world (ri_file st))" using assms(2) by (simp add: reader_of_def)
  consider "n < 0" | "n = 0" | "0 < n" by linarith
  then show ?thesis
  proof cases
    case 1
    then have "raw_read cl n st = readall cl st" "n = - 1 \<or> file_read cl n pos = file_read cl (- 1) pos"
      by (auto simp: raw_read_def file_read_def)
    with w check 1 show ?thesis
      by (auto simp: readall_def bindF_def getsR_def advance_at retF_def pos_def)
  next
    case 2
    then have "data = []" by (simp add: data_def window_def)
    with 2 check up show ?thesis
      by (intro exI [of _ "fs_world (ri_file st)"])
        (simp add: raw_read_def readinto_def bindF_def retF_def pos_def at_pos_same)
  next
    case 3
    then have len: "length data \<le> nat n" by (simp add: data_def window_def)
    from 3 w check len show ?thesis
      by (auto simp: raw_read_def readinto_def bindF_def getsR_def advance_at retF_def pos_def)
  qed
qed

lemma raw_seek_cursor:
  assumes "reader_of cl s h content up st"
  shows "cursor content (SeekTo offset whence) (raw_pos (ri_raw st)) = (a, p) \<Longrightarrow>
    ask cl (SeekTo offset whence) st = Some (Inr a, at_pos p (fs_world (ri_file st)) st) \<and> 0 \<le> p"
  using assms at_pos_same [of st]
  by (auto simp: answering_def raw_seek_def getsR_def modifyR_def bindF_def catchF_def retF_def raiseF_def
      served_file_size [OF assms] seek_target_def Let_def reader_of_def at_pos_def split: if_splits)

lemma ask_cursor:
  assumes "serves cl s h content up" "reader_of cl s h content up st" "0 < fc_chunk_size (cl_cfg cl)"
    and "fc_max_read_size (cl_cfg cl) = 0 \<or> int (length content) \<le> fc_max_read_size (cl_cfg cl)"
    and "cursor content q (raw_pos (ri_raw st)) = (a, p)"
  shows "\<exists>w. ask cl q st = Some (Inr a, at_pos p w st) \<and> up w \<and> 0 \<le> p"
proof (cases q)
  case Tell
  with assms show ?thesis
    by (intro exI [of _ "fs_world (ri_file st)"])
      (auto simp: answering_def raw_tell_def getsR_def bindF_def catchF_def retF_def at_pos_same reader_of_def)
next
  case (SeekTo offset whence)
  with raw_seek_cursor [OF assms(2), of offset whence a p] assms(2,5) show ?thesis by (auto simp: reader_of_def)
next
  case (ReadOp n)
  with raw_read_cursor [OF assms(1-4), of n] assms(2,5) show ?thesis
    by (auto simp: answering_def bindF_def catchF_def retF_def Let_def reader_of_def)
qed

lemma ask_all_cursor:
  assumes "serves cl s h content up" "0 < fc_chunk_size (cl_cfg cl)"
    and "fc_max_read_size (cl_cfg cl) = 0 \<or> int (length content) \<le> fc_max_read_size (cl_cfg cl)"
  shows "reader_of cl s h content up st \<Longrightarrow> cursor_all content qs (raw_pos (ri_raw st)) = (as, p) \<Longrightarrow>
    \<exists>w. ask_all cl qs st = Some (Inr as, at_pos p w st) \<and> up w"
proof (induction qs arbitrary: st as)
  case Nil
  then show ?case
    by (intro exI [of _ "fs_world (ri_file st)"]) (auto simp: retF_def at_pos_same reader_of_def)
next
  case (Cons q qs)
  obtain a p1 where q: "cursor content q (raw_pos (ri_raw st)) = (a, p1)" by force
  obtain as1 p2 where qs: "cursor_all content qs p1 = (as1, p2)" by force
  from ask_cursor [OF assms(1) Cons.prems(1) assms(2,3) q] obtain w
    where w: "ask cl q st = Some (Inr a, at_pos p1 w st)" "up w" "0 \<le> p1" by blast
  from Cons.IH [of "at_pos p1 w st" as1] qs Cons.prems q reader_of_at [OF Cons.prems(1) w(2,3)] obtain w2
    where "ask_all cl qs (at_pos p1 w st) = Some (Inr as1, at_pos p w2 st)" "up w2" by auto
  with w q qs Cons.prems(2) show ?case by (auto simp: bindF_def retF_def)
qed


definition sample_reader :: "(unit, unit) raw_state" where
  "sample_reader = \<lparr>ri_raw = \<lparr>raw_mode = lit ''rb'', raw_base = 114, raw_readable = True, raw_writable = False,
       raw_pos = 0, raw_closed = False\<rparr>,
     ri_file = reading (\<lambda>s. (opened s)\<lparr>f_stat := Some \<lparr>si_id = [], st_size = 8, si_flags = 0, st_mtime = 0, st_ctime = 0,
       st_atime = 0, si_path = [], si_mode_str = [], si_owner = [], si_group = []\<rparr>, f_size_hint := 8\<rparr>) () ()\<rparr>"


end
