(* ===== verification/File_System.thy ===== *)
theory File_System
  imports File_Client Xrd_Flags
begin

text \<open>
  Namespace operations, \<^verbatim>\<open>src/src/xrd/client/filesystem.py\<close>. A \<^verbatim>\<open>FileSystem\<close> is its URL and its router;
  its methods work on the router's state with the pool and the world (\<open>rstate\<close>) and are written with
  the statements of \<open>File_Client\<close>. \<^verbatim>\<open>walk\<close> is a generator: the model hands every triple it yields to \<open>visit\<close>,
  the body of the loop that consumes it, which returns the list of directories as the consumer
  left it, so that what happens between two yields happens in the order of the source.

  Left out: \<^verbatim>\<open>glob\<close>, which needs regular expressions; the buffered file objects (\<^verbatim>\<open>open\<close>, \<^verbatim>\<open>read_bytes\<close>, ...)
  of the \<^verbatim>\<open>io\<close> module; seconds as floating point numbers in \<^verbatim>\<open>utime\<close>. The JSON answer of a staging
  query is read by an argument.
\<close>

section \<open>State and statements\<close>

type_synonym ('s, 'w, 'a) nop = "(('s, 'w) rstate, 'a) comp"

definition exec :: "('s, 'w) client \<Rightarrow> request \<Rightarrow> ('s, 'w, result) nop" where
  "exec cl req rs =
     (case router_execute (cl_net cl) (fc_router (cl_cfg cl)) req rs of
        None \<Rightarrow> None | Some (r, _, rs') \<Rightarrow> Some (r, rs'))"

definition fs_close :: "('s, 'w) client \<Rightarrow> ('s, 'w, unit) nop" where
  "fs_close cl rs = Some (Inr (), close_router (cl_net cl) (fc_router (cl_cfg cl)) rs)"

fun is_os_error :: "failure \<Rightarrow> bool" where
  "is_os_error (Raised e) = is_os_exn e"
| "is_os_error _ = False"

fun is_file_exists :: "failure \<Rightarrow> bool" where
  "is_file_exists (Raised (ServerError c code m p)) = (c = ExistsError)"
| "is_file_exists (Raised (OSError e)) = (e = EEXIST)"
| "is_file_exists _ = False"

fun of_class :: "server_class \<Rightarrow> failure \<Rightarrow> bool" where
  "of_class c (Raised (ServerError d code m p)) = (c = d)"
| "of_class c _ = False"

text \<open>\<^verbatim>\<open>for x in xs: body\<close>.\<close>

primrec for_each :: "'b list \<Rightarrow> ('b \<Rightarrow> ('st, unit) comp) \<Rightarrow> ('st, unit) comp" where
  "for_each [] body = retF ()"
| "for_each (x # xs) body = bindF (body x) (\<lambda>_. for_each xs body)"

lemma bindF_mono [partial_function_mono]:
  fixes m :: "('b \<Rightarrow> 'c option) \<Rightarrow> ('st, 'a) comp"
  assumes "\<And>st. mono_option (\<lambda>f. m f st)" "\<And>a st. mono_option (\<lambda>f. k f a st)"
  shows "mono_option (\<lambda>f. bindF (m f) (k f) st)"
proof (rule monotoneI)
  fix f g :: "'b \<Rightarrow> 'c option"
  assume le: "fun_ord option_ord f g"
  have m: "option_ord (m f st) (m g st)" using assms(1) le unfolding monotone_def by blast
  have k: "option_ord (k f a s) (k g a s)" for a s using assms(2) le unfolding monotone_def by blast
  show "option_ord (bindF (m f) (k f) st) (bindF (m g) (k g) st)"
  proof (cases "m f st")
    case (Some p)
    with m have "m g st = Some p" by (auto simp: flat_ord_def)
    with Some k show ?thesis by (cases p; cases "fst p") (simp_all add: bindF_def option.leq_refl)
  qed (simp add: bindF_def flat_ord_def)
qed

lemma catchF_mono [partial_function_mono]:
  fixes m :: "('b \<Rightarrow> 'c option) \<Rightarrow> ('st, 'a) comp"
  assumes "\<And>st. mono_option (\<lambda>f. m f st)" "\<And>x st. mono_option (\<lambda>f. k f x st)"
  shows "mono_option (\<lambda>f. catchF (m f) (k f) st)"
proof (rule monotoneI)
  fix f g :: "'b \<Rightarrow> 'c option"
  assume le: "fun_ord option_ord f g"
  have m: "option_ord (m f st) (m g st)" using assms(1) le unfolding monotone_def by blast
  have k: "option_ord (k f a s) (k g a s)" for a s using assms(2) le unfolding monotone_def by blast
  show "option_ord (catchF (m f) (k f) st) (catchF (m g) (k g) st)"
  proof (cases "m f st")
    case (Some p)
    with m have "m g st = Some p" by (auto simp: flat_ord_def)
    with Some k show ?thesis by (cases p; cases "fst p") (simp_all add: catchF_def option.leq_refl)
  qed (simp add: catchF_def flat_ord_def)
qed

lemma for_each_mono [partial_function_mono]:
  assumes "\<And>x st. mono_option (\<lambda>f. body f x st)"
  shows "mono_option (\<lambda>f. for_each xs (body f) st)"
proof (induction xs arbitrary: st)
  case Nil
  show ?case by (simp add: monotone_def flat_ord_def)
next
  case (Cons x xs)
  show ?case unfolding for_each.simps by (rule bindF_mono [OF assms Cons.IH])
qed

section \<open>Paths\<close>

text \<open>63 is the question mark, 38 the ampersand, 47 the slash.\<close>

definition fs_split_cgi :: "str \<Rightarrow> str \<times> str" where
  "fs_split_cgi path = (case partition_at 63 path of (base, sep, cgi) \<Rightarrow> (base, if sep then 63 # cgi else []))"

definition fs_cgi :: "str \<Rightarrow> (str, str) dict \<Rightarrow> exn + str" where
  "fs_cgi explicit inherited =
     (let plain = (if explicit \<noteq> [] then 63 # explicit else []) in
      if inherited = [] then Inr plain
      else (let named = map fst (parse_qsl explicit) in
        bindE (urlencode (filter (\<lambda>(k, v). k \<notin> set named) inherited)) (\<lambda>extra.
          Inr (if extra = [] then plain
               else if explicit \<noteq> [] then 63 # explicit @ 38 # extra else 63 # extra))))"

definition fs_abs :: "url \<Rightarrow> str \<Rightarrow> exn + str" where
  "fs_abs url path =
     (case partition_at 63 path of (base, sep, cgi) \<Rightarrow>
        let b = (if base \<noteq> [] \<and> hd base = 47 then base
                 else posix_join (if u_path url \<noteq> [] then u_path url else [47]) [base])
        in bindE (fs_cgi (if sep then cgi else []) (u_query url)) (\<lambda>c. Inr (normpath b @ c)))"

definition fs_url_for :: "(str \<Rightarrow> str) \<Rightarrow> url \<Rightarrow> str \<Rightarrow> exn + url" where
  "fs_url_for low url path =
     bindE (fs_abs url path) (\<lambda>p. Inr (without_query low (replace_path low p url)))"

fun fs_abs_all :: "url \<Rightarrow> str list \<Rightarrow> exn + str list" where
  "fs_abs_all url [] = Inr []"
| "fs_abs_all url (p # ps) = bindE (fs_abs url p) (\<lambda>t. bindE (fs_abs_all url ps) (\<lambda>ts. Inr (t # ts)))"

definition add_cks_type :: "str \<Rightarrow> str \<Rightarrow> str" where
  "add_cks_type algorithm target =
     (if algorithm = [] then target
      else target @ (if 63 \<in> set target then 38 else 63) # lit ''cks.type='' @ algorithm)"

text \<open>A request about one path: resolve it, send the request for it, give the answer to \<open>k\<close>.\<close>

definition at_path :: "('s, 'w) client \<Rightarrow> url \<Rightarrow> str \<Rightarrow> (str \<Rightarrow> request) \<Rightarrow> (str \<Rightarrow> bytes \<Rightarrow> exn + 'a) \<Rightarrow> ('s, 'w, 'a) nop" where
  "at_path cl url path req k = bindF (liftF (fs_abs url path)) (\<lambda>target.
     bindF (exec cl (req target)) (\<lambda>res. liftF (k target (res_data res))))"

abbreviation (input) ignored :: "str \<Rightarrow> bytes \<Rightarrow> exn + unit" where
  "ignored \<equiv> \<lambda>_ _. Inr ()"

section \<open>Interrogation\<close>

definition fs_ping :: "('s, 'w) client \<Rightarrow> ('s, 'w, unit) nop" where
  "fs_ping cl = bindF (exec cl Ping) (\<lambda>_. retF ())"

definition fs_stat :: "('s, 'w) client \<Rightarrow> url \<Rightarrow> str \<Rightarrow> bool \<Rightarrow> ('s, 'w, stat_info) nop" where
  "fs_stat cl url path follow_symlinks = at_path cl url path
     (\<lambda>target. Stat target (if follow_symlinks then 0 else kXR_statNoFollow) NULL_FHANDLE)
     (\<lambda>target data. parse_stat data target)"

definition fs_lstat :: "('s, 'w) client \<Rightarrow> url \<Rightarrow> str \<Rightarrow> ('s, 'w, stat_info) nop" where
  "fs_lstat cl url path = fs_stat cl url path False"

definition fs_readlink :: "('s, 'w) client \<Rightarrow> url \<Rightarrow> str \<Rightarrow> ('s, 'w, str) nop" where
  "fs_readlink cl url path = at_path cl url path Readlink (\<lambda>_ data. parse_readlink data)"

definition fs_is_symlink :: "('s, 'w) client \<Rightarrow> url \<Rightarrow> str \<Rightarrow> ('s, 'w, bool) nop" where
  "fs_is_symlink cl url path =
     catchF (bindF (fs_readlink cl url path) (\<lambda>_. retF True)) (\<lambda>x.
       if of_class NotFoundError x \<or> of_class InvalidArgumentError x then retF False else raiseF x)"

definition fs_statvfs :: "('s, 'w) client \<Rightarrow> url \<Rightarrow> str \<Rightarrow> ('s, 'w, vfs_info) nop" where
  "fs_statvfs cl url path = at_path cl url path StatVFS (\<lambda>_ data. parse_statvfs data)"

definition flags_stat :: "int \<Rightarrow> str \<Rightarrow> stat_info" where
  "flags_stat flags path = \<lparr>si_id = [], st_size = 0, si_flags = flags, st_mtime = 0, st_ctime = 0, st_atime = 0,
     si_path = path, si_mode_str = [], si_owner = [], si_group = []\<rparr>"

definition fs_statx :: "('s, 'w) client \<Rightarrow> url \<Rightarrow> str list \<Rightarrow> ('s, 'w, stat_info list) nop" where
  "fs_statx cl url paths = bindF (liftF (fs_abs_all url paths)) (\<lambda>targets.
     bindF (exec cl (Statx targets)) (\<lambda>res.
       let flags = parse_statx (res_data res) in
       if length flags \<noteq> length targets then raiseF (Raised (ProtocolError ''statx returned another number of flags''))
       else retF (map (\<lambda>(f, p). flags_stat f p) (zip flags targets))))"

text \<open>\<^verbatim>\<open>try: ... except NotFoundError: return False\<close>.\<close>

definition unless_missing :: "('s, 'w, bool) nop \<Rightarrow> ('s, 'w, bool) nop" where
  "unless_missing m = catchF m (\<lambda>x. if of_class NotFoundError x then retF False else raiseF x)"

definition fs_exists :: "('s, 'w) client \<Rightarrow> url \<Rightarrow> str \<Rightarrow> ('s, 'w, bool) nop" where
  "fs_exists cl url path = unless_missing (bindF (fs_stat cl url path True) (\<lambda>_. retF True))"

definition fs_isdir :: "('s, 'w) client \<Rightarrow> url \<Rightarrow> str \<Rightarrow> ('s, 'w, bool) nop" where
  "fs_isdir cl url path = unless_missing (bindF (fs_stat cl url path True) (\<lambda>s. retF (si_is_dir s)))"

definition fs_isfile :: "('s, 'w) client \<Rightarrow> url \<Rightarrow> str \<Rightarrow> ('s, 'w, bool) nop" where
  "fs_isfile cl url path = unless_missing (bindF (fs_stat cl url path True) (\<lambda>s. retF (si_is_file s)))"

definition fs_getsize :: "('s, 'w) client \<Rightarrow> url \<Rightarrow> str \<Rightarrow> ('s, 'w, int) nop" where
  "fs_getsize cl url path = bindF (fs_stat cl url path True) (\<lambda>s. retF (st_size s))"

section \<open>Listing\<close>

definition fs_scandir ::
  "('s, 'w) client \<Rightarrow> url \<Rightarrow> str \<Rightarrow> bool \<Rightarrow> bool \<Rightarrow> str \<Rightarrow> wordy option \<Rightarrow> ('s, 'w, dir_entry list) nop" where
  "fs_scandir cl url path stat online algorithm flags =
     bindF (liftF (fs_abs url (if path \<noteq> [] then path else [47]))) (\<lambda>t.
     bindF (liftF (dirlist_flags stat online algorithm flags)) (\<lambda>options.
       let target = add_cks_type algorithm t;
           with_stat = (options AND member DirListFlags ''STAT'' \<noteq> 0)
       in bindF (exec cl (Dirlist target (options AND NOT (member DirListFlags ''RECURSIVE'')))) (\<lambda>res.
            liftF (parse_dirlist (res_data res) target with_stat))))"

abbreviation (input) scandir_plain :: "('s, 'w) client \<Rightarrow> url \<Rightarrow> str \<Rightarrow> ('s, 'w, dir_entry list) nop" where
  "scandir_plain cl url path \<equiv> fs_scandir cl url path True False [] None"

definition fs_listdir :: "('s, 'w) client \<Rightarrow> url \<Rightarrow> str \<Rightarrow> ('s, 'w, str list) nop" where
  "fs_listdir cl url path = bindF (fs_scandir cl url path False False [] None) (\<lambda>es. retF (map de_name es))"

type_synonym ('s, 'w) visitor = "str \<Rightarrow> str list \<Rightarrow> str list \<Rightarrow> ('s, 'w, str list) nop"

partial_function (option) fs_walk ::
  "('s, 'w) client \<Rightarrow> url \<Rightarrow> bool \<Rightarrow> (failure \<Rightarrow> ('s, 'w, unit) nop) \<Rightarrow> ('s, 'w) visitor \<Rightarrow> str
     \<Rightarrow> ('s, 'w) rstate \<Rightarrow> ((failure + unit) \<times> ('s, 'w) rstate) option" where
  "fs_walk cl url topdown onerror visit origin rs = bindF (liftF (fs_abs url (if origin \<noteq> [] then origin else [47]))) (\<lambda>root.
     bindF (catchF (bindF (scandir_plain cl url root) (\<lambda>es. retF (Some es)))
              (\<lambda>x. if is_os_error x then bindF (onerror x) (\<lambda>_. retF None) else raiseF x)) (\<lambda>got rs1.
       case got of
         None \<Rightarrow> Some (Inr (), rs1)
       | Some entries \<Rightarrow>
           (case fs_split_cgi root of (base, cgi) \<Rightarrow>
             (let dirs = map de_name (filter de_is_dir entries);
                  files = map de_name (filter (\<lambda>e. \<not> de_is_dir e) entries)
              in bindF (if topdown then visit base dirs files else retF dirs) (\<lambda>dirs1.
                 bindF (for_each dirs1 (\<lambda>name rs2.
                          fs_walk cl url topdown onerror visit (posix_join base [name] @ cgi) rs2)) (\<lambda>_.
                 if topdown then retF () else bindF (visit base dirs1 files) (\<lambda>_. retF ()))) rs1)))) rs"

declare fs_walk.simps [code]

section \<open>Mutation\<close>

definition fs_mkdir :: "('s, 'w) client \<Rightarrow> url \<Rightarrow> str \<Rightarrow> wordy \<Rightarrow> bool \<Rightarrow> bool \<Rightarrow> ('s, 'w, unit) nop" where
  "fs_mkdir cl url path mode parents exist_ok = bindF (liftF (fs_abs url path)) (\<lambda>target.
     catchF (bindF (liftF (permissions mode)) (\<lambda>m. bindF (exec cl (Mkdir target m parents)) (\<lambda>_. retF ())))
       (\<lambda>x. if is_file_exists x \<and> exist_ok then retF () else raiseF x))"

definition fs_makedirs :: "('s, 'w) client \<Rightarrow> url \<Rightarrow> str \<Rightarrow> wordy \<Rightarrow> bool \<Rightarrow> ('s, 'w, unit) nop" where
  "fs_makedirs cl url path mode exist_ok = fs_mkdir cl url path mode True exist_ok"

definition fs_rmdir :: "('s, 'w) client \<Rightarrow> url \<Rightarrow> str \<Rightarrow> ('s, 'w, unit) nop" where
  "fs_rmdir cl url path = at_path cl url path Rmdir ignored"

definition fs_remove :: "('s, 'w) client \<Rightarrow> url \<Rightarrow> str \<Rightarrow> ('s, 'w, unit) nop" where
  "fs_remove cl url path = at_path cl url path Rm ignored"

definition tolerant :: "bool \<Rightarrow> ('s, 'w, unit) nop \<Rightarrow> ('s, 'w, unit) nop" where
  "tolerant ignore_errors m = catchF m (\<lambda>x. if is_os_error x \<and> ignore_errors then retF () else raiseF x)"

definition rmtree_visit :: "('s, 'w) client \<Rightarrow> url \<Rightarrow> bool \<Rightarrow> str \<Rightarrow> ('s, 'w) visitor" where
  "rmtree_visit cl url ignore_errors cgi dirpath dirs files =
     bindF (for_each files (\<lambda>name. tolerant ignore_errors (fs_remove cl url (posix_join dirpath [name] @ cgi)))) (\<lambda>_.
     bindF (for_each dirs (\<lambda>name. tolerant ignore_errors (fs_rmdir cl url (posix_join dirpath [name] @ cgi)))) (\<lambda>_.
     retF dirs))"

definition fs_rmtree :: "('s, 'w) client \<Rightarrow> url \<Rightarrow> str \<Rightarrow> bool \<Rightarrow> ('s, 'w, unit) nop" where
  "fs_rmtree cl url path ignore_errors = bindF (liftF (fs_abs url path)) (\<lambda>target.
     bindF (fs_walk cl url False (\<lambda>_. retF ()) (rmtree_visit cl url ignore_errors (snd (fs_split_cgi target))) target) (\<lambda>_.
     tolerant ignore_errors (fs_rmdir cl url target)))"

definition fs_two_paths :: "('s, 'w) client \<Rightarrow> url \<Rightarrow> (str \<Rightarrow> str \<Rightarrow> request) \<Rightarrow> str \<Rightarrow> str \<Rightarrow> ('s, 'w, unit) nop" where
  "fs_two_paths cl url req src dst = bindF (liftF (fs_abs url src)) (\<lambda>source.
     bindF (liftF (fs_abs url dst)) (\<lambda>destination. bindF (exec cl (req source destination)) (\<lambda>_. retF ())))"

definition fs_rename :: "('s, 'w) client \<Rightarrow> url \<Rightarrow> str \<Rightarrow> str \<Rightarrow> ('s, 'w, unit) nop" where
  "fs_rename cl url src dst = fs_two_paths cl url Mv src dst"

definition fs_symlink :: "('s, 'w) client \<Rightarrow> url \<Rightarrow> str \<Rightarrow> str \<Rightarrow> ('s, 'w, unit) nop" where
  "fs_symlink cl url target link = fs_two_paths cl url Symlink target link"

definition fs_link :: "('s, 'w) client \<Rightarrow> url \<Rightarrow> str \<Rightarrow> str \<Rightarrow> ('s, 'w, unit) nop" where
  "fs_link cl url src dst = fs_two_paths cl url Link src dst"

definition fs_chmod :: "('s, 'w) client \<Rightarrow> url \<Rightarrow> str \<Rightarrow> wordy \<Rightarrow> ('s, 'w, unit) nop" where
  "fs_chmod cl url path mode = bindF (liftF (fs_abs url path)) (\<lambda>target.
     bindF (liftF (permissions mode)) (\<lambda>m. bindF (exec cl (Chmod target m)) (\<lambda>_. retF ())))"

text \<open>\<^verbatim>\<open>utime\<close>: \<open>secs\<close> is \<^verbatim>\<open>times\<close>, in whole seconds, \<open>ns\<close> in nanoseconds.\<close>

definition stamp :: "int \<Rightarrow> int \<times> int" where
  "stamp nanoseconds = (nanoseconds div 10 ^ 9, nanoseconds mod 10 ^ 9)"

definition fs_utime :: "('s, 'w) client \<Rightarrow> url \<Rightarrow> str \<Rightarrow> (int \<times> int) option \<Rightarrow> (int \<times> int) option \<Rightarrow> ('s, 'w, unit) nop" where
  "fs_utime cl url path secs ns =
     (if secs \<noteq> None \<and> ns \<noteq> None then raiseF (Raised (ValueError ''specify either times or ns, not both''))
      else
        (case (case ns of Some (a, m) \<Rightarrow> (stamp a, stamp m)
               | None \<Rightarrow> (case secs of Some (a, m) \<Rightarrow> (stamp (a * 10 ^ 9), stamp (m * 10 ^ 9))
                          | None \<Rightarrow> ((0, UTIME_NOW), (0, UTIME_NOW)))) of (atime, mtime) \<Rightarrow>
           at_path cl url path (\<lambda>target. Setattr target kXR_sa_times atime mtime (- 1) (- 1)) ignored))"

definition fs_chown :: "('s, 'w) client \<Rightarrow> url \<Rightarrow> str \<Rightarrow> int \<Rightarrow> int \<Rightarrow> ('s, 'w, unit) nop" where
  "fs_chown cl url path uid gid =
     at_path cl url path (\<lambda>target. Setattr target kXR_sa_owner (0, 0) (0, 0) uid gid) ignored"

definition fs_truncate :: "('s, 'w) client \<Rightarrow> url \<Rightarrow> str \<Rightarrow> int \<Rightarrow> ('s, 'w, unit) nop" where
  "fs_truncate cl url path sz = at_path cl url path (\<lambda>target. Truncate target sz NULL_FHANDLE) ignored"

text \<open>
  A \<^verbatim>\<open>File\<close> on the file system's own router, opened: the request goes through the shared router, the
  file keeps a pinned copy of it. \<open>with_file\<close> runs methods of such a file.
\<close>

definition with_file :: "'s rfile \<Rightarrow> ('s, 'w, 'a) fop \<Rightarrow> ('s, 'w, 'a \<times> 's rfile) nop" where
  "with_file f m rs =
     (case m \<lparr>fs_file = f, fs_pool = rs_pool rs, fs_world = rs_world rs\<rparr> of
        None \<Rightarrow> None
      | Some (r, st) \<Rightarrow>
          Some (map_sum (\<lambda>x. x) (\<lambda>a. (a, fs_file st)) r, rs\<lparr>rs_pool := fs_pool st, rs_world := fs_world st\<rparr>))"

definition open_shared :: "('s, 'w) client \<Rightarrow> url \<Rightarrow> int \<Rightarrow> int \<Rightarrow> ('s, 'w, 's rfile) nop" where
  "open_shared cl url flags mode = bindF (liftF (path_with_cgi url)) (\<lambda>path.
     bindF (exec cl (Open path (flags OR kXR_retstat) mode)) (\<lambda>result.
     bindF (liftF (parse_open (res_data result) (u_path url))) (\<lambda>(h, st, comp).
       \<lambda>rs. bindF (with_file ((new_File url (Some (fst (pin False (rs_router rs)))))\<lparr>f_flags := flags, f_mode := mode,
            f_handle := Some h, f_stat := st, f_compression := comp,
            f_size_hint := (case st of None \<Rightarrow> 0 | Some s \<Rightarrow> st_size s)\<rparr>) (bind_data_streams cl))
          (\<lambda>(_, f). retF f) rs)))"

definition fs_touch :: "('s, 'w) client \<Rightarrow> url \<Rightarrow> str \<Rightarrow> bool \<Rightarrow> ('s, 'w, unit) nop" where
  "fs_touch cl url path exist_ok =
     (let flags = member OpenFlags ''NEW'' OR member OpenFlags ''UPDATE'' OR member OpenFlags ''MAKEPATH'';
          mode = member Access ''OWNER_READ'' OR member Access ''OWNER_WRITE''
      in bindF (liftF (fs_url_for (rc_low (fc_router (cl_cfg cl))) url path)) (\<lambda>u.
         bindF (catchF (bindF (open_shared cl u flags mode) (\<lambda>f. retF (Some f)))
                  (\<lambda>x. if of_class ExistsError x \<and> exist_ok then retF None else raiseF x)) (\<lambda>got.
           case got of None \<Rightarrow> retF () | Some f \<Rightarrow> bindF (with_file f (file_close cl)) (\<lambda>_. retF ()))))"

section \<open>Queries, checksums, staging\<close>

definition fs_query :: "('s, 'w) client \<Rightarrow> wordy \<Rightarrow> str \<Rightarrow> ('s, 'w, bytes) nop" where
  "fs_query cl code args = bindF (liftF (enum_value QueryCode code)) (\<lambda>n.
     bindF (exec cl (Query n (Inl args) NULL_FHANDLE)) (\<lambda>res. retF (res_data res)))"

definition fs_checksum :: "('s, 'w) client \<Rightarrow> url \<Rightarrow> str \<Rightarrow> str \<Rightarrow> ('s, 'w, checksum_info) nop" where
  "fs_checksum cl url path algorithm = at_path cl url path
     (\<lambda>target. Query kXR_Qcksum (Inl (add_cks_type algorithm target)) NULL_FHANDLE) (\<lambda>_ data. parse_checksum data)"

definition reply_text :: "bytes \<Rightarrow> str" where
  "reply_text data = utf8_decode (before_nul data)"

definition fs_query_config :: "('s, 'w) client \<Rightarrow> str list \<Rightarrow> ('s, 'w, (str, str) dict) nop" where
  "fs_query_config cl names =
     (let wanted = (if names \<noteq> [] then names else [lit ''version'']) in
      bindF (exec cl (Query kXR_Qconfig (Inl (join_lines wanted)) NULL_FHANDLE)) (\<lambda>res.
        retF (dict_of (filter (\<lambda>(_, v). v \<noteq> []) (zip wanted (split_on 10 (reply_text (res_data res))))))))"

text \<open>61 is the equals sign, 44 the comma.\<close>

definition fs_extensions :: "('s, 'w) client \<Rightarrow> ('s, 'w, str set) nop" where
  "fs_extensions cl = bindF (fs_query_config cl [lit ''xrdfs.ext'']) (\<lambda>d.
     let listed = (case map_of d (lit ''xrdfs.ext'') of None \<Rightarrow> [] | Some v \<Rightarrow> v)
     in retF (set (map strip (split_on 44 (snd (snd (rpartition_at 61 listed))))) - {[], lit ''xrdfs.ext''}))"

definition fs_checksum_cancel :: "('s, 'w) client \<Rightarrow> url \<Rightarrow> str \<Rightarrow> ('s, 'w, unit) nop" where
  "fs_checksum_cancel cl url path =
     at_path cl url path (\<lambda>target. Query kXR_Qckscan (Inl target) NULL_FHANDLE) ignored"

definition fs_query_stats :: "('s, 'w) client \<Rightarrow> str \<Rightarrow> ('s, 'w, str) nop" where
  "fs_query_stats cl selectors = bindF (exec cl (Query kXR_QStats (Inl selectors) NULL_FHANDLE)) (\<lambda>res.
     retF (strip (reply_text (res_data res))))"

definition fs_query_space :: "('s, 'w) client \<Rightarrow> url \<Rightarrow> str \<Rightarrow> ('s, 'w, space_info) nop" where
  "fs_query_space cl url path =
     at_path cl url path (\<lambda>target. Query kXR_Qspace (Inl target) NULL_FHANDLE) (\<lambda>_ data. parse_space data)"

definition fs_set_property :: "('s, 'w) client \<Rightarrow> str \<Rightarrow> ('s, 'w, unit) nop" where
  "fs_set_property cl directive = bindF (exec cl (SetProp directive)) (\<lambda>_. retF ())"

definition fs_appid :: "('s, 'w) client \<Rightarrow> str \<Rightarrow> ('s, 'w, unit) nop" where
  "fs_appid cl name = fs_set_property cl (lit ''appid '' @ name)"

definition fs_locate ::
  "('s, 'w) client \<Rightarrow> url \<Rightarrow> str \<Rightarrow> bool \<Rightarrow> bool \<Rightarrow> bool \<Rightarrow> bool \<Rightarrow> wordy option \<Rightarrow> ('s, 'w, location_info list) nop" where
  "fs_locate cl url path refresh no_wait add_peers prefer_name flags =
     bindF (liftF (fs_abs url path)) (\<lambda>target.
     bindF (liftF (locate_flags refresh no_wait add_peers prefer_name flags)) (\<lambda>options.
     bindF (exec cl (Locate target options)) (\<lambda>res. retF (parse_locate (res_data res)))))"

abbreviation (input) locate_plain :: "('s, 'w) client \<Rightarrow> url \<Rightarrow> str \<Rightarrow> ('s, 'w, location_info list) nop" where
  "locate_plain cl url path \<equiv> fs_locate cl url path False False False False None"

text \<open>
  \<^verbatim>\<open>child = FileSystem(url, config)\<close>, a method of it, and \<^verbatim>\<open>child.close()\<close> however the method ended. Only
  the pool and the world are shared with the parent.
\<close>

definition with_child :: "('s, 'w) client \<Rightarrow> url \<Rightarrow> ('s, 'w, 'a) nop \<Rightarrow> ('s, 'w, 'a) nop" where
  "with_child cl url m rs =
     (case m (rs\<lparr>rs_router := Router url True\<rparr>) of
        None \<Rightarrow> None
      | Some (r, rs1) \<Rightarrow>
          (case close_router (cl_net cl) (fc_router (cl_cfg cl)) rs1 of rs2 \<Rightarrow>
             Some (r, rs2\<lparr>rs_router := rs_router rs\<rparr>)))"

text \<open>What a manager answers; an \<^verbatim>\<open>OSError\<close> is passed over.\<close>

definition ask_manager :: "('s, 'w) client \<Rightarrow> url \<Rightarrow> str \<Rightarrow> location_info \<Rightarrow> ('s, 'w, location_info list) nop" where
  "ask_manager cl url path loc =
     bindF (liftF (li_port loc)) (\<lambda>port.
       let child = evolve (rc_low (fc_router (cl_cfg cl))) (u_scheme url) (li_host loc) port url
       in catchF (with_child cl child (locate_plain cl child path))
            (\<lambda>x. if is_os_error x then retF [] else raiseF x))"

text \<open>The \<^verbatim>\<open>while pending\<close> loop; \<open>pending\<close> is popped at its end.\<close>

partial_function (option) deep_loop ::
  "('s, 'w) client \<Rightarrow> url \<Rightarrow> str \<Rightarrow> (str, location_info) dict \<Rightarrow> location_info list
     \<Rightarrow> ('s, 'w) rstate \<Rightarrow> ((failure + (str, location_info) dict) \<times> ('s, 'w) rstate) option" where
  "deep_loop cl url path seen pending rs =
     (if pending = [] then Some (Inr seen, rs)
      else
        (let loc = last pending; rest = butlast pending in
         case map_of seen (li_address loc) of
           Some known \<Rightarrow>
             deep_loop cl url path
               (if li_is_manager known \<and> \<not> li_is_manager loc then AList.update (li_address loc) loc seen else seen) rest rs
         | None \<Rightarrow>
             (if li_is_manager loc
              then bindF (ask_manager cl url path loc) (\<lambda>more. \<lambda>rs1.
                     deep_loop cl url path (AList.update (li_address loc) loc seen) (rest @ more) rs1) rs
              else deep_loop cl url path (AList.update (li_address loc) loc seen) rest rs)))"

declare deep_loop.simps [code]

definition fs_deep_locate :: "('s, 'w) client \<Rightarrow> url \<Rightarrow> str \<Rightarrow> ('s, 'w, location_info list) nop" where
  "fs_deep_locate cl url path = bindF (locate_plain cl url path) (\<lambda>pending.
     bindF (deep_loop cl url path [] pending) (\<lambda>seen.
       retF (filter (\<lambda>l. \<not> li_is_manager l) (map snd seen))))"

definition fs_prepare ::
  "('s, 'w) client \<Rightarrow> url \<Rightarrow> str list \<Rightarrow> bool option \<Rightarrow> bool \<Rightarrow> bool \<Rightarrow> bool \<Rightarrow> int \<Rightarrow> wordy option \<Rightarrow> ('s, 'w, str) nop" where
  "fs_prepare cl url paths stage evict notify fresh priority flags =
     bindF (liftF (fs_abs_all url paths)) (\<lambda>targets.
     bindF (liftF (prepare_flags stage evict notify fresh flags)) (\<lambda>options.
     bindF (exec cl (Prepare targets (options AND 0xFF) priority 0 (drop_bit 8 options))) (\<lambda>res.
       retF (strip (reply_text (res_data res))))))"

definition fs_evict :: "('s, 'w) client \<Rightarrow> url \<Rightarrow> str list \<Rightarrow> ('s, 'w, str) nop" where
  "fs_evict cl url paths = fs_prepare cl url paths None True False False 0 None"

record prepare_status =
  ps_path :: str
  ps_exists :: bool
  ps_on_tape :: bool
  ps_online :: bool
  ps_requested :: bool
  ps_has_request_id :: bool
  ps_requested_at :: str
  ps_error :: str
  ps_state :: str

definition archive_report :: "stat_info \<Rightarrow> prepare_status" where
  "archive_report info =
     (let here = \<not> has_flag (si_flags info) kXR_other; offline = si_is_offline info in
      \<lparr>ps_path = si_path info, ps_exists = here, ps_on_tape = (here \<and> offline), ps_online = (here \<and> \<not> offline),
       ps_requested = False, ps_has_request_id = False, ps_requested_at = [],
       ps_error = (if here then [] else lit ''no such file''),
       ps_state = (if here then (if offline then lit ''NEARLINE'' else lit ''ONLINE'') else [])\<rparr>)"

definition fs_archive_info :: "('s, 'w) client \<Rightarrow> url \<Rightarrow> str list \<Rightarrow> ('s, 'w, prepare_status list) nop" where
  "fs_archive_info cl url paths = bindF (fs_statx cl url paths) (\<lambda>infos. retF (map archive_report infos))"

definition fs_query_prepare ::
  "('s, 'w) client \<Rightarrow> (bytes \<Rightarrow> exn + prepare_status list) \<Rightarrow> url \<Rightarrow> str \<Rightarrow> str list \<Rightarrow> ('s, 'w, prepare_status list) nop" where
  "fs_query_prepare cl parse_prepare_status url handle paths = bindF (liftF (fs_abs_all url paths)) (\<lambda>targets.
     bindF (exec cl (Query kXR_QPrep (Inl (join_lines (handle # targets))) NULL_FHANDLE)) (\<lambda>res.
       liftF (parse_prepare_status (res_data res))))"

definition fs_cancel_prepare :: "('s, 'w) client \<Rightarrow> str \<Rightarrow> ('s, 'w, unit) nop" where
  "fs_cancel_prepare cl handle = bindF (exec cl (Prepare [handle] (member PrepareFlags ''CANCEL'') 0 0 0)) (\<lambda>_. retF ())"

section \<open>Extended attributes\<close>

definition fs_attr :: "('s, 'w) client \<Rightarrow> url \<Rightarrow> str \<Rightarrow> (str \<Rightarrow> exn + request) \<Rightarrow> (str \<Rightarrow> bytes \<Rightarrow> exn + 'a) \<Rightarrow> ('s, 'w, 'a) nop" where
  "fs_attr cl url path req k = bindF (liftF (fs_abs url path)) (\<lambda>target.
     bindF (liftF (req target)) (\<lambda>q. bindF (exec cl q) (\<lambda>res. liftF (k target (res_data res)))))"

definition attr_error :: "str \<Rightarrow> exn" where
  "attr_error path = ServerError AttrNotFoundError 3027 (lit ''no attribute'') (Some path)"

text \<open>\<^verbatim>\<open>_ATTR_ERRNO\<close>, by the Linux numbers of \<^verbatim>\<open>EEXIST\<close>, \<^verbatim>\<open>ENODATA\<close>, \<^verbatim>\<open>ENOENT\<close> and \<^verbatim>\<open>EACCES\<close>.\<close>

definition ATTR_ERRNO :: "(int, server_class \<times> int) dict" where
  "ATTR_ERRNO = [(17, (ExistsError, 3018)), (61, (AttrNotFoundError, 3027)), (2, (NotFoundError, 3011)),
     (13, (PermissionError, 3010))]"

fun check_fattr :: "fattr_item list \<Rightarrow> str \<Rightarrow> exn + unit" where
  "check_fattr [] path = Inr ()"
| "check_fattr (i # is) path =
     (if fi_code i \<noteq> 0 then
        (case (case map_of ATTR_ERRNO (fi_code i) of None \<Rightarrow> (IOError, 3007) | Some kc \<Rightarrow> kc) of (kind, code) \<Rightarrow>
           Inl (ServerError kind code (lit ''attribute refused'') (Some path)))
      else check_fattr is path)"

definition fs_getxattr :: "('s, 'w) client \<Rightarrow> url \<Rightarrow> str \<Rightarrow> str \<Rightarrow> ('s, 'w, bytes) nop" where
  "fs_getxattr cl url path name = fs_attr cl url path (\<lambda>target. Fattr_get target name NULL_FHANDLE) (\<lambda>target data.
     bindE (parse_fattr data True) (\<lambda>fr.
       case first_value (fr_items fr) of None \<Rightarrow> Inl (attr_error target) | Some v \<Rightarrow> Inr v))"

definition checked_fattr :: "str \<Rightarrow> bytes \<Rightarrow> exn + unit" where
  "checked_fattr target data = bindE (parse_fattr data False) (\<lambda>fr. check_fattr (fr_items fr) target)"

definition fs_setxattr :: "('s, 'w) client \<Rightarrow> url \<Rightarrow> str \<Rightarrow> str \<Rightarrow> bytes \<Rightarrow> bool \<Rightarrow> ('s, 'w, unit) nop" where
  "fs_setxattr cl url path name value create_only =
     fs_attr cl url path (\<lambda>target. Fattr_set target name value create_only NULL_FHANDLE) checked_fattr"

definition fs_removexattr :: "('s, 'w) client \<Rightarrow> url \<Rightarrow> str \<Rightarrow> str \<Rightarrow> ('s, 'w, unit) nop" where
  "fs_removexattr cl url path name =
     fs_attr cl url path (\<lambda>target. Fattr_delete target name NULL_FHANDLE) checked_fattr"

definition fs_listxattr :: "('s, 'w) client \<Rightarrow> url \<Rightarrow> str \<Rightarrow> ('s, 'w, str list) nop" where
  "fs_listxattr cl url path =
     fs_attr cl url path (\<lambda>target. Fattr_list target False NULL_FHANDLE False) (\<lambda>_ data.
       bindE (parse_fattr data False) (\<lambda>fr. Inr (map fi_name (fr_items fr))))"

definition fs_listxattr_tree :: "('s, 'w) client \<Rightarrow> url \<Rightarrow> str \<Rightarrow> ('s, 'w, (str, str list) dict) nop" where
  "fs_listxattr_tree cl url path =
     fs_attr cl url path (\<lambda>target. Fattr_list target False NULL_FHANDLE True) (\<lambda>_ data. Inr (parse_fattr_tree data))"

definition fs_xattrs :: "('s, 'w) client \<Rightarrow> url \<Rightarrow> str \<Rightarrow> ('s, 'w, (str, bytes) dict) nop" where
  "fs_xattrs cl url path =
     fs_attr cl url path (\<lambda>target. Fattr_list target True NULL_FHANDLE False) (\<lambda>_ data.
       bindE (parse_fattr data True) (\<lambda>fr. Inr (fr_as_dict fr)))"

end
