(* ===== verification/Fs_Paths.thy ===== *)
theory Fs_Paths
  imports File_System Url_Properties
begin

text \<open>
  The paths a \<^verbatim>\<open>FileSystem\<close> sends: \<open>spath n cs\<close> is the text of an absolute path with the components \<open>cs\<close> behind
  one slash or, where the caller wrote exactly two, behind two. \<open>settled url c\<close> says that \<open>c\<close> is an
  opaque suffix to which resolving adds nothing. Every path that \<^verbatim>\<open>_abs\<close> returns is made of the two.
\<close>

section \<open>Absolute paths\<close>

definition spath :: "nat \<Rightarrow> str list \<Rightarrow> str" where
  "spath n cs = replicate n 47 @ join_with [47] cs"

lemma comps_slash: "comps (47 # s) = comps s"
  by (simp add: comps_def norm_step_def)

lemma spath_parts:
  assumes "list_all clean cs" "n \<in> {1, 2}"
  shows "normpath (spath n cs) = spath n cs"
proof (cases "cs = []")
  case True
  with assms(2) show ?thesis
    by (auto simp: spath_def normpath_def Let_def norm_step_def numeral_2_eq_2)
next
  case False
  let ?j = "join_with [47] cs"
  note ends = join_clean_ends [OF assms(1) False]
  then obtain a b where j: "?j = a # b" "a \<noteq> 47" by (cases ?j) auto
  have c: "comps ?j = cs"
    by (simp add: comps_def split_on_clean [OF assms(1) False] norm_fold_id [OF assms(1)])
  then have "foldl (norm_step True) [] (split_on 47 (a # b)) = cs" by (simp add: comps_def j)
  with assms(2) j ends show ?thesis
    by (auto simp: spath_def normpath_def Let_def norm_step_def numeral_2_eq_2)
qed

lemma comps_from: "c \<in> set (comps s) \<Longrightarrow> set c \<subseteq> set s"
proof -
  have step: "set (norm_step True acc part) \<subseteq> insert part (set acc)" for acc part
    by (auto simp: norm_step_def dest: in_set_butlastD)
  have "set (foldl (norm_step True) acc parts) \<subseteq> set acc \<union> set parts" for acc parts
    by (induction parts arbitrary: acc) (use step in \<open>fastforce+\<close>)
  then have "set (comps s) \<subseteq> set (split_on 47 s)" unfolding comps_def by (metis empty_set sup_bot_left)
  moreover have "\<forall>c \<in> set (split_on 47 s). set c \<subseteq> set s"
    by (induction s) (auto split: list.splits)
  ultimately show "c \<in> set (comps s) \<Longrightarrow> set c \<subseteq> set s" by blast
qed

lemma normpath_spath:
  assumes "path \<noteq> []" "hd path = 47"
  obtains n cs where "normpath path = spath n cs" "n \<in> {1, 2}" "list_all clean cs" "set (normpath path) \<subseteq> insert 47 (set path)"
proof -
  define n :: nat where "n = (if take 2 path = [47, 47] \<and> take 3 path \<noteq> [47, 47, 47] then 2 else 1)"
  have "normpath path = spath n (comps path)"
    using assms by (auto simp: normpath_def Let_def spath_def comps_def n_def)
  moreover from this have "set (normpath path) \<subseteq> insert 47 (set path)"
    using set_join_with [of "[47]" "comps path"] comps_from [of _ path] by (fastforce simp: spath_def)
  ultimately show ?thesis using that [of n "comps path"] comps_clean by (simp add: n_def)
qed

lemma spath_child:
  assumes "list_all clean cs" "clean x" "n \<in> {1, 2}"
  shows "posix_join (spath n cs) [x] = spath n (cs @ [x])"
proof -
  have x: "x \<noteq> []" "hd x \<noteq> 47" using assms(2) by (cases x; auto simp: clean_def)+
  have snoc: "cs \<noteq> [] \<Longrightarrow> join_with [47] (cs @ [x]) = join_with [47] cs @ 47 # x"
    by (induction "[47 :: nat]" cs rule: join_with.induct) auto
  have "ends_with_slash (spath n cs) \<longleftrightarrow> cs = []"
    using join_clean_ends [OF assms(1)] assms(3) by (cases "cs = []") (auto simp: spath_def ends_with_slash_def last_append)
  moreover have "spath n cs \<noteq> []" using assms(3) by (auto simp: spath_def)
  ultimately show ?thesis using x snoc by (auto simp: posix_join_def posix_join1_def spath_def)
qed

lemma spath_no_mark: "list_all (\<lambda>c. 63 \<notin> set c) cs \<Longrightarrow> 63 \<notin> set (spath n cs)"
  using set_join_with [of "[47]" cs] by (auto simp: spath_def list_all_iff)

section \<open>Opaque data\<close>

definition settled :: "url \<Rightarrow> str \<Rightarrow> bool" where
  "settled url c \<longleftrightarrow> (c = [] \<and> fs_cgi [] (u_query url) = Inr []) \<or> (\<exists>q. c = 63 # q \<and> fs_cgi q (u_query url) = Inr c)"

lemma split_settled:
  assumes "settled url c" "63 \<notin> set b"
  shows "fs_split_cgi (b @ c) = (b, c)"
  using assms by (auto simp: settled_def fs_split_cgi_def)

lemma parse_qsl_append: "parse_qsl (a @ 38 # b) = parse_qsl a @ parse_qsl b"
proof -
  have "split_on 38 (a @ 38 # b) = split_on 38 a @ split_on 38 b"
    by (induction a) (auto split: list.splits dest: arg_cong [of _ _ length])
  then show ?thesis by (simp add: parse_qsl_def)
qed

lemma urlencode_Nil: "urlencode [] = Inr []"
  by (simp add: urlencode_def)

text \<open>What \<^verbatim>\<open>_cgi\<close> makes of the caller's opaque data and the URL's: both, the caller's first and alone on its keys.\<close>

lemma fs_cgi_parts:
  assumes "fs_cgi explicit inherited = Inr c"
  defines "extra \<equiv> filter (\<lambda>(k, v). k \<notin> set (map fst (parse_qsl explicit))) inherited"
  shows "\<exists>q. c = (if q = [] then [] else 63 # q) \<and> parse_qsl q = parse_qsl explicit @ extra
    \<and> fs_cgi q inherited = Inr c"
proof (cases "extra = []")
  case True
  then have "c = (if explicit = [] then [] else 63 # explicit)"
    using assms(1) unfolding fs_cgi_def Let_def extra_def [symmetric]
    by (cases "inherited = []") (simp_all add: urlencode_Nil split: if_splits)
  with True assms(1) show ?thesis by (intro exI [of _ explicit]) auto
next
  case False
  then have ne: "inherited \<noteq> []" by (auto simp: extra_def)
  with assms(1) obtain e where e: "urlencode extra = Inr e"
    and c: "c = (if e = [] then (if explicit \<noteq> [] then 63 # explicit else [])
      else if explicit \<noteq> [] then 63 # explicit @ 38 # e else 63 # e)"
    by (auto simp: fs_cgi_def Let_def extra_def bindE_eq_Inr)
  from parse_qsl_urlencode [OF e False] have e2: "parse_qsl e = extra" "e \<noteq> []" by auto
  define q where "q = (if explicit \<noteq> [] then explicit @ 38 # e else e)"
  have q: "c = 63 # q" "q \<noteq> []" "parse_qsl q = parse_qsl explicit @ extra"
    using c e2 by (auto simp: q_def parse_qsl_append) (simp add: parse_qsl_def)
  have "filter (\<lambda>(k, v). k \<notin> set (map fst (parse_qsl q))) inherited = []"
    unfolding q(3) by (auto simp: filter_empty_conv extra_def image_iff)
  with q ne have "fs_cgi q inherited = Inr c" by (simp add: fs_cgi_def Let_def urlencode_Nil)
  with q show ?thesis by auto
qed

text \<open>A resolved path, and resolving below it again.\<close>

lemma fs_abs_settled:
  assumes "list_all clean cs" "list_all (\<lambda>c. 63 \<notin> set c) cs" "n \<in> {1, 2}" "settled url c"
  shows "fs_abs url (spath n cs @ c) = Inr (spath n cs @ c)"
proof -
  have no: "63 \<notin> set (spath n cs)" by (rule spath_no_mark [OF assms(2)])
  have head: "spath n cs \<noteq> [] \<and> hd (spath n cs) = 47" using assms(3) by (auto simp: spath_def numeral_2_eq_2)
  from assms(4) consider "c = []" "fs_cgi [] (u_query url) = Inr []" | q where "c = 63 # q" "fs_cgi q (u_query url) = Inr c"
    by (auto simp: settled_def)
  then show ?thesis
    using no head spath_parts [OF assms(1,3)] by cases (simp_all add: fs_abs_def Let_def)
qed

lemma fs_abs_resolved:
  assumes "fs_abs url path = Inr t" "63 \<notin> set (u_path url)" "u_path url = [] \<or> hd (u_path url) = 47"
  obtains n cs c where "t = spath n cs @ c" "n \<in> {1, 2}" "list_all clean cs" "list_all (\<lambda>c. 63 \<notin> set c) cs" "settled url c"
    "\<exists>q. c = (if q = [] then [] else 63 # q) \<and> parse_qsl q
      = parse_qsl (snd (snd (partition_at 63 path)))
        @ filter (\<lambda>(k, v). k \<notin> fst ` set (parse_qsl (snd (snd (partition_at 63 path))))) (u_query url)"
proof -
  obtain base sep cgi where p: "partition_at 63 path = (base, sep, cgi)" by (cases "partition_at 63 path")
  have base: "63 \<notin> set base" and cgi: "\<not> sep \<Longrightarrow> cgi = []"
    using p set_takeWhileD by (fastforce simp: partition_at_def split: if_splits)+
  define b where "b = (if base \<noteq> [] \<and> hd base = 47 then base
                 else posix_join (if u_path url \<noteq> [] then u_path url else [47]) [base])"
  have b: "b \<noteq> []" "hd b = 47" "63 \<notin> set b"
    using assms(2,3) base by (auto simp: b_def posix_join_def posix_join1_def)
  from assms(1) p cgi obtain c where c: "fs_cgi cgi (u_query url) = Inr c" and t: "t = normpath b @ c"
    by (auto simp: fs_abs_def b_def [symmetric] Let_def bindE_eq_Inr split: if_splits)
  obtain n cs where n: "normpath b = spath n cs" "n \<in> {1, 2}" "list_all clean cs" "set (normpath b) \<subseteq> insert 47 (set b)"
    by (rule normpath_spath [OF b(1,2)])
  have "set x \<subseteq> set (join_with [47] cs)" if "x \<in> set cs" for x
    using that by (induction "[47 :: nat]" cs rule: join_with.induct) auto
  then have "63 \<notin> set x" if "x \<in> set cs" for x using n(1,4) b(3) that by (fastforce simp: spath_def)
  then have no: "list_all (\<lambda>c. 63 \<notin> set c) cs" by (auto simp: list_all_iff)
  from fs_cgi_parts [OF c] obtain q where q: "c = (if q = [] then [] else 63 # q)"
    "parse_qsl q = parse_qsl cgi @ filter (\<lambda>(k, v). k \<notin> fst ` set (parse_qsl cgi)) (u_query url)"
    "fs_cgi q (u_query url) = Inr c" by auto
  then have "settled url c" by (auto simp: settled_def split: if_splits)
  with t n no q p show ?thesis by (intro that [of n cs c]) auto
qed

text \<open>
  C22. A path is resolved once. What \<^verbatim>\<open>_abs\<close> returns is an absolute path without empty, \<^verbatim>\<open>.\<close> or
  \<^verbatim>\<open>..\<close> components, followed by opaque data that decodes to the caller's own pairs, in order, and
  then the pairs of the file system's URL whose keys the caller did not give: a token on the URL reaches
  every path, and the caller's value wins. Resolving the result again changes nothing, so walking
  down a tree never applies the token twice.
\<close>

theorem resolved_once_with_opaque_data:
  assumes "fs_abs url path = Inr t" and "63 \<notin> set (u_path url)" and "u_path url = [] \<or> hd (u_path url) = 47"
  shows "fs_abs url t = Inr t
    \<and> (\<exists>n cs q. t = spath n cs @ (if q = [] then [] else 63 # q) \<and> n \<in> {1, 2} \<and> list_all clean cs
        \<and> parse_qsl q = parse_qsl (snd (snd (partition_at 63 path)))
            @ filter (\<lambda>(k, v). k \<notin> fst ` set (parse_qsl (snd (snd (partition_at 63 path))))) (u_query url))"
proof -
  obtain n cs c where r: "t = spath n cs @ c" "n \<in> {1, 2}" "list_all clean cs" "list_all (\<lambda>c. 63 \<notin> set c) cs" "settled url c"
    "\<exists>q. c = (if q = [] then [] else 63 # q) \<and> parse_qsl q
      = parse_qsl (snd (snd (partition_at 63 path)))
        @ filter (\<lambda>(k, v). k \<notin> fst ` set (parse_qsl (snd (snd (partition_at 63 path))))) (u_query url)"
    by (rule fs_abs_resolved [OF assms])
  from fs_abs_settled [OF r(3,4,2,5)] r show ?thesis by blast
qed

definition token_url :: url where
  "token_url = \<lparr>u_scheme = lit ''root'', u_host = lit ''h'', u_port = 1094, u_path = lit ''/eos'', u_username = [],
     u_password = [], u_query = [(lit ''authz'', lit ''a&b''), (lit ''n'', lit ''1'')]\<rparr>"

theorem resolved_once_with_opaque_data_witness:
  "fs_abs token_url (lit ''d/../x?n=2'') = Inr (lit ''/eos/x?n=2&authz=a%26b'')
   \<and> fs_abs token_url (lit ''/eos/x?n=2&authz=a%26b'') = Inr (lit ''/eos/x?n=2&authz=a%26b'')"
proof -
  have r: "fs_abs token_url (lit ''d/../x?n=2'') = Inr (lit ''/eos/x?n=2&authz=a%26b'')" by code_simp
  have u: "63 \<notin> set (u_path token_url)" "hd (u_path token_url) = 47" by code_simp+
  from resolved_once_with_opaque_data [OF r u(1)] u(2) r show ?thesis by blast
qed

end
