(* ===== verification/Fs_Tree.thy ===== *)
theory Fs_Tree
  imports Fs_Paths File_Properties
begin

text \<open>
  Walking and removing trees. A server's namespace is a map from component lists to what is there:
  \<open>Some True\<close> a directory, \<open>Some False\<close> a file. \<open>hosts\<close> says that a session that stays up answers
  listings and removals from such a namespace.
\<close>

section \<open>A namespace\<close>

type_synonym nspace = "str list \<Rightarrow> bool option"

definition beneath :: "str list \<Rightarrow> str list set" where
  "beneath cs = {p. \<exists>x q. p = cs @ x # q}"

definition gone :: "str list set \<Rightarrow> nspace \<Rightarrow> nspace" where
  "gone S ns = (\<lambda>p. if p \<in> S then None else ns p)"

text \<open>Only directories have something below them.\<close>

definition rooted :: "nspace \<Rightarrow> bool" where
  "rooted ns \<longleftrightarrow> (\<forall>p x. ns (p @ [x]) \<noteq> None \<longrightarrow> ns p = Some True)"

text \<open>A path component that can be sent.\<close>

definition sendable :: "str \<Rightarrow> bool" where
  "sendable x \<longleftrightarrow> clean x \<and> 63 \<notin> set x"

definition tree_at :: "str list \<Rightarrow> nspace \<Rightarrow> bool" where
  "tree_at cs ns \<longleftrightarrow> ns cs = Some True \<and> rooted ns \<and> finite {p \<in> beneath cs. ns p \<noteq> None}
     \<and> (\<forall>p \<in> beneath cs. ns p \<noteq> None \<longrightarrow> sendable (last p))"

lemma gone_simps [simp]: "gone {} ns = ns" "gone S (gone T ns) = gone (T \<union> S) ns" "gone S ns p = (if p \<in> S then None else ns p)"
  by (auto simp: gone_def)

lemma gone_upd: "(gone S ns)(p := None) = gone (insert p S) ns"
  by (auto simp: gone_def)

lemma beneath_iff: "p \<in> beneath cs \<longleftrightarrow> (\<exists>x q. p = cs @ x # q)"
  by (simp add: beneath_def)

lemma beneath_child: "cs @ [x] \<in> beneath cs" "p \<in> beneath (cs @ [x]) \<Longrightarrow> p \<in> beneath cs" "cs @ [x] \<notin> beneath (cs @ [y])" "cs \<notin> beneath cs"
  by (auto simp: beneath_iff)

lemma rooted_prefix: "rooted ns \<Longrightarrow> ns (p @ q) \<noteq> None \<Longrightarrow> q \<noteq> [] \<Longrightarrow> ns p = Some True"
proof (induction q rule: rev_induct)
  case (snoc x q)
  then have "ns (p @ q) = Some True" by (auto simp: rooted_def append_assoc [symmetric] simp del: append_assoc)
  with snoc show ?case by (cases "q = []") auto
qed simp

lemma rooted_gone:
  assumes "rooted ns" "\<And>p x. p \<in> S \<Longrightarrow> p @ [x] \<in> S"
  shows "rooted (gone S ns)"
  using assms by (auto simp: rooted_def)

lemma beneath_closed: "p \<in> beneath cs \<Longrightarrow> p @ [x] \<in> beneath cs"
  by (auto simp: beneath_iff)

lemma tree_child:
  assumes "tree_at cs ns" "ns (cs @ [d]) = Some True" "d \<notin> set ys"
  defines "m \<equiv> gone (\<Union>y \<in> set ys. beneath (cs @ [y])) ns"
  shows "tree_at (cs @ [d]) m"
    and "card {p \<in> beneath (cs @ [d]). m p \<noteq> None} < card {p \<in> beneath cs. ns p \<noteq> None}"
proof -
  from assms(1) have t: "rooted ns" "finite {p \<in> beneath cs. ns p \<noteq> None}" "\<forall>p \<in> beneath cs. ns p \<noteq> None \<longrightarrow> sendable (last p)"
    by (auto simp: tree_at_def)
  have sub: "{p \<in> beneath (cs @ [d]). m p \<noteq> None} \<subseteq> {p \<in> beneath cs. ns p \<noteq> None}"
    by (auto simp: m_def split: if_splits intro: beneath_child)
  moreover have "cs @ [d] \<in> {p \<in> beneath cs. ns p \<noteq> None} - {p \<in> beneath (cs @ [d]). m p \<noteq> None}"
    using assms(2) by (auto simp: beneath_child)
  ultimately have "{p \<in> beneath (cs @ [d]). m p \<noteq> None} \<subset> {p \<in> beneath cs. ns p \<noteq> None}" by blast
  with t(2) show "card {p \<in> beneath (cs @ [d]). m p \<noteq> None} < card {p \<in> beneath cs. ns p \<noteq> None}"
    by (rule psubset_card_mono)
  have "rooted m" unfolding m_def using t(1) by (rule rooted_gone) (auto intro: beneath_closed)
  moreover have "m (cs @ [d]) = Some True" using assms(2) by (auto simp: m_def beneath_child)
  moreover have "finite {p \<in> beneath (cs @ [d]). m p \<noteq> None}" using sub t(2) by (rule finite_subset)
  ultimately show "tree_at (cs @ [d]) m" using t(3) sub by (auto simp: tree_at_def)
qed

text \<open>Removing every file of a directory, every directory in it and what was below them removes all below it.\<close>

lemma gone_beneath:
  assumes "rooted ns"
    and "\<And>x. x \<in> set dirs \<longleftrightarrow> ns (cs @ [x]) = Some True" "\<And>x. x \<in> set files \<longleftrightarrow> ns (cs @ [x]) = Some False"
  shows "gone ((\<Union>d \<in> set dirs. beneath (cs @ [d])) \<union> (\<lambda>x. cs @ [x]) ` (set files \<union> set dirs)) ns = gone (beneath cs) ns"
proof
  fix p
  show "gone ((\<Union>d \<in> set dirs. beneath (cs @ [d])) \<union> (\<lambda>x. cs @ [x]) ` (set files \<union> set dirs)) ns p = gone (beneath cs) ns p"
  proof (cases "p \<in> beneath cs \<and> ns p \<noteq> None")
    case True
    then obtain x q where p: "p = cs @ x # q" by (auto simp: beneath_iff)
    show ?thesis
    proof (cases "q = []")
      case True
      with p assms(2,3) \<open>p \<in> beneath cs \<and> ns p \<noteq> None\<close> show ?thesis by (cases "ns p") auto
    next
      case False
      from rooted_prefix [OF assms(1), of "cs @ [x]" q] False True p have "x \<in> set dirs" by (simp add: assms(2))
      moreover have "p \<in> beneath (cs @ [x])" using p False by (auto simp: beneath_iff neq_Nil_conv)
      ultimately show ?thesis using True by auto
    qed
  qed (auto intro: beneath_child)
qed

section \<open>A server with a namespace\<close>

text \<open>\<open>spell\<close> writes a component list as the path a request carries.\<close>

definition hosts ::
  "('s, 'w) client \<Rightarrow> 's \<Rightarrow> (str list \<Rightarrow> str) \<Rightarrow> ('w \<Rightarrow> nspace) \<Rightarrow> ('w \<Rightarrow> bool) \<Rightarrow> bool" where
  "hosts cl s spell ns up \<longleftrightarrow> (\<forall>w. up w \<longrightarrow> \<not> net_closed (cl_net cl) s w
     \<and> (\<forall>p. ns w p = Some True \<longrightarrow> (\<exists>r w' es.
          net_execute (cl_net cl) s (Dirlist (spell p) 2) w = Some (Inr r, w') \<and> up w' \<and> ns w' = ns w
          \<and> parse_dirlist (res_data r) (spell p) True = Inr es \<and> distinct (map de_name es)
          \<and> (\<forall>x d. ns w (p @ [x]) = Some d \<longleftrightarrow> (\<exists>e \<in> set es. de_name e = x \<and> de_is_dir e = d))))
     \<and> (\<forall>p. ns w p = Some False \<longrightarrow> (\<exists>r w'.
          net_execute (cl_net cl) s (Rm (spell p)) w = Some (Inr r, w') \<and> up w' \<and> ns w' = (ns w)(p := None)))
     \<and> (\<forall>p. ns w p = Some True \<longrightarrow> (\<forall>x. ns w (p @ [x]) = None) \<longrightarrow> (\<exists>r w'.
          net_execute (cl_net cl) s (Rmdir (spell p)) w = Some (Inr r, w') \<and> up w' \<and> ns w' = (ns w)(p := None))))"

lemma hosts_answers:
  assumes "hosts cl s spell ns up" "up w"
  shows "\<not> net_closed (cl_net cl) s w"
    and "ns w p = Some True \<Longrightarrow> \<exists>r w' es. net_execute (cl_net cl) s (Dirlist (spell p) 2) w = Some (Inr r, w') \<and> up w'
      \<and> ns w' = ns w \<and> parse_dirlist (res_data r) (spell p) True = Inr es \<and> distinct (map de_name es)
      \<and> (\<forall>x d. ns w (p @ [x]) = Some d \<longleftrightarrow> (\<exists>e \<in> set es. de_name e = x \<and> de_is_dir e = d))"
    and "ns w p = Some False \<Longrightarrow> \<exists>r w'. net_execute (cl_net cl) s (Rm (spell p)) w = Some (Inr r, w') \<and> up w'
      \<and> ns w' = (ns w)(p := None)"
    and "ns w p = Some True \<Longrightarrow> \<forall>x. ns w (p @ [x]) = None \<Longrightarrow>
      \<exists>r w'. net_execute (cl_net cl) s (Rmdir (spell p)) w = Some (Inr r, w') \<and> up w' \<and> ns w' = (ns w)(p := None)"
  using assms(1) [unfolded hosts_def, THEN spec, THEN mp, OF assms(2)] by (elim conjE; blast)+

lemma exec_served:
  assumes "rt_session (rs_router rs) = Some s" "\<not> net_closed (cl_net cl) s (rs_world rs)"
    and "net_execute (cl_net cl) s q (rs_world rs) = Some (Inr r, w)"
  shows "exec cl q rs = Some (Inr r, rs\<lparr>rs_world := w\<rparr>)"
proof -
  have "try_once (cl_net cl) (fc_router (cl_cfg cl)) q rs = Some (Inr r, rs\<lparr>rs_world := w\<rparr>)"
    using assms by (simp add: try_once_def use_session_def connected_def)
  then show ?thesis
    by (simp add: exec_def router_execute_def route.simps [of "cl_net cl" "fc_router (cl_cfg cl)" 0 0 q])
qed

lemma for_each_run:
  assumes "\<And>ys x zs st. xs = ys @ x # zs \<Longrightarrow> I ys st \<Longrightarrow> \<exists>st'. body x st = Some (Inr (), st') \<and> I (ys @ [x]) st'"
    and "I [] st"
  shows "\<exists>st'. for_each xs body st = Some (Inr (), st') \<and> I xs st'"
proof -
  have "\<exists>st'. for_each zs body st = Some (Inr (), st') \<and> I xs st'" if "xs = ys @ zs" "I ys st" for ys zs st
    using that
  proof (induction zs arbitrary: ys st)
    case (Cons x zs)
    from assms(1) [OF Cons.prems] obtain st1 where "body x st = Some (Inr (), st1)" "I (ys @ [x]) st1" by blast
    with Cons.IH [of "ys @ [x]" st1] Cons.prems(1) show ?case by (auto simp: bindF_def)
  qed (simp add: retF_def)
  from this [of "[]" xs st] assms(2) show ?thesis by simp
qed

section \<open>Removing what is below a directory\<close>

text \<open>The server spells paths behind \<open>n\<close> slashes and with the opaque suffix \<open>c\<close>.\<close>

definition hosted :: "('s, 'w) client \<Rightarrow> 's \<Rightarrow> url \<Rightarrow> nat \<Rightarrow> str \<Rightarrow> ('w \<Rightarrow> nspace) \<Rightarrow> ('w \<Rightarrow> bool) \<Rightarrow> bool" where
  "hosted cl s url n c ns up \<longleftrightarrow> n \<in> {1, 2} \<and> settled url c \<and> hosts cl s (\<lambda>p. spath n p @ c) ns up"

lemma hostedD:
  assumes "hosted cl s url n c ns up"
  shows "n \<in> {1, 2}" "settled url c" "hosts cl s (\<lambda>p. spath n p @ c) ns up"
  using assms by (simp_all add: hosted_def)

definition live :: "'s \<Rightarrow> ('w \<Rightarrow> bool) \<Rightarrow> ('s, 'w) rstate \<Rightarrow> bool" where
  "live s up rs \<longleftrightarrow> rt_session (rs_router rs) = Some s \<and> up (rs_world rs)"

lemma hosted_paths:
  assumes "hosted cl s url n c ns up" "list_all sendable p"
  shows "fs_abs url (spath n p @ c) = Inr (spath n p @ c)"
    and "sendable x \<Longrightarrow> posix_join (spath n p) [x] @ c = spath n (p @ [x]) @ c"
    and "fs_split_cgi (spath n p @ c) = (spath n p, c)"
    and "spath n p \<noteq> []"
proof -
  have p: "list_all clean p" "list_all (\<lambda>c. 63 \<notin> set c) p" using assms(2) by (auto simp: list_all_iff sendable_def)
  note h = hostedD [OF assms(1)]
  show "fs_abs url (spath n p @ c) = Inr (spath n p @ c)" by (rule fs_abs_settled [OF p h(1,2)])
  show "sendable x \<Longrightarrow> posix_join (spath n p) [x] @ c = spath n (p @ [x]) @ c"
    using p h(1) by (simp add: spath_child sendable_def)
  show "fs_split_cgi (spath n p @ c) = (spath n p, c)" by (rule split_settled [OF h(2) spath_no_mark [OF p(2)]])
  show "spath n p \<noteq> []" using h(1) by (auto simp: spath_def)
qed

lemma listing:
  assumes "hosted cl s url n c ns up" "live s up rs" "ns (rs_world rs) p = Some True" "list_all sendable p"
  obtains w es where "scandir_plain cl url (spath n p @ c) rs = Some (Inr es, rs\<lparr>rs_world := w\<rparr>)" "up w"
    "ns w = ns (rs_world rs)" "distinct (map de_name es)"
    "\<And>x d. ns w (p @ [x]) = Some d \<longleftrightarrow> (\<exists>e \<in> set es. de_name e = x \<and> de_is_dir e = d)"
proof -
  from assms(2) have l: "rt_session (rs_router rs) = Some s" "up (rs_world rs)" by (auto simp: live_def)
  note sv = hosts_answers [OF hostedD(3) [OF assms(1)] l(2)]
  from sv(2) [OF assms(3)] obtain r w es
    where x: "net_execute (cl_net cl) s (Dirlist (spath n p @ c) 2) (rs_world rs) = Some (Inr r, w)" "up w" "ns w = ns (rs_world rs)"
      "parse_dirlist (res_data r) (spath n p @ c) True = Inr es" "distinct (map de_name es)"
      "\<And>x d. ns w (p @ [x]) = Some d \<longleftrightarrow> (\<exists>e \<in> set es. de_name e = x \<and> de_is_dir e = d)"
    by force
  have m: "member DirListFlags ''STAT'' = 2" "member DirListFlags ''RECURSIVE'' = 8" by code_simp+
  have "scandir_plain cl url (spath n p @ c) rs = Some (Inr es, rs\<lparr>rs_world := w\<rparr>)"
    using hosted_paths(1,4) [OF assms(1,4)] exec_served [where cl = cl, OF l(1) sv(1) x(1)] x(4)
    by (auto simp: fs_scandir_def dirlist_flags_def Let_def m bindF_def liftF_def retF_def add_cks_type_def)
  with x that show ?thesis by blast
qed

text \<open>\<open>after ns up rs S rs'\<close>: \<open>rs'\<close> is \<open>rs\<close> in a world from which exactly \<open>S\<close> is gone.\<close>

definition after :: "('w \<Rightarrow> nspace) \<Rightarrow> ('w \<Rightarrow> bool) \<Rightarrow> ('s, 'w) rstate \<Rightarrow> str list set \<Rightarrow> ('s, 'w) rstate \<Rightarrow> bool" where
  "after ns up rs S rs' \<longleftrightarrow> (\<exists>w. rs' = rs\<lparr>rs_world := w\<rparr> \<and> up w \<and> ns w = gone S (ns (rs_world rs)))"

lemma after_live: "live s up rs \<Longrightarrow> after ns up rs S rs' \<Longrightarrow> live s up rs'"
  by (auto simp: after_def live_def)

lemma after_world: "after ns up rs S rs' \<Longrightarrow> ns (rs_world rs') = gone S (ns (rs_world rs))"
  by (auto simp: after_def)

lemma after_trans: "after ns up rs S rs' \<Longrightarrow> after ns up rs' T rs'' \<Longrightarrow> after ns up rs (S \<union> T) rs''"
  by (auto simp: after_def)

lemma after_refl: "live s up rs \<Longrightarrow> after ns up rs {} rs"
  by (auto simp: after_def live_def intro!: exI [of _ "rs_world rs"])

lemma removal:
  assumes "hosted cl s url n c ns up" "live s up rs" "list_all sendable p"
  shows "ns (rs_world rs) p = Some False \<Longrightarrow>
      \<exists>rs'. fs_remove cl url (spath n p @ c) rs = Some (Inr (), rs') \<and> after ns up rs {p} rs'"
    and "ns (rs_world rs) p = Some True \<Longrightarrow> \<forall>x. ns (rs_world rs) (p @ [x]) = None \<Longrightarrow>
      \<exists>rs'. fs_rmdir cl url (spath n p @ c) rs = Some (Inr (), rs') \<and> after ns up rs {p} rs'"
proof -
  from assms(2) have l: "rt_session (rs_router rs) = Some s" "up (rs_world rs)" by (auto simp: live_def)
  note sv = hosts_answers [OF hostedD(3) [OF assms(1)] l(2)]
  note run = hosted_paths(1) [OF assms(1,3)] exec_served [where cl = cl, OF l(1) sv(1)]
  have g: "(ns (rs_world rs))(p := None) = gone {p} (ns (rs_world rs))" using gone_upd [of "{}"] by simp
  show "ns (rs_world rs) p = Some False \<Longrightarrow>
      \<exists>rs'. fs_remove cl url (spath n p @ c) rs = Some (Inr (), rs') \<and> after ns up rs {p} rs'"
    using sv(3) [of p] run by (auto simp: fs_remove_def at_path_def bindF_def liftF_def retF_def after_def g)
  show "ns (rs_world rs) p = Some True \<Longrightarrow> \<forall>x. ns (rs_world rs) (p @ [x]) = None \<Longrightarrow>
      \<exists>rs'. fs_rmdir cl url (spath n p @ c) rs = Some (Inr (), rs') \<and> after ns up rs {p} rs'"
    using sv(4) [of p] run by (auto simp: fs_rmdir_def at_path_def bindF_def liftF_def retF_def after_def g)
qed

text \<open>One pass over the names of a directory, each name removed by \<open>op\<close>, tolerant of errors or not.\<close>

lemma remove_names:
  assumes h: "hosted cl s url n c ns up" and live: "live s up rs" and cs: "list_all sendable cs" and dist: "distinct xs"
    and names: "\<And>x. x \<in> set xs \<Longrightarrow> sendable x"
    and op: "\<And>x ys rs1. x \<in> set xs \<Longrightarrow> x \<notin> set ys \<Longrightarrow> after ns up rs ((\<lambda>x. cs @ [x]) ` set ys) rs1 \<Longrightarrow>
      \<exists>rs'. op (spath n (cs @ [x]) @ c) rs1 = Some (Inr (), rs') \<and> after ns up rs1 {cs @ [x]} rs'"
  shows "\<exists>rs'. for_each xs (\<lambda>x. tolerant ig (op (posix_join (spath n cs) [x] @ c))) rs = Some (Inr (), rs')
    \<and> after ns up rs ((\<lambda>x. cs @ [x]) ` set xs) rs'"
proof (rule for_each_run [where I = "\<lambda>ys rs'. after ns up rs ((\<lambda>x. cs @ [x]) ` set ys) rs'"])
  fix ys x zs rs1
  assume xs: "xs = ys @ x # zs" and a: "after ns up rs ((\<lambda>x. cs @ [x]) ` set ys) rs1"
  from xs dist op [of x ys rs1] a obtain rs2
    where "op (spath n (cs @ [x]) @ c) rs1 = Some (Inr (), rs2)" "after ns up rs1 {cs @ [x]} rs2" by auto
  with after_trans [OF a this(2)] hosted_paths(2) [OF h cs names] xs
  show "\<exists>rs'. tolerant ig (op (posix_join (spath n cs) [x] @ c)) rs1 = Some (Inr (), rs')
      \<and> after ns up rs ((\<lambda>x. cs @ [x]) ` set (ys @ [x])) rs'"
    by (auto simp: tolerant_def catchF_def)
qed (use after_refl [OF live] in simp)

lemma visit_removes:
  assumes h: "hosted cl s url n c ns up" and live: "live s up rs" and cs: "list_all sendable cs"
    and dist: "distinct dirs" "distinct files"
    and dirs: "\<And>x. x \<in> set dirs \<Longrightarrow> sendable x \<and> ns (rs_world rs) (cs @ [x]) = Some True \<and> (\<forall>y. ns (rs_world rs) (cs @ [x, y]) = None)"
    and files: "\<And>x. x \<in> set files \<Longrightarrow> sendable x \<and> ns (rs_world rs) (cs @ [x]) = Some False"
  shows "\<exists>rs'. rmtree_visit cl url ig c (spath n cs) dirs files rs = Some (Inr dirs, rs')
    \<and> after ns up rs ((\<lambda>x. cs @ [x]) ` (set files \<union> set dirs)) rs'"
proof -
  have "\<exists>rs1. for_each files (\<lambda>x. tolerant ig (fs_remove cl url (posix_join (spath n cs) [x] @ c))) rs = Some (Inr (), rs1)
      \<and> after ns up rs ((\<lambda>x. cs @ [x]) ` set files) rs1"
  proof (rule remove_names [OF h live cs dist(2)])
    fix x ys rs1
    assume "x \<in> set files" "x \<notin> set ys" and a: "after ns up rs ((\<lambda>x. cs @ [x]) ` set ys) rs1"
    then show "\<exists>rs'. fs_remove cl url (spath n (cs @ [x]) @ c) rs1 = Some (Inr (), rs') \<and> after ns up rs1 {cs @ [x]} rs'"
      using files [of x] after_world [OF a] cs by (intro removal(1) [OF h after_live [OF live a]]) auto
  qed (use files in blast)
  then obtain rs1 where w1: "for_each files (\<lambda>x. tolerant ig (fs_remove cl url (posix_join (spath n cs) [x] @ c))) rs = Some (Inr (), rs1)"
    and a1: "after ns up rs ((\<lambda>x. cs @ [x]) ` set files) rs1" by blast
  have "\<exists>rs2. for_each dirs (\<lambda>x. tolerant ig (fs_rmdir cl url (posix_join (spath n cs) [x] @ c))) rs1 = Some (Inr (), rs2)
      \<and> after ns up rs1 ((\<lambda>x. cs @ [x]) ` set dirs) rs2"
  proof (rule remove_names [OF h after_live [OF live a1] cs dist(1)])
    fix x ys rs2
    assume x: "x \<in> set dirs" "x \<notin> set ys" and a: "after ns up rs1 ((\<lambda>x. cs @ [x]) ` set ys) rs2"
    from x(1) dirs files have "x \<notin> set files" by fastforce
    with x show "\<exists>rs'. fs_rmdir cl url (spath n (cs @ [x]) @ c) rs2 = Some (Inr (), rs') \<and> after ns up rs2 {cs @ [x]} rs'"
      using dirs [of x] after_world [OF a] after_world [OF a1] cs
      by (intro removal(2) [OF h after_live [OF after_live [OF live a1] a]]) auto
  qed (use dirs in blast)
  then obtain rs2 where w2: "for_each dirs (\<lambda>x. tolerant ig (fs_rmdir cl url (posix_join (spath n cs) [x] @ c))) rs1 = Some (Inr (), rs2)"
    and a2: "after ns up rs1 ((\<lambda>x. cs @ [x]) ` set dirs) rs2" by blast
  from w1 w2 after_trans [OF a1 a2] show ?thesis by (auto simp: rmtree_visit_def bindF_def retF_def image_Un)
qed

lemma walk_removes:
  assumes h: "hosted cl s url n c ns up"
  shows "live s up rs \<Longrightarrow> tree_at cs (ns (rs_world rs)) \<Longrightarrow> list_all sendable cs \<Longrightarrow>
    \<exists>rs'. fs_walk cl url False onerr (rmtree_visit cl url ig c) (spath n cs @ c) rs = Some (Inr (), rs')
      \<and> after ns up rs (beneath cs) rs'"
proof (induction "card {p \<in> beneath cs. ns (rs_world rs) p \<noteq> None}" arbitrary: cs rs rule: less_induct)
  case less
  let ?ns = "ns (rs_world rs)"
  from less.prems(2) have t: "?ns cs = Some True" "rooted ?ns" and names: "\<And>x d. ?ns (cs @ [x]) = Some d \<Longrightarrow> sendable x"
    using beneath_child(1) by (force simp: tree_at_def)+
  obtain w es where es: "scandir_plain cl url (spath n cs @ c) rs = Some (Inr es, rs\<lparr>rs_world := w\<rparr>)" "up w" "ns w = ?ns"
      "distinct (map de_name es)" "\<And>x d. ns w (cs @ [x]) = Some d \<longleftrightarrow> (\<exists>e \<in> set es. de_name e = x \<and> de_is_dir e = d)"
    by (rule listing [OF h less.prems(1) t(1) less.prems(3)], rule that)
  define dirs where "dirs = map de_name (filter de_is_dir es)"
  define files where "files = map de_name (filter (\<lambda>e. \<not> de_is_dir e) es)"
  have dist: "distinct dirs" "distinct files" using es(4) by (auto simp: dirs_def files_def distinct_map_filter)
  have dirs: "x \<in> set dirs \<longleftrightarrow> ?ns (cs @ [x]) = Some True" and files: "x \<in> set files \<longleftrightarrow> ?ns (cs @ [x]) = Some False" for x
    using es(3,5) by (auto simp: dirs_def files_def)
  define rs1 where "rs1 = rs\<lparr>rs_world := w\<rparr>"
  let ?walk = "\<lambda>x. fs_walk cl url False onerr (rmtree_visit cl url ig c) (posix_join (spath n cs) [x] @ c)"
  have "\<exists>rs2. for_each dirs ?walk rs1 = Some (Inr (), rs2) \<and> after ns up rs (\<Union>y \<in> set dirs. beneath (cs @ [y])) rs2"
  proof (rule for_each_run [where I = "\<lambda>ys rs'. after ns up rs (\<Union>y \<in> set ys. beneath (cs @ [y])) rs'"])
    fix ys d zs rs3
    assume xs: "dirs = ys @ d # zs" and a: "after ns up rs (\<Union>y \<in> set ys. beneath (cs @ [y])) rs3"
    have d: "?ns (cs @ [d]) = Some True" "d \<notin> set ys" "sendable d" using xs dirs [of d] dist(1) names by auto
    note sub = tree_child [OF less.prems(2) d(1,2), folded after_world [OF a]]
    from less.hyps [OF sub(2) after_live [OF less.prems(1) a] sub(1)] less.prems(3) d(3) obtain rs4
      where "fs_walk cl url False onerr (rmtree_visit cl url ig c) (spath n (cs @ [d]) @ c) rs3 = Some (Inr (), rs4)"
        and "after ns up rs3 (beneath (cs @ [d])) rs4" by auto
    with after_trans [OF a this(2)] hosted_paths(2) [OF h less.prems(3) d(3)]
    show "\<exists>rs'. ?walk d rs3 = Some (Inr (), rs') \<and> after ns up rs (\<Union>y \<in> set (ys @ [d]). beneath (cs @ [y])) rs'"
      by (auto simp: Un_commute)
  qed (use es in \<open>auto simp: after_def rs1_def\<close>)
  then obtain rs2 where w2: "for_each dirs ?walk rs1 = Some (Inr (), rs2)"
    and a2: "after ns up rs (\<Union>y \<in> set dirs. beneath (cs @ [y])) rs2" by blast
  have "\<exists>rs3. rmtree_visit cl url ig c (spath n cs) dirs files rs2 = Some (Inr dirs, rs3)
      \<and> after ns up rs2 ((\<lambda>x. cs @ [x]) ` (set files \<union> set dirs)) rs3"
    by (rule visit_removes [OF h after_live [OF less.prems(1) a2] less.prems(3) dist])
      (use dirs files names after_world [OF a2] in \<open>auto simp: beneath_iff\<close>)
  then obtain rs3 where w3: "rmtree_visit cl url ig c (spath n cs) dirs files rs2 = Some (Inr dirs, rs3)"
    and a3: "after ns up rs2 ((\<lambda>x. cs @ [x]) ` (set files \<union> set dirs)) rs3" by blast
  have "fs_walk cl url False onerr (rmtree_visit cl url ig c) (spath n cs @ c) rs = Some (Inr (), rs3)"
    using es(1) w2 w3 hosted_paths [OF h less.prems(3)]
    by (subst fs_walk.simps) (auto simp: bindF_def liftF_def retF_def catchF_def rs1_def dirs_def files_def)
  moreover have "after ns up rs (beneath cs) rs3"
    using after_trans [OF a2 a3] gone_beneath [OF t(2) dirs files] by (auto simp: after_def)
  ultimately show ?case by blast
qed

section \<open>Removing a tree\<close>

text \<open>
  C17. \<^verbatim>\<open>rmtree\<close> removes exactly the tree. On a session that stays up and answers listings and removals
  from its namespace (a directory only when it is empty), \<^verbatim>\<open>rmtree\<close> of a directory with finitely many
  entries below it, all of them with names that a path can carry, returns. Afterwards the
  directory and everything below it is gone and nothing else has changed; every removal on the way was
  one the server could grant, because a directory is removed after what it holds.
\<close>

theorem rmtree_removes_exactly_the_tree:
  assumes "hosted cl s url n c ns up" and "live s up rs" and "fs_abs url path = Inr (spath n cs @ c)"
    and "tree_at cs (ns (rs_world rs))" and "list_all sendable cs"
  shows "\<exists>rs'. fs_rmtree cl url path ignore_errors rs = Some (Inr (), rs')
    \<and> ns (rs_world rs') = gone (insert cs (beneath cs)) (ns (rs_world rs))"
proof -
  from walk_removes [OF assms(1,2,4,5)] obtain rs1
    where w: "fs_walk cl url False (\<lambda>_. retF ()) (rmtree_visit cl url ignore_errors c) (spath n cs @ c) rs = Some (Inr (), rs1)"
      and a: "after ns up rs (beneath cs) rs1" by blast
  have "ns (rs_world rs1) cs = Some True" "\<forall>x. ns (rs_world rs1) (cs @ [x]) = None"
    using assms(4) after_world [OF a] by (auto simp: tree_at_def beneath_child)
  from removal(2) [OF assms(1) after_live [OF assms(2) a] assms(5) this] obtain rs2
    where "fs_rmdir cl url (spath n cs @ c) rs1 = Some (Inr (), rs2)" "after ns up rs1 {cs} rs2" by blast
  with w assms(3) hosted_paths(3) [OF assms(1,5)] after_world [OF after_trans [OF a this(2)]] show ?thesis
    by (auto simp: fs_rmtree_def bindF_def liftF_def retF_def tolerant_def catchF_def)
qed

text \<open>A server whose world is its namespace.\<close>

type_synonym shelf = "(str list \<times> bool) list"

definition shelf_listing :: "shelf \<Rightarrow> str \<Rightarrow> str" where
  "shelf_listing w path =
     lit ''.'' @ 10 # lit ''0 0 2 0''
     @ concat (map (\<lambda>(q, d). 10 # last q @ 10 # (if d then lit ''1 0 2 0'' else lit ''1 0 16 0''))
         (filter (\<lambda>(q, d). q \<noteq> [] \<and> spath 1 (butlast q) = path) w))"

definition shelf_net :: "(unit, shelf) net" where
  "shelf_net = \<lparr>net_connect = (\<lambda>u w. Some (Inr (), w)),
     net_execute = (\<lambda>s req w. Some (
       case req of
         Dirlist path opts \<Rightarrow> (Inr \<lparr>res_data = map of_nat (shelf_listing w path), res_status = None\<rparr>, w)
       | Rm path \<Rightarrow> (Inr \<lparr>res_data = [], res_status = None\<rparr>, filter (\<lambda>(q, d). spath 1 q \<noteq> path) w)
       | Rmdir path \<Rightarrow> (Inr \<lparr>res_data = [], res_status = None\<rparr>, filter (\<lambda>(q, d). spath 1 q \<noteq> path) w)
       | _ \<Rightarrow> (Inr \<lparr>res_data = [], res_status = None\<rparr>, w))),
     net_closed = (\<lambda>s w. False), net_close = (\<lambda>s w. w), net_clock = (\<lambda>w. (0, w)), net_sleep = (\<lambda>t w. w)\<rparr>"

definition shelf_client :: "(unit, shelf) client" where
  "shelf_client = \<lparr>cl_net = shelf_net, cl_cfg = sample_file_config,
     cl_arriving = (\<lambda>s req w. net_execute shelf_net s req w), cl_arrives = (\<lambda>s w. None),
     cl_bind = (\<lambda>s w. Some (Inr 0, w)), cl_accel = None\<rparr>"

definition sample_shelf :: shelf where
  "sample_shelf = [([], True), (map lit [''d''], True), (map lit [''d'', ''s''], True),
     (map lit [''d'', ''s'', ''g''], False), (map lit [''o''], False)]"

definition shelf_names :: "shelf \<Rightarrow> str list \<Rightarrow> (str list \<times> bool) set" where
  "shelf_names w p = set (filter (\<lambda>(q, d). q \<noteq> [] \<and> butlast q = p) w)"

definition shelf_lists :: "shelf \<Rightarrow> bool" where
  "shelf_lists w \<longleftrightarrow> distinct (map fst w) \<and> (\<forall>(p, d) \<in> set w. d \<longrightarrow>
     (case parse_dirlist (map of_nat (shelf_listing w (spath 1 p))) (spath 1 p) True of
        Inr es \<Rightarrow> distinct (map de_name es) \<and> set (map (\<lambda>e. (p @ [de_name e], de_is_dir e)) es) = shelf_names w p
      | Inl _ \<Rightarrow> False))"

definition shelf_drops :: "shelf \<Rightarrow> bool" where
  "shelf_drops w \<longleftrightarrow> (\<forall>(p, d) \<in> set w.
     filter (\<lambda>(q, d). spath 1 q \<noteq> spath 1 p) w = filter (\<lambda>(q, d). q \<noteq> p) w
     \<and> filter (\<lambda>(q, d). q \<noteq> p) w \<in> set (subseqs sample_shelf))"

lemma shelf_checked: "\<forall>w \<in> set (subseqs sample_shelf). shelf_lists w \<and> shelf_drops w"
  by code_simp

lemma map_of_drop: "map_of (filter (\<lambda>(q, d). q \<noteq> p) w) = (map_of w)(p := None)"
  by (induction w) auto

lemma shelf_hosted: "hosted shelf_client () token_free 1 [] map_of (\<lambda>w. w \<in> set (subseqs sample_shelf))"
  if "u_query token_free = []"
proof -
  have "hosts shelf_client () (\<lambda>p. spath 1 p @ []) map_of (\<lambda>w. w \<in> set (subseqs sample_shelf))"
    unfolding hosts_def
  proof (intro allI impI conjI)
    fix w p
    assume w: "w \<in> set (subseqs sample_shelf)"
    note ok = bspec [OF shelf_checked w]
    have run: "cl_net shelf_client = shelf_net" by (simp add: shelf_client_def)
    show "\<not> net_closed (cl_net shelf_client) () w" by (simp add: run shelf_net_def)
    show "\<exists>r w' es. net_execute (cl_net shelf_client) () (Dirlist (spath 1 p @ []) 2) w = Some (Inr r, w')
        \<and> w' \<in> set (subseqs sample_shelf) \<and> map_of w' = map_of w \<and> parse_dirlist (res_data r) (spath 1 p @ []) True = Inr es
        \<and> distinct (map de_name es) \<and> (\<forall>x d. (map_of w (p @ [x]) = Some d) = (\<exists>e\<in>set es. de_name e = x \<and> de_is_dir e = d))"
      if "map_of w p = Some True"
    proof -
      from ok that obtain es where es: "parse_dirlist (map of_nat (shelf_listing w (spath 1 p))) (spath 1 p) True = Inr es"
        "distinct (map de_name es)" "set (map (\<lambda>e. (p @ [de_name e], de_is_dir e)) es) = shelf_names w p" and dist: "distinct (map fst w)"
        by (auto simp: shelf_lists_def dest!: map_of_SomeD split: sum.splits)
      have "(map_of w (p @ [x]) = Some d) = (\<exists>e\<in>set es. de_name e = x \<and> de_is_dir e = d)" for x d
      proof -
        have "map_of w (p @ [x]) = Some d \<longleftrightarrow> (p @ [x], d) \<in> shelf_names w p" using dist by (auto simp: shelf_names_def)
        then show ?thesis unfolding es(3) [symmetric] by auto
      qed
      with es w show ?thesis by (simp add: run shelf_net_def)
    qed
    have drop: "filter (\<lambda>(q, d). spath 1 q \<noteq> spath 1 p) w \<in> set (subseqs sample_shelf)
        \<and> map_of (filter (\<lambda>(q, d). spath 1 q \<noteq> spath 1 p) w) = (map_of w)(p := None)" if "map_of w p = Some d" for d
      using ok that map_of_drop [of p w] by (auto simp: shelf_drops_def dest!: map_of_SomeD)
    show "\<exists>r w'. net_execute (cl_net shelf_client) () (Rm (spath 1 p @ [])) w = Some (Inr r, w')
        \<and> w' \<in> set (subseqs sample_shelf) \<and> map_of w' = (map_of w)(p := None)" if "map_of w p = Some False"
      using drop [OF that] by (simp add: run shelf_net_def)
    show "\<exists>r w'. net_execute (cl_net shelf_client) () (Rmdir (spath 1 p @ [])) w = Some (Inr r, w')
        \<and> w' \<in> set (subseqs sample_shelf) \<and> map_of w' = (map_of w)(p := None)" if "map_of w p = Some True"
      using drop [OF that] by (simp add: run shelf_net_def)
  qed
  with that show ?thesis by (simp add: hosted_def settled_def fs_cgi_def Let_def)
qed

definition sample_namespace :: "(unit, shelf) rstate" where
  "sample_namespace = \<lparr>rs_router = (Router (root_url ''a'') True)\<lparr>rt_session := Some ()\<rparr>, rs_pool = [], rs_world = sample_shelf\<rparr>"

theorem rmtree_removes_exactly_the_tree_witness:
  "\<exists>rs'. fs_rmtree shelf_client (root_url ''a'') (lit ''/d'') False sample_namespace = Some (Inr (), rs')
     \<and> map_of (rs_world rs') (map lit [''d'', ''s'', ''g'']) = None \<and> map_of (rs_world rs') (map lit [''o'']) = Some False"
proof -
  have url: "u_query (root_url ''a'') = []" by (simp add: root_url_def XRootDURL_def)
  have "fs_abs (root_url ''a'') (lit ''/d'') = Inr (spath 1 (map lit [''d'']) @ [])" by code_simp
  moreover have "live () (\<lambda>w. w \<in> set (subseqs sample_shelf)) sample_namespace"
    by (simp add: live_def sample_namespace_def sample_shelf_def)
  moreover have "tree_at (map lit [''d'']) (map_of (rs_world sample_namespace))"
  proof -
    have w: "rs_world sample_namespace = sample_shelf" by (simp add: sample_namespace_def)
    have k: "\<forall>(p, d) \<in> set sample_shelf. p \<noteq> [] \<longrightarrow> sendable (last p) \<and> map_of sample_shelf (butlast p) = Some True"
      by code_simp
    then have "rooted (map_of sample_shelf)" by (fastforce simp: rooted_def dest: map_of_SomeD)
    moreover have "finite {p \<in> beneath (map lit [''d'']). map_of sample_shelf p \<noteq> None}"
      by (rule finite_subset [OF _ finite_imageI [of "set sample_shelf" fst]]) (auto dest!: map_of_SomeD intro: rev_image_eqI)
    moreover have "sendable (last p)" if "p \<in> beneath cs" "map_of sample_shelf p \<noteq> None" for p cs
      using k that by (fastforce simp: beneath_iff dest: map_of_SomeD)
    moreover have "map_of sample_shelf (map lit [''d'']) = Some True" by code_simp
    ultimately show ?thesis unfolding tree_at_def w by blast
  qed
  moreover have "list_all sendable (map lit [''d''])" by code_simp
  ultimately obtain rs' where r: "fs_rmtree shelf_client (root_url ''a'') (lit ''/d'') False sample_namespace = Some (Inr (), rs')"
    "map_of (rs_world rs') = gone (insert (map lit [''d'']) (beneath (map lit [''d'']))) (map_of (rs_world sample_namespace))"
    using rmtree_removes_exactly_the_tree [OF shelf_hosted [OF url]] by blast
  have "map lit [''d'', ''s'', ''g''] \<in> beneath (map lit [''d''])" by (simp add: beneath_iff)
  moreover have "map lit [''o''] \<notin> insert (map lit [''d'']) (beneath (map lit [''d'']))"
    by (simp add: beneath_iff lit_def)
  moreover have "map_of (rs_world sample_namespace) (map lit [''o'']) = Some False" by code_simp
  ultimately show ?thesis using r by simp
qed

end
