(* ===== verification/Fs_Locate.thy ===== *)
theory Fs_Locate
  imports Fs_Paths File_Properties
begin

text \<open>
  Locating a file through the managers of a federation, \<^verbatim>\<open>deep_locate\<close>. \<open>consults\<close> says what asking
  managers gives; \<open>found\<close> is everything their answers lead to.
\<close>

section \<open>A federation\<close>

definition consults ::
  "('s, 'w) client \<Rightarrow> url \<Rightarrow> str \<Rightarrow> (str \<Rightarrow> location_info list) \<Rightarrow> (('s, 'w) rstate \<Rightarrow> bool) \<Rightarrow> bool" where
  "consults cl url path A up \<longleftrightarrow> (\<forall>loc rs. up rs \<longrightarrow> li_is_manager loc \<longrightarrow>
     (\<exists>rs'. ask_manager cl url path loc rs = Some (Inr (A (li_address loc)), rs') \<and> up rs'))"

inductive found :: "(str \<Rightarrow> location_info list) \<Rightarrow> location_info list \<Rightarrow> location_info \<Rightarrow> bool" for A first where
  first: "l \<in> set first \<Longrightarrow> found A first l"
| told: "found A first m \<Longrightarrow> li_is_manager m \<Longrightarrow> l \<in> set (A (li_address m)) \<Longrightarrow> found A first l"

definition one_role :: "(str \<Rightarrow> location_info list) \<Rightarrow> location_info list \<Rightarrow> bool" where
  "one_role A first \<longleftrightarrow> (\<forall>l l'. found A first l \<longrightarrow> found A first l' \<longrightarrow> li_address l = li_address l' \<longrightarrow>
     li_is_manager l = li_is_manager l')"

text \<open>What the loop keeps: entries that were found, filed under their addresses, and nothing forgotten.\<close>

definition mentioned :: "(str, location_info) dict \<Rightarrow> location_info list \<Rightarrow> str set" where
  "mentioned seen pending = keys seen \<union> li_address ` set pending"

definition deep_inv ::
  "(str \<Rightarrow> location_info list) \<Rightarrow> location_info list \<Rightarrow> (str, location_info) dict \<Rightarrow> location_info list \<Rightarrow> bool" where
  "deep_inv A first seen pending \<longleftrightarrow> distinct (map fst seen) \<and> (\<forall>l \<in> set pending. found A first l)
     \<and> (\<forall>a l. map_of seen a = Some l \<longrightarrow> li_address l = a \<and> found A first l)
     \<and> (one_role A first \<longrightarrow> (\<forall>l \<in> set first. li_address l \<in> mentioned seen pending)
          \<and> (\<forall>a l. map_of seen a = Some l \<longrightarrow> li_is_manager l \<longrightarrow> (\<forall>l' \<in> set (A a). li_address l' \<in> mentioned seen pending)))"

lemma mentioned_update:
  "mentioned (AList.update a l seen) pending = insert a (mentioned seen pending)"
  by (auto simp: mentioned_def keys_update)

lemma mentioned_append: "mentioned seen (rest @ extra) = mentioned seen rest \<union> li_address ` set extra"
  by (auto simp: mentioned_def)

lemma deep_inv_known:
  assumes "deep_inv A first seen (rest @ [loc])" "map_of seen (li_address loc) = Some known"
  shows "deep_inv A first (if li_is_manager known \<and> \<not> li_is_manager loc
    then AList.update (li_address loc) loc seen else seen) rest"
proof -
  let ?a = "li_address loc"
  note i = assms(1) [unfolded deep_inv_def]
  from assms(2) have a: "?a \<in> keys seen" by (auto dest!: map_of_SomeD intro: rev_image_eqI)
  then have m: "mentioned seen (rest @ [loc]) = mentioned seen rest" by (auto simp: mentioned_def)
  have "found A first known \<and> li_address known = ?a" "found A first loc" using i assms(2) by simp_all
  then have role: "li_is_manager known = li_is_manager loc" if "one_role A first"
    using that unfolding one_role_def by blast
  show ?thesis
  proof (cases "li_is_manager known \<and> \<not> li_is_manager loc")
    case True
    with role have "\<not> one_role A first" by auto
    with True i show ?thesis by (auto simp: deep_inv_def distinct_update update_conv')
  qed (use i m in \<open>auto simp: deep_inv_def\<close>)
qed

lemma deep_inv_new:
  assumes "deep_inv A first seen (rest @ [loc])" "map_of seen (li_address loc) = None"
    and "extra = (if li_is_manager loc then A (li_address loc) else [])"
  shows "deep_inv A first (AList.update (li_address loc) loc seen) (rest @ extra)"
proof -
  let ?a = "li_address loc"
  note i = assms(1) [unfolded deep_inv_def]
  have loc: "found A first loc" using i by simp
  then have "found A first l" if "l \<in> set extra" for l
    using that assms(3) by (auto split: if_splits intro: found.told)
  then have found: "\<forall>l \<in> set (rest @ extra). found A first l" using i by auto
  have kept: "x \<in> insert ?a (mentioned seen (rest @ extra))" if "x \<in> mentioned seen (rest @ [loc])" for x
    using that by (auto simp: mentioned_append)
  have told: "li_address l \<in> mentioned seen (rest @ extra)" if "l \<in> set extra" for l
    using that by (simp add: mentioned_append)
  have entries: "map_of (AList.update ?a loc seen) a = Some l \<longleftrightarrow> (if a = ?a then l = loc else map_of seen a = Some l)" for a l
    by (auto simp: update_conv')
  show ?thesis
    unfolding deep_inv_def mentioned_update entries
  proof (intro conjI impI found allI ballI)
    show "distinct (map fst (AList.update ?a loc seen))" using i by (simp add: distinct_update)
    fix a l
    assume "if a = ?a then l = loc else map_of seen a = Some l"
    with i loc show "li_address l = a" "found A first l" by (auto split: if_splits)
  next
    fix l
    assume "one_role A first" "l \<in> set first"
    with i kept show "li_address l \<in> insert ?a (mentioned seen (rest @ extra))" by blast
  next
    fix a l l'
    assume "one_role A first" "if a = ?a then l = loc else map_of seen a = Some l" "li_is_manager l" "l' \<in> set (A a)"
    with i kept told assms(3) show "li_address l' \<in> insert ?a (mentioned seen (rest @ extra))" by (auto split: if_splits)
  qed
qed

lemma deep_loop_returns:
  assumes "consults cl url path A up" "finite {l. found A first l}"
  shows "up rs \<Longrightarrow> deep_inv A first seen pending \<Longrightarrow>
    \<exists>seen' rs'. deep_loop cl url path seen pending rs = Some (Inr seen', rs') \<and> deep_inv A first seen' []"
proof (induction "(seen, pending)" arbitrary: seen pending rs
    rule: wf_induct_rule [OF wf_measures [of "[\<lambda>(seen, pending). card (li_address ` {l. found A first l} - keys seen), \<lambda>(seen, pending). length pending]"]])
  case 1
  show ?case
  proof (cases pending rule: rev_cases)
    case Nil
    with 1 show ?thesis by (subst deep_loop.simps) simp
  next
    case (snoc rest loc)
    note inv = 1(3) [unfolded snoc]
    show ?thesis
    proof (cases "map_of seen (li_address loc)")
      case (Some known)
      let ?seen = "if li_is_manager known \<and> \<not> li_is_manager loc then AList.update (li_address loc) loc seen else seen"
      have "keys ?seen = keys seen" using Some by (auto simp: keys_update dest!: map_of_SomeD intro: rev_image_eqI)
      then have "\<exists>seen' rs'. deep_loop cl url path ?seen rest rs = Some (Inr seen', rs') \<and> deep_inv A first seen' []"
        using 1(2) deep_inv_known [OF inv Some] snoc by (intro 1(1)) auto
      with Some snoc show ?thesis by (subst deep_loop.simps) simp
    next
      case None
      let ?seen = "AList.update (li_address loc) loc seen"
      let ?more = "if li_is_manager loc then A (li_address loc) else []"
      have "li_address loc \<in> li_address ` {l. found A first l} - keys seen"
        using inv None by (auto simp: deep_inv_def map_of_None_keys)
      then have "card (li_address ` {l. found A first l} - keys ?seen) < card (li_address ` {l. found A first l} - keys seen)"
        using assms(2) by (intro psubset_card_mono) (auto simp: keys_update)
      then have go: "\<exists>seen' rs'. deep_loop cl url path ?seen (rest @ ?more) rs1 = Some (Inr seen', rs') \<and> deep_inv A first seen' []"
        if "up rs1" for rs1
        using that deep_inv_new [OF inv None refl] by (intro 1(1)) auto
      from assms(1) 1(2) obtain rs1 where "li_is_manager loc \<Longrightarrow>
          ask_manager cl url path loc rs = Some (Inr (A (li_address loc)), rs1) \<and> up rs1"
        unfolding consults_def by blast
      with go [of rs1] go [of rs] 1(2) None snoc show ?thesis
        by (subst deep_loop.simps) (auto simp: bindF_def)
    qed
  qed
qed

lemma deep_inv_all:
  assumes "deep_inv A first seen []" "one_role A first" "found A first l"
  shows "\<exists>l'. map_of seen (li_address l) = Some l' \<and> li_is_manager l' = li_is_manager l"
proof -
  note i = assms(1) [unfolded deep_inv_def]
  have "li_address l \<in> keys seen" using assms(3)
  proof induction
    case (first l)
    then show ?case using i assms(2) by (simp add: mentioned_def)
  next
    case (told m l)
    then obtain m' where m': "map_of seen (li_address m) = Some m'" by (auto dest: weak_map_of_SomeI)
    then have "found A first m' \<and> li_address m' = li_address m" using i by simp
    with assms(2) told have "li_is_manager m'" unfolding one_role_def by blast
    with m' i assms(2) told show ?case by (auto simp: mentioned_def)
  qed
  then obtain l' where "map_of seen (li_address l) = Some l'" by (auto dest: weak_map_of_SomeI)
  with i assms show ?thesis unfolding one_role_def by metis
qed

text \<open>
  C11. \<^verbatim>\<open>deep_locate\<close> comes back with the servers behind the managers. Suppose every manager that is
  asked gives its list of locations (an empty one when asking fails with an \<^verbatim>\<open>OSError\<close>), and these lists lead to
  finitely many locations. Then \<^verbatim>\<open>deep_locate\<close> returns, however the managers refer to one another; it
  returns only servers that were really found, each address at most once; and if no address plays
  both roles, it returns all of them.
\<close>

theorem deep_locate_finds_all_servers:
  assumes "consults cl url path A up" and "locate_plain cl url path rs = Some (Inr first, rs1)" and "up rs1"
    and "finite {l. found A first l}"
  shows "\<exists>ls rs'. fs_deep_locate cl url path rs = Some (Inr ls, rs') \<and> distinct (map li_address ls)
    \<and> (\<forall>l \<in> set ls. found A first l \<and> \<not> li_is_manager l)
    \<and> (one_role A first \<longrightarrow> li_address ` set ls = li_address ` {l. found A first l \<and> \<not> li_is_manager l})"
proof -
  have "deep_inv A first [] first" by (auto simp: deep_inv_def mentioned_def intro: found.first)
  from deep_loop_returns [OF assms(1,4,3) this] obtain seen rs'
    where run: "deep_loop cl url path [] first rs1 = Some (Inr seen, rs')" and inv: "deep_inv A first seen []" by blast
  let ?ls = "filter (\<lambda>l. \<not> li_is_manager l) (map snd seen)"
  from inv have i: "distinct (map fst seen)" "\<And>a l. map_of seen a = Some l \<Longrightarrow> li_address l = a \<and> found A first l"
    by (simp_all add: deep_inv_def)
  then have entry: "(a, l) \<in> set seen \<longleftrightarrow> map_of seen a = Some l" for a l by simp
  have "map li_address (map snd seen) = map fst seen" using i(2) entry by auto
  with i(1) have "distinct (map li_address ?ls)" by (metis distinct_map_filter)
  moreover have "\<forall>l \<in> set ?ls. found A first l \<and> \<not> li_is_manager l" using i(2) entry by fastforce
  moreover have "li_address ` set ?ls = li_address ` {l. found A first l \<and> \<not> li_is_manager l}" if "one_role A first"
  proof (intro equalityI subsetI)
    fix a
    assume "a \<in> li_address ` {l. found A first l \<and> \<not> li_is_manager l}"
    then obtain l where l: "a = li_address l" "found A first l" "\<not> li_is_manager l" by blast
    from deep_inv_all [OF inv that l(2)] l obtain l' where l': "map_of seen a = Some l'" "\<not> li_is_manager l'" by auto
    then have "l' \<in> set ?ls" "li_address l' = a" using i(2) [OF l'(1)] map_of_SomeD [OF l'(1)] by force+
    then show "a \<in> li_address ` set ?ls" by blast
  qed (use \<open>\<forall>l \<in> set ?ls. _\<close> in blast)
  moreover have "fs_deep_locate cl url path rs = Some (Inr ?ls, rs')"
    using assms(2) run by (simp add: fs_deep_locate_def bindF_def retF_def)
  ultimately show ?thesis by blast
qed

section \<open>Examples\<close>

text \<open>A federation in which every host answers a locate with a fixed text, without a session pool.\<close>

definition fed_net :: "(str \<Rightarrow> string) \<Rightarrow> (str, unit) net" where
  "fed_net T = \<lparr>net_connect = (\<lambda>u w. Some (Inr (u_host u), w)),
     net_execute = (\<lambda>s req w. Some (Inr \<lparr>res_data =
       (case req of Locate path opts \<Rightarrow> map of_nat (lit (T s)) | _ \<Rightarrow> []), res_status = None\<rparr>, w)),
     net_closed = (\<lambda>s w. False), net_close = (\<lambda>s w. w), net_clock = (\<lambda>w. (0, w)), net_sleep = (\<lambda>t w. w)\<rparr>"

definition fed_client :: "(str \<Rightarrow> string) \<Rightarrow> (str, unit) client" where
  "fed_client T = \<lparr>cl_net = fed_net T,
     cl_cfg = sample_file_config\<lparr>fc_router := sample_router_config\<lparr>rc_pool := sample_config\<lparr>pool_size := 0\<rparr>\<rparr>\<rparr>,
     cl_arriving = (\<lambda>s req w. None), cl_arrives = (\<lambda>s w. None), cl_bind = (\<lambda>s w. Some (Inr 0, w)), cl_accel = None\<rparr>"

definition fed_told :: "(str \<Rightarrow> string) \<Rightarrow> str \<Rightarrow> location_info list" where
  "fed_told T a = parse_locate (map of_nat (lit (T (li_host \<lparr>li_address = a, li_type = [], li_access = []\<rparr>))))"

lemma li_port_total: "\<exists>port. li_port loc = Inr port"
proof -
  have v: "list_all (\<lambda>c. 48 \<le> c \<and> c \<le> 57) d \<Longrightarrow> digits_value True acc d \<noteq> None" for acc d
    by (induction d arbitrary: acc) auto
  have "\<exists>n. py_int s = Inr n" if "is_digits s" for s
  proof -
    from that have d: "s \<noteq> []" "list_all (\<lambda>c. 48 \<le> c \<and> c \<le> 57) s" by (auto simp: is_digits_def)
    then obtain c cs where s: "s = c # cs" by (cases s) auto
    with d v [of cs "int (c - 48)"] show ?thesis
      by (auto simp: py_int_def strip_digits Let_def split: option.splits)
  qed
  then show ?thesis by (auto simp: li_port_def split: prod.split)
qed

lemma fed_locate:
  assumes "fs_abs u path = Inr t" "rs_router rs = Router u True"
  shows "locate_plain (fed_client T) u path rs
    = Some (Inr (parse_locate (map of_nat (lit (T (u_host u))))), rs\<lparr>rs_router := (Router u True)\<lparr>rt_session := Some (u_host u)\<rparr>\<rparr>)"
proof -
  let ?rs = "rs\<lparr>rs_router := (Router u True)\<lparr>rt_session := Some (u_host u)\<rparr>\<rparr>"
  have "use_session (fed_net T) (fc_router (cl_cfg (fed_client T))) rs = Some (Inr (u_host u), ?rs)"
    using assms(2)
    by (cases rs) (simp add: use_session_def connected_def Router_def pool_take_def fed_net_def fed_client_def acquire_def close_many_def)
  then have "exec (fed_client T) (Locate t 0) rs = Some (Inr \<lparr>res_data = map of_nat (lit (T (u_host u))), res_status = None\<rparr>, ?rs)"
    by (simp add: exec_def router_execute_def route.simps [of _ _ 0 0 "Locate t 0"] try_once_def fed_client_def)
      (simp add: fed_net_def)
  moreover have "locate_flags False False False False None = Inr 0" by code_simp
  ultimately show ?thesis using assms(1) by (simp add: fs_locate_def bindF_def liftF_def retF_def)
qed

lemma fed_consults:
  assumes "u_query u = []" "path \<noteq> []" "hd path = 47"
  shows "consults (fed_client T) u path (fed_told T) (\<lambda>rs. True)"
  unfolding consults_def
proof (intro allI impI)
  fix loc rs
  obtain port where port: "li_port loc = Inr port" using li_port_total by blast
  let ?child = "evolve (\<lambda>s. s) (u_scheme u) (li_host loc) port u"
  have low: "rc_low (fc_router (cl_cfg (fed_client T))) = (\<lambda>s. s)"
    by (simp add: fed_client_def sample_router_config_def)
  have child: "u_query ?child = []" "u_host ?child = li_host loc" using assms(1) by (simp_all add: evolve_def XRootDURL_def)
  have "\<exists>t. fs_abs ?child path = Inr t"
    by (auto simp: fs_abs_def fs_cgi_def child(1) Let_def split: prod.split)
  then obtain t where t: "fs_abs ?child path = Inr t" by blast
  have h: "li_host \<lparr>li_address = li_address loc, li_type = [], li_access = []\<rparr> = li_host loc"
    by (simp add: li_host_def li_has_port_def)
  have "close_router (cl_net (fed_client T)) (fc_router (cl_cfg (fed_client T)))
      (rs\<lparr>rs_router := (Router ?child True)\<lparr>rt_session := Some (li_host loc)\<rparr>\<rparr>) = rs\<lparr>rs_router := Router ?child True\<rparr>"
    by (cases rs) (simp add: close_router_def Let_def Router_def pool_give_def pool_release_def fed_client_def fed_net_def close_many_def)
  then have "with_child (fed_client T) ?child (locate_plain (fed_client T) ?child path) rs
      = Some (Inr (fed_told T (li_address loc)), rs)"
    using fed_locate [OF t, of "rs\<lparr>rs_router := Router ?child True\<rparr>" T]
    by (simp add: with_child_def child(2) fed_told_def h)
  then show "\<exists>rs'. ask_manager (fed_client T) u path loc rs = Some (Inr (fed_told T (li_address loc)), rs') \<and> True"
    by (simp add: ask_manager_def port low bindF_def liftF_def retF_def Let_def catchF_def)
qed

text \<open>Two managers that name each other, with a server behind each.\<close>

definition ring :: "str \<Rightarrow> string" where
  "ring h = (if h = lit ''a'' then ''Mrm:1 Srs:1'' else if h = lit ''m'' then ''Mra:1 Sru:1'' else [])"

definition fed_start :: "(str, unit) rstate" where
  "fed_start = \<lparr>rs_router = Router (root_url ''a'') True, rs_pool = [], rs_world = ()\<rparr>"

definition ring_all :: "location_info list" where
  "ring_all = fed_told ring (lit ''a'') @ fed_told ring (lit ''m'')"

lemma ring_found: "found (fed_told ring) (fed_told ring (lit ''a'')) l \<Longrightarrow> l \<in> set ring_all"
proof (induction rule: found.induct)
  case (told m l)
  have "\<forall>m \<in> set ring_all. li_is_manager m \<longrightarrow> set (fed_told ring (li_address m)) \<subseteq> set ring_all" by code_simp
  with told show ?case by blast
qed (simp add: ring_all_def)

theorem deep_locate_finds_all_servers_witness:
  "\<exists>ls rs'. fs_deep_locate (fed_client ring) (root_url ''a'') (lit ''/f'') fed_start = Some (Inr ls, rs')
     \<and> li_address ` set ls = {lit ''s:1'', lit ''u:1''}"
proof -
  let ?u = "root_url ''a''" and ?first = "fed_told ring (lit ''a'')"
  have u: "u_query ?u = []" "u_host ?u = lit ''a''" by (simp_all add: root_url_def XRootDURL_def)
  have p: "lit ''/f'' \<noteq> []" "hd (lit ''/f'') = 47" by code_simp+
  have "fs_abs ?u (lit ''/f'') = Inr (lit ''/f'')" by code_simp
  moreover have h: "li_host \<lparr>li_address = lit ''a'', li_type = [], li_access = []\<rparr> = lit ''a''" by code_simp
  ultimately have first: "locate_plain (fed_client ring) ?u (lit ''/f'') fed_start = Some (Inr ?first,
      fed_start\<lparr>rs_router := (Router ?u True)\<lparr>rt_session := Some (lit ''a'')\<rparr>\<rparr>)"
    using fed_locate [of ?u "lit ''/f''" "lit ''/f''" fed_start ring] by (simp add: fed_start_def fed_told_def u(2))
  have all: "{l. found (fed_told ring) ?first l} = set ring_all"
  proof (intro equalityI subsetI)
    fix l
    assume l: "l \<in> set ring_all"
    have "\<exists>m \<in> set ?first. li_is_manager m \<and> fed_told ring (li_address m) = fed_told ring (lit ''m'')" by code_simp
    then show "l \<in> {l. found (fed_told ring) ?first l}"
      using l by (auto simp: ring_all_def intro: found.first found.told)
  qed (use ring_found in blast)
  then have fin: "finite {l. found (fed_told ring) ?first l}" by simp
  have "\<forall>l \<in> set ring_all. \<forall>l' \<in> set ring_all. li_address l = li_address l' \<longrightarrow> li_is_manager l = li_is_manager l'" by code_simp
  then have role: "one_role (fed_told ring) ?first" using all by (auto simp: one_role_def)
  have servers: "li_address ` set (filter (\<lambda>l. \<not> li_is_manager l) ring_all) = {lit ''s:1'', lit ''u:1''}" by code_simp
  have "li_address ` {l. found (fed_told ring) ?first l \<and> \<not> li_is_manager l} = {lit ''s:1'', lit ''u:1''}"
    unfolding servers [symmetric] set_filter using all by auto
  with deep_locate_finds_all_servers [OF fed_consults [OF u(1) p] first TrueI fin] role show ?thesis by auto
qed

text \<open>
  An address that is first met as a server and then named as a manager is never asked: of the two
  servers found below, \<^verbatim>\<open>t\<close>, which only the supervisor \<^verbatim>\<open>p\<close> knows, is missing.
\<close>

definition supervised :: "str \<Rightarrow> string" where
  "supervised h = (if h = lit ''a'' then ''Mrm:1 Srp:1'' else if h = lit ''m'' then ''Mrp:1'' else if h = lit ''p'' then ''Srt:1'' else [])"

lemma supervisor_met_as_server_never_asked:
  "map_option (\<lambda>(r, _). case r of Inl _ \<Rightarrow> [] | Inr ls \<Rightarrow> map li_address ls)
     (fs_deep_locate (fed_client supervised) (root_url ''a'') (lit ''/f'') fed_start) = Some [lit ''p:1'']"
  by code_simp

lemma supervisor_servers_found:
  "\<exists>l. found (fed_told supervised) (fed_told supervised (lit ''a'')) l \<and> li_address l = lit ''t:1'' \<and> \<not> li_is_manager l"
proof -
  let ?A = "fed_told supervised"
  have a: "\<exists>m \<in> set (?A (lit ''a'')). li_is_manager m \<and> li_address m = lit ''m:1''"
    and m: "\<exists>p \<in> set (?A (lit ''m:1'')). li_is_manager p \<and> li_address p = lit ''p:1''"
    and p: "\<exists>l \<in> set (?A (lit ''p:1'')). li_address l = lit ''t:1'' \<and> \<not> li_is_manager l"
    by code_simp+
  then show ?thesis by (metis found.first found.told)
qed

end
