(* ===== verification/Copy_Engine.thy ===== *)
theory Copy_Engine
  imports File_System Checksums
begin

text \<open>
  Copying, \<^verbatim>\<open>src/src/xrd/copy/engine.py\<close>. What the engine calls of an endpoint, whatever its scheme, is in \<open>ends\<close>:
  opening a URL as an unbuffered or local file object, the methods of that object, and the status,
  removal, checksum and listing of a URL. An \<^verbatim>\<open>ExitStack\<close> is the list of what was entered, latest first.

  The threads of \<^verbatim>\<open>_in_parallel\<close> and of \<^verbatim>\<open>_Ahead\<close> are state machines, one step per call that touches the
  world, run in the order a schedule (a list of numbers, as long as one likes) chooses among
  the threads that can move; with the schedule used up, the first of them moves. Every
  interleaving of the calls is some schedule.

  Left out: how long a copy took, copying several files of a tree at once, and reading the tree lazily
  while it is pruned. Buffering inside a local file object is not visible: a write is done when it
  returns.
\<close>

section \<open>Endpoints\<close>

type_synonym 'w progress = "(int \<Rightarrow> int option \<Rightarrow> ('w, unit) comp) option"

record ('h, 'w) ends =
  en_open :: "url \<Rightarrow> str \<Rightarrow> ('w, 'h) comp"
  en_size :: "'h \<Rightarrow> url \<Rightarrow> ('w, int) comp"
  en_has_readinto :: "'h \<Rightarrow> bool"
  en_readinto :: "'h \<Rightarrow> int \<Rightarrow> ('w, bytes) comp"
  en_read :: "'h \<Rightarrow> int \<Rightarrow> ('w, bytes) comp"
  en_write :: "'h \<Rightarrow> bytes \<Rightarrow> ('w, int) comp"
  en_seek :: "'h \<Rightarrow> int \<Rightarrow> ('w, int) comp"
  en_close :: "'h \<Rightarrow> ('w, unit) comp"
  en_repr :: "'h \<Rightarrow> str"
  en_stat :: "url \<Rightarrow> ('w, int \<times> int) comp"
  en_remove :: "url \<Rightarrow> ('w, unit) comp"
  en_checksum :: "url \<Rightarrow> str \<Rightarrow> ('w, checksum_info) comp"
  en_walk :: "url \<Rightarrow> ('w, (str \<times> str list) list) comp"
  en_relpath :: "str \<Rightarrow> str \<Rightarrow> str"
  en_makedirs :: "str \<Rightarrow> ('w, unit) comp"

record copy_config =
  cc_chunk_size :: int
  cc_parallel_chunks :: int
  cc_in_flight :: int
  cc_verify_checksums :: bool
  cc_preferred_checksum :: str
  cc_low :: "str \<Rightarrow> str"
  cc_accel :: accel
  cc_hash :: hash

datatype 'h copy_end = Stream 'h | Target url

definition target_url :: "'h copy_end \<Rightarrow> url option" where
  "target_url e = (case e of Stream h \<Rightarrow> None | Target u \<Rightarrow> Some u)"

record copy_result =
  cr_source :: str
  cr_target :: str
  cr_size :: int
  cr_checksum :: "checksum_info option"
  cr_resumed_at :: int

definition cr_resumed :: "copy_result \<Rightarrow> bool" where "cr_resumed r \<longleftrightarrow> cr_resumed_at r > 0"
definition cr_verified :: "copy_result \<Rightarrow> bool" where "cr_verified r \<longleftrightarrow> cr_checksum r \<noteq> None"

subsection \<open>The exit stack\<close>

fun unwind :: "('h \<Rightarrow> ('w, unit) comp) \<Rightarrow> 'h list \<Rightarrow> failure + 'a \<Rightarrow> 'w \<Rightarrow> ((failure + 'a) \<times> 'w) option" where
  "unwind shut [] r w = Some (r, w)"
| "unwind shut (h # hs) r w =
     (case shut h w of
        None \<Rightarrow> None
      | Some (Inl x, w1) \<Rightarrow> unwind shut hs (Inl x) w1
      | Some (Inr _, w1) \<Rightarrow> unwind shut hs r w1)"

definition with_stack :: "('h \<Rightarrow> ('w, unit) comp) \<Rightarrow> ('w \<times> 'h list, 'a) comp \<Rightarrow> ('w, 'a) comp" where
  "with_stack shut body w =
     (case body (w, []) of None \<Rightarrow> None | Some (r, w1, hs) \<Rightarrow> unwind shut hs r w1)"

definition on_world :: "('w, 'a) comp \<Rightarrow> ('w \<times> 'h list, 'a) comp" where
  "on_world m = (\<lambda>(w, hs). case m w of None \<Rightarrow> None | Some (r, w1) \<Rightarrow> Some (r, w1, hs))"

definition enter_context :: "'h \<Rightarrow> ('w \<times> 'h list, 'h) comp" where
  "enter_context h = (\<lambda>(w, hs). Some (Inr h, w, h # hs))"

subsection \<open>Opening\<close>

definition unsupported :: exn where
  "unsupported = ServerError UnsupportedError 3013 (lit ''cannot use this scheme'') None"

definition reader_open :: "('h, 'w) ends \<Rightarrow> url \<Rightarrow> ('w, 'h) comp" where
  "reader_open E url =
     (if is_local url \<or> is_root url \<or> is_http url \<or> is_s3 url then en_open E url (lit ''rb'')
      else raiseF (Raised unsupported))"

definition reader_size :: "('h, 'w) ends \<Rightarrow> url \<Rightarrow> 'h \<Rightarrow> ('w, int option) comp" where
  "reader_size E url h =
     (if is_local url \<or> is_root url then bindF (en_size E h url) (\<lambda>n. retF (Some n)) else retF None)"

definition copy_reader :: "('h, 'w) ends \<Rightarrow> url \<Rightarrow> ('w \<times> 'h list, 'h \<times> int option) comp" where
  "copy_reader E url = bindF (on_world (reader_open E url)) (\<lambda>h. bindF (enter_context h) (\<lambda>_.
     bindF (on_world (reader_size E url h)) (\<lambda>n. retF (h, n))))"

definition writer :: "('h, 'w) ends \<Rightarrow> url \<Rightarrow> bool \<Rightarrow> ('w \<times> 'h list, 'h) comp" where
  "writer E url overwrite =
     (if is_local url \<or> is_root url \<or> is_http url \<or> is_s3 url
      then bindF (on_world (en_open E url (if overwrite then lit ''wb'' else lit ''xb''))) enter_context
      else raiseF (Raised unsupported))"

definition resumer_open :: "('h, 'w) ends \<Rightarrow> url \<Rightarrow> ('w, 'h) comp" where
  "resumer_open E url =
     (if is_local url \<or> is_root url then en_open E url (lit ''r+b'') else raiseF (Raised unsupported))"

definition resumer :: "('h, 'w) ends \<Rightarrow> url \<Rightarrow> int \<Rightarrow> ('w \<times> 'h list, 'h) comp" where
  "resumer E url offset = bindF (on_world (resumer_open E url)) (\<lambda>h. bindF (enter_context h) (\<lambda>_.
     bindF (on_world (en_seek E h offset)) (\<lambda>_. retF h)))"

section \<open>Plans\<close>

definition probe :: "('h, 'w) ends \<Rightarrow> url \<Rightarrow> ('w, (int \<times> int) option) comp" where
  "probe E url = catchF (bindF (en_stat E url) (\<lambda>s. retF (Some s)))
     (\<lambda>x. if is_os_error x then retF None else raiseF x)"

record resume_plan =
  rp_source :: url
  rp_target :: url
  rp_offset :: int

record spread_plan =
  sp_source :: url
  sp_target :: url
  sp_workers :: int
  sp_size :: int

definition continue_from ::
  "('h, 'w) ends \<Rightarrow> url option \<Rightarrow> url option \<Rightarrow> bool \<Rightarrow> ('w, resume_plan option) comp" where
  "continue_from E source target overwrite =
     (if \<not> overwrite then raiseF (Raised (ValueError ''resume continues a partial target''))
      else case (source, target) of
        (Some src, Some dst) \<Rightarrow>
          bindF (probe E dst) (\<lambda>there.
            case there of
              None \<Rightarrow> retF None
            | Some (n, _) \<Rightarrow>
                if n = 0 then retF None
                else bindF (probe E src) (\<lambda>here.
                  if (case here of None \<Rightarrow> False | Some (m, _) \<Rightarrow> n > m)
                  then raiseF (Raised (ValueError ''not a partial copy''))
                  else retF (Some \<lparr>rp_source = src, rp_target = dst, rp_offset = n\<rparr>)))
      | _ \<Rightarrow> raiseF (Raised (ValueError ''resume needs a URL on both sides'')))"

definition divisible :: "url \<Rightarrow> url \<Rightarrow> bool" where
  "divisible source target \<longleftrightarrow> (is_local target \<or> is_root target) \<and> (is_local source \<or> is_root source \<or> is_http source)"

definition spread ::
  "('h, 'w) ends \<Rightarrow> copy_config \<Rightarrow> url option \<Rightarrow> url option \<Rightarrow> int \<Rightarrow> ('w, spread_plan option) comp" where
  "spread E cfg source target chunk =
     (case (source, target) of
        (Some src, Some dst) \<Rightarrow>
          if \<not> divisible src dst then retF None
          else bindF (probe E src) (\<lambda>known.
            case known of
              None \<Rightarrow> retF None
            | Some (n, _) \<Rightarrow>
                if chunk = 0 then raiseF (Raised ZeroDivisionError)
                else (let workers = min (cc_parallel_chunks cfg) (n div chunk)
                      in retF (if workers > 1
                               then Some \<lparr>sp_source = src, sp_target = dst, sp_workers = workers, sp_size = n\<rparr> else None)))
      | _ \<Rightarrow> retF None)"

function spans_from :: "int \<Rightarrow> int \<Rightarrow> int \<Rightarrow> (int \<times> int) list" where
  "spans_from offset len step =
     (if step \<le> 0 \<or> len \<le> offset then [] else (offset, min step (len - offset)) # spans_from (offset + step) len step)"
  by pat_completeness auto
termination
  by (relation "measure (\<lambda>(offset, len, step). nat (len - offset))") auto

declare spans_from.simps [simp del]

text \<open>\<^verbatim>\<open>_spans\<close>; a plan has more than one worker and a source of at least one chunk for each.\<close>

definition spans :: "int \<Rightarrow> int \<Rightarrow> (int \<times> int) list" where
  "spans len workers = spans_from 0 len (- ((- len) div workers))"

section \<open>Spans on threads\<close>

text \<open>
  One call of \<^verbatim>\<open>move\<close>, between two of its calls. \<open>Waiting\<close> is a future that no thread has picked up;
  \<open>Leaving\<close> is the exit of the \<^verbatim>\<open>with\<close>.
\<close>

datatype 'h phase =
    Waiting | Sizing 'h | SeekSource 'h | OpenTarget 'h | SeekTarget 'h 'h
  | Reading 'h 'h int | Writing 'h 'h int bytes | Reporting 'h 'h int int
  | Leaving "'h list" "failure + int" | Finished "failure + int" | Cancelled

text \<open>A call, and the phase after it returned or raised.\<close>

definition calling ::
  "('w, 'a) comp \<Rightarrow> ('a \<Rightarrow> 'h phase) \<Rightarrow> 'h list \<Rightarrow> 'w \<times> int \<Rightarrow> ('h phase \<times> 'w \<times> int) option" where
  "calling m k hs = (\<lambda>(w, reported). case m w of
     None \<Rightarrow> None
   | Some (Inl x, w1) \<Rightarrow> Some (Leaving hs (Inl x), w1, reported)
   | Some (Inr a, w1) \<Rightarrow> Some (k a, w1, reported))"

fun move_step ::
  "('h, 'w) ends \<Rightarrow> spread_plan \<Rightarrow> int \<Rightarrow> 'w progress \<Rightarrow> int \<times> int \<Rightarrow> 'h phase \<Rightarrow> 'w \<times> int \<Rightarrow> ('h phase \<times> 'w \<times> int) option" where
  "move_step E plan chunk progress sp Waiting = calling (reader_open E (sp_source plan)) Sizing []"
| "move_step E plan chunk progress sp (Sizing r) =
     calling (reader_size E (sp_source plan) r) (\<lambda>_. SeekSource r) [r]"
| "move_step E plan chunk progress sp (SeekSource r) = calling (en_seek E r (fst sp)) (\<lambda>_. OpenTarget r) [r]"
| "move_step E plan chunk progress sp (OpenTarget r) =
     calling (resumer_open E (sp_target plan)) (\<lambda>t. SeekTarget r t) [r]"
| "move_step E plan chunk progress sp (SeekTarget r t) =
     calling (en_seek E t (fst sp)) (\<lambda>_. Reading r t 0) [t, r]"
| "move_step E plan chunk progress sp (Reading r t moved) =
     (if \<not> moved < snd sp then (\<lambda>s. Some (Leaving [t, r] (Inr moved), s))
      else calling (en_read E r (min chunk (snd sp - moved)))
        (\<lambda>data. if data = [] then Leaving [t, r] (Inr moved) else Writing r t moved data) [t, r])"
| "move_step E plan chunk progress sp (Writing r t moved data) =
     calling (en_write E t data)
       (\<lambda>_. if progress = None then Reading r t (moved + int (length data))
            else Reporting r t (moved + int (length data)) (int (length data))) [t, r]"
| "move_step E plan chunk progress sp (Reporting r t moved n) =
     (\<lambda>(w, reported). calling (case progress of None \<Rightarrow> retF () | Some f \<Rightarrow> f (reported + n) (Some (sp_size plan)))
        (\<lambda>_. Reading r t moved) [t, r] (w, reported + n))"
| "move_step E plan chunk progress sp (Leaving [] res) = (\<lambda>s. Some (Finished res, s))"
| "move_step E plan chunk progress sp (Leaving (h # hs) res) = calling (en_close E h) (\<lambda>_. Leaving hs res) hs"
| "move_step E plan chunk progress sp (Finished res) = (\<lambda>s. Some (Finished res, s))"
| "move_step E plan chunk progress sp Cancelled = (\<lambda>s. Some (Cancelled, s))"

text \<open>The thread that called \<^verbatim>\<open>sum(pool.map(...))\<close>: the futures are read in order, and a failure cancels the waiting ones.\<close>

datatype main = Await nat int | Failed failure | Returned int

record ('h, 'w) team =
  tm_world :: 'w
  tm_reported :: int
  tm_workers :: "'h phase list"
  tm_main :: main

fun at_rest :: "'h phase \<Rightarrow> bool" where
  "at_rest (Finished res) = True"
| "at_rest Cancelled = True"
| "at_rest _ = False"

fun main_ready :: "'h phase list \<Rightarrow> main \<Rightarrow> bool" where
  "main_ready ps (Await i tot) = (i < length ps \<longrightarrow> at_rest (ps ! i))"
| "main_ready ps _ = False"

fun main_step :: "'h phase list \<Rightarrow> main \<Rightarrow> main \<times> 'h phase list" where
  "main_step ps (Await i tot) =
     (if i < length ps
      then (case ps ! i of
              Finished (Inr n) \<Rightarrow> (Await (Suc i) (tot + n), ps)
            | Finished (Inl x) \<Rightarrow> (Failed x, take (Suc i) ps @ map (\<lambda>p. case p of Waiting \<Rightarrow> Cancelled | _ \<Rightarrow> p) (drop (Suc i) ps))
            | _ \<Rightarrow> (Await i tot, ps))
      else (Returned tot, ps))"
| "main_step ps m = (m, ps)"

text \<open>Who can move: \<open>None\<close> is the calling thread.\<close>

definition enabled :: "('h, 'w) team \<Rightarrow> nat option list" where
  "enabled st = (if main_ready (tm_workers st) (tm_main st) then [None] else [])
     @ map Some (filter (\<lambda>i. \<not> at_rest (tm_workers st ! i)) [0..<length (tm_workers st)])"

definition actor_step ::
  "('h, 'w) ends \<Rightarrow> spread_plan \<Rightarrow> int \<Rightarrow> 'w progress \<Rightarrow> (int \<times> int) list \<Rightarrow> nat option \<Rightarrow> ('h, 'w) team \<Rightarrow> ('h, 'w) team option" where
  "actor_step E plan chunk progress sps who st =
     (case who of
        None \<Rightarrow> (case main_step (tm_workers st) (tm_main st) of (m, ps) \<Rightarrow> Some (st\<lparr>tm_workers := ps, tm_main := m\<rparr>))
      | Some i \<Rightarrow>
          (case move_step E plan chunk progress (sps ! i) (tm_workers st ! i) (tm_world st, tm_reported st) of
             None \<Rightarrow> None
           | Some (p, w, reported) \<Rightarrow>
               Some (st\<lparr>tm_world := w, tm_reported := reported, tm_workers := (tm_workers st)[i := p]\<rparr>)))"

definition pick :: "nat list \<Rightarrow> 'a list \<Rightarrow> 'a" where
  "pick sched xs = xs ! ((case sched of [] \<Rightarrow> 0 | c # _ \<Rightarrow> c) mod length xs)"

partial_function (option) team_run ::
  "('h, 'w) ends \<Rightarrow> spread_plan \<Rightarrow> int \<Rightarrow> 'w progress \<Rightarrow> (int \<times> int) list \<Rightarrow> nat list \<Rightarrow> ('h, 'w) team \<Rightarrow> ('h, 'w) team option" where
  "team_run E plan chunk progress sps sched st =
     (if enabled st = [] then Some st
      else case actor_step E plan chunk progress sps (pick sched (enabled st)) st of
             None \<Rightarrow> None
           | Some st1 \<Rightarrow> team_run E plan chunk progress sps (tl sched) st1)"

declare team_run.simps [code]

definition in_parallel ::
  "('h, 'w) ends \<Rightarrow> nat list \<Rightarrow> spread_plan \<Rightarrow> int \<Rightarrow> 'w progress \<Rightarrow> bool \<Rightarrow> ('w, int) comp" where
  "in_parallel E sched plan chunk progress overwrite =
     bindF (with_stack (en_close E) (writer E (sp_target plan) overwrite)) (\<lambda>_ w.
       let sps = spans (sp_size plan) (sp_workers plan) in
       case team_run E plan chunk progress sps sched
              \<lparr>tm_world = w, tm_reported = 0, tm_workers = replicate (length sps) Waiting, tm_main = Await 0 0\<rparr> of
         None \<Rightarrow> None
       | Some st \<Rightarrow> Some (case tm_main st of Failed x \<Rightarrow> Inl x | Returned n \<Rightarrow> Inr n | Await _ n \<Rightarrow> Inr n, tm_world st))"

section \<open>The pump\<close>

definition fill :: "('h, 'w) ends \<Rightarrow> 'h \<Rightarrow> int \<Rightarrow> ('w, bytes) comp" where
  "fill E h chunk = (if en_has_readinto E h then en_readinto E h chunk else en_read E h chunk)"

definition report :: "'w progress \<Rightarrow> int \<Rightarrow> int option \<Rightarrow> ('w, unit) comp" where
  "report progress n tot = (case progress of None \<Rightarrow> retF () | Some f \<Rightarrow> f n tot)"

definition digested :: "bytes \<Rightarrow> digest option \<Rightarrow> digest option" where
  "digested piece dg = map_option (dg_update piece) dg"

partial_function (option) pump_loop ::
  "('h, 'w) ends \<Rightarrow> 'h \<Rightarrow> 'h \<Rightarrow> int option \<Rightarrow> int \<Rightarrow> 'w progress \<Rightarrow> digest option \<Rightarrow> int
     \<Rightarrow> 'w \<Rightarrow> ((failure + int \<times> digest option) \<times> 'w) option" where
  "pump_loop E r t tot chunk progress dg sent w = bindF (fill E r chunk) (\<lambda>piece w1.
     if piece = [] then Some (Inr (sent, dg), w1)
     else bindF (bindF (en_write E t piece) (\<lambda>_. report progress (sent + int (length piece)) tot)) (\<lambda>_ w2.
            pump_loop E r t tot chunk progress (digested piece dg) (sent + int (length piece)) w2) w1) w"

declare pump_loop.simps [code]

text \<open>\<^verbatim>\<open>_Ahead\<close>: the reading thread and the pump share a queue of at most \<open>depth\<close> items.\<close>

datatype item = Piece bytes | Broken failure | Last

datatype rphase = RFill | ROffer item | RLast | RDone

datatype cphase = CGet | CWrite bytes | CReport | CExit "failure + int" | CDrain "failure + int" | CDone "failure + int"

record 'w ahead =
  ah_world :: 'w
  ah_queue :: "item list"
  ah_stop :: bool
  ah_reader :: rphase
  ah_pump :: cphase
  ah_sent :: int
  ah_digest :: "digest option"

definition has_room :: "int \<Rightarrow> 'w ahead \<Rightarrow> bool" where
  "has_room depth st \<longleftrightarrow> ah_stop st \<or> int (length (ah_queue st)) < depth"

definition reader_enabled :: "int \<Rightarrow> 'w ahead \<Rightarrow> bool" where
  "reader_enabled depth st = (case ah_reader st of RFill \<Rightarrow> True | ROffer _ \<Rightarrow> has_room depth st | RLast \<Rightarrow> has_room depth st | RDone \<Rightarrow> False)"

definition reader_step :: "('h, 'w) ends \<Rightarrow> 'h \<Rightarrow> int \<Rightarrow> 'w ahead \<Rightarrow> 'w ahead option" where
  "reader_step E r chunk st =
     (case ah_reader st of
        RFill \<Rightarrow>
          (case fill E r chunk (ah_world st) of
             None \<Rightarrow> None
           | Some (Inl x, w) \<Rightarrow> Some (st\<lparr>ah_world := w, ah_reader := ROffer (Broken x)\<rparr>)
           | Some (Inr d, w) \<Rightarrow> Some (st\<lparr>ah_world := w, ah_reader := (if d = [] then RLast else ROffer (Piece d))\<rparr>))
      | ROffer i \<Rightarrow>
          Some (if ah_stop st then st\<lparr>ah_reader := RLast\<rparr>
                else st\<lparr>ah_queue := ah_queue st @ [i], ah_reader := (case i of Piece _ \<Rightarrow> RFill | _ \<Rightarrow> RLast)\<rparr>)
      | RLast \<Rightarrow>
          Some (if ah_stop st then st\<lparr>ah_reader := RDone\<rparr> else st\<lparr>ah_queue := ah_queue st @ [Last], ah_reader := RDone\<rparr>)
      | RDone \<Rightarrow> Some st)"

definition pump_enabled :: "'w ahead \<Rightarrow> bool" where
  "pump_enabled st =
     (case ah_pump st of
        CGet \<Rightarrow> ah_queue st \<noteq> []
      | CDrain _ \<Rightarrow> ah_queue st \<noteq> [] \<or> ah_reader st = RDone
      | CDone _ \<Rightarrow> False
      | _ \<Rightarrow> True)"

definition pump_step :: "('h, 'w) ends \<Rightarrow> 'h \<Rightarrow> int option \<Rightarrow> 'w progress \<Rightarrow> 'w ahead \<Rightarrow> 'w ahead option" where
  "pump_step E t tot progress st =
     (case ah_pump st of
        CGet \<Rightarrow>
          Some (st\<lparr>ah_queue := tl (ah_queue st),
                  ah_pump := (case hd (ah_queue st) of Piece d \<Rightarrow> CWrite d | Broken x \<Rightarrow> CExit (Inl x) | Last \<Rightarrow> CExit (Inr (ah_sent st)))\<rparr>)
      | CWrite d \<Rightarrow>
          (case en_write E t d (ah_world st) of
             None \<Rightarrow> None
           | Some (Inl x, w) \<Rightarrow> Some (st\<lparr>ah_world := w, ah_pump := CExit (Inl x)\<rparr>)
           | Some (Inr _, w) \<Rightarrow>
               Some (st\<lparr>ah_world := w, ah_digest := digested d (ah_digest st), ah_sent := ah_sent st + int (length d),
                       ah_pump := CReport\<rparr>))
      | CReport \<Rightarrow>
          (case report progress (ah_sent st) tot (ah_world st) of
             None \<Rightarrow> None
           | Some (Inl x, w) \<Rightarrow> Some (st\<lparr>ah_world := w, ah_pump := CExit (Inl x)\<rparr>)
           | Some (Inr _, w) \<Rightarrow> Some (st\<lparr>ah_world := w, ah_pump := CGet\<rparr>))
      | CExit res \<Rightarrow> Some (st\<lparr>ah_stop := True, ah_pump := CDrain res\<rparr>)
      | CDrain res \<Rightarrow>
          Some (if ah_reader st = RDone then st\<lparr>ah_pump := CDone res\<rparr> else st\<lparr>ah_queue := tl (ah_queue st)\<rparr>)
      | CDone res \<Rightarrow> Some st)"

definition movers :: "int \<Rightarrow> 'w ahead \<Rightarrow> bool list" where
  "movers depth st = (if reader_enabled depth st then [True] else []) @ (if pump_enabled st then [False] else [])"

partial_function (option) ahead_run ::
  "('h, 'w) ends \<Rightarrow> 'h \<Rightarrow> 'h \<Rightarrow> int option \<Rightarrow> int \<Rightarrow> 'w progress \<Rightarrow> int \<Rightarrow> nat list \<Rightarrow> 'w ahead \<Rightarrow> 'w ahead option" where
  "ahead_run E r t tot chunk progress depth sched st =
     (if movers depth st = [] then Some st
      else case (if pick sched (movers depth st) then reader_step E r chunk st else pump_step E t tot progress st) of
             None \<Rightarrow> None
           | Some st1 \<Rightarrow> ahead_run E r t tot chunk progress depth (tl sched) st1)"

declare ahead_run.simps [code]

definition pump_ahead ::
  "('h, 'w) ends \<Rightarrow> nat list \<Rightarrow> 'h \<Rightarrow> 'h \<Rightarrow> int option \<Rightarrow> int \<Rightarrow> 'w progress \<Rightarrow> digest option \<Rightarrow> int
     \<Rightarrow> ('w, int \<times> digest option) comp" where
  "pump_ahead E sched r t tot chunk progress dg depth w =
     (case ahead_run E r t tot chunk progress depth sched
             \<lparr>ah_world = w, ah_queue = [], ah_stop = False, ah_reader = RFill, ah_pump = CGet, ah_sent = 0, ah_digest = dg\<rparr> of
        None \<Rightarrow> None
      | Some st \<Rightarrow> Some (case ah_pump st of
            CDone (Inl x) \<Rightarrow> Inl x | CDone (Inr n) \<Rightarrow> Inr (n, ah_digest st) | _ \<Rightarrow> Inr (ah_sent st, ah_digest st), ah_world st))"

definition copy_pump ::
  "('h, 'w) ends \<Rightarrow> nat list \<Rightarrow> 'h \<Rightarrow> 'h \<Rightarrow> int option \<Rightarrow> int \<Rightarrow> 'w progress \<Rightarrow> digest option \<Rightarrow> int
     \<Rightarrow> ('w, int \<times> digest option) comp" where
  "copy_pump E sched r t tot chunk progress dg depth =
     (if depth > 1 then pump_ahead E sched r t tot chunk progress dg depth
      else pump_loop E r t tot chunk progress dg 0)"

section \<open>Verification\<close>

definition server_checksum :: "('h, 'w) ends \<Rightarrow> url \<Rightarrow> str \<Rightarrow> ('w, checksum_info) comp" where
  "server_checksum E url algorithm = en_checksum E url algorithm"

definition compare ::
  "('h, 'w) ends \<Rightarrow> url \<Rightarrow> str \<Rightarrow> str \<Rightarrow> bool \<Rightarrow> ('w, checksum_info option) comp" where
  "compare E url algorithm ours strict =
     bindF (catchF (bindF (server_checksum E url algorithm) (\<lambda>c. retF (Some c)))
              (\<lambda>x. if is_os_error x \<and> \<not> strict then retF None else raiseF x)) (\<lambda>got.
       case got of
         None \<Rightarrow> retF None
       | Some theirs \<Rightarrow>
           if lower (ck_value theirs) \<noteq> lower ours
           then raiseF (Raised (ChecksumMismatchError algorithm (ck_value theirs) ours))
           else retF (Some theirs))"

text \<open>\<^verbatim>\<open>while chunk := handle.read(1 << 20)\<close>.\<close>

partial_function (option) digest_loop ::
  "('h, 'w) ends \<Rightarrow> 'h \<Rightarrow> digest \<Rightarrow> 'w \<Rightarrow> ((failure + digest) \<times> 'w) option" where
  "digest_loop E h dg w = bindF (en_read E h 1048576) (\<lambda>piece w1.
     if piece = [] then Some (Inr dg, w1) else digest_loop E h (dg_update piece dg) w1) w"

declare digest_loop.simps [code]

definition digest_of :: "('h, 'w) ends \<Rightarrow> copy_config \<Rightarrow> url \<Rightarrow> str \<Rightarrow> ('w, str) comp" where
  "digest_of E cfg url algorithm =
     (if \<not> is_local url then bindF (server_checksum E url algorithm) (\<lambda>c. retF (lower (ck_value c)))
      else bindF (liftF (new_digest (cc_accel cfg) algorithm)) (\<lambda>dg.
        with_stack (en_close E)
          (bindF (on_world (en_open E url (lit ''rb''))) (\<lambda>h. bindF (enter_context h) (\<lambda>_.
             bindF (on_world (digest_loop E h dg)) (\<lambda>dg1. retF (lower (dg_hexdigest (cc_hash cfg) dg1))))))))"

definition compare_ends ::
  "('h, 'w) ends \<Rightarrow> copy_config \<Rightarrow> url \<Rightarrow> url \<Rightarrow> str \<Rightarrow> bool \<Rightarrow> ('w, checksum_info option) comp" where
  "compare_ends E cfg source target algorithm strict =
     bindF (catchF (bindF (digest_of E cfg source algorithm) (\<lambda>ours.
                    bindF (digest_of E cfg target algorithm) (\<lambda>theirs. retF (Some (ours, theirs)))))
              (\<lambda>x. if is_os_error x \<and> \<not> strict then retF None else raiseF x)) (\<lambda>got.
       case got of
         None \<Rightarrow> retF None
       | Some (ours, theirs) \<Rightarrow>
           if ours \<noteq> theirs then raiseF (Raised (ChecksumMismatchError algorithm theirs ours))
           else retF (Some \<lparr>ck_algorithm = algorithm, ck_value = theirs\<rparr>))"

section \<open>One file\<close>

record 'w copy_options =
  co_chunk_size :: "int option"
  co_verify :: "bool option"
  co_algorithm :: str
  co_overwrite :: bool
  co_progress :: "'w progress"
  co_dry_run :: bool
  co_remove_source :: bool
  co_resume :: bool

definition the_chunk :: "copy_config \<Rightarrow> 'w copy_options \<Rightarrow> int" where
  "the_chunk cfg opt = (case co_chunk_size opt of None \<Rightarrow> cc_chunk_size cfg | Some n \<Rightarrow> if n \<noteq> 0 then n else cc_chunk_size cfg)"

definition the_algorithm :: "copy_config \<Rightarrow> 'w copy_options \<Rightarrow> str" where
  "the_algorithm cfg opt = (if co_algorithm opt \<noteq> [] then co_algorithm opt else cc_preferred_checksum cfg)"

definition shifted :: "'w progress \<Rightarrow> int \<Rightarrow> 'w progress" where
  "shifted progress offset = map_option (\<lambda>f n tot. f (n + offset) tot) progress"

definition endpoint_name :: "('h, 'w) ends \<Rightarrow> 'h copy_end \<Rightarrow> ('w, str) comp" where
  "endpoint_name E e = (case e of Target u \<Rightarrow> liftF (url_str u) | Stream h \<Rightarrow> retF (en_repr E h))"

text \<open>The first end, target before source, that a server can be asked about.\<close>

definition checkable :: "'h copy_end \<Rightarrow> 'h copy_end \<Rightarrow> url option" where
  "checkable source target =
     (case target_url target of
        Some u \<Rightarrow> if \<not> is_local u then Some u
                  else (case target_url source of Some v \<Rightarrow> if \<not> is_local v then Some v else None | None \<Rightarrow> None)
      | None \<Rightarrow> (case target_url source of Some v \<Rightarrow> if \<not> is_local v then Some v else None | None \<Rightarrow> None))"

definition single_stream ::
  "('h, 'w) ends \<Rightarrow> copy_config \<Rightarrow> nat list \<Rightarrow> 'h copy_end \<Rightarrow> 'h copy_end \<Rightarrow> 'w copy_options \<Rightarrow> resume_plan option
     \<Rightarrow> digest option \<Rightarrow> ('w, int \<times> digest option) comp" where
  "single_stream E cfg sched source target opt resuming dg = with_stack (en_close E) (
     bindF (case source of Stream h \<Rightarrow> retF (h, None) | Target u \<Rightarrow> copy_reader E u) (\<lambda>(r, tot).
     bindF (case resuming of
              Some plan \<Rightarrow> bindF (on_world (en_seek E r (rp_offset plan))) (\<lambda>_. resumer E (rp_target plan) (rp_offset plan))
            | None \<Rightarrow> (case target of Stream h \<Rightarrow> retF h | Target u \<Rightarrow> writer E u (co_overwrite opt))) (\<lambda>t.
     on_world (copy_pump E sched r t tot (the_chunk cfg opt)
       (case resuming of None \<Rightarrow> co_progress opt | Some plan \<Rightarrow> shifted (co_progress opt) (rp_offset plan))
       dg (cc_in_flight cfg)))))"

definition transfer ::
  "('h, 'w) ends \<Rightarrow> copy_config \<Rightarrow> nat list \<Rightarrow> 'h copy_end \<Rightarrow> 'h copy_end \<Rightarrow> 'w copy_options \<Rightarrow> resume_plan option
     \<Rightarrow> spread_plan option \<Rightarrow> digest option \<Rightarrow> ('w, int \<times> digest option) comp" where
  "transfer E cfg sched source target opt resuming spr dg =
     (case spr of
        Some plan \<Rightarrow> bindF (in_parallel E sched plan (the_chunk cfg opt) (co_progress opt) (co_overwrite opt)) (\<lambda>n. retF (n, dg))
      | None \<Rightarrow> single_stream E cfg sched source target opt resuming dg)"

definition verified ::
  "('h, 'w) ends \<Rightarrow> copy_config \<Rightarrow> 'h copy_end \<Rightarrow> 'h copy_end \<Rightarrow> 'w copy_options \<Rightarrow> resume_plan option
     \<Rightarrow> spread_plan option \<Rightarrow> digest option \<Rightarrow> ('w, checksum_info option) comp" where
  "verified E cfg source target opt resuming spr dg =
     (let algo = the_algorithm cfg opt;
          wanted = (case co_verify opt of None \<Rightarrow> cc_verify_checksums cfg | Some b \<Rightarrow> b);
          strict = (co_verify opt = Some True);
          both = (case resuming of Some p \<Rightarrow> Some (rp_source p, rp_target p)
                  | None \<Rightarrow> map_option (\<lambda>p. (sp_source p, sp_target p)) spr)
      in case both of
           Some (src, dst) \<Rightarrow> if wanted then compare_ends E cfg src dst algo strict else retF None
         | None \<Rightarrow>
             (case (dg, checkable source target) of
                (Some d, Some u) \<Rightarrow> compare E u algo (dg_hexdigest (cc_hash cfg) d) strict
              | _ \<Rightarrow> retF None))"

definition copy ::
  "('h, 'w) ends \<Rightarrow> copy_config \<Rightarrow> nat list \<Rightarrow> 'h copy_end \<Rightarrow> 'h copy_end \<Rightarrow> 'w copy_options \<Rightarrow> ('w, copy_result) comp" where
  "copy E cfg sched source target opt =
     (if co_dry_run opt then
        bindF (case target_url source of Some u \<Rightarrow> probe E u | None \<Rightarrow> retF None) (\<lambda>known.
        bindF (endpoint_name E source) (\<lambda>src. bindF (endpoint_name E target) (\<lambda>dst.
          retF \<lparr>cr_source = src, cr_target = dst, cr_size = (case known of None \<Rightarrow> 0 | Some (n, _) \<Rightarrow> n),
            cr_checksum = None, cr_resumed_at = 0\<rparr>)))
      else
        bindF (if co_resume opt then continue_from E (target_url source) (target_url target) (co_overwrite opt) else retF None)
          (\<lambda>resuming.
        bindF (if resuming \<noteq> None then retF None
               else spread E cfg (target_url source) (target_url target) (the_chunk cfg opt)) (\<lambda>spr.
        bindF (if (case co_verify opt of None \<Rightarrow> cc_verify_checksums cfg | Some b \<Rightarrow> b) \<and> checkable source target \<noteq> None
                  \<and> resuming = None \<and> spr = None
               then bindF (liftF (new_digest (cc_accel cfg) (the_algorithm cfg opt))) (\<lambda>d. retF (Some d)) else retF None) (\<lambda>dg.
        bindF (transfer E cfg sched source target opt resuming spr dg) (\<lambda>(n, dg1).
        bindF (verified E cfg source target opt resuming spr dg1) (\<lambda>checksum.
        bindF (if co_remove_source opt then (case target_url source of Some u \<Rightarrow> en_remove E u | None \<Rightarrow> retF ()) else retF ()) (\<lambda>_.
        bindF (endpoint_name E source) (\<lambda>src. bindF (endpoint_name E target) (\<lambda>dst.
          retF \<lparr>cr_source = src, cr_target = dst, cr_size = n, cr_checksum = checksum,
            cr_resumed_at = (case resuming of None \<Rightarrow> 0 | Some p \<Rightarrow> rp_offset p)\<rparr>)))))))))"

end
