(* ===== verification/Local_Files.thy ===== *)
theory Local_Files
  imports Copy_Engine File_Properties
begin

text \<open>
  Local files as endpoints of a copy: what \<^verbatim>\<open>copy/engine.py\<close> uses of \<^verbatim>\<open>open\<close>, \<^verbatim>\<open>os\<close> and binary file objects. A
  world is the contents of the files by path and the open file objects. Directories are not
  modelled, a file object names its file by path, and there is no network behind these endpoints.

  \<open>byte_ends\<close> is the contract the copy loops need of a source and a target: the source reads
  as fixed bytes, with short reads allowed before its end, writing to the target patches it, and
  file objects keep their positions to themselves. Local files meet it.
\<close>

section \<open>The operating system\<close>

record os_handle =
  oh_path :: str
  oh_pos :: int
  oh_reads :: bool
  oh_writes :: bool

record os =
  os_files :: "str \<Rightarrow> bytes option"
  os_times :: "str \<Rightarrow> int"
  os_handles :: "nat \<Rightarrow> os_handle option"
  os_next :: nat

definition os_opened :: "str \<Rightarrow> bool \<Rightarrow> bool \<Rightarrow> (os, nat) comp" where
  "os_opened path reads writes w =
     Some (Inr (os_next w), w\<lparr>os_handles := (os_handles w)(os_next w \<mapsto>
             \<lparr>oh_path = path, oh_pos = 0, oh_reads = reads, oh_writes = writes\<rparr>), os_next := Suc (os_next w)\<rparr>)"

definition os_write_file :: "str \<Rightarrow> bytes \<Rightarrow> os \<Rightarrow> os" where
  "os_write_file path data w = w\<lparr>os_files := (os_files w)(path \<mapsto> data)\<rparr>"

definition os_open :: "url \<Rightarrow> str \<Rightarrow> (os, nat) comp" where
  "os_open url mode w =
     (let path = u_path url in
      if \<not> is_local url then raiseF (Raised (XrdConnectionError ''no network'')) w
      else if mode = lit ''wb'' then os_opened path False True (os_write_file path [] w)
      else if mode = lit ''xb'' then
        (if os_files w path \<noteq> None then raiseF (Raised (OSError EEXIST)) w
         else os_opened path False True (os_write_file path [] w))
      else if os_files w path = None then raiseF (Raised (OSError ENOENT)) w
      else os_opened path True (mode \<noteq> lit ''rb'') w)"

text \<open>A method of an open file object: its handle and the bytes of its file.\<close>

definition os_method :: "nat \<Rightarrow> (os_handle \<Rightarrow> bytes \<Rightarrow> (os, 'a) comp) \<Rightarrow> (os, 'a) comp" where
  "os_method h m w =
     (case os_handles w h of
        None \<Rightarrow> raiseF (Raised (ValueError ''I/O operation on closed file'')) w
      | Some oh \<Rightarrow> m oh (case os_files w (oh_path oh) of None \<Rightarrow> [] | Some d \<Rightarrow> d) w)"

definition os_move :: "nat \<Rightarrow> int \<Rightarrow> os \<Rightarrow> os" where
  "os_move h pos w = w\<lparr>os_handles := (os_handles w)(h := map_option (oh_pos_update (\<lambda>_. pos)) (os_handles w h))\<rparr>"

definition os_read :: "nat \<Rightarrow> int \<Rightarrow> (os, bytes) comp" where
  "os_read h n = os_method h (\<lambda>oh data w.
     if \<not> oh_reads oh then raiseF (Raised UnsupportedOperation) w
     else (let d = (if n < 0 then drop (nat (oh_pos oh)) data else window data (oh_pos oh) n)
           in Some (Inr d, os_move h (oh_pos oh + int (length d)) w)))"

definition os_write :: "nat \<Rightarrow> bytes \<Rightarrow> (os, int) comp" where
  "os_write h d = os_method h (\<lambda>oh data w.
     if \<not> oh_writes oh then raiseF (Raised UnsupportedOperation) w
     else Some (Inr (int (length d)), os_move h (oh_pos oh + int (length d))
       (os_write_file (oh_path oh) (patch (nat (oh_pos oh)) d data) w)))"

definition os_seek :: "nat \<Rightarrow> int \<Rightarrow> (os, int) comp" where
  "os_seek h pos = os_method h (\<lambda>oh data w.
     if pos < 0 then raiseF (Raised (OSError EINVAL)) w else Some (Inr pos, os_move h pos w))"

definition os_close :: "nat \<Rightarrow> (os, unit) comp" where
  "os_close h w = Some (Inr (), w\<lparr>os_handles := (os_handles w)(h := None)\<rparr>)"

definition os_stat :: "url \<Rightarrow> (os, int \<times> int) comp" where
  "os_stat url w =
     (if \<not> is_local url then raiseF (Raised (XrdConnectionError ''no network'')) w
      else case os_files w (u_path url) of
        None \<Rightarrow> raiseF (Raised (OSError ENOENT)) w
      | Some d \<Rightarrow> Some (Inr (int (length d), os_times w (u_path url)), w))"

definition os_remove :: "url \<Rightarrow> (os, unit) comp" where
  "os_remove url w =
     (if \<not> is_local url then raiseF (Raised (XrdConnectionError ''no network'')) w
      else if os_files w (u_path url) = None then raiseF (Raised (OSError ENOENT)) w
      else Some (Inr (), w\<lparr>os_files := (os_files w)(u_path url := None)\<rparr>))"

definition local_ends :: "(nat, os) ends" where
  "local_ends =
     \<lparr>en_open = os_open, en_size = (\<lambda>h url. bindF (os_stat url) (\<lambda>(n, _). retF n)), en_has_readinto = (\<lambda>h. True),
      en_readinto = os_read, en_read = os_read, en_write = os_write, en_seek = os_seek, en_close = os_close,
      en_repr = (\<lambda>h. lit ''<file>''), en_stat = os_stat, en_remove = os_remove,
      en_checksum = (\<lambda>url algorithm. raiseF (Raised (XrdConnectionError ''no network''))),
      en_walk = (\<lambda>url. retF []), en_relpath = (\<lambda>path start. path), en_makedirs = (\<lambda>path. retF ())\<rparr>"

section \<open>The contract of a copy\<close>

text \<open>What a read at \<open>p\<close> of at most \<open>n\<close> bytes may give: as many as it likes, but nothing only at the end.\<close>

definition part_at :: "bytes \<Rightarrow> int \<Rightarrow> int \<Rightarrow> bytes \<Rightarrow> bool" where
  "part_at S p n d \<longleftrightarrow> d = take (length d) (drop (nat p) S) \<and> int (length d) \<le> n \<and> (d = [] \<longrightarrow> length S \<le> nat p)"

text \<open>
  \<open>img\<close> is the content of the target, \<open>posn\<close> the open file objects: \<open>(False, p)\<close> reads the source at \<open>p\<close>,
  \<open>(True, p)\<close> writes the target at \<open>p\<close>. The target exists in a world that is \<open>ok\<close>; it need not in one that is \<open>ready\<close>.
\<close>

locale byte_ends =
  fixes E :: "('h, 'w) ends" and src dst :: url and S :: bytes and ready ok :: "'w \<Rightarrow> bool"
    and img :: "'w \<Rightarrow> bytes" and posn :: "'w \<Rightarrow> 'h \<Rightarrow> (bool \<times> int) option"
  assumes schemes: "ready w \<Longrightarrow> (is_local src \<or> is_root src) \<and> (is_local dst \<or> is_root dst)"
    and ok_ready: "ok w \<Longrightarrow> ready w"
    and create: "ready w \<Longrightarrow> \<exists>h w'. en_open E dst (lit ''wb'') w = Some (Inr h, w') \<and> ok w' \<and> posn w h = None
        \<and> posn w' = (posn w)(h \<mapsto> (True, 0)) \<and> img w' = []"
    and open_source: "ready w \<Longrightarrow> \<exists>h w'. en_open E src (lit ''rb'') w = Some (Inr h, w') \<and> ready w' \<and> (ok w \<longrightarrow> ok w')
        \<and> posn w h = None \<and> posn w' = (posn w)(h \<mapsto> (False, 0)) \<and> img w' = img w"
    and open_target: "ok w \<Longrightarrow> \<exists>h w'. en_open E dst (lit ''r+b'') w = Some (Inr h, w') \<and> ok w' \<and> posn w h = None
        \<and> posn w' = (posn w)(h \<mapsto> (True, 0)) \<and> img w' = img w"
    and size_source: "ready w \<Longrightarrow> posn w h = Some (False, p) \<Longrightarrow> \<exists>w'. en_size E h src w = Some (Inr (int (length S)), w')
        \<and> ready w' \<and> (ok w \<longrightarrow> ok w') \<and> posn w' = posn w \<and> img w' = img w"
    and seeking: "ok w \<Longrightarrow> posn w h = Some (b, p) \<Longrightarrow> 0 \<le> q \<Longrightarrow> \<exists>n w'. en_seek E h q w = Some (Inr n, w') \<and> ok w'
        \<and> posn w' = (posn w)(h \<mapsto> (b, q)) \<and> img w' = img w"
    and reading: "ok w \<Longrightarrow> posn w h = Some (False, p) \<Longrightarrow> 0 < n \<Longrightarrow> \<exists>d w'. en_read E h n w = Some (Inr d, w') \<and> ok w'
        \<and> part_at S p n d \<and> posn w' = (posn w)(h \<mapsto> (False, p + int (length d))) \<and> img w' = img w"
    and filling: "ok w \<Longrightarrow> posn w h = Some (False, p) \<Longrightarrow> 0 < n \<Longrightarrow> \<exists>d w'. en_readinto E h n w = Some (Inr d, w') \<and> ok w'
        \<and> part_at S p n d \<and> posn w' = (posn w)(h \<mapsto> (False, p + int (length d))) \<and> img w' = img w"
    and writing: "ok w \<Longrightarrow> posn w h = Some (True, p) \<Longrightarrow> \<exists>n w'. en_write E h d w = Some (Inr n, w') \<and> ok w'
        \<and> posn w' = (posn w)(h \<mapsto> (True, p + int (length d))) \<and> img w' = patch (nat p) d (img w)"
    and closing: "ok w \<Longrightarrow> posn w h = Some (b, p) \<Longrightarrow> \<exists>w'. en_close E h w = Some (Inr (), w') \<and> ok w'
        \<and> posn w' = (posn w)(h := None) \<and> img w' = img w"

section \<open>Local files meet it\<close>

definition os_role :: "url \<Rightarrow> url \<Rightarrow> os_handle \<Rightarrow> (bool \<times> int) option" where
  "os_role src dst oh =
     (if oh_path oh = u_path src \<and> oh_reads oh then Some (False, oh_pos oh)
      else if oh_path oh = u_path dst \<and> oh_writes oh then Some (True, oh_pos oh) else None)"

definition os_at :: "url \<Rightarrow> url \<Rightarrow> os \<Rightarrow> nat \<Rightarrow> (bool \<times> int) option" where
  "os_at src dst w h = Option.bind (os_handles w h) (os_role src dst)"

definition os_img :: "url \<Rightarrow> os \<Rightarrow> bytes" where
  "os_img dst w = (case os_files w (u_path dst) of None \<Rightarrow> [] | Some d \<Rightarrow> d)"

definition os_ready :: "url \<Rightarrow> url \<Rightarrow> bytes \<Rightarrow> os \<Rightarrow> bool" where
  "os_ready src dst S w \<longleftrightarrow> is_local src \<and> is_local dst \<and> u_path src \<noteq> u_path dst \<and> os_files w (u_path src) = Some S
     \<and> (\<forall>h. os_handles w h \<noteq> None \<longrightarrow> h < os_next w)"

definition os_ok :: "url \<Rightarrow> url \<Rightarrow> bytes \<Rightarrow> os \<Rightarrow> bool" where
  "os_ok src dst S w \<longleftrightarrow> os_ready src dst S w \<and> os_files w (u_path dst) \<noteq> None"

lemma os_fresh: "os_ready src dst S w \<Longrightarrow> os_handles w (os_next w) = None"
  by (auto simp: os_ready_def)

lemma os_at_Some:
  assumes "os_at src dst w h = Some (b, p)"
  obtains oh where "os_handles w h = Some oh" "oh_pos oh = p" "b \<Longrightarrow> oh_path oh = u_path dst \<and> oh_writes oh"
    "\<not> b \<Longrightarrow> oh_path oh = u_path src \<and> oh_reads oh"
  using assms by (cases "os_handles w h") (auto simp: os_at_def os_role_def split: if_splits)

lemmas os_defs = local_ends_def os_open_def os_opened_def os_write_file_def os_method_def os_move_def os_read_def os_write_def
  os_seek_def os_close_def os_stat_def raiseF_def retF_def bindF_def Let_def

interpretation local: byte_ends local_ends src dst S "os_ready src dst S" "os_ok src dst S" "os_img dst" "os_at src dst"
  for src dst :: url and S :: bytes
proof unfold_locales
  fix w h b p q n d
  have modes: "lit ''rb'' \<noteq> lit ''wb''" "lit ''rb'' \<noteq> lit ''xb''" "lit ''r+b'' \<noteq> lit ''wb''" "lit ''r+b'' \<noteq> lit ''xb''"
    "lit ''r+b'' \<noteq> lit ''rb''" by code_simp+
  show "(is_local src \<or> is_root src) \<and> (is_local dst \<or> is_root dst)" if "os_ready src dst S w"
    using that by (simp add: os_ready_def)
  show "os_ready src dst S w" if "os_ok src dst S w"
    using that by (simp add: os_ok_def)
  show "\<exists>h w'. en_open local_ends dst (lit ''wb'') w = Some (Inr h, w') \<and> os_ok src dst S w' \<and> os_at src dst w h = None
      \<and> os_at src dst w' = (os_at src dst w)(h \<mapsto> (True, 0)) \<and> os_img dst w' = []" if "os_ready src dst S w"
    using that os_fresh [OF that] by (auto simp: os_defs os_ok_def os_ready_def os_at_def os_role_def os_img_def fun_eq_iff less_SucI)
  show "\<exists>h w'. en_open local_ends src (lit ''rb'') w = Some (Inr h, w') \<and> os_ready src dst S w' \<and> (os_ok src dst S w \<longrightarrow> os_ok src dst S w')
      \<and> os_at src dst w h = None \<and> os_at src dst w' = (os_at src dst w)(h \<mapsto> (False, 0)) \<and> os_img dst w' = os_img dst w"
    if "os_ready src dst S w"
    using that os_fresh [OF that] modes by (auto simp: os_defs os_ok_def os_ready_def os_at_def os_role_def os_img_def fun_eq_iff less_SucI)
  show "\<exists>h w'. en_open local_ends dst (lit ''r+b'') w = Some (Inr h, w') \<and> os_ok src dst S w' \<and> os_at src dst w h = None
      \<and> os_at src dst w' = (os_at src dst w)(h \<mapsto> (True, 0)) \<and> os_img dst w' = os_img dst w" if "os_ok src dst S w"
    using that os_fresh [of src dst S w] modes by (auto simp: os_defs os_ok_def os_ready_def os_at_def os_role_def os_img_def fun_eq_iff less_SucI)
  show "\<exists>w'. en_size local_ends h src w = Some (Inr (int (length S)), w') \<and> os_ready src dst S w' \<and> (os_ok src dst S w \<longrightarrow> os_ok src dst S w')
      \<and> os_at src dst w' = os_at src dst w \<and> os_img dst w' = os_img dst w" if "os_ready src dst S w"
    using that by (auto simp: os_defs os_ready_def)
  show "\<exists>n w'. en_seek local_ends h q w = Some (Inr n, w') \<and> os_ok src dst S w'
      \<and> os_at src dst w' = (os_at src dst w)(h \<mapsto> (b, q)) \<and> os_img dst w' = os_img dst w"
    if "os_ok src dst S w" "os_at src dst w h = Some (b, p)" "0 \<le> q"
    by (rule os_at_Some [OF that(2)], insert that(1,3), cases b) (auto simp: os_defs os_ok_def os_ready_def os_at_def os_role_def os_img_def fun_eq_iff)
  show "\<exists>n w'. en_write local_ends h d w = Some (Inr n, w') \<and> os_ok src dst S w'
      \<and> os_at src dst w' = (os_at src dst w)(h \<mapsto> (True, p + int (length d))) \<and> os_img dst w' = patch (nat p) d (os_img dst w)"
    if "os_ok src dst S w" "os_at src dst w h = Some (True, p)"
    by (rule os_at_Some [OF that(2)], insert that(1)) (auto simp: os_defs os_ok_def os_ready_def os_at_def os_role_def os_img_def fun_eq_iff)
  show "\<exists>w'. en_close local_ends h w = Some (Inr (), w') \<and> os_ok src dst S w'
      \<and> os_at src dst w' = (os_at src dst w)(h := None) \<and> os_img dst w' = os_img dst w"
    if "os_ok src dst S w" "os_at src dst w h = Some (b, p)"
    using that by (auto simp: os_defs os_ok_def os_ready_def os_at_def os_img_def fun_eq_iff)
  have part: "0 < n \<Longrightarrow> part_at S p n (window S p n)" for p n
    by (auto simp: part_at_def window_def min_def)
  show "\<exists>d w'. en_read local_ends h n w = Some (Inr d, w') \<and> os_ok src dst S w' \<and> part_at S p n d
      \<and> os_at src dst w' = (os_at src dst w)(h \<mapsto> (False, p + int (length d))) \<and> os_img dst w' = os_img dst w"
    if "os_ok src dst S w" "os_at src dst w h = Some (False, p)" "0 < n"
    by (rule os_at_Some [OF that(2)], insert that(1,3) part [of n p]) (auto simp: os_defs os_ok_def os_ready_def os_at_def os_role_def os_img_def fun_eq_iff)
  then show "\<exists>d w'. en_readinto local_ends h n w = Some (Inr d, w') \<and> os_ok src dst S w' \<and> part_at S p n d
      \<and> os_at src dst w' = (os_at src dst w)(h \<mapsto> (False, p + int (length d))) \<and> os_img dst w' = os_img dst w"
    if "os_ok src dst S w" "os_at src dst w h = Some (False, p)" "0 < n"
    using that by (simp add: local_ends_def)
qed

end
