(* ===== verification/Copy_Parallel.thy ===== *)
theory Copy_Parallel
  imports Local_Files
begin

text \<open>
  A copy in spans on several threads. Whatever order the calls of the threads come in, the copy
  ends, the target holds the bytes of the source, the count returned is their number, and every file
  object the threads opened is closed again.
\<close>

section \<open>Spans\<close>

lemma spans_from_covers:
  assumes "0 \<le> offset" "offset \<le> k" "k < len" "0 < step"
  shows "\<exists>(a, l) \<in> set (spans_from offset len step). a \<le> k \<and> k < a + l"
  using assms
proof (induction offset len step rule: spans_from.induct)
  case (1 offset len step)
  show ?case
  proof (cases "k < offset + step")
    case True
    then show ?thesis using 1 by (subst spans_from.simps) auto
  next
    case False
    then have "\<exists>(a, l) \<in> set (spans_from (offset + step) len step). a \<le> k \<and> k < a + l"
      using 1 by auto
    then show ?thesis using 1 by (subst spans_from.simps) auto
  qed
qed

lemma spans_from_within:
  "(a, l) \<in> set (spans_from offset len step) \<Longrightarrow> 0 < step \<and> offset \<le> a \<and> 0 < l \<and> a + l \<le> len"
proof (induction offset len step rule: spans_from.induct)
  case (1 offset len step)
  have open_span: "\<not> (step \<le> 0 \<or> len \<le> offset)" using 1(2) by (subst (asm) spans_from.simps) (auto split: if_splits)
  then have "(a, l) = (offset, min step (len - offset)) \<or> (a, l) \<in> set (spans_from (offset + step) len step)"
    using 1(2) by (subst (asm) spans_from.simps) simp
  then show ?case
    using 1(1) [OF open_span] open_span by fastforce
qed

lemma spans_from_total: "0 < step \<Longrightarrow> sum_list (map snd (spans_from offset len step)) = max 0 (len - offset)"
proof (induction offset len step rule: spans_from.induct)
  case (1 offset len step)
  then show ?case by (cases "len \<le> offset") (simp_all add: spans_from.simps [of offset len step])
qed

lemma span_step: "0 < len \<Longrightarrow> 0 < workers \<Longrightarrow> 0 < - ((- len) div workers)" for len workers :: int
  by (simp add: div_neg_pos_less0)

lemma spans_total: "0 \<le> len \<Longrightarrow> 0 < workers \<Longrightarrow> sum_list (map snd (spans len workers)) = len"
  using spans_from_total [OF span_step] spans_from.simps [of 0 0 "- (- len div workers)"]
  by (cases "len = 0") (simp_all add: spans_def)

lemma spans_cover: "0 \<le> k \<Longrightarrow> k < len \<Longrightarrow> 0 < workers \<Longrightarrow> \<exists>(a, l) \<in> set (spans len workers). a \<le> k \<and> k < a + l"
  unfolding spans_def by (rule spans_from_covers) (use span_step in auto)

lemma spans_within: "(a, l) \<in> set (spans len workers) \<Longrightarrow> 0 \<le> a \<and> 0 < l \<and> a + l \<le> len"
  using spans_from_within unfolding spans_def by blast

section \<open>One thread\<close>

fun handles :: "'h phase \<Rightarrow> 'h list" where
  "handles (Sizing r) = [r]"
| "handles (SeekSource r) = [r]"
| "handles (OpenTarget r) = [r]"
| "handles (SeekTarget r t) = [t, r]"
| "handles (Reading r t m) = [t, r]"
| "handles (Writing r t m d) = [t, r]"
| "handles (Reporting r t m n) = [t, r]"
| "handles (Leaving hs res) = hs"
| "handles _ = []"

text \<open>The steps a thread has left at most, for a source of \<open>len\<close> bytes.\<close>

fun rank :: "nat \<Rightarrow> 'h phase \<Rightarrow> nat" where
  "rank len Waiting = 3 * len + 12"
| "rank len (Sizing r) = 3 * len + 11"
| "rank len (SeekSource r) = 3 * len + 10"
| "rank len (OpenTarget r) = 3 * len + 9"
| "rank len (SeekTarget r t) = 3 * len + 8"
| "rank len (Reading r t m) = 3 * (len - nat m) + 5"
| "rank len (Writing r t m d) = 3 * (len - nat m) + 4"
| "rank len (Reporting r t m n) = 3 * (len - nat m) + 6"
| "rank len (Leaving hs res) = length hs + 1"
| "rank len _ = 0"

definition correct_at :: "bytes \<Rightarrow> bytes \<Rightarrow> nat \<Rightarrow> bool" where
  "correct_at S content k \<longleftrightarrow> k < length content \<and> content ! k = S ! k"

definition correct_on :: "bytes \<Rightarrow> bytes \<Rightarrow> int \<Rightarrow> int \<Rightarrow> bool" where
  "correct_on S content a m \<longleftrightarrow> (\<forall>k. a \<le> int k \<and> int k < a + m \<longrightarrow> correct_at S content k)"

text \<open>Writing bytes of the source where they belong keeps what is right, and makes their place right.\<close>

lemma correct_at_patch:
  assumes "d = take (length d) (drop a S)" "a + length d \<le> length S" "correct_at S content k"
  shows "correct_at S (patch a d content) k"
proof -
  have k: "k < length (patch a d content)" using assms(3) by (auto simp: correct_at_def length_patch)
  have "S ! k = d ! (k - a)" if "a \<le> k" "k < a + length d"
  proof -
    have "d ! (k - a) = take (length d) (drop a S) ! (k - a)" using assms(1) by simp
    then show ?thesis using that assms(2) by simp
  qed
  then show ?thesis using assms(3) k by (auto simp: correct_at_def nth_patch [OF k])
qed

lemma correct_on_patch:
  assumes d: "d = take (length d) (drop (nat p) S)" "nat p + length d \<le> length S"
    and a: "0 \<le> a" "a \<le> p" "correct_on S content a (p - a)"
  shows "correct_on S (patch (nat p) d content) a (p - a + int (length d))"
  unfolding correct_on_def
proof (intro allI impI)
  fix k assume k: "a \<le> int k \<and> int k < a + (p - a + int (length d))"
  show "correct_at S (patch (nat p) d content) k"
  proof (cases "int k < p")
    case True
    then show ?thesis using k a correct_at_patch [OF d] by (simp add: correct_on_def)
  next
    case False
    have inside: "k < length (patch (nat p) d content)" using False k by (auto simp: length_patch)
    have "d ! (k - nat p) = take (length d) (drop (nat p) S) ! (k - nat p)" using d(1) by simp
    also have "\<dots> = S ! k" using False k d(2) a by simp
    finally show ?thesis using inside False k a by (auto simp: correct_at_def nth_patch [OF inside])
  qed
qed

lemma correct_everywhere:
  assumes "length content \<le> length S" "\<And>k. k < length S \<Longrightarrow> correct_at S content k"
  shows "content = S"
proof -
  have "length content = length S"
    using assms by (metis correct_at_def le_antisym linorder_not_less less_irrefl)
  then show ?thesis using assms(2) by (auto intro: nth_equalityI simp: correct_at_def)
qed

text \<open>A progress callback that touches neither file.\<close>

definition discreet :: "('w \<Rightarrow> bool) \<Rightarrow> ('w \<Rightarrow> bytes) \<Rightarrow> ('w \<Rightarrow> 'h \<Rightarrow> (bool \<times> int) option) \<Rightarrow> 'w progress \<Rightarrow> bool" where
  "discreet ok img posn progress \<longleftrightarrow> (\<forall>f n tot w. progress = Some f \<and> ok w \<longrightarrow>
     (\<exists>w'. f n tot w = Some (Inr (), w') \<and> ok w' \<and> posn w' = posn w \<and> img w' = img w))"

context byte_ends
begin

text \<open>What holds of a thread between two of its calls.\<close>

fun on_track :: "int \<times> int \<Rightarrow> 'w \<Rightarrow> 'h phase \<Rightarrow> bool" where
  "on_track sp w Waiting = True"
| "on_track sp w (Sizing r) = (posn w r = Some (False, 0))"
| "on_track sp w (SeekSource r) = (posn w r = Some (False, 0))"
| "on_track sp w (OpenTarget r) = (posn w r = Some (False, fst sp))"
| "on_track sp w (SeekTarget r t) = (posn w r = Some (False, fst sp) \<and> posn w t = Some (True, 0))"
| "on_track sp w (Reading r t m) =
     (0 \<le> m \<and> m \<le> snd sp \<and> posn w r = Some (False, fst sp + m) \<and> posn w t = Some (True, fst sp + m)
      \<and> correct_on S (img w) (fst sp) m)"
| "on_track sp w (Writing r t m d) =
     (0 \<le> m \<and> d \<noteq> [] \<and> m + int (length d) \<le> snd sp \<and> posn w r = Some (False, fst sp + m + int (length d))
      \<and> posn w t = Some (True, fst sp + m) \<and> d = take (length d) (drop (nat (fst sp + m)) S)
      \<and> correct_on S (img w) (fst sp) m)"
| "on_track sp w (Reporting r t m n) =
     (0 \<le> m \<and> m \<le> snd sp \<and> posn w r = Some (False, fst sp + m) \<and> posn w t = Some (True, fst sp + m)
      \<and> correct_on S (img w) (fst sp) m)"
| "on_track sp w (Leaving hs res) =
     (distinct hs \<and> (\<forall>h \<in> set hs. posn w h \<noteq> None) \<and> res = Inr (snd sp) \<and> correct_on S (img w) (fst sp) (snd sp))"
| "on_track sp w (Finished res) = (res = Inr (snd sp) \<and> correct_on S (img w) (fst sp) (snd sp))"
| "on_track sp w Cancelled = False"

text \<open>What one call of a thread leaves to the others.\<close>

definition disturbs :: "'w \<Rightarrow> 'h phase \<Rightarrow> 'w \<Rightarrow> 'h phase \<Rightarrow> bool" where
  "disturbs w p w' p' \<longleftrightarrow>
     (\<forall>h. h \<notin> set (handles p) \<and> h \<notin> set (handles p') \<longrightarrow> posn w' h = posn w h)
     \<and> (\<forall>h. h \<in> set (handles p') \<and> h \<notin> set (handles p) \<longrightarrow> posn w h = None)
     \<and> (\<forall>h. h \<in> set (handles p) \<and> h \<notin> set (handles p') \<longrightarrow> posn w' h = None)
     \<and> (\<forall>k. correct_at S (img w) k \<longrightarrow> correct_at S (img w') k)
     \<and> (length (img w) \<le> length S \<longrightarrow> length (img w') \<le> length S)"

lemma handles_open: "on_track sp w p \<Longrightarrow> h \<in> set (handles p) \<Longrightarrow> posn w h \<noteq> None"
  by (cases p) auto

lemma calling_Inr: "m w = Some (Inr a, w') \<Longrightarrow> calling m k hs (w, reported) = Some (k a, w', reported)"
  by (simp add: calling_def)

lemma disturbs_same_img:
  assumes "img w' = img w" "\<And>h. h \<notin> set (handles p) \<Longrightarrow> h \<notin> set (handles p') \<Longrightarrow> posn w' h = posn w h"
    "\<And>h. h \<in> set (handles p') \<Longrightarrow> h \<notin> set (handles p) \<Longrightarrow> posn w h = None"
    "\<And>h. h \<in> set (handles p) \<Longrightarrow> h \<notin> set (handles p') \<Longrightarrow> posn w' h = None"
  shows "disturbs w p w' p'"
  using assms by (simp add: disturbs_def)

lemma read_on_track:
  assumes w: "ok w" and chunk: "0 < chunk" and sp: "0 \<le> fst sp" "fst sp + snd sp \<le> int (length S)"
    and p: "on_track sp w (Reading r t m)"
  shows "\<exists>p' w'. move_step E plan chunk progress sp (Reading r t m) (w, reported) = Some (p', w', reported) \<and> ok w'
    \<and> on_track sp w' p' \<and> rank (length S) p' < rank (length S) (Reading r t m) \<and> disturbs w (Reading r t m) w' p'"
proof (cases "m < snd sp")
  case False
  then have "m = snd sp" using p by simp
  moreover have "t \<noteq> r" using p by auto
  ultimately show ?thesis
    using p w by (auto simp: disturbs_def)
next
  case True
  obtain d w' where d: "en_read E r (min chunk (snd sp - m)) w = Some (Inr d, w')" "ok w'" "part_at S (fst sp + m) (min chunk (snd sp - m)) d"
    "posn w' = (posn w)(r \<mapsto> (False, fst sp + m + int (length d)))" "img w' = img w"
    using reading [OF w, of r "fst sp + m" "min chunk (snd sp - m)"] p chunk True by auto
  have "d \<noteq> []" using d(3) sp p True by (auto simp: part_at_def)
  then show ?thesis
    using d p True by (auto simp: calling_Inr part_at_def intro!: disturbs_same_img)
qed

lemma write_on_track:
  assumes w: "ok w" and sp: "0 \<le> fst sp" "fst sp + snd sp \<le> int (length S)" and p: "on_track sp w (Writing r t m d)"
  shows "\<exists>p' w'. move_step E plan chunk progress sp (Writing r t m d) (w, reported) = Some (p', w', reported) \<and> ok w'
    \<and> on_track sp w' p' \<and> rank (length S) p' < rank (length S) (Writing r t m d) \<and> disturbs w (Writing r t m d) w' p'"
proof -
  have pos: "posn w t = Some (True, fst sp + m)" "t \<noteq> r" using p by auto
  obtain n w' where d: "en_write E t d w = Some (Inr n, w')" "ok w'"
    "posn w' = (posn w)(t \<mapsto> (True, fst sp + m + int (length d)))" "img w' = patch (nat (fst sp + m)) d (img w)"
    using writing [OF w pos(1), of d] by auto
  have slice: "d = take (length d) (drop (nat (fst sp + m)) S)" "nat (fst sp + m) + length d \<le> length S" using p sp by auto
  have "correct_on S (img w') (fst sp) (m + int (length d))"
    using correct_on_patch [OF slice sp(1)] p d(4) by simp
  moreover have "disturbs w (Writing r t m d) w' q" if "handles q = [t, r]" for q
    using that d(3,4) correct_at_patch [OF slice] slice(2) by (auto simp: disturbs_def length_patch)
  moreover have "0 < length d" "m + int (length d) \<le> int (length S)" "0 \<le> m" using p sp by auto
  then have "3 * (length S - nat (m + int (length d))) + 6 < 3 * (length S - nat m) + 4" by linarith
  ultimately show ?thesis
    using d(1-3) p pos by (auto simp: calling_Inr)
qed

lemma leave_on_track:
  assumes w: "ok w" and p: "on_track sp w (Leaving hs res)"
  shows "\<exists>p' w'. move_step E plan chunk progress sp (Leaving hs res) (w, reported) = Some (p', w', reported) \<and> ok w'
    \<and> on_track sp w' p' \<and> rank (length S) p' < rank (length S) (Leaving hs res) \<and> disturbs w (Leaving hs res) w' p'"
proof (cases hs)
  case Nil
  then show ?thesis using w p by (simp add: disturbs_def)
next
  case (Cons h rest)
  then obtain b q where "posn w h = Some (b, q)" using p by fastforce
  from closing [OF w this] p Cons show ?thesis
    by (auto simp: calling_Inr intro!: disturbs_same_img)
qed

lemma move_on_track:
  assumes w: "ok w" and plan: "sp_source plan = src" "sp_target plan = dst" and chunk: "0 < chunk" and quiet: "discreet ok img posn progress"
    and sp: "0 \<le> fst sp" "0 < snd sp" "fst sp + snd sp \<le> int (length S)" and p: "on_track sp w p" "\<not> at_rest p"
  shows "\<exists>p' w' reported'. move_step E plan chunk progress sp p (w, reported) = Some (p', w', reported') \<and> ok w'
    \<and> on_track sp w' p' \<and> rank (length S) p' < rank (length S) p \<and> disturbs w p w' p'"
proof (cases p)
  case Waiting
  from open_source [OF ok_ready [OF w]] schemes [OF ok_ready [OF w]] w Waiting show ?thesis
    by (fastforce simp: reader_open_def plan calling_Inr intro!: disturbs_same_img)
next
  case (Sizing r)
  with p have "posn w r = Some (False, 0)" by simp
  from size_source [OF ok_ready [OF w] this] schemes [OF ok_ready [OF w]] w this Sizing show ?thesis
    by (fastforce simp: reader_size_def plan calling_Inr bindF_def retF_def intro!: disturbs_same_img)
next
  case (SeekSource r)
  with p have "posn w r = Some (False, 0)" by simp
  from seeking [OF w this sp(1)] SeekSource show ?thesis
    by (fastforce simp: calling_Inr intro!: disturbs_same_img)
next
  case (OpenTarget r)
  from open_target [OF w] schemes [OF ok_ready [OF w]] p OpenTarget show ?thesis
    by (fastforce simp: resumer_open_def plan calling_Inr intro!: disturbs_same_img)
next
  case (SeekTarget r t)
  with p have "posn w t = Some (True, 0)" by simp
  from seeking [OF w this sp(1)] p sp SeekTarget show ?thesis
    by (fastforce simp: calling_Inr correct_on_def intro!: disturbs_same_img)
next
  case (Reading r t m)
  with read_on_track [OF w chunk sp(1,3)] p show ?thesis by blast
next
  case (Writing r t m d)
  with write_on_track [OF w sp(1,3)] p show ?thesis by blast
next
  case (Reporting r t m n)
  have "\<exists>w'. (case progress of None \<Rightarrow> retF () | Some f \<Rightarrow> f (reported + n) (Some (sp_size plan))) w = Some (Inr (), w') \<and> ok w'
      \<and> posn w' = posn w \<and> img w' = img w"
    using quiet w by (cases progress) (auto simp: discreet_def retF_def)
  with p Reporting show ?thesis
    by (fastforce simp: calling_Inr intro!: disturbs_same_img)
next
  case (Leaving hs res)
  with leave_on_track [OF w] p show ?thesis by blast
qed (use p in auto)

section \<open>All threads\<close>

fun main_ok :: "(int \<times> int) list \<Rightarrow> 'h phase list \<Rightarrow> main \<Rightarrow> bool" where
  "main_ok sps ps (Await i tot) = (i \<le> length sps \<and> (\<forall>j < i. at_rest (ps ! j)) \<and> tot = sum_list (map snd (take i sps)))"
| "main_ok sps ps (Returned tot) = ((\<forall>j < length sps. at_rest (ps ! j)) \<and> tot = sum_list (map snd sps))"
| "main_ok sps ps (Failed x) = False"

definition owned :: "('h, 'w) team \<Rightarrow> nat \<Rightarrow> 'h set" where
  "owned st i = set (handles (tm_workers st ! i))"

text \<open>\<open>before\<close> is what was open when the copy began.\<close>

definition team_ok :: "(int \<times> int) list \<Rightarrow> ('h \<Rightarrow> (bool \<times> int) option) \<Rightarrow> ('h, 'w) team \<Rightarrow> bool" where
  "team_ok sps before st \<longleftrightarrow> ok (tm_world st) \<and> length (img (tm_world st)) \<le> length S
     \<and> length (tm_workers st) = length sps
     \<and> (\<forall>i < length sps. on_track (sps ! i) (tm_world st) (tm_workers st ! i))
     \<and> (\<forall>i < length sps. \<forall>j < length sps. i \<noteq> j \<longrightarrow> owned st i \<inter> owned st j = {})
     \<and> (\<forall>i < length sps. \<forall>h \<in> owned st i. before h = None)
     \<and> (\<forall>h. (\<forall>i < length sps. h \<notin> owned st i) \<longrightarrow> posn (tm_world st) h = before h)
     \<and> main_ok sps (tm_workers st) (tm_main st)"

fun main_rank :: "nat \<Rightarrow> main \<Rightarrow> nat" where
  "main_rank n (Await i tot) = Suc (n - i)"
| "main_rank n _ = 0"

definition team_rank :: "('h, 'w) team \<Rightarrow> nat" where
  "team_rank st = sum_list (map (rank (length S)) (tm_workers st)) + main_rank (length (tm_workers st)) (tm_main st)"

lemma on_track_frame:
  assumes "on_track sp w q" "\<And>h. h \<in> set (handles q) \<Longrightarrow> posn w' h = posn w h"
    "\<And>k. correct_at S (img w) k \<Longrightarrow> correct_at S (img w') k"
  shows "on_track sp w' q"
  using assms by (cases q) (auto simp: correct_on_def)

lemma on_track_undisturbed:
  assumes "on_track sp w q" "disturbs w p w' p'" "set (handles q) \<inter> set (handles p) = {}"
  shows "on_track sp w' q \<and> set (handles q) \<inter> set (handles p') = {}"
proof -
  have new: "h \<notin> set (handles p')" if "h \<in> set (handles q)" for h
    using handles_open [OF assms(1) that] assms(2,3) that by (auto simp: disturbs_def)
  then show ?thesis
    using assms by (auto intro!: on_track_frame [OF assms(1)] simp: disturbs_def)
qed

lemma worker_team_ok:
  assumes st: "team_ok sps before st" and i: "i < length sps" "\<not> at_rest (tm_workers st ! i)"
    and step: "ok w'" "on_track (sps ! i) w' p'" "disturbs (tm_world st) (tm_workers st ! i) w' p'"
  shows "team_ok sps before (st\<lparr>tm_world := w', tm_reported := n, tm_workers := (tm_workers st)[i := p']\<rparr>)"
proof -
  let ?ps = "tm_workers st" let ?st = "st\<lparr>tm_world := w', tm_reported := n, tm_workers := ?ps[i := p']\<rparr>"
  note d = step(3) [unfolded disturbs_def]
  have len: "length ?ps = length sps" using st by (simp add: team_ok_def)
  have owned [simp]: "owned ?st j = (if j = i then set (handles p') else owned st j)" if "j < length sps" for j
    using i len that by (simp add: owned_def)
  have others: "on_track (sps ! j) w' (?ps ! j) \<and> owned st j \<inter> set (handles p') = {}" if "j < length sps" "j \<noteq> i" for j
    using on_track_undisturbed [OF _ step(3), of "sps ! j" "?ps ! j"] st that i by (auto simp: team_ok_def owned_def)
  have mine: "before h = None" if "h \<in> set (handles p')" for h
  proof (cases "h \<in> owned st i")
    case True
    then show ?thesis using st i by (auto simp: team_ok_def)
  next
    case False
    then have "posn (tm_world st) h = None" using d that by (auto simp: owned_def)
    moreover have "h \<notin> owned st j" if "j < length sps" for j
      using st that handles_open [of "sps ! j" "tm_world st" "?ps ! j" h] calculation by (auto simp: team_ok_def owned_def)
    ultimately show ?thesis using st by (auto simp: team_ok_def)
  qed
  have rest: "posn w' h = before h" if free: "\<forall>j < length sps. h \<notin> owned ?st j" for h
  proof (cases "h \<in> owned st i")
    case True
    then have "posn w' h = None" using d free i by (auto simp: owned_def [of st])
    then show ?thesis using st i True by (auto simp: team_ok_def)
  next
    case False
    then have "\<forall>j < length sps. h \<notin> owned st j" using free owned by metis
    moreover have "h \<notin> set (handles p')" using free owned [of i] i by auto
    ultimately show ?thesis using st d False by (auto simp: team_ok_def owned_def)
  qed
  have "main_ok sps (?ps[i := p']) (tm_main st)"
    using st i len by (cases "tm_main st") (auto simp: team_ok_def nth_list_update)
  then show ?thesis
    unfolding team_ok_def using step(1,2) d st others mine rest len i by (auto simp: team_ok_def nth_list_update)
qed

lemma main_team_ok:
  assumes st: "team_ok sps before st" and go: "main_ready (tm_workers st) (tm_main st)"
  shows "\<exists>m. main_step (tm_workers st) (tm_main st) = (m, tm_workers st) \<and> team_ok sps before (st\<lparr>tm_main := m\<rparr>)
    \<and> team_rank (st\<lparr>tm_main := m\<rparr>) < team_rank st"
proof -
  let ?ps = "tm_workers st"
  have len: "length ?ps = length sps" using st by (simp add: team_ok_def)
  obtain i tot where m: "tm_main st = Await i tot" using go by (cases "tm_main st") auto
  have keeps: "team_ok sps before (st\<lparr>tm_main := m'\<rparr>) \<longleftrightarrow> main_ok sps ?ps m'" for m'
    using st by (auto simp: team_ok_def owned_def)
  have sofar: "i \<le> length sps" "\<forall>j < i. at_rest (?ps ! j)" "tot = sum_list (map snd (take i sps))"
    using st m by (auto simp: team_ok_def)
  show ?thesis
  proof (cases "i < length sps")
    case True
    then have "at_rest (?ps ! i)" "on_track (sps ! i) (tm_world st) (?ps ! i)" using go m len st by (auto simp: team_ok_def)
    then have fin: "?ps ! i = Finished (Inr (snd (sps ! i)))" by (cases "?ps ! i") auto
    moreover have "main_ok sps ?ps (Await (Suc i) (tot + snd (sps ! i)))"
      using sofar True fin by (auto simp: take_Suc_conv_app_nth less_Suc_eq)
    ultimately show ?thesis using m True len keeps by (auto simp: team_rank_def)
  next
    case False
    then have "main_ok sps ?ps (Returned tot)" using sofar by simp
    then show ?thesis using m False len keeps by (auto simp: team_rank_def)
  qed
qed

lemma pick_in: "xs \<noteq> [] \<Longrightarrow> pick sched xs \<in> set xs"
  by (simp add: pick_def)

lemma actor_team_ok:
  assumes plan: "sp_source plan = src" "sp_target plan = dst" and chunk: "0 < chunk" and quiet: "discreet ok img posn progress"
    and spans: "\<forall>(a, l) \<in> set sps. 0 \<le> a \<and> 0 < l \<and> a + l \<le> int (length S)"
    and st: "team_ok sps before st" and who: "who \<in> set (enabled st)"
  shows "\<exists>st'. actor_step E plan chunk progress sps who st = Some st' \<and> team_ok sps before st' \<and> team_rank st' < team_rank st"
proof (cases who)
  case None
  then have "main_ready (tm_workers st) (tm_main st)" using who by (auto simp: enabled_def split: if_splits)
  from main_team_ok [OF st this] None show ?thesis by (auto simp: actor_step_def)
next
  case (Some i)
  have len: "length (tm_workers st) = length sps" using st by (simp add: team_ok_def)
  have i: "i < length sps" "\<not> at_rest (tm_workers st ! i)" using who Some len by (auto simp: enabled_def split: if_splits)
  have "0 \<le> fst (sps ! i)" "0 < snd (sps ! i)" "fst (sps ! i) + snd (sps ! i) \<le> int (length S)"
    using spans nth_mem [OF i(1)] by (auto simp: split_beta)
  moreover have "ok (tm_world st)" "on_track (sps ! i) (tm_world st) (tm_workers st ! i)" using st i by (auto simp: team_ok_def)
  ultimately obtain p' w' n where step: "move_step E plan chunk progress (sps ! i) (tm_workers st ! i) (tm_world st, tm_reported st) = Some (p', w', n)"
      "ok w'" "on_track (sps ! i) w' p'" "rank (length S) p' < rank (length S) (tm_workers st ! i)"
      "disturbs (tm_world st) (tm_workers st ! i) w' p'"
    using move_on_track [OF _ plan chunk quiet _ _ _ _ i(2)] by metis
  have "sum_list (map (rank (length S)) ((tm_workers st)[i := p'])) < sum_list (map (rank (length S)) (tm_workers st))"
    using step(4) i len elem_le_sum_list [of i "map (rank (length S)) (tm_workers st)"] by (simp add: map_update sum_list_update)
  then show ?thesis
    using Some step worker_team_ok [OF st i step(2,3,5)] by (simp add: actor_step_def team_rank_def)
qed

lemma team_finishes:
  assumes plan: "sp_source plan = src" "sp_target plan = dst" and chunk: "0 < chunk" and quiet: "discreet ok img posn progress"
    and spans: "\<forall>(a, l) \<in> set sps. 0 \<le> a \<and> 0 < l \<and> a + l \<le> int (length S)"
  shows "team_ok sps before st \<Longrightarrow> \<exists>st'. team_run E plan chunk progress sps sched st = Some st' \<and> team_ok sps before st' \<and> enabled st' = []"
proof (induction "team_rank st" arbitrary: st sched rule: less_induct)
  case less
  show ?case
  proof (cases "enabled st = []")
    case True
    then show ?thesis using less.prems by (simp add: team_run.simps [of _ _ _ _ _ _ st])
  next
    case False
    from actor_team_ok [OF plan chunk quiet spans less.prems pick_in [OF False]] obtain st1 where
      "actor_step E plan chunk progress sps (pick sched (enabled st)) st = Some st1" "team_ok sps before st1" "team_rank st1 < team_rank st"
      by blast
    with less.hyps [of st1 "tl sched"] False show ?thesis by (simp add: team_run.simps [of _ _ _ _ _ _ st])
  qed
qed

lemma team_at_rest:
  assumes st: "team_ok sps before st" and rest: "enabled st = []"
  shows "tm_main st = Returned (sum_list (map snd sps))" "\<And>i. i < length sps \<Longrightarrow> \<exists>res. tm_workers st ! i = Finished res"
proof -
  have len: "length (tm_workers st) = length sps" using st by (simp add: team_ok_def)
  have idle: "at_rest (tm_workers st ! i)" if "i < length sps" for i
  proof -
    have "Some i \<notin> set (enabled st)" using rest by simp
    then show ?thesis using that len by (auto simp: enabled_def)
  qed
  show "\<exists>res. tm_workers st ! i = Finished res" if "i < length sps" for i
    using idle [OF that] st that by (cases "tm_workers st ! i") (auto simp: team_ok_def)
  have "\<not> main_ready (tm_workers st) (tm_main st)" using rest by (auto simp: enabled_def)
  then show "tm_main st = Returned (sum_list (map snd sps))"
    using st idle len by (cases "tm_main st") (auto simp: team_ok_def)
qed

lemma in_parallel_copies:
  assumes plan: "sp_source plan = src" "sp_target plan = dst" "sp_size plan = int (length S)" "0 < sp_workers plan"
    and chunk: "0 < chunk" and quiet: "discreet ok img posn progress" and w: "ready w"
  shows "\<exists>w'. in_parallel E sched plan chunk progress True w = Some (Inr (int (length S)), w')
    \<and> ok w' \<and> img w' = S \<and> posn w' = posn w"
proof -
  let ?sps = "spans (sp_size plan) (sp_workers plan)"
  obtain h w1 where w1: "en_open E dst (lit ''wb'') w = Some (Inr h, w1)" "ok w1" "posn w h = None"
      "posn w1 = (posn w)(h \<mapsto> (True, 0))" "img w1 = []"
    using create [OF w] by blast
  obtain w2 where w2: "en_close E h w1 = Some (Inr (), w2)" "ok w2" "posn w2 = (posn w1)(h := None)" "img w2 = img w1"
    using closing [OF w1(2), of h True 0] w1(4) by auto
  have "with_stack (en_close E) (writer E dst True) w = Some (Inr h, w2)"
    using w1(1) w2(1) schemes [OF w] by (auto simp: with_stack_def writer_def bindF_def on_world_def enter_context_def)
  moreover define st :: "('h, 'w) team" where "st = \<lparr>tm_world = w2, tm_reported = 0, tm_workers = replicate (length ?sps) Waiting, tm_main = Await 0 0\<rparr>"
  have before: "posn w2 = posn w" using w1(3,4) w2(3) by auto
  then have "team_ok ?sps (posn w) st"
    using w2(2) w2(4) w1(5) by (auto simp: team_ok_def st_def owned_def)
  from team_finishes [OF plan(1,2) chunk quiet _ this] spans_within obtain st' where
    st': "team_run E plan chunk progress ?sps sched st = Some st'" "team_ok ?sps (posn w) st'" "enabled st' = []"
    unfolding plan(3) by blast
  note fin = team_at_rest [OF st'(2,3)]
  have "correct_at S (img (tm_world st')) k" if k: "k < length S" for k
  proof -
    obtain i where i: "i < length ?sps" "fst (?sps ! i) \<le> int k" "int k < fst (?sps ! i) + snd (?sps ! i)"
      using spans_cover [of "int k" "sp_size plan" "sp_workers plan"] k plan by (auto simp: in_set_conv_nth split_beta)
    then have "correct_on S (img (tm_world st')) (fst (?sps ! i)) (snd (?sps ! i))"
      using st'(2) fin(2) [OF i(1)] by (auto simp: team_ok_def)
    then show ?thesis using i by (simp add: correct_on_def)
  qed
  then have "img (tm_world st') = S" using st'(2) correct_everywhere by (auto simp: team_ok_def)
  moreover have "owned st' i = {}" if "i < length ?sps" for i
    using fin(2) [OF that] by (auto simp: owned_def)
  then have "posn (tm_world st') = posn w" "ok (tm_world st')"
    using st'(2) by (auto simp: team_ok_def fun_eq_iff)
  moreover have "sum_list (map snd ?sps) = int (length S)" using spans_total plan by simp
  ultimately show ?thesis
    using st'(1) fin(1) by (simp add: in_parallel_def plan(2) bindF_def st_def Let_def)
qed

end

section \<open>Property\<close>

text \<open>
  C16. A file copied in spans on several threads arrives whole, in every interleaving of the threads. Between
  endpoints that read and write as promised, for every schedule, every number of workers, every
  chunk size and whatever short reads the source makes, all threads finish, the copy returns the
  size of the source, the target holds exactly its bytes (a longer old target included), and every
  file object the copy opened is closed again.
\<close>

theorem parallel_copy_any_schedule:
  assumes "byte_ends E src dst S ready ok img posn" "ready w" "discreet ok img posn progress" "0 < chunk"
    "sp_source plan = src" "sp_target plan = dst" "sp_size plan = int (length S)" "0 < sp_workers plan"
  shows "\<exists>w'. in_parallel E sched plan chunk progress True w = Some (Inr (int (length S)), w')
    \<and> img w' = S \<and> posn w' = posn w"
  using byte_ends.in_parallel_copies [OF assms(1,5-8,4,3,2)] by blast

definition disk_url :: "string \<Rightarrow> url" where
  "disk_url path = \<lparr>u_scheme = lit ''file'', u_host = [], u_port = 0, u_path = lit path, u_username = [], u_password = [], u_query = []\<rparr>"

definition two_files :: "bytes \<Rightarrow> bytes \<Rightarrow> os" where
  "two_files a b = \<lparr>os_files = [lit ''/a'' \<mapsto> a, lit ''/b'' \<mapsto> b], os_times = (\<lambda>_. 0), os_handles = (\<lambda>_. None), os_next = 0\<rparr>"

lemma two_files_ok: "os_ok (disk_url ''/a'') (disk_url ''/b'') a (two_files a b)" "os_img (disk_url ''/b'') (two_files a b) = b"
proof -
  have "lit ''/a'' \<noteq> lit ''/b''" by code_simp
  then show "os_ok (disk_url ''/a'') (disk_url ''/b'') a (two_files a b)" "os_img (disk_url ''/b'') (two_files a b) = b"
    by (simp_all add: os_ok_def os_ready_def is_local_def disk_url_def two_files_def os_img_def)
qed

text \<open>Five bytes in spans of three and two, over an old target of six.\<close>

theorem parallel_copy_any_schedule_witness:
  "\<exists>w'. in_parallel local_ends [1, 2, 0, 1, 1, 2] \<lparr>sp_source = disk_url ''/a'', sp_target = disk_url ''/b'', sp_workers = 2, sp_size = 5\<rparr>
      2 None True (two_files [1, 2, 3, 4, 5] [9, 9, 9, 9, 9, 9]) = Some (Inr 5, w') \<and> os_img (disk_url ''/b'') w' = [1, 2, 3, 4, 5]"
  using parallel_copy_any_schedule [OF local.byte_ends_axioms [of "disk_url ''/a''" "disk_url ''/b''" "[1, 2, 3, 4, 5]"],
      of "two_files [1, 2, 3, 4, 5] [9, 9, 9, 9, 9, 9]" None 2
        "\<lparr>sp_source = disk_url ''/a'', sp_target = disk_url ''/b'', sp_workers = 2, sp_size = 5\<rparr>" "[1, 2, 0, 1, 1, 2]"]
    local.ok_ready [OF two_files_ok(1)]
  by (auto simp: discreet_def)

end
