(* ===== verification/Copy_Stream.thy ===== *)
theory Copy_Stream
  imports Copy_Parallel
begin

text \<open>
  A copy as one stream: the pump, with and without the thread that reads ahead, and the resumption of an
  interrupted copy. Whatever order the reading thread and the pump take turns in, neither waits for
  ever, the pieces are written and digested in order, and nothing is lost between them.
\<close>

fun pieces :: "item list \<Rightarrow> bytes list" where
  "pieces [] = []"
| "pieces (Piece d # is) = d # pieces is"
| "pieces (_ # is) = pieces is"

lemma pieces_append [simp]: "pieces (xs @ ys) = pieces xs @ pieces ys"
  by (induction xs rule: pieces.induct) simp_all

lemma pieces_Piece [simp]: "pieces (map Piece ds) = ds"
  by (induction ds) simp_all

text \<open>What was read and is not yet written, in the order it will be.\<close>

definition in_hand :: "'w ahead \<Rightarrow> bytes list" where
  "in_hand st = (case ah_pump st of CWrite d \<Rightarrow> [d] | _ \<Rightarrow> []) @ pieces (ah_queue st)
     @ (case ah_reader st of ROffer (Piece d) \<Rightarrow> [d] | _ \<Rightarrow> [])"

definition fed :: "digest option \<Rightarrow> bytes list \<Rightarrow> digest option" where
  "fed dg ds = map_option (\<lambda>h. foldl (\<lambda>h d. dg_update d h) h ds) dg"

lemma fed_simps [simp]: "fed dg [] = dg" "digested d (fed dg ds) = fed dg (ds @ [d])" "fed (digested d dg) ds = fed dg (d # ds)"
  by (cases dg; simp add: fed_def digested_def)+

text \<open>The steps left at most; \<open>n\<close> is the number of bytes not read yet.\<close>

definition item_rank :: "item \<Rightarrow> nat" where
  "item_rank i = (case i of Piece d \<Rightarrow> 4 | _ \<Rightarrow> 1)"

definition reader_rank :: "nat \<Rightarrow> rphase \<Rightarrow> nat" where
  "reader_rank n ph = (case ph of RFill \<Rightarrow> 6 * n + 3 | ROffer i \<Rightarrow> 6 * n + 8 | RLast \<Rightarrow> 2 | RDone \<Rightarrow> 0)"

definition pump_rank :: "cphase \<Rightarrow> nat" where
  "pump_rank ph = (case ph of CGet \<Rightarrow> 3 | CWrite d \<Rightarrow> 6 | CReport \<Rightarrow> 5 | CExit res \<Rightarrow> 2 | CDrain res \<Rightarrow> 1 | CDone res \<Rightarrow> 0)"

context byte_ends
begin

lemma fill_part:
  assumes "ok w" "posn w h = Some (False, p)" "0 < chunk"
  shows "\<exists>d w'. fill E h chunk w = Some (Inr d, w') \<and> ok w' \<and> part_at S p chunk d
    \<and> posn w' = (posn w)(h \<mapsto> (False, p + int (length d))) \<and> img w' = img w"
  using reading [OF assms] filling [OF assms] by (simp add: fill_def)

lemma report_quiet:
  assumes "discreet ok img posn progress" "ok w"
  shows "\<exists>w'. report progress n tot w = Some (Inr (), w') \<and> ok w' \<and> posn w' = posn w \<and> img w' = img w"
  using assms by (cases progress) (auto simp: report_def discreet_def retF_def)

subsection \<open>Reading ahead\<close>

text \<open>
  \<open>w0\<close> is the world the pump began in, \<open>r\<close> and \<open>t\<close> its file objects there, \<open>written\<close> the pieces that
  have reached the target.
\<close>

definition began :: "'w \<Rightarrow> 'h \<Rightarrow> 'h \<Rightarrow> nat \<Rightarrow> nat \<Rightarrow> bool" where
  "began w0 r t a b \<longleftrightarrow> ok w0 \<and> posn w0 r = Some (False, int a) \<and> posn w0 t = Some (True, int b)"

definition flows :: "'w \<Rightarrow> 'h \<Rightarrow> 'h \<Rightarrow> nat \<Rightarrow> nat \<Rightarrow> 'w \<Rightarrow> bytes \<Rightarrow> bytes \<Rightarrow> bool" where
  "flows w0 r t a b w ds hand \<longleftrightarrow> ok w
     \<and> posn w = (posn w0)(r \<mapsto> (False, int (a + length ds + length hand)), t \<mapsto> (True, int (b + length ds)))
     \<and> img w = patch b ds (img w0) \<and> ds @ hand = take (length ds + length hand) (drop a S)
     \<and> (length ds + length hand \<le> length S - a)"

definition ahead_ok :: "'w \<Rightarrow> 'h \<Rightarrow> 'h \<Rightarrow> nat \<Rightarrow> nat \<Rightarrow> digest option \<Rightarrow> 'w ahead \<Rightarrow> bytes list \<Rightarrow> bool" where
  "ahead_ok w0 r t a b dg st written \<longleftrightarrow>
     flows w0 r t a b (ah_world st) (concat written) (concat (in_hand st))
     \<and> ah_sent st = int (length (concat written)) \<and> ah_digest st = fed dg written
     \<and> (case ah_reader st of RFill \<Rightarrow> True | ROffer i \<Rightarrow> (\<exists>d. i = Piece d)
        | _ \<Rightarrow> concat written @ concat (in_hand st) = drop a S)
     \<and> (case ah_pump st of
          CExit res \<Rightarrow> ah_reader st = RDone \<and> ah_queue st = [] \<and> res = Inr (ah_sent st)
        | CDrain res \<Rightarrow> ah_reader st = RDone \<and> ah_queue st = [] \<and> res = Inr (ah_sent st)
        | CDone res \<Rightarrow> ah_reader st = RDone \<and> ah_queue st = [] \<and> res = Inr (ah_sent st)
        | _ \<Rightarrow> \<not> ah_stop st \<and> (\<exists>ds. ah_queue st = map Piece ds @ (if ah_reader st = RDone then [Last] else [])))"

definition ahead_rank :: "nat \<Rightarrow> 'w ahead \<Rightarrow> bytes list \<Rightarrow> nat" where
  "ahead_rank a st written = reader_rank (length S - a - length (concat written @ concat (in_hand st))) (ah_reader st)
     + sum_list (map item_rank (ah_queue st)) + pump_rank (ah_pump st)"

lemma flows_read:
  assumes fl: "flows w0 r t a b w ds hand" and rt: "began w0 r t a b" and chunk: "0 < chunk"
  shows "\<exists>d w'. fill E r chunk w = Some (Inr d, w') \<and> flows w0 r t a b w' ds (hand @ d)
    \<and> (d = [] \<longrightarrow> ds @ hand = drop a S)"
proof -
  have ne: "r \<noteq> t" using rt by (auto simp: began_def)
  obtain d w' where d: "fill E r chunk w = Some (Inr d, w')" "ok w'" "part_at S (int (a + length ds + length hand)) chunk d"
    "posn w' = (posn w)(r \<mapsto> (False, int (a + length ds + length hand) + int (length d)))" "img w' = img w"
    using fill_part [of w r "int (a + length ds + length hand)" chunk] fl ne chunk by (auto simp: flows_def)
  have part: "d = take (length d) (drop (a + length ds + length hand) S)" and empty: "d = [] \<Longrightarrow> length S \<le> a + length ds + length hand"
    using d(3) by (simp_all add: part_at_def del: of_nat_add)
  have "ds @ hand @ d = take (length ds + length (hand @ d)) (drop a S)"
  proof -
    have "take (length ds + length (hand @ d)) (drop a S) = take (length ds + length hand) (drop a S) @ take (length d) (drop (length ds + length hand) (drop a S))"
      using take_add [of "length ds + length hand" "length d" "drop a S"] by (simp add: add.assoc)
    then show ?thesis using fl part by (simp add: flows_def add.assoc add.commute add.left_commute)
  qed
  moreover have "length d \<le> length S - (a + length ds + length hand)" using arg_cong [OF part, of length] by simp
  ultimately have "flows w0 r t a b w' ds (hand @ d)"
    using fl d ne by (auto simp: flows_def fun_eq_iff)
  moreover have "ds @ hand = drop a S" if "d = []"
    using fl empty [OF that] by (auto simp: flows_def)
  ultimately show ?thesis using d(1) by blast
qed

lemma flows_write:
  assumes fl: "flows w0 r t a b w ds (d @ hand)" and rt: "began w0 r t a b"
  shows "\<exists>n w'. en_write E t d w = Some (Inr n, w') \<and> flows w0 r t a b w' (ds @ d) hand"
proof -
  have "posn w t = Some (True, int (b + length ds))" using fl by (simp add: flows_def)
  from writing [OF _ this, of d] fl rt show ?thesis
    by (auto simp: flows_def began_def fun_eq_iff patch_append nat_int_add add.assoc add.commute add.left_commute)
qed

lemma flows_report:
  assumes "flows w0 r t a b w ds hand" "discreet ok img posn progress"
  shows "\<exists>w'. report progress n tot w = Some (Inr (), w') \<and> flows w0 r t a b w' ds hand"
  using report_quiet [OF assms(2), of w n tot] assms(1) by (auto simp: flows_def)

lemma reader_ahead_ok:
  assumes st: "ahead_ok w0 r t a b dg st written" and rt: "began w0 r t a b" and chunk: "0 < chunk"
    and go: "reader_enabled depth st"
  shows "\<exists>st'. reader_step E r chunk st = Some st' \<and> ahead_ok w0 r t a b dg st' written \<and> ahead_rank a st' written < ahead_rank a st written"
proof (cases "ah_reader st")
  case RFill
  then obtain d w' where d: "fill E r chunk (ah_world st) = Some (Inr d, w')"
      "flows w0 r t a b w' (concat written) (concat (in_hand st) @ d)"
      "d = [] \<Longrightarrow> concat written @ concat (in_hand st) = drop a S"
    using flows_read [OF _ rt chunk, of "ah_world st" "concat written" "concat (in_hand st)"] st by (auto simp: ahead_ok_def)
  have hand: "in_hand (st\<lparr>ah_world := w', ah_reader := (if d = [] then RLast else ROffer (Piece d))\<rparr>) = in_hand st @ (if d = [] then [] else [d])"
    using RFill by (simp add: in_hand_def)
  have bound: "length (concat written) + length (concat (in_hand st) @ d) \<le> length S - a" using d(2) by (simp add: flows_def)
  let ?st = "st\<lparr>ah_world := w', ah_reader := (if d = [] then RLast else ROffer (Piece d))\<rparr>"
  have "ahead_ok w0 r t a b dg ?st written"
    unfolding ahead_ok_def hand using d RFill st by (auto simp: ahead_ok_def split: cphase.splits)
  moreover have "ahead_rank a ?st written < ahead_rank a st written"
  proof (cases "d = []")
    case True
    then show ?thesis using RFill by (simp add: ahead_rank_def reader_rank_def)
  next
    case False
    then have "0 < length d" by simp
    with bound have "6 * (length S - a - length (concat written @ concat (in_hand st @ [d]))) + 8 < 6 * (length S - a - length (concat written @ concat (in_hand st))) + 3"
      unfolding concat_append concat.simps append_Nil2 length_append by linarith
    then show ?thesis using RFill False unfolding ahead_rank_def hand by (simp add: reader_rank_def)
  qed
  ultimately show ?thesis
    using d(1) RFill by (auto simp: reader_step_def)
next
  case (ROffer i)
  then obtain e where e: "i = Piece e" "\<not> ah_stop st" using st by (auto simp: ahead_ok_def split: cphase.splits)
  then obtain ds where ds: "ah_queue st = map Piece ds" using st ROffer by (auto simp: ahead_ok_def split: cphase.splits)
  let ?st = "st\<lparr>ah_queue := map Piece ds @ [Piece e], ah_reader := RFill\<rparr>"
  have hand: "in_hand ?st = in_hand st"
    using ROffer e ds by (simp add: in_hand_def split: cphase.split)
  have "\<exists>es. map Piece ds @ [Piece e] = map Piece es" by (rule exI [of _ "ds @ [e]"]) simp
  then have "ahead_ok w0 r t a b dg ?st written"
    using st ROffer hand by (auto simp: ahead_ok_def split: cphase.splits)
  then show ?thesis
    using ROffer e hand ds by (simp add: reader_step_def ahead_rank_def reader_rank_def item_rank_def)
next
  case RLast
  then have e: "\<not> ah_stop st" using st by (auto simp: ahead_ok_def split: cphase.splits)
  obtain ds where ds: "ah_queue st = map Piece ds" using st RLast by (auto simp: ahead_ok_def split: cphase.splits)
  let ?st = "st\<lparr>ah_queue := map Piece ds @ [Last], ah_reader := RDone\<rparr>"
  have hand: "in_hand ?st = in_hand st"
    using RLast ds by (simp add: in_hand_def split: cphase.split)
  have "ahead_ok w0 r t a b dg ?st written"
    using st RLast hand by (auto simp: ahead_ok_def split: cphase.splits)
  then show ?thesis
    using RLast e hand ds by (simp add: reader_step_def ahead_rank_def reader_rank_def item_rank_def)
next
  case RDone
  then show ?thesis using go by (simp add: reader_enabled_def)
qed

lemma pump_ahead_ok:
  assumes st: "ahead_ok w0 r t a b dg st written" and rt: "began w0 r t a b" and quiet: "discreet ok img posn progress"
    and go: "pump_enabled st"
  shows "\<exists>st' written'. pump_step E t tot progress st = Some st' \<and> ahead_ok w0 r t a b dg st' written' \<and> ahead_rank a st' written' < ahead_rank a st written"
proof (cases "ah_pump st")
  case CGet
  then obtain ds where ds: "ah_queue st = map Piece ds @ (if ah_reader st = RDone then [Last] else [])" "\<not> ah_stop st"
    using st by (auto simp: ahead_ok_def)
  show ?thesis
  proof (cases ds)
    case Nil
    then have "ah_reader st = RDone" "ah_queue st = [Last]" using go CGet ds by (auto simp: pump_enabled_def split: if_splits)
    then show ?thesis
      using st CGet by (auto simp: pump_step_def ahead_ok_def ahead_rank_def pump_rank_def item_rank_def in_hand_def)
  next
    case (Cons d es)
    let ?st = "st\<lparr>ah_queue := map Piece es @ (if ah_reader st = RDone then [Last] else []), ah_pump := CWrite d\<rparr>"
    have hand: "in_hand ?st = in_hand st" using ds Cons CGet by (simp add: in_hand_def)
    have "ahead_ok w0 r t a b dg ?st written"
      using st CGet hand ds(2) by (auto simp: ahead_ok_def split: rphase.splits)
    then show ?thesis
      using CGet Cons ds hand by (auto simp: pump_step_def ahead_rank_def pump_rank_def item_rank_def)
  qed
next
  case (CWrite d)
  let ?hand = "pieces (ah_queue st) @ (case ah_reader st of ROffer (Piece d) \<Rightarrow> [d] | _ \<Rightarrow> [])"
  have hand: "in_hand st = d # ?hand" using CWrite by (simp add: in_hand_def)
  obtain n w' where w': "en_write E t d (ah_world st) = Some (Inr n, w')" "flows w0 r t a b w' (concat (written @ [d])) (concat ?hand)"
    using flows_write [OF _ rt, of "ah_world st" "concat written" d "concat ?hand"] st hand by (auto simp: ahead_ok_def)
  let ?st = "st\<lparr>ah_world := w', ah_digest := digested d (ah_digest st), ah_sent := ah_sent st + int (length d), ah_pump := CReport\<rparr>"
  have hand': "in_hand ?st = ?hand" by (simp add: in_hand_def)
  have "ahead_ok w0 r t a b dg ?st (written @ [d])"
    unfolding ahead_ok_def hand' using st CWrite hand w'(2) by (auto simp: ahead_ok_def split: rphase.splits)
  moreover have "ahead_rank a ?st (written @ [d]) < ahead_rank a st written"
    using CWrite hand unfolding ahead_rank_def hand' by (simp add: pump_rank_def)
  ultimately show ?thesis
    using CWrite w'(1) by (auto simp: pump_step_def)
next
  case CReport
  obtain w' where w': "report progress (ah_sent st) tot (ah_world st) = Some (Inr (), w')"
      "flows w0 r t a b w' (concat written) (concat (in_hand st))"
    using flows_report [OF _ quiet, of w0 r t a b "ah_world st" "concat written" "concat (in_hand st)" "ah_sent st" tot] st
    unfolding ahead_ok_def by blast
  have hand: "in_hand (st\<lparr>ah_world := w', ah_pump := CGet\<rparr>) = in_hand st" using CReport by (simp add: in_hand_def)
  have "ahead_ok w0 r t a b dg (st\<lparr>ah_world := w', ah_pump := CGet\<rparr>) written"
    unfolding ahead_ok_def hand using w' CReport st by (simp add: ahead_ok_def)
  then show ?thesis
    using w'(1) CReport hand by (auto simp: pump_step_def ahead_rank_def pump_rank_def)
next
  case (CExit res)
  then show ?thesis using st
    by (intro exI [of _ "st\<lparr>ah_stop := True, ah_pump := CDrain res\<rparr>"] exI [of _ written])
       (auto simp: pump_step_def ahead_ok_def ahead_rank_def pump_rank_def in_hand_def)
next
  case (CDrain res)
  then show ?thesis using st
    by (intro exI [of _ "st\<lparr>ah_pump := CDone res\<rparr>"] exI [of _ written])
       (auto simp: pump_step_def ahead_ok_def ahead_rank_def pump_rank_def in_hand_def)
next
  case (CDone res)
  then show ?thesis using go by (simp add: pump_enabled_def)
qed

lemma ahead_finishes:
  assumes rt: "began w0 r t a b" and chunk: "0 < chunk" and quiet: "discreet ok img posn progress" and depth: "0 < depth"
  shows "ahead_ok w0 r t a b dg st written \<Longrightarrow> \<exists>st' written'. ahead_run E r t tot chunk progress depth sched st = Some st'
    \<and> ahead_ok w0 r t a b dg st' written' \<and> (\<exists>res. ah_pump st' = CDone res)"
proof (induction "ahead_rank a st written" arbitrary: st written sched rule: less_induct)
  case less
  show ?case
  proof (cases "movers depth st = []")
    case True
    then have "\<not> reader_enabled depth st" "\<not> pump_enabled st" by (auto simp: movers_def split: if_splits)
    then have "\<exists>res. ah_pump st = CDone res"
      using less.prems depth
      by (auto simp: ahead_ok_def reader_enabled_def pump_enabled_def has_room_def split: cphase.splits rphase.splits if_splits)
    then show ?thesis using True less.prems by (auto simp: ahead_run.simps [of _ _ _ _ _ _ _ _ st])
  next
    case False
    then have "pick sched (movers depth st) \<in> set (movers depth st)" by (rule pick_in)
    have "\<exists>st1 written1. (if pick sched (movers depth st) then reader_step E r chunk st else pump_step E t tot progress st) = Some st1
        \<and> ahead_ok w0 r t a b dg st1 written1 \<and> ahead_rank a st1 written1 < ahead_rank a st written"
    proof (cases "pick sched (movers depth st)")
      case True
      then have "reader_enabled depth st" using \<open>pick sched (movers depth st) \<in> set (movers depth st)\<close> by (auto simp: movers_def split: if_splits)
      with reader_ahead_ok [OF less.prems rt chunk this] True show ?thesis by auto
    next
      case False
      then have "pump_enabled st" using \<open>pick sched (movers depth st) \<in> set (movers depth st)\<close> by (auto simp: movers_def split: if_splits)
      with pump_ahead_ok [OF less.prems rt quiet this] False show ?thesis by auto
    qed
    then show ?thesis
      using less.hyps False by (fastforce simp: ahead_run.simps [of _ _ _ _ _ _ _ _ st])
  qed
qed

lemma pump_ahead_copies:
  assumes rt: "began w0 r t a b" and "0 < chunk" "discreet ok img posn progress" "0 < depth"
  shows "\<exists>written w'. pump_ahead E sched r t tot chunk progress dg depth w0 = Some (Inr (int (length S - a), fed dg written), w')
    \<and> concat written = drop a S \<and> flows w0 r t a b w' (drop a S) []"
proof -
  let ?st = "\<lparr>ah_world = w0, ah_queue = [], ah_stop = False, ah_reader = RFill, ah_pump = CGet, ah_sent = 0, ah_digest = dg\<rparr>"
  have "ahead_ok w0 r t a b dg ?st []"
    using rt by (auto simp: ahead_ok_def in_hand_def flows_def began_def)
  from ahead_finishes [OF assms this] obtain st' written res where
    "ahead_run E r t tot chunk progress depth sched ?st = Some st'" "ahead_ok w0 r t a b dg st' written" "ah_pump st' = CDone res"
    by metis
  then show ?thesis
    by (auto simp: pump_ahead_def ahead_ok_def in_hand_def intro!: exI [of _ written])
qed

subsection \<open>In turn\<close>

lemma pump_loop_copies:
  assumes rt: "began w0 r t a b" and chunk: "0 < chunk" and quiet: "discreet ok img posn progress"
  shows "flows w0 r t a b w ds [] \<Longrightarrow> \<exists>written w'.
    pump_loop E r t tot chunk progress dg sent w = Some (Inr (sent + int (length S - a - length ds), fed dg written), w')
    \<and> ds @ concat written = drop a S \<and> flows w0 r t a b w' (drop a S) []"
proof (induction "length S - a - length ds" arbitrary: ds w dg sent rule: less_induct)
  case less
  obtain d w1 where d: "fill E r chunk w = Some (Inr d, w1)" "flows w0 r t a b w1 ds d" "d = [] \<Longrightarrow> ds = drop a S"
    using flows_read [OF less.prems rt chunk] by auto
  show ?case
  proof (cases "d = []")
    case True
    then show ?thesis using d by (auto simp: pump_loop.simps [of _ _ _ _ _ _ _ _ w] bindF_def intro!: exI [of _ "[]"])
  next
    case False
    obtain n w2 where w2: "en_write E t d w1 = Some (Inr n, w2)" "flows w0 r t a b w2 (ds @ d) []"
      using flows_write [OF _ rt, of w1 ds d "[]"] d(2) by auto
    obtain w3 where w3: "report progress (sent + int (length d)) tot w2 = Some (Inr (), w3)" "flows w0 r t a b w3 (ds @ d) []"
      using flows_report [OF w2(2) quiet] by blast
    have bound: "length ds + length d \<le> length S - a" "0 < length d" using d(2) False by (auto simp: flows_def)
    then have "length S - a - length (ds @ d) < length S - a - length ds" unfolding length_append by linarith
    from less.hyps [OF this w3(2), of "digested d dg" "sent + int (length d)"] obtain written w' where
      run: "pump_loop E r t tot chunk progress (digested d dg) (sent + int (length d)) w3
         = Some (Inr (sent + int (length d) + int (length S - a - length (ds @ d)), fed (digested d dg) written), w')"
      and fin: "(ds @ d) @ concat written = drop a S" "flows w0 r t a b w' (drop a S) []"
      by blast
    have "int (length d) + int (length S - a - length (ds @ d)) = int (length S - a - length ds)"
      using bound unfolding length_append by linarith
    with run have "pump_loop E r t tot chunk progress (digested d dg) (sent + int (length d)) w3
        = Some (Inr (sent + int (length S - a - length ds), fed dg (d # written)), w')"
      by (simp only: add.assoc fed_simps)
    then show ?thesis
      using d(1) False w2(1) w3(1) fin
      by (auto simp: pump_loop.simps [of _ _ _ _ _ _ _ _ w] bindF_def intro!: exI [of _ "d # written"])
  qed
qed

lemma pump_copies:
  assumes rt: "began w0 r t a b" and "0 < chunk" "discreet ok img posn progress"
  shows "\<exists>written w'. copy_pump E sched r t tot chunk progress dg depth w0 = Some (Inr (int (length S - a), fed dg written), w')
    \<and> concat written = drop a S \<and> flows w0 r t a b w' (drop a S) []"
proof (cases "1 < depth")
  case True
  then show ?thesis using pump_ahead_copies [OF assms, of depth sched tot dg] by (simp add: copy_pump_def)
next
  case False
  have "flows w0 r t a b w0 [] []" using rt by (auto simp: flows_def began_def)
  from pump_loop_copies [OF assms this, of tot dg 0] False show ?thesis by (simp add: copy_pump_def)
qed

subsection \<open>Whole streams\<close>

lemma unwind_both:
  assumes "ok w" "posn w = (before(r \<mapsto> x))(t \<mapsto> y)" "r \<noteq> t"
  shows "\<exists>w'. unwind (en_close E) [t, r] res w = Some (res, w') \<and> ok w' \<and> posn w' = before(r := None, t := None) \<and> img w' = img w"
proof -
  obtain b p b' q where xy: "x = (b, p)" "y = (b', q)" by (cases x, cases y)
  obtain w1 where w1: "en_close E t w = Some (Inr (), w1)" "ok w1" "posn w1 = (posn w)(t := None)" "img w1 = img w"
    using closing [OF assms(1), of t b' q] assms(2) xy by auto
  moreover have "posn w1 r = Some (b, p)" using w1(3) assms(2,3) xy by simp
  from closing [OF w1(2) this] obtain w2 where "en_close E r w1 = Some (Inr (), w2)" "ok w2" "posn w2 = (posn w1)(r := None)" "img w2 = img w1"
    by blast
  ultimately show ?thesis using assms(2,3) by (auto simp: fun_eq_iff)
qed

lemma discreet_shifted: "discreet ok img posn progress \<Longrightarrow> discreet ok img posn (shifted progress n)"
  by (auto simp: discreet_def shifted_def)

lemma stream_finishes:
  assumes rt: "began w1 r t a b" and chunk: "0 < chunk" and quiet: "discreet ok img posn progress" and same: "(posn w1)(r := None, t := None) = before"
  shows "\<exists>written w'. (case on_world (copy_pump E sched r t tot chunk progress dg depth) (w1, [t, r]) of None \<Rightarrow> None
      | Some (res, w, hs) \<Rightarrow> unwind (en_close E) hs res w) = Some (Inr (int (length S - a), fed dg written), w')
    \<and> concat written = drop a S \<and> ok w' \<and> img w' = patch b (drop a S) (img w1) \<and> posn w' = before"
proof -
  obtain written w2 where w2: "copy_pump E sched r t tot chunk progress dg depth w1 = Some (Inr (int (length S - a), fed dg written), w2)"
      "concat written = drop a S" "flows w1 r t a b w2 (drop a S) []"
    using pump_copies [OF rt chunk quiet] by blast
  have "r \<noteq> t" using rt by (auto simp: began_def)
  with unwind_both [of w2 "posn w1" r _ t] w2(3) obtain w' where
    "unwind (en_close E) [t, r] (Inr (int (length S - a), fed dg written)) w2 = Some (Inr (int (length S - a), fed dg written), w')"
    "ok w'" "posn w' = before" "img w' = img w2"
    unfolding flows_def same by blast
  then show ?thesis using w2 by (auto simp: on_world_def flows_def intro!: exI [of _ written])
qed

lemma fresh_stream_copies:
  assumes chunk: "0 < the_chunk cfg opt" and quiet: "discreet ok img posn (co_progress opt)" and over: "co_overwrite opt" and w: "ready w"
  shows "\<exists>written w'. single_stream E cfg sched (Target src) (Target dst) opt None dg w = Some (Inr (int (length S), fed dg written), w')
    \<and> concat written = S \<and> ok w' \<and> img w' = S \<and> posn w' = posn w"
proof -
  obtain r w1 where w1: "en_open E src (lit ''rb'') w = Some (Inr r, w1)" "ready w1" "posn w r = None" "posn w1 = (posn w)(r \<mapsto> (False, 0))"
    using open_source [OF w] by blast
  obtain w2 where w2: "en_size E r src w1 = Some (Inr (int (length S)), w2)" "ready w2" "posn w2 = posn w1"
    using size_source [OF w1(2), of r 0] w1(4) by auto
  obtain t w3 where w3: "en_open E dst (lit ''wb'') w2 = Some (Inr t, w3)" "ok w3" "posn w2 t = None" "posn w3 = (posn w2)(t \<mapsto> (True, 0))" "img w3 = []"
    using create [OF w2(2)] by blast
  have ne: "r \<noteq> t" using w1(4) w2(3) w3(3) by auto
  have "began w3 r t 0 0" using w3 w2 w1 ne by (simp add: began_def)
  moreover have "(posn w3)(r := None, t := None) = posn w" using w1(3,4) w2(3) w3(3,4) ne by (auto simp: fun_eq_iff)
  ultimately obtain written w' where "(case on_world (copy_pump E sched r t (Some (int (length S))) (the_chunk cfg opt) (co_progress opt) dg (cc_in_flight cfg)) (w3, [t, r]) of None \<Rightarrow> None
      | Some (res, w, hs) \<Rightarrow> unwind (en_close E) hs res w) = Some (Inr (int (length S), fed dg written), w')"
      "concat written = S" "ok w'" "img w' = patch 0 S (img w3)" "posn w' = posn w"
    using stream_finishes [OF _ chunk quiet, of w3 r t 0 0 "posn w" sched "Some (int (length S))" dg "cc_in_flight cfg"] by auto
  moreover have "patch 0 S [] = S" by (simp add: patch_def)
  ultimately show ?thesis
    using w1(1) w2(1) w3(1,5) schemes [OF w] over
    by (auto simp: single_stream_def with_stack_def copy_reader_def reader_open_def reader_size_def writer_def bindF_def retF_def on_world_def enter_context_def
        intro!: exI [of _ written])
qed

lemma resumed_stream_copies:
  assumes chunk: "0 < the_chunk cfg opt" and quiet: "discreet ok img posn (co_progress opt)" and w: "ok w"
    and plan: "rp_target plan = dst" "rp_offset plan = int n" and part: "img w = take n S" "n \<le> length S"
  shows "\<exists>written w'. single_stream E cfg sched (Target src) (Target dst) opt (Some plan) dg w = Some (Inr (int (length S - n), fed dg written), w')
    \<and> concat written = drop n S \<and> ok w' \<and> img w' = S \<and> posn w' = posn w"
proof -
  obtain r w1 where w1: "en_open E src (lit ''rb'') w = Some (Inr r, w1)" "ok w1" "posn w r = None" "posn w1 = (posn w)(r \<mapsto> (False, 0))" "img w1 = img w"
    using open_source [OF ok_ready [OF w]] w by blast
  obtain w2 where w2: "en_size E r src w1 = Some (Inr (int (length S)), w2)" "ok w2" "posn w2 = posn w1" "img w2 = img w1"
    using size_source [OF ok_ready [OF w1(2)], of r 0] w1(2,4) by auto
  obtain m w3 where w3: "en_seek E r (int n) w2 = Some (Inr m, w3)" "ok w3" "posn w3 = (posn w2)(r \<mapsto> (False, int n))" "img w3 = img w2"
    using seeking [OF w2(2), of r False 0 "int n"] w1(4) w2(3) by auto
  obtain t w4 where w4: "en_open E dst (lit ''r+b'') w3 = Some (Inr t, w4)" "ok w4" "posn w3 t = None" "posn w4 = (posn w3)(t \<mapsto> (True, 0))" "img w4 = img w3"
    using open_target [OF w3(2)] by blast
  obtain m' w5 where w5: "en_seek E t (int n) w4 = Some (Inr m', w5)" "ok w5" "posn w5 = (posn w4)(t \<mapsto> (True, int n))" "img w5 = img w4"
    using seeking [OF w4(2), of t True 0 "int n"] w4(4) by auto
  have ne: "r \<noteq> t" using w3(3) w4(3) by auto
  have "began w5 r t n n" using w5 w4 w3 ne by (simp add: began_def)
  moreover have "(posn w5)(r := None, t := None) = posn w" using w1(3,4) w2(3) w3(3) w4(3,4) w5(3) ne by (auto simp: fun_eq_iff)
  ultimately obtain written w' where "(case on_world (copy_pump E sched r t (Some (int (length S))) (the_chunk cfg opt) (shifted (co_progress opt) (int n)) dg (cc_in_flight cfg)) (w5, [t, r]) of None \<Rightarrow> None
      | Some (res, w, hs) \<Rightarrow> unwind (en_close E) hs res w) = Some (Inr (int (length S - n), fed dg written), w')"
      "concat written = drop n S" "ok w'" "img w' = patch n (drop n S) (img w5)" "posn w' = posn w"
    using stream_finishes [OF _ chunk discreet_shifted [OF quiet, of "int n"], of w5 r t n n "posn w" sched "Some (int (length S))" dg "cc_in_flight cfg"] by auto
  moreover have "patch n (drop n S) (take n S) = S" using part(2) by (auto simp: patch_def)
  moreover have "img w5 = take n S" using w5(4) w4(5) w3(4) w2(4) w1(5) part by simp
  ultimately show ?thesis
    using w1(1) w2(1) w3(1) w4(1) w5(1) plan schemes [OF ok_ready [OF w]]
    by (auto simp: single_stream_def with_stack_def copy_reader_def reader_open_def reader_size_def resumer_def resumer_open_def bindF_def retF_def on_world_def
        enter_context_def intro!: exI [of _ written])
qed

end

section \<open>Property\<close>

text \<open>What an interrupted copy left to resume: the first bytes of the source, as many as the plan says.\<close>

definition resumes_from :: "('w \<Rightarrow> bool) \<Rightarrow> ('w \<Rightarrow> bytes) \<Rightarrow> url \<Rightarrow> bytes \<Rightarrow> 'w \<Rightarrow> resume_plan option \<Rightarrow> nat \<Rightarrow> bool" where
  "resumes_from ok img dst S w resuming n \<longleftrightarrow>
     (case resuming of None \<Rightarrow> n = 0
      | Some plan \<Rightarrow> rp_target plan = dst \<and> rp_offset plan = int n \<and> ok w \<and> img w = take n S \<and> n \<le> length S)"

text \<open>
  C15. A copy in one stream, whole or resumed, completes the target. Between endpoints that read and
  write as promised, with any window of chunks read ahead and in every order in which the reading
  thread and the pump take turns, the copy returns: the thread ends, the target is the source, a
  resumed copy keeps the part that was there, the count is the number of bytes moved, the digest
  is that of exactly those bytes in order, and both file objects are closed.
\<close>

theorem stream_copy_completes:
  assumes "byte_ends E src dst S ready ok img posn" "ready w" "discreet ok img posn (co_progress opt)" "0 < the_chunk cfg opt"
    "co_overwrite opt" "accel_ok accel" "new_digest accel name = Inr h" "resumes_from ok img dst S w resuming n"
  shows "\<exists>w'. single_stream E cfg sched (Target src) (Target dst) opt resuming (Some h) w
      = Some (Inr (int (length S - n), Some (dg_update (drop n S) h)), w')
    \<and> img w' = S \<and> posn w' = posn w"
proof -
  have "\<exists>written w'. single_stream E cfg sched (Target src) (Target dst) opt resuming (Some h) w = Some (Inr (int (length S - n), fed (Some h) written), w')
      \<and> concat written = drop n S \<and> ok w' \<and> img w' = S \<and> posn w' = posn w"
  proof (cases resuming)
    case None
    then show ?thesis using byte_ends.fresh_stream_copies [OF assms(1,4,3,5,2)] assms(8) by (simp add: resumes_from_def)
  next
    case (Some plan)
    then show ?thesis using byte_ends.resumed_stream_copies [OF assms(1,4,3)] assms(8) by (simp add: resumes_from_def)
  qed
  then show ?thesis using digest_of_pieces [OF assms(6,7)] by (auto simp: fed_def)
qed

definition stream_config :: copy_config where
  "stream_config = \<lparr>cc_chunk_size = 2, cc_parallel_chunks = 1, cc_in_flight = 3, cc_verify_checksums = True,
     cc_preferred_checksum = lit ''md5'', cc_low = lower, cc_accel = None, cc_hash = (\<lambda>_ d. d)\<rparr>"

definition stream_options :: "os copy_options" where
  "stream_options = \<lparr>co_chunk_size = None, co_verify = None, co_algorithm = [], co_overwrite = True, co_progress = None,
     co_dry_run = False, co_remove_source = False, co_resume = True\<rparr>"

lemma md5_digest: "new_digest None (lit ''md5'') = Inr (HashlibChecksum (lit ''md5'') [])"
proof -
  have "algorithm_key (lit ''md5'') = lit ''md5''" "lit ''md5'' \<in> set HASHLIB" by code_simp+
  moreover have "list_all (\<lambda>s. lit ''md5'' \<noteq> lit s) [''adler32'', ''crc32'', ''crc32c'', ''crc64'', ''crc64nvme'']" by code_simp
  ultimately show ?thesis by (simp add: new_digest_def Let_def NATIVE_def)
qed

text \<open>Two of five bytes are there; three more are read ahead, digested and appended.\<close>

theorem stream_copy_completes_witness:
  "\<exists>w'. single_stream local_ends stream_config [0, 1, 0, 0, 1] (Target (disk_url ''/a'')) (Target (disk_url ''/b'')) stream_options
      (Some \<lparr>rp_source = disk_url ''/a'', rp_target = disk_url ''/b'', rp_offset = 2\<rparr>) (Some (HashlibChecksum (lit ''md5'') []))
      (two_files [1, 2, 3, 4, 5] [1, 2]) = Some (Inr (3, Some (HashlibChecksum (lit ''md5'') [3, 4, 5])), w')
    \<and> os_img (disk_url ''/b'') w' = [1, 2, 3, 4, 5]"
  using stream_copy_completes [OF local.byte_ends_axioms [of "disk_url ''/a''" "disk_url ''/b''" "[1, 2, 3, 4, 5]"],
      of "two_files [1, 2, 3, 4, 5] [1, 2]" stream_options stream_config None "lit ''md5''" "HashlibChecksum (lit ''md5'') []"
        "Some \<lparr>rp_source = disk_url ''/a'', rp_target = disk_url ''/b'', rp_offset = 2\<rparr>" 2 "[0, 1, 0, 0, 1]"]
    local.ok_ready [OF two_files_ok(1)] two_files_ok md5_digest
  by (auto simp: discreet_def stream_options_def stream_config_def the_chunk_def accel_ok_def resumes_from_def)

end
