(* ===== verification/Copy_Tpc.thy ===== *)
theory Copy_Tpc
  imports Copy_Engine Router_Properties
begin

text \<open>
  Server-side third-party copies, \<^verbatim>\<open>copy/tpc.py\<close>: the opaque data that tells both servers of each other, and the rendezvous
  over three routers, the source's, the destination's and the one pinned to the source's server. A copy
  between two HTTP endpoints is an argument; the key is what \<^verbatim>\<open>secrets.token_hex\<close> returned; a timeout is part of the
  configuration of the sessions. The second part shows in which order requests are answered (C34).
\<close>

section \<open>Opaque data\<close>

fun joined_by :: "nat \<Rightarrow> str list \<Rightarrow> str" where
  "joined_by c [] = []"
| "joined_by c [p] = p"
| "joined_by c (p # ps) = p @ c # joined_by c ps"

definition dst_opaque :: "str \<Rightarrow> url \<Rightarrow> str \<Rightarrow> int \<Rightarrow> str \<Rightarrow> str" where
  "dst_opaque key src src_endpoint size' token_mode =
     joined_by 38
       ([lit ''tpc.key='' @ key, lit ''tpc.src='' @ src_endpoint, lit ''tpc.lfn='' @ u_path src,
         lit ''tpc.dlg='' @ u_host src @ 58 # lit (show_int (u_port src)),
         lit ''tpc.spr=root'', lit ''tpc.tpr=root'', lit ''tpc.dlgon=0'']
        @ (if size' \<ge> 0 then [lit ''oss.asize='' @ lit (show_int size')] else [])
        @ [lit ''tpc.stage=copy'']
        @ (if token_mode \<noteq> [] then [lit ''tpc.token_mode='' @ token_mode] else []))"

definition src_opaque :: "str \<Rightarrow> str \<Rightarrow> str \<Rightarrow> str" where
  "src_opaque key dst_host token_mode =
     joined_by 38
       ([lit ''tpc.key='' @ key, lit ''tpc.dst='' @ dst_host, lit ''tpc.stage=copy'']
        @ (if token_mode \<noteq> [] then [lit ''tpc.token_mode='' @ token_mode] else []))"

section \<open>The rendezvous\<close>

record ('s, 'w) tpc =
  tp_src :: "'s router"
  tp_dst :: "'s router"
  tp_pin :: "'s router"
  tp_pool :: "'s pool"
  tp_world :: 'w

type_synonym ('s, 'w, 'a) tpc_op = "(('s, 'w) tpc, 'a) comp"

definition on_src :: "('s, 'w, 'a) nop \<Rightarrow> ('s, 'w, 'a) tpc_op" where
  "on_src m st =
     (case m \<lparr>rs_router = tp_src st, rs_pool = tp_pool st, rs_world = tp_world st\<rparr> of
        None \<Rightarrow> None
      | Some (r, rs) \<Rightarrow> Some (r, st\<lparr>tp_src := rs_router rs, tp_pool := rs_pool rs, tp_world := rs_world rs\<rparr>))"

definition on_dst :: "('s, 'w, 'a) nop \<Rightarrow> ('s, 'w, 'a) tpc_op" where
  "on_dst m st =
     (case m \<lparr>rs_router = tp_dst st, rs_pool = tp_pool st, rs_world = tp_world st\<rparr> of
        None \<Rightarrow> None
      | Some (r, rs) \<Rightarrow> Some (r, st\<lparr>tp_dst := rs_router rs, tp_pool := rs_pool rs, tp_world := rs_world rs\<rparr>))"

definition on_pin :: "('s, 'w, 'a) nop \<Rightarrow> ('s, 'w, 'a) tpc_op" where
  "on_pin m st =
     (case m \<lparr>rs_router = tp_pin st, rs_pool = tp_pool st, rs_world = tp_world st\<rparr> of
        None \<Rightarrow> None
      | Some (r, rs) \<Rightarrow> Some (r, st\<lparr>tp_pin := rs_router rs, tp_pool := rs_pool rs, tp_world := rs_world rs\<rparr>))"

text \<open>\<^verbatim>\<open>try: m finally: f\<close>; what \<open>f\<close> raises replaces what \<open>m\<close> did.\<close>

definition finallyF :: "('st, 'a) comp \<Rightarrow> ('st, unit) comp \<Rightarrow> ('st, 'a) comp" where
  "finallyF m f st =
     (case m st of
        None \<Rightarrow> None
      | Some (r, st1) \<Rightarrow>
          (case f st1 of None \<Rightarrow> None | Some (Inl x, st2) \<Rightarrow> Some (Inl x, st2) | Some (Inr _, st2) \<Rightarrow> Some (r, st2)))"

text \<open>\<^verbatim>\<open>_quietly\<close>.\<close>

definition quietly :: "('s, 'w) client \<Rightarrow> request \<Rightarrow> ('s, 'w, unit) nop" where
  "quietly cl req = catchF (bindF (exec cl req) (\<lambda>_. retF ())) (\<lambda>x. if is_os_error x then retF () else raiseF x)"

definition updF :: "('st \<Rightarrow> 'st) \<Rightarrow> ('st, unit) comp" where
  "updF f st = Some (Inr (), f st)"

definition TPC_MODE :: int where
  "TPC_MODE = member Access ''OWNER_READ'' OR member Access ''OWNER_WRITE''"

definition tpc_flags :: "bool \<Rightarrow> bool \<Rightarrow> int" where
  "tpc_flags overwrite posc =
     member OpenFlags ''UPDATE'' OR (if overwrite then member OpenFlags ''DELETE'' else member OpenFlags ''NEW'')
     OR (if posc then member OpenFlags ''POSC'' else 0)"

definition dst_open :: "str \<Rightarrow> url \<Rightarrow> url \<Rightarrow> str \<Rightarrow> int \<Rightarrow> bool \<Rightarrow> bool \<Rightarrow> str \<Rightarrow> request" where
  "dst_open key su du src_endpoint size' overwrite posc token_mode =
     Open (u_path du @ 63 # dst_opaque key su src_endpoint size' token_mode) (tpc_flags overwrite posc OR kXR_retstat) TPC_MODE"

definition src_open :: "str \<Rightarrow> url \<Rightarrow> url \<Rightarrow> str \<Rightarrow> request" where
  "src_open key su du token_mode = Open (u_path su @ 63 # src_opaque key (u_host du) token_mode) (member OpenFlags ''READ'') 0"

text \<open>The second and third step: arm, register the key at the source, pull, close.\<close>

definition pull :: "('s, 'w) client \<Rightarrow> str \<Rightarrow> url \<Rightarrow> url \<Rightarrow> str \<Rightarrow> bytes \<Rightarrow> ('s, 'w, unit) tpc_op" where
  "pull cl key su du token_mode handle =
     bindF (on_dst (exec cl (Sync handle))) (\<lambda>_.
     bindF (updF (\<lambda>st. st\<lparr>tp_pin := fst (pin False (tp_src st))\<rparr>)) (\<lambda>_.
     bindF (on_pin (exec cl (src_open key su du token_mode))) (\<lambda>src_result.
     bindF (liftF (parse_open (res_data src_result) (u_path su))) (\<lambda>(src_handle, _).
     bindF (finallyF (on_dst (exec cl (Sync handle))) (on_pin (quietly cl (Close src_handle)))) (\<lambda>_.
     bindF (on_dst (exec cl (Close handle))) (\<lambda>_. retF ()))))))"

definition to_destination :: "('s, 'w) client \<Rightarrow> str \<Rightarrow> url \<Rightarrow> url \<Rightarrow> str \<Rightarrow> int \<Rightarrow> bool \<Rightarrow> bool \<Rightarrow> str \<Rightarrow> ('s, 'w, unit) tpc_op" where
  "to_destination cl key su du src_endpoint size' overwrite posc token_mode =
     finallyF
       (bindF (on_dst (exec cl (dst_open key su du src_endpoint size' overwrite posc token_mode))) (\<lambda>result.
        bindF (updF (\<lambda>st. st\<lparr>tp_dst := fst (pin True (tp_dst st))\<rparr>)) (\<lambda>_.
        bindF (liftF (parse_open (res_data result) (u_path du))) (\<lambda>(handle, _).
          pull cl key su du token_mode handle))))
       (on_dst (fs_close cl))"

definition rendezvous :: "('s, 'w) client \<Rightarrow> str \<Rightarrow> url \<Rightarrow> url \<Rightarrow> bool \<Rightarrow> bool \<Rightarrow> str \<Rightarrow> ('s, 'w, int) tpc_op" where
  "rendezvous cl key su du overwrite posc token_mode =
     (let low = rc_low (fc_router (cl_cfg cl)); src_url = with_path low (lit ''/'') su; dst_url = with_path low (lit ''/'') du in
      bindF (updF (\<lambda>st. st\<lparr>tp_src := Router src_url True\<rparr>)) (\<lambda>_.
      finallyF
        (bindF (on_src (fs_stat cl src_url (u_path su) True)) (\<lambda>info.
         bindF (\<lambda>st. retF (u_host (rt_url (tp_src st)) @ 58 # lit (show_int (u_port (rt_url (tp_src st))))) st) (\<lambda>src_endpoint.
         bindF (updF (\<lambda>st. st\<lparr>tp_dst := Router dst_url True\<rparr>)) (\<lambda>_.
         bindF (to_destination cl key su du src_endpoint (st_size info) overwrite posc token_mode) (\<lambda>_.
           retF (st_size info))))))
        (on_src (fs_close cl))))"

definition third_party ::
  "('s, 'w) client \<Rightarrow> (url \<Rightarrow> url \<Rightarrow> bool \<Rightarrow> ('s, 'w, copy_result) tpc_op) \<Rightarrow> str \<Rightarrow> url \<Rightarrow> url \<Rightarrow> bool \<Rightarrow> bool \<Rightarrow> str
     \<Rightarrow> ('s, 'w, copy_result) tpc_op" where
  "third_party cl http_third_party key su du overwrite posc token_mode =
     (if is_http su \<and> is_http du then
        (if token_mode \<noteq> [] then raiseF (Raised (ValueError ''token_mode is a root:// option''))
         else http_third_party su du overwrite)
      else if \<not> is_root su \<or> \<not> is_root du then raiseF (Raised (ValueError ''third-party copy needs two endpoints of the same kind''))
      else
        bindF (rendezvous cl key su du overwrite posc token_mode) (\<lambda>size'.
        bindF (liftF (url_str su)) (\<lambda>source. bindF (liftF (url_str du)) (\<lambda>target.
          retF \<lparr>cr_source = source, cr_target = target, cr_size = size', cr_checksum = None, cr_resumed_at = 0\<rparr>))))"

section \<open>What was answered\<close>

text \<open>Sessions that keep a list of the requests they answered, over any sessions.\<close>

definition watched :: "('s, 'w) net \<Rightarrow> ('s, 'w \<times> request list) net" where
  "watched net =
     \<lparr>net_connect = (\<lambda>u (w, l). map_option (\<lambda>(r, w1). (r, w1, l)) (net_connect net u w)),
      net_execute = (\<lambda>s q (w, l). map_option (\<lambda>(r, w1). (r, w1, case r of Inl _ \<Rightarrow> l | Inr _ \<Rightarrow> l @ [q])) (net_execute net s q w)),
      net_closed = (\<lambda>s (w, l). net_closed net s w),
      net_close = (\<lambda>s (w, l). (net_close net s w, l)),
      net_clock = (\<lambda>(w, l). case net_clock net w of (t, w1) \<Rightarrow> (t, w1, l)),
      net_sleep = (\<lambda>t (w, l). (net_sleep net t w, l))\<rparr>"

interpretation watched: net_invariant "watched net" "\<lambda>w. snd w = l" for net l
  by unfold_locales (auto simp: watched_def split: prod.splits)

text \<open>A request as redirects may have changed it.\<close>

definition variant :: "request \<Rightarrow> request \<Rightarrow> bool" where
  "variant req q \<longleftrightarrow> (\<exists>tokens. q = foldl retarget req tokens)"

lemma variant_refl [simp]: "variant req req"
  unfolding variant_def by (intro exI [of _ "[]"]) simp

lemma variant_retarget: "variant req q \<Longrightarrow> variant req (retarget q token)"
  unfolding variant_def by (metis foldl_Cons foldl_Nil foldl_append)

lemma retarget_handle [simp]: "retarget (Sync h) t = Sync h" "retarget (Close h) t = Close h"
  by (simp_all add: retarget_def)

lemma variant_handle: "variant (Sync h) q \<longleftrightarrow> q = Sync h" "variant (Close h) q \<longleftrightarrow> q = Close h"
proof -
  have "foldl retarget (Sync h) ts = Sync h" "foldl retarget (Close h) ts = Close h" for ts by (induction ts) simp_all
  then show "variant (Sync h) q \<longleftrightarrow> q = Sync h" "variant (Close h) q \<longleftrightarrow> q = Close h" by (auto simp: variant_def)
qed

lemma exec_answered:
  assumes "cl_net cl = watched net" "exec cl req rs = Some (r, rs')" "snd (rs_world rs) = l"
  shows "case r of Inl _ \<Rightarrow> snd (rs_world rs') = l | Inr _ \<Rightarrow> \<exists>q. variant req q \<and> snd (rs_world rs') = l @ [q]"
proof -
  obtain req' where run: "route (watched net) (fc_router (cl_cfg cl)) 0 0 req rs = Some (r, req', rs')"
    using assms(1,2) by (auto simp: exec_def router_execute_def split: option.splits)
  show ?thesis
  proof (rule watched.route_result [where K = "variant req" and post = "\<lambda>_ w. \<exists>q. variant req q \<and> snd w = l @ [q]", OF _ _ run])
    show "variant req req" by (auto simp: variant_def intro: exI [of _ "[]"])
  qed (auto simp: watched_def variant_retarget assms(3) split: sum.splits)
qed

text \<open>What an operation adds to the list, by its outcome.\<close>

definition answers :: "('s, 'w \<times> request list, 'a) tpc_op \<Rightarrow> (failure + 'a \<Rightarrow> request list \<Rightarrow> bool) \<Rightarrow> bool" where
  "answers m P \<longleftrightarrow> (\<forall>st r st'. m st = Some (r, st') \<longrightarrow> (\<exists>l. P r l \<and> snd (tp_world st') = snd (tp_world st) @ l))"

lemma answers_ret: "R (Inr a) [] \<Longrightarrow> answers (retF a) R"
  by (auto simp: answers_def retF_def)

lemma answers_get: "(\<And>a. answers (k a) R) \<Longrightarrow> answers (bindF (\<lambda>st. retF (f st) st) k) R"
  by (auto simp: answers_def retF_def bindF_def)

lemma answers_upd: "(\<And>st. tp_world (g st) = tp_world st) \<Longrightarrow> answers (k ()) R \<Longrightarrow> answers (bindF (updF g) k) R"
  by (fastforce simp: answers_def updF_def bindF_def)

lemma answers_lift: "(\<And>x. R (Inl x) []) \<Longrightarrow> (\<And>a. answers (k a) R) \<Longrightarrow> answers (bindF (liftF e) k) R"
  by (cases e) (auto simp: answers_def liftF_def raiseF_def retF_def bindF_def)

text \<open>The three routers.\<close>

definition lens :: "(('s, 'w \<times> request list, 'a) nop \<Rightarrow> ('s, 'w \<times> request list, 'a) tpc_op) \<Rightarrow> bool" where
  "lens on \<longleftrightarrow> (\<forall>m st r st'. on m st = Some (r, st') \<longrightarrow>
     (\<exists>rs rs'. m rs = Some (r, rs') \<and> rs_world rs = tp_world st \<and> rs_world rs' = tp_world st'))"

lemma lens_on: "lens on_src" "lens on_dst" "lens on_pin"
  unfolding lens_def on_src_def on_dst_def on_pin_def by (force split: option.splits)+

lemma lens_exec:
  assumes "lens on" "cl_net cl = watched net" "on (exec cl req) st = Some (r, st')"
  obtains x where "r = Inl x" "snd (tp_world st') = snd (tp_world st)"
  | a q where "r = Inr a" "variant req q" "snd (tp_world st') = snd (tp_world st) @ [q]"
proof -
  from assms(1,3) obtain rs rs' where run: "exec cl req rs = Some (r, rs')" "rs_world rs = tp_world st" "rs_world rs' = tp_world st'"
    unfolding lens_def by blast
  with exec_answered [OF assms(2) run(1) refl] that show thesis by (auto split: sum.splits)
qed

lemma answers_exec:
  assumes "cl_net cl = watched net" "lens on" "\<And>x. R (Inl x) []"
    and "\<And>a q. variant req q \<Longrightarrow> answers (k a) (\<lambda>r l. R r (q # l))"
  shows "answers (bindF (on (exec cl req)) k) R"
  unfolding answers_def
proof (intro allI impI)
  fix st r st'
  assume run: "bindF (on (exec cl req)) k st = Some (r, st')"
  then obtain r1 st1 where m: "on (exec cl req) st = Some (r1, st1)" by (auto simp: bindF_def split: option.splits)
  from assms(2,1) m show "\<exists>l. R r l \<and> snd (tp_world st') = snd (tp_world st) @ l"
  proof (cases rule: lens_exec)
    case (2 a q)
    with run m have "k a st1 = Some (r, st')" by (simp add: bindF_def)
    with assms(4) [OF 2(2)] obtain l where "R r (q # l)" "snd (tp_world st') = snd (tp_world st1) @ l"
      unfolding answers_def by blast
    with 2 show ?thesis by auto
  qed (use run m assms(3) in \<open>auto simp: bindF_def\<close>)
qed

text \<open>\<^verbatim>\<open>try: execute(q) finally: _quietly(close)\<close>: the close may be answered or not, and either may fail.\<close>

lemma answers_guarded:
  assumes "cl_net cl = watched net" "lens on" "lens on'"
    and "\<And>x q l. variant req q \<Longrightarrow> l \<in> {[], [q]} \<Longrightarrow> R (Inl x) l \<and> R (Inl x) (l @ [Close h])"
    and "\<And>a q l. variant req q \<Longrightarrow> l \<in> {[], [Close h]} \<Longrightarrow> answers (k a) (\<lambda>r l'. R r (q # l @ l'))"
  shows "answers (bindF (finallyF (on (exec cl req)) (on' (quietly cl (Close h)))) k) R"
  unfolding answers_def
proof (intro allI impI)
  fix st r st'
  assume run: "bindF (finallyF (on (exec cl req)) (on' (quietly cl (Close h)))) k st = Some (r, st')"
  then obtain r1 st1 r2 st2 where m: "on (exec cl req) st = Some (r1, st1)" and f: "on' (quietly cl (Close h)) st1 = Some (r2, st2)"
    and r: "(case r2 of Inl x \<Rightarrow> Some (Inl x, st2) | Inr _ \<Rightarrow> (case r1 of Inl x \<Rightarrow> Some (Inl x, st2) | Inr a \<Rightarrow> k a st2)) = Some (r, st')"
    by (auto simp: bindF_def finallyF_def split: option.splits sum.splits)
  obtain rs rs' where q: "quietly cl (Close h) rs = Some (r2, rs')" "rs_world rs = tp_world st1" "rs_world rs' = tp_world st2"
    using assms(3) f unfolding lens_def by blast
  then obtain r3 where "exec cl (Close h) rs = Some (r3, rs')"
    by (auto simp: quietly_def catchF_def bindF_def retF_def raiseF_def split: option.splits sum.splits if_splits)
  from exec_answered [OF assms(1) this refl] q
  obtain l where l: "l \<in> {[], [Close h]}" "snd (tp_world st2) = snd (tp_world st1) @ l"
    by (auto simp: variant_handle split: sum.splits)
  from assms(2,1) m show "\<exists>l. R r l \<and> snd (tp_world st') = snd (tp_world st) @ l"
  proof (cases rule: lens_exec)
    case (1 x)
    with r l obtain y where "r = Inl y" "st' = st2" by (auto split: sum.splits)
    with 1 l assms(4) [OF variant_refl, of "[]" y] show ?thesis by auto
  next
    case (2 a q)
    show ?thesis
    proof (cases r2)
      case (Inl x)
      with 2 l r assms(4) [OF 2(2), of "[q]" x] show ?thesis by auto
    next
      case (Inr u)
      with r 2 have "k a st2 = Some (r, st')" by simp
      with assms(5) [OF 2(2) l(1)] obtain l' where "R r (q # l @ l')" "snd (tp_world st') = snd (tp_world st2) @ l'"
        unfolding answers_def by blast
      with 2 l show ?thesis by auto
    qed
  qed
qed

lemma answers_closing:
  assumes "cl_net cl = watched net" "lens on" "answers m R"
  shows "answers (finallyF m (on (fs_close cl))) R"
  unfolding answers_def
proof (intro allI impI)
  fix st r st'
  assume "finallyF m (on (fs_close cl)) st = Some (r, st')"
  then obtain r1 st1 r2 where m: "m st = Some (r1, st1)" and f: "on (fs_close cl) st1 = Some (r2, st')"
    and r: "r = (case r2 of Inl x \<Rightarrow> Inl x | Inr _ \<Rightarrow> r1)"
    by (auto simp: finallyF_def split: option.splits sum.splits)
  obtain rs rs' where q: "fs_close cl rs = Some (r2, rs')" "rs_world rs = tp_world st1" "rs_world rs' = tp_world st'"
    using assms(2) f unfolding lens_def by blast
  then have "r2 = Inr ()" "snd (tp_world st') = snd (tp_world st1)"
    using watched.close_router_inv [of rs "snd (tp_world st1)" net "fc_router (cl_cfg cl)"] by (auto simp: fs_close_def assms(1))
  with assms(3) m r show "\<exists>l. R r l \<and> snd (tp_world st') = snd (tp_world st) @ l" unfolding answers_def by auto
qed

text \<open>The order of the rendezvous, and what is left of it when a step fails.\<close>

definition pull_order :: "str \<Rightarrow> url \<Rightarrow> url \<Rightarrow> str \<Rightarrow> bytes \<Rightarrow> request list \<Rightarrow> bool" where
  "pull_order key su du token_mode h l \<longleftrightarrow> (\<exists>sopen quiet sh. variant (src_open key su du token_mode) sopen
     \<and> quiet \<in> {[], [Close sh]} \<and> l = [Sync h, sopen, Sync h] @ quiet @ [Close h])"

definition cut_short :: "nat \<Rightarrow> request list \<Rightarrow> request list \<Rightarrow> bool" where
  "cut_short n l all \<longleftrightarrow> (\<exists>m. l = take m all) \<or> (\<exists>sh. l = take n all @ [Close sh])"

lemma pull_cut:
  assumes "variant (src_open key su du token_mode) sopen"
    and "l \<in> {[], [Sync h], [Sync h, sopen], [Sync h, sopen, Close sh], [Sync h, sopen, Sync h], [Sync h, sopen, Sync h, Close sh]}"
  shows "\<exists>all. pull_order key su du token_mode h all \<and> cut_short 2 l all"
proof (intro exI conjI)
  let ?all = "[Sync h, sopen, Sync h, Close sh, Close h]"
  show "pull_order key su du token_mode h ?all" using assms(1) by (auto simp: pull_order_def)
  have "l = take (length l) ?all \<or> l = take 2 ?all @ [Close sh]" using assms(2) by auto
  then show "cut_short 2 l ?all" unfolding cut_short_def by blast
qed

lemma pull_answers:
  assumes "cl_net cl = watched net"
  shows "answers (pull cl key su du token_mode h)
    (\<lambda>r l. \<exists>all. pull_order key su du token_mode h all \<and> (case r of Inr _ \<Rightarrow> l = all | Inl _ \<Rightarrow> cut_short 2 l all))"
    (is "answers _ ?R")
proof -
  note step = answers_exec [OF assms]
  have cut: "?R (Inl x) l" if "variant (src_open key su du token_mode) sopen"
    "l \<in> {[], [Sync h], [Sync h, sopen], [Sync h, sopen, Close sh], [Sync h, sopen, Sync h], [Sync h, sopen, Sync h, Close sh]}"
    for x sopen sh l
    using pull_cut [OF that] by simp
  have full: "?R (Inr ()) ([Sync h, sopen, Sync h] @ quiet @ [Close h])"
    if "variant (src_open key su du token_mode) sopen" "quiet \<in> {[], [Close sh]}" for sopen quiet sh
    using that by (auto simp: pull_order_def)
  have rest: "answers (bindF (finallyF (on_dst (exec cl (Sync h))) (on_pin (quietly cl (Close sh)))) (\<lambda>_.
      bindF (on_dst (exec cl (Close h))) (\<lambda>_. retF ()))) (\<lambda>r l. ?R r (Sync h # sopen # l))"
    if v: "variant (src_open key su du token_mode) sopen" for sh sopen
  proof (rule answers_guarded [OF assms lens_on(2) lens_on(3)])
    show "?R (Inl x) (Sync h # sopen # l) \<and> ?R (Inl x) (Sync h # sopen # l @ [Close sh])"
      if "variant (Sync h) q" "l \<in> {[], [q]}" for x q l
      using that cut [OF v, of _ sh] by (auto simp: variant_handle)
    show "answers (bindF (on_dst (exec cl (Close h))) (\<lambda>_. retF ())) (\<lambda>r l'. ?R r (Sync h # sopen # q # l @ l'))"
      if "variant (Sync h) q" "l \<in> {[], [Close sh]}" for q l
      by (rule step [OF lens_on(2)], use that cut [OF v, of _ sh] in \<open>force simp: variant_handle\<close>, rule answers_ret)
        (use that full [OF v that(2)] in \<open>auto simp: variant_handle\<close>)
  qed
  have opened: "answers (bindF (liftF e) (\<lambda>(sh, _). bindF (finallyF (on_dst (exec cl (Sync h))) (on_pin (quietly cl (Close sh)))) (\<lambda>_.
      bindF (on_dst (exec cl (Close h))) (\<lambda>_. retF ())))) (\<lambda>r l. ?R r (Sync h # sopen # l))"
    if v: "variant (src_open key su du token_mode) sopen" for e sopen
    by (rule answers_lift, use cut [OF v] in force) (use rest [OF v] in \<open>auto split: prod.split\<close>)
  show ?thesis
    unfolding pull_def
    by (rule step [OF lens_on(2)], use cut [OF variant_refl] in force, rule answers_upd, simp, rule step [OF lens_on(3)])
      (use cut [OF variant_refl] opened in \<open>auto simp: variant_handle\<close>)
qed

lemma answers_at_path:
  assumes "cl_net cl = watched net" "lens on" "\<And>x. R (Inl x) []"
    and "\<And>x t q. variant (req t) q \<Longrightarrow> R (Inl x) [q]"
    and "\<And>a t q. variant (req t) q \<Longrightarrow> answers (k a) (\<lambda>r l. R r (q # l))"
  shows "answers (bindF (on (at_path cl url path req reader)) k) R"
  unfolding answers_def
proof (intro allI impI)
  fix st r st'
  assume run: "bindF (on (at_path cl url path req reader)) k st = Some (r, st')"
  then obtain r1 st1 where m: "on (at_path cl url path req reader) st = Some (r1, st1)"
    and k: "(case r1 of Inl x \<Rightarrow> Some (Inl x, st1) | Inr a \<Rightarrow> k a st1) = Some (r, st')"
    by (auto simp: bindF_def split: option.splits sum.splits)
  obtain rs rs' where q: "at_path cl url path req reader rs = Some (r1, rs')" "rs_world rs = tp_world st" "rs_world rs' = tp_world st1"
    using assms(2) m unfolding lens_def by blast
  show "\<exists>l. R r l \<and> snd (tp_world st') = snd (tp_world st) @ l"
  proof (cases "fs_abs url path")
    case (Inl e)
    with q k assms(3) show ?thesis by (auto simp: at_path_def bindF_def liftF_def raiseF_def)
  next
    case (Inr t)
    then obtain r2 where e: "exec cl (req t) rs = Some (r2, rs')"
      and r2: "r1 = (case r2 of Inl x \<Rightarrow> Inl x | Inr res \<Rightarrow> (case reader t (res_data res) of Inl x \<Rightarrow> Inl (Raised x) | Inr a \<Rightarrow> Inr a))"
      using q(1) by (auto simp: at_path_def bindF_def liftF_def raiseF_def retF_def split: option.splits sum.splits)
    show ?thesis
    proof (cases r2)
      case (Inl x)
      with exec_answered [OF assms(1) e refl] q k r2 assms(3) show ?thesis by auto
    next
      case (Inr res)
      with exec_answered [OF assms(1) e refl] q obtain v where v: "variant (req t) v" "snd (tp_world st1) = snd (tp_world st) @ [v]" by auto
      show ?thesis
      proof (cases r1)
        case (Inl x)
        with k v assms(4) [OF v(1)] show ?thesis by auto
      next
        case (Inr a)
        with k have "k a st1 = Some (r, st')" by simp
        with assms(5) [OF v(1)] obtain l where "R r (v # l)" "snd (tp_world st') = snd (tp_world st1) @ l"
          unfolding answers_def by blast
        with v show ?thesis by auto
      qed
    qed
  qed
qed

lemma cut_short_Cons: "cut_short n l all \<Longrightarrow> cut_short (Suc n) (q # l) (q # all)"
  unfolding cut_short_def by (metis append_Cons take_Suc_Cons)

lemma cut_short_Nil: "cut_short n [] all"
  unfolding cut_short_def by (metis take_0)

lemma cut_short_all: "cut_short n all all"
  unfolding cut_short_def by (metis order_refl take_all)

definition tpc_order :: "str \<Rightarrow> url \<Rightarrow> url \<Rightarrow> str \<Rightarrow> int \<Rightarrow> bool \<Rightarrow> bool \<Rightarrow> str \<Rightarrow> request list \<Rightarrow> bool" where
  "tpc_order key su du ep sz overwrite posc token_mode all \<longleftrightarrow> (\<exists>t stat dopen h rest.
     variant (Stat t 0 NULL_FHANDLE) stat \<and> variant (dst_open key su du ep sz overwrite posc token_mode) dopen
     \<and> pull_order key su du token_mode h rest \<and> all = stat # dopen # rest)"

lemma some_order: "\<exists>all. pull_order key su du token_mode h all"
  using pull_cut [OF variant_refl, of "[]"] by blast

lemma to_destination_answers:
  assumes "cl_net cl = watched net"
  shows "answers (to_destination cl key su du ep sz overwrite posc token_mode)
    (\<lambda>r l. \<exists>dopen h all. variant (dst_open key su du ep sz overwrite posc token_mode) dopen
       \<and> pull_order key su du token_mode h all \<and> (case r of Inr _ \<Rightarrow> l = dopen # all | Inl _ \<Rightarrow> cut_short 3 l (dopen # all)))"
    (is "answers _ ?R")
proof -
  let ?o = "dst_open key su du ep sz overwrite posc token_mode"
  obtain all where all: "pull_order key su du token_mode [] all" using some_order by blast
  have cut1: "?R (Inl x) [q]" if "variant ?o q" for x q
    using that all cut_short_Cons [OF cut_short_Nil, of 2 q all] by auto
  have cut0: "?R (Inl x) []" for x
    using all cut_short_Nil variant_refl [of ?o] by (simp del: variant_refl) blast
  have "answers (pull cl key su du token_mode h) (\<lambda>r l. ?R r (q # l))" if q: "variant ?o q" for h q
    unfolding answers_def
  proof (intro allI impI)
    fix st r st'
    assume "pull cl key su du token_mode h st = Some (r, st')"
    then obtain l all where l: "pull_order key su du token_mode h all" "case r of Inr _ \<Rightarrow> l = all | Inl _ \<Rightarrow> cut_short 2 l all"
      "snd (tp_world st') = snd (tp_world st) @ l"
      using pull_answers [OF assms, of key su du token_mode h] unfolding answers_def by blast
    then have "case r of Inr _ \<Rightarrow> q # l = q # all | Inl _ \<Rightarrow> cut_short 3 (q # l) (q # all)"
      using cut_short_Cons [of 2 l all q] by (simp split: sum.splits)
    with l q show "\<exists>l. ?R r (q # l) \<and> snd (tp_world st') = snd (tp_world st) @ l" by blast
  qed
  then have "answers (case p of (h, _) \<Rightarrow> pull cl key su du token_mode h) (\<lambda>r l. ?R r (q # l))" if "variant ?o q" for p q
    using that by (simp add: case_prod_beta)
  then show ?thesis
    unfolding to_destination_def
    by (intro answers_closing [OF assms lens_on(2)] answers_exec [OF assms lens_on(2)] answers_upd answers_lift cut0 cut1) simp_all
qed

lemma answers_then:
  assumes "answers m P" "\<And>x l. P (Inl x) l \<Longrightarrow> R (Inl x) l" "\<And>a l. P (Inr a) l \<Longrightarrow> answers (k a) (\<lambda>r l'. R r (l @ l'))"
  shows "answers (bindF m k) R"
  unfolding answers_def
proof (intro allI impI)
  fix st r st'
  assume run: "bindF m k st = Some (r, st')"
  then obtain r1 st1 where m: "m st = Some (r1, st1)" by (auto simp: bindF_def split: option.splits)
  with assms(1) obtain l1 where l1: "P r1 l1" "snd (tp_world st1) = snd (tp_world st) @ l1" unfolding answers_def by blast
  show "\<exists>l. R r l \<and> snd (tp_world st') = snd (tp_world st) @ l"
  proof (cases r1)
    case (Inl x)
    with run m l1 assms(2) show ?thesis by (auto simp: bindF_def)
  next
    case (Inr a)
    with run m have "k a st1 = Some (r, st')" by (simp add: bindF_def)
    moreover from Inr l1 have "answers (k a) (\<lambda>r l'. R r (l1 @ l'))" using assms(3) by blast
    ultimately obtain l' where "R r (l1 @ l')" "snd (tp_world st') = snd (tp_world st1) @ l'" unfolding answers_def by blast
    with l1 show ?thesis by auto
  qed
qed

lemma rendezvous_answers:
  assumes "cl_net cl = watched net"
  shows "answers (rendezvous cl key su du overwrite posc token_mode)
    (\<lambda>r l. \<exists>ep sz all. tpc_order key su du ep sz overwrite posc token_mode all
       \<and> (case r of Inr n \<Rightarrow> l = all \<and> n = sz | Inl _ \<Rightarrow> cut_short 4 l all))" (is "answers _ ?R")
proof -
  let ?s = "\<lambda>t. Stat t 0 NULL_FHANDLE"
  obtain rest where rest: "pull_order key su du token_mode [] rest" using some_order by blast
  have order: "tpc_order key su du [] 0 overwrite posc token_mode (q # dst_open key su du [] 0 overwrite posc token_mode # rest)"
    if "variant (?s t) q" for t q
    using that rest variant_refl unfolding tpc_order_def by blast
  have cut0: "?R (Inl x) []" for x using order [OF variant_refl] cut_short_Nil by fastforce
  have cut1: "?R (Inl x) [q]" if "variant (?s t) q" for x t q
    using order [OF that] cut_short_Cons [OF cut_short_Nil, of 3 q] by (fastforce simp: eval_nat_numeral)
  have rest: "answers (bindF (to_destination cl key su du ep sz overwrite posc token_mode) (\<lambda>_. retF sz)) (\<lambda>r l. ?R r (q # l))"
    if q: "variant (?s t) q" for t q ep sz
  proof (rule answers_then [OF to_destination_answers [OF assms]], goal_cases)
    case (1 x l)
    then obtain dopen h all where d: "variant (dst_open key su du ep sz overwrite posc token_mode) dopen"
      "pull_order key su du token_mode h all" "cut_short 3 l (dopen # all)" by auto
    then have "tpc_order key su du ep sz overwrite posc token_mode (q # dopen # all)" using q unfolding tpc_order_def by blast
    moreover have "cut_short 4 (q # l) (q # dopen # all)" using cut_short_Cons [OF d(3), of q] by simp
    ultimately show ?case by auto
  next
    case (2 a l)
    then obtain dopen h all where "variant (dst_open key su du ep sz overwrite posc token_mode) dopen"
      "pull_order key su du token_mode h all" "l = dopen # all" by auto
    then have "tpc_order key su du ep sz overwrite posc token_mode (q # l)" using q unfolding tpc_order_def by blast
    then show ?case by (auto intro!: answers_ret)
  qed
  show ?thesis
    unfolding rendezvous_def Let_def fs_stat_def if_True
    by (intro answers_upd answers_closing [OF assms lens_on(1)] answers_at_path [OF assms lens_on(1)] answers_get cut0)
      (use cut1 rest in simp_all)
qed

lemma root_not_http: "is_root u \<Longrightarrow> \<not> is_http u"
  by (auto simp: is_root_def is_http_def ROOT_SCHEMES_def HTTP_SCHEMES_def lit_def)

lemma third_party_answers:
  assumes "cl_net cl = watched net" "is_root su" "is_root du"
  shows "answers (third_party cl http key su du overwrite posc token_mode)
    (\<lambda>r l. \<exists>ep sz all. tpc_order key su du ep sz overwrite posc token_mode all
       \<and> (case r of Inr res \<Rightarrow> l = all \<and> cr_size res = sz | Inl _ \<Rightarrow> cut_short 4 l all))" (is "answers _ ?R")
proof -
  have fin: "answers (bindF (liftF e) (\<lambda>source. bindF (liftF e') (\<lambda>target.
      retF \<lparr>cr_source = source, cr_target = target, cr_size = n, cr_checksum = None, cr_resumed_at = 0\<rparr>))) (\<lambda>r l'. ?R r (l @ l'))"
    if "tpc_order key su du ep n overwrite posc token_mode l" for e e' ep n l
    using that cut_short_all [of 4 l] by (intro answers_lift answers_ret) auto
  show ?thesis
    unfolding third_party_def using root_not_http [OF assms(2)] assms(2,3)
    by (simp, intro answers_then [OF rendezvous_answers [OF assms(1)]]) (use fin in auto)
qed

text \<open>
  C34. A third-party copy happens in one order. Whatever the sessions answer, the requests they answer are, in this order,
  the stat of the source, the open of the destination, a sync of its handle, the open of the source, a
  second sync of the same handle, possibly the close of the source and the close of the destination's handle;
  both opens carry the same key, and the size announced to the destination is the size in the result. When a
  step fails, what was answered is a beginning of such a sequence, or its first four requests and the close of the source:
  the source is never told of the key before the destination is armed, and nothing is reported as copied
  before the second sync and the close were answered.
\<close>

theorem third_party_rendezvous:
  assumes "cl_net cl = watched net" and "is_root su" and "is_root du"
    and "third_party cl http key su du overwrite posc token_mode st = Some (r, st')"
  shows "\<exists>ep sz all l. tpc_order key su du ep sz overwrite posc token_mode all \<and> snd (tp_world st') = snd (tp_world st) @ l
    \<and> (case r of Inr res \<Rightarrow> l = all \<and> cr_size res = sz | Inl _ \<Rightarrow> cut_short 4 l all)"
  using third_party_answers [OF assms(1-3), of http key overwrite posc token_mode] assms(4) unfolding answers_def by blast

text \<open>Two servers that answer at once; the source holds five bytes.\<close>

definition ready_net :: "(unit, unit) net" where
  "ready_net = \<lparr>net_connect = (\<lambda>u w. Some (Inr (), w)),
     net_execute = (\<lambda>s req w. Some (Inr \<lparr>res_data =
       (case req of Stat _ _ _ \<Rightarrow> map of_nat (lit ''0 5 16 0'') | Open _ _ _ \<Rightarrow> [0, 0, 0, 1] | _ \<Rightarrow> []), res_status = None\<rparr>, w)),
     net_closed = (\<lambda>s w. False), net_close = (\<lambda>s w. w), net_clock = (\<lambda>w. (0, w)), net_sleep = (\<lambda>t w. w)\<rparr>"

definition ready_client :: "(unit, unit \<times> request list) client" where
  "ready_client = \<lparr>cl_net = watched ready_net,
     cl_cfg = \<lparr>fc_router = sample_router_config, fc_chunk_size = 3, fc_max_read_size = 100, fc_data_streams = 1, fc_recover_handles = True\<rparr>,
     cl_arriving = (\<lambda>s req w. None), cl_arrives = (\<lambda>s w. None), cl_bind = (\<lambda>s w. Some (Inr 0, w)), cl_accel = None\<rparr>"

definition tpc_start :: "(unit, unit \<times> request list) tpc" where
  "tpc_start = \<lparr>tp_src = Router (root_url ''a'') True, tp_dst = Router (root_url ''b'') True, tp_pin = Router (root_url ''a'') True,
     tp_pool = [], tp_world = ((), [])\<rparr>"

definition sample_tpc :: "((failure + copy_result) \<times> (unit, unit \<times> request list) tpc) option" where
  "sample_tpc = third_party ready_client (\<lambda>_ _ _. raiseF KeyError) (lit ''k'') (root_url ''a'') (root_url ''b'') True True [] tpc_start"

theorem third_party_rendezvous_witness:
  "\<exists>res st' ep. sample_tpc = Some (Inr res, st') \<and> cr_size res = 5
     \<and> tpc_order (lit ''k'') (root_url ''a'') (root_url ''b'') ep 5 True True [] (snd (tp_world st'))"
proof -
  have "case sample_tpc of Some (Inr res, _) \<Rightarrow> cr_size res = 5 | _ \<Rightarrow> False" by code_simp
  then obtain res st' where run: "sample_tpc = Some (Inr res, st')" and five: "cr_size res = 5"
    by (auto split: option.splits sum.splits)
  have r: "is_root (root_url ''a'')" "is_root (root_url ''b'')" by code_simp+
  have n: "cl_net ready_client = watched ready_net" by (simp add: ready_client_def)
  from third_party_rendezvous [OF n r run [unfolded sample_tpc_def]] five show ?thesis
    unfolding run by (auto simp: tpc_start_def)
qed

end
