(* ===== verification/Crypto_AES.thy ===== *)
theory Crypto_AES
  imports Xrd_Errors
begin

text \<open>
  The block cipher of \<^verbatim>\<open>crypto/aes.py\<close>: its tables, its key schedule, one block, PKCS#7 padding and the CBC
  mode. The elements of a state are bytes by type, so masks with \<^verbatim>\<open>0xFF\<close> are implicit, and the test of
  bit 8 after a shift is a test of bit 7 before it.

  \<open>block_cipher\<close> is what a mode needs of a cipher: decryption undoes encryption on blocks.
\<close>

section \<open>Tables\<close>

abbreviation (input) BLOCK_SIZE :: nat where "BLOCK_SIZE \<equiv> 16"

definition next_p :: "int \<Rightarrow> int" where
  "next_p p = (p XOR (push_bit 1 p AND 0xFF)) XOR (if p AND 0x80 \<noteq> 0 then 0x1B else 0)"

definition next_q :: "int \<Rightarrow> int" where
  "next_q q0 =
     (let q1 = q0 XOR push_bit 1 q0; q2 = q1 XOR push_bit 2 q1; q3 = q2 XOR push_bit 4 q2; q4 = q3 AND 0xFF
      in if q4 AND 0x80 \<noteq> 0 then q4 XOR 0x09 else q4)"

definition sbox_value :: "int \<Rightarrow> byte" where
  "sbox_value q =
     (let v1 = q XOR (push_bit 1 q OR drop_bit 7 q) XOR (push_bit 2 q OR drop_bit 6 q);
          v2 = v1 XOR ((push_bit 3 q OR drop_bit 5 q) XOR (push_bit 4 q OR drop_bit 4 q))
      in word_of_int ((v2 XOR 0x63) AND 0xFF))"

text \<open>The walk over the field; \<open>None\<close> would be a walk that never comes back to one.\<close>

partial_function (option) sbox_loop :: "int \<Rightarrow> int \<Rightarrow> bytes \<Rightarrow> bytes option" where
  "sbox_loop p q sbox =
     (let p1 = next_p p; q1 = next_q q; sbox1 = sbox[nat p1 := sbox_value q1]
      in if p1 = 1 then Some sbox1 else sbox_loop p1 q1 sbox1)"

declare sbox_loop.simps [code]

definition inverse_table :: "bytes \<Rightarrow> bytes" where
  "inverse_table sbox = foldl (\<lambda>inv (i, v). inv[unat v := word_of_nat i]) (replicate 256 0) (enumerate 0 sbox)"

definition aes_tables :: "(bytes \<times> bytes) option" where
  "aes_tables = map_option (\<lambda>sbox. let s = sbox[0 := 0x63] in (s, inverse_table s)) (sbox_loop 1 1 (replicate 256 0))"

definition SBOX :: bytes where "SBOX = (case aes_tables of None \<Rightarrow> [] | Some (s, _) \<Rightarrow> s)"
definition INV_SBOX :: bytes where "INV_SBOX = (case aes_tables of None \<Rightarrow> [] | Some (_, i) \<Rightarrow> i)"

definition RCON :: bytes where
  "RCON = [0x01, 0x02, 0x04, 0x08, 0x10, 0x20, 0x40, 0x80, 0x1B, 0x36, 0x6C, 0xD8, 0xAB, 0x4D]"

definition sub_byte :: "byte \<Rightarrow> byte" where "sub_byte b = SBOX ! unat b"
definition inv_sub_byte :: "byte \<Rightarrow> byte" where "inv_sub_byte b = INV_SBOX ! unat b"

definition xtime :: "byte \<Rightarrow> byte" where
  "xtime a = (if bit a 7 then push_bit 1 a XOR 0x1B else push_bit 1 a)"

function mul_loop :: "byte \<Rightarrow> byte \<Rightarrow> nat \<Rightarrow> byte" where
  "mul_loop acc a b = (if b = 0 then acc else mul_loop (if odd b then acc XOR a else acc) (xtime a) (b div 2))"
  by pat_completeness auto
termination
  by (relation "measure (\<lambda>(acc, a, b). b)") auto

declare mul_loop.simps [simp del]

definition mul :: "byte \<Rightarrow> nat \<Rightarrow> byte" where "mul a b = mul_loop 0 a b"

section \<open>One key\<close>

record aes =
  aes_key_size :: nat
  aes_rounds :: nat
  aes_round_keys :: "bytes list"

definition key_word :: "nat \<Rightarrow> bytes list \<Rightarrow> nat \<Rightarrow> bytes" where
  "key_word nk words i =
     (let temp = words ! (i - 1) in
      map2 (XOR) (words ! (i - nk))
        (if i mod nk = 0
         then (let temp1 = map sub_byte (drop 1 temp @ take 1 temp) in temp1[0 := temp1 ! 0 XOR RCON ! (i div nk - 1)])
         else if nk > 6 \<and> i mod nk = 4 then map sub_byte temp else temp))"

definition expand :: "nat \<Rightarrow> bytes \<Rightarrow> bytes list" where
  "expand rounds key =
     (let words0 = map (\<lambda>i. take 4 (drop (4 * i) key)) [0..<length key div 4];
          nk = length words0;
          words = foldl (\<lambda>words i. words @ [key_word nk words i]) words0 [nk..<4 * (rounds + 1)]
      in map (\<lambda>r. concat (take 4 (drop (r * 4) words))) [0..<rounds + 1])"

definition AES :: "bytes \<Rightarrow> exn + aes" where
  "AES key =
     (if length key \<notin> {16, 24, 32} then Inl (ValueError ''AES key must be 16, 24 or 32 bytes'')
      else (let rounds = (if length key = 16 then 10 else if length key = 24 then 12 else 14)
            in Inr \<lparr>aes_key_size = length key, aes_rounds = rounds, aes_round_keys = expand rounds key\<rparr>))"

section \<open>One block\<close>

definition add_round_key :: "bytes \<Rightarrow> bytes \<Rightarrow> bytes" where
  "add_round_key key state = foldl (\<lambda>s i. s[i := s ! i XOR key ! i]) state [0..<16]"

definition set_row :: "nat \<Rightarrow> bytes \<Rightarrow> bytes \<Rightarrow> bytes" where
  "set_row row column state = foldl (\<lambda>s c. s[row + 4 * c := column ! c]) state [0..<4]"

definition get_row :: "nat \<Rightarrow> bytes \<Rightarrow> bytes" where
  "get_row row state = map (\<lambda>c. state ! (row + 4 * c)) [0..<4]"

definition shift_rows :: "bytes \<Rightarrow> bytes" where
  "shift_rows state = foldl (\<lambda>s row. set_row row (drop row (get_row row s) @ take row (get_row row s)) s) state [1..<4]"

definition inv_shift_rows :: "bytes \<Rightarrow> bytes" where
  "inv_shift_rows state =
     foldl (\<lambda>s row. set_row row (drop (4 - row) (get_row row s) @ take (4 - row) (get_row row s)) s) state [1..<4]"

definition set_column :: "nat \<Rightarrow> (nat \<Rightarrow> byte) \<Rightarrow> bytes \<Rightarrow> bytes" where
  "set_column c f state = foldl (\<lambda>s i. s[4 * c + i := f i]) state [0..<4]"

definition mix_columns :: "bytes \<Rightarrow> bytes" where
  "mix_columns state = foldl (\<lambda>s c.
     let a = take 4 (drop (4 * c) s); t = a ! 0 XOR a ! 1 XOR a ! 2 XOR a ! 3
     in set_column c (\<lambda>i. a ! i XOR t XOR xtime (a ! i XOR a ! ((i + 1) mod 4))) s) state [0..<4]"

definition inv_mix_columns :: "bytes \<Rightarrow> bytes" where
  "inv_mix_columns state = foldl (\<lambda>s c.
     let a = take 4 (drop (4 * c) s)
     in set_column c (\<lambda>i. mul (a ! i) 14 XOR mul (a ! ((i + 1) mod 4)) 11 XOR mul (a ! ((i + 2) mod 4)) 13
          XOR mul (a ! ((i + 3) mod 4)) 9) s) state [0..<4]"

definition encrypt_block :: "aes \<Rightarrow> bytes \<Rightarrow> exn + bytes" where
  "encrypt_block k block =
     (if length block \<noteq> BLOCK_SIZE then Inl (ValueError ''AES block must be 16 bytes'')
      else (let s0 = add_round_key (aes_round_keys k ! 0) block;
                s1 = foldl (\<lambda>s rnd. add_round_key (aes_round_keys k ! rnd) (mix_columns (shift_rows (map sub_byte s)))) s0 [1..<aes_rounds k]
            in Inr (add_round_key (aes_round_keys k ! aes_rounds k) (shift_rows (map sub_byte s1)))))"

definition decrypt_block :: "aes \<Rightarrow> bytes \<Rightarrow> exn + bytes" where
  "decrypt_block k block =
     (if length block \<noteq> BLOCK_SIZE then Inl (ValueError ''AES block must be 16 bytes'')
      else (let s0 = add_round_key (aes_round_keys k ! aes_rounds k) block;
                s1 = foldl (\<lambda>s rnd. inv_mix_columns (add_round_key (aes_round_keys k ! rnd) (map inv_sub_byte (inv_shift_rows s))))
                       s0 (rev [1..<aes_rounds k])
            in Inr (add_round_key (aes_round_keys k ! 0) (map inv_sub_byte (inv_shift_rows s1)))))"

section \<open>Padding and chaining\<close>

definition pkcs7_pad :: "bytes \<Rightarrow> nat \<Rightarrow> bytes" where
  "pkcs7_pad data block_size =
     (let pad = block_size - length data mod block_size in data @ replicate pad (word_of_nat pad))"

definition pkcs7_unpad :: "bytes \<Rightarrow> nat \<Rightarrow> exn + bytes" where
  "pkcs7_unpad data block_size =
     (if data = [] \<or> length data mod block_size \<noteq> 0 then Inl (ValueError ''PKCS#7 input is not a whole number of blocks'')
      else (let pad = unat (last data) in
        if \<not> (1 \<le> pad \<and> pad \<le> block_size) \<or> drop (length data - pad) data \<noteq> replicate pad (word_of_nat pad)
        then Inl (ValueError ''PKCS#7 padding is corrupt'')
        else Inr (take (length data - pad) data)))"

fun cbc_blocks :: "nat \<Rightarrow> bytes \<Rightarrow> bytes list" where
  "cbc_blocks n data = map (\<lambda>i. take n (drop (n * i) data)) [0..<length data div n]"

text \<open>The loops over blocks; a block that the cipher refuses ends them.\<close>

fun cbc_encrypt_loop :: "(bytes \<Rightarrow> exn + bytes) \<Rightarrow> bytes \<Rightarrow> bytes list \<Rightarrow> exn + bytes" where
  "cbc_encrypt_loop enc previous [] = Inr []"
| "cbc_encrypt_loop enc previous (b # bs) =
     bindE (enc (map2 (XOR) b previous)) (\<lambda>c. bindE (cbc_encrypt_loop enc c bs) (\<lambda>cs. Inr (c @ cs)))"

fun cbc_decrypt_loop :: "(bytes \<Rightarrow> exn + bytes) \<Rightarrow> bytes \<Rightarrow> bytes list \<Rightarrow> exn + bytes" where
  "cbc_decrypt_loop dec previous [] = Inr []"
| "cbc_decrypt_loop dec previous (b # bs) =
     bindE (dec b) (\<lambda>p. bindE (cbc_decrypt_loop dec b bs) (\<lambda>ps. Inr (map2 (XOR) p previous @ ps)))"

definition cbc_encrypt :: "bytes \<Rightarrow> bytes \<Rightarrow> bytes \<Rightarrow> bool \<Rightarrow> exn + bytes" where
  "cbc_encrypt key data iv pad =
     (if length iv \<noteq> BLOCK_SIZE then Inl (ValueError ''AES IV must be 16 bytes'')
      else (let plain = (if pad then pkcs7_pad data BLOCK_SIZE else data) in
        if length plain mod BLOCK_SIZE \<noteq> 0 then Inl (ValueError ''unpadded CBC input must be a whole number of blocks'')
        else bindE (AES key) (\<lambda>cipher. cbc_encrypt_loop (encrypt_block cipher) iv (cbc_blocks BLOCK_SIZE plain))))"

definition cbc_decrypt :: "bytes \<Rightarrow> bytes \<Rightarrow> bytes \<Rightarrow> bool \<Rightarrow> exn + bytes" where
  "cbc_decrypt key data iv pad =
     (if length iv \<noteq> BLOCK_SIZE then Inl (ValueError ''AES IV must be 16 bytes'')
      else if data = [] \<or> length data mod BLOCK_SIZE \<noteq> 0 then Inl (ValueError ''CBC input must be a whole number of blocks'')
      else bindE (AES key) (\<lambda>cipher. bindE (cbc_decrypt_loop (decrypt_block cipher) iv (cbc_blocks BLOCK_SIZE data)) (\<lambda>plain.
        if pad then pkcs7_unpad plain BLOCK_SIZE else Inr plain)))"

section \<open>The tables are what the standard prints\<close>

lemma aes_tables_value: "aes_tables = Some (
    [99, 124, 119, 123, 242, 107, 111, 197, 48, 1, 103, 43, 254, 215, 171, 118,
     202, 130, 201, 125, 250, 89, 71, 240, 173, 212, 162, 175, 156, 164, 114, 192,
     183, 253, 147, 38, 54, 63, 247, 204, 52, 165, 229, 241, 113, 216, 49, 21,
     4, 199, 35, 195, 24, 150, 5, 154, 7, 18, 128, 226, 235, 39, 178, 117,
     9, 131, 44, 26, 27, 110, 90, 160, 82, 59, 214, 179, 41, 227, 47, 132,
     83, 209, 0, 237, 32, 252, 177, 91, 106, 203, 190, 57, 74, 76, 88, 207,
     208, 239, 170, 251, 67, 77, 51, 133, 69, 249, 2, 127, 80, 60, 159, 168,
     81, 163, 64, 143, 146, 157, 56, 245, 188, 182, 218, 33, 16, 255, 243, 210,
     205, 12, 19, 236, 95, 151, 68, 23, 196, 167, 126, 61, 100, 93, 25, 115,
     96, 129, 79, 220, 34, 42, 144, 136, 70, 238, 184, 20, 222, 94, 11, 219,
     224, 50, 58, 10, 73, 6, 36, 92, 194, 211, 172, 98, 145, 149, 228, 121,
     231, 200, 55, 109, 141, 213, 78, 169, 108, 86, 244, 234, 101, 122, 174, 8,
     186, 120, 37, 46, 28, 166, 180, 198, 232, 221, 116, 31, 75, 189, 139, 138,
     112, 62, 181, 102, 72, 3, 246, 14, 97, 53, 87, 185, 134, 193, 29, 158,
     225, 248, 152, 17, 105, 217, 142, 148, 155, 30, 135, 233, 206, 85, 40, 223,
     140, 161, 137, 13, 191, 230, 66, 104, 65, 153, 45, 15, 176, 84, 187, 22],
    [82, 9, 106, 213, 48, 54, 165, 56, 191, 64, 163, 158, 129, 243, 215, 251,
     124, 227, 57, 130, 155, 47, 255, 135, 52, 142, 67, 68, 196, 222, 233, 203,
     84, 123, 148, 50, 166, 194, 35, 61, 238, 76, 149, 11, 66, 250, 195, 78,
     8, 46, 161, 102, 40, 217, 36, 178, 118, 91, 162, 73, 109, 139, 209, 37,
     114, 248, 246, 100, 134, 104, 152, 22, 212, 164, 92, 204, 93, 101, 182, 146,
     108, 112, 72, 80, 253, 237, 185, 218, 94, 21, 70, 87, 167, 141, 157, 132,
     144, 216, 171, 0, 140, 188, 211, 10, 247, 228, 88, 5, 184, 179, 69, 6,
     208, 44, 30, 143, 202, 63, 15, 2, 193, 175, 189, 3, 1, 19, 138, 107,
     58, 145, 17, 65, 79, 103, 220, 234, 151, 242, 207, 206, 240, 180, 230, 115,
     150, 172, 116, 34, 231, 173, 53, 133, 226, 249, 55, 232, 28, 117, 223, 110,
     71, 241, 26, 113, 29, 41, 197, 137, 111, 183, 98, 14, 170, 24, 190, 27,
     252, 86, 62, 75, 198, 210, 121, 32, 154, 219, 192, 254, 120, 205, 90, 244,
     31, 221, 168, 51, 136, 7, 199, 49, 177, 18, 16, 89, 39, 128, 236, 95,
     96, 81, 127, 169, 25, 181, 74, 13, 45, 229, 122, 159, 147, 201, 156, 239,
     160, 224, 59, 77, 174, 42, 245, 176, 200, 235, 187, 60, 131, 83, 153, 97,
     23, 43, 4, 126, 186, 119, 214, 38, 225, 105, 20, 99, 85, 33, 12, 125])"
  by code_simp

lemma table_values [code]:
  "SBOX =
    [99, 124, 119, 123, 242, 107, 111, 197, 48, 1, 103, 43, 254, 215, 171, 118,
     202, 130, 201, 125, 250, 89, 71, 240, 173, 212, 162, 175, 156, 164, 114, 192,
     183, 253, 147, 38, 54, 63, 247, 204, 52, 165, 229, 241, 113, 216, 49, 21,
     4, 199, 35, 195, 24, 150, 5, 154, 7, 18, 128, 226, 235, 39, 178, 117,
     9, 131, 44, 26, 27, 110, 90, 160, 82, 59, 214, 179, 41, 227, 47, 132,
     83, 209, 0, 237, 32, 252, 177, 91, 106, 203, 190, 57, 74, 76, 88, 207,
     208, 239, 170, 251, 67, 77, 51, 133, 69, 249, 2, 127, 80, 60, 159, 168,
     81, 163, 64, 143, 146, 157, 56, 245, 188, 182, 218, 33, 16, 255, 243, 210,
     205, 12, 19, 236, 95, 151, 68, 23, 196, 167, 126, 61, 100, 93, 25, 115,
     96, 129, 79, 220, 34, 42, 144, 136, 70, 238, 184, 20, 222, 94, 11, 219,
     224, 50, 58, 10, 73, 6, 36, 92, 194, 211, 172, 98, 145, 149, 228, 121,
     231, 200, 55, 109, 141, 213, 78, 169, 108, 86, 244, 234, 101, 122, 174, 8,
     186, 120, 37, 46, 28, 166, 180, 198, 232, 221, 116, 31, 75, 189, 139, 138,
     112, 62, 181, 102, 72, 3, 246, 14, 97, 53, 87, 185, 134, 193, 29, 158,
     225, 248, 152, 17, 105, 217, 142, 148, 155, 30, 135, 233, 206, 85, 40, 223,
     140, 161, 137, 13, 191, 230, 66, 104, 65, 153, 45, 15, 176, 84, 187, 22]"
  "INV_SBOX =
    [82, 9, 106, 213, 48, 54, 165, 56, 191, 64, 163, 158, 129, 243, 215, 251,
     124, 227, 57, 130, 155, 47, 255, 135, 52, 142, 67, 68, 196, 222, 233, 203,
     84, 123, 148, 50, 166, 194, 35, 61, 238, 76, 149, 11, 66, 250, 195, 78,
     8, 46, 161, 102, 40, 217, 36, 178, 118, 91, 162, 73, 109, 139, 209, 37,
     114, 248, 246, 100, 134, 104, 152, 22, 212, 164, 92, 204, 93, 101, 182, 146,
     108, 112, 72, 80, 253, 237, 185, 218, 94, 21, 70, 87, 167, 141, 157, 132,
     144, 216, 171, 0, 140, 188, 211, 10, 247, 228, 88, 5, 184, 179, 69, 6,
     208, 44, 30, 143, 202, 63, 15, 2, 193, 175, 189, 3, 1, 19, 138, 107,
     58, 145, 17, 65, 79, 103, 220, 234, 151, 242, 207, 206, 240, 180, 230, 115,
     150, 172, 116, 34, 231, 173, 53, 133, 226, 249, 55, 232, 28, 117, 223, 110,
     71, 241, 26, 113, 29, 41, 197, 137, 111, 183, 98, 14, 170, 24, 190, 27,
     252, 86, 62, 75, 198, 210, 121, 32, 154, 219, 192, 254, 120, 205, 90, 244,
     31, 221, 168, 51, 136, 7, 199, 49, 177, 18, 16, 89, 39, 128, 236, 95,
     96, 81, 127, 169, 25, 181, 74, 13, 45, 229, 122, 159, 147, 201, 156, 239,
     160, 224, 59, 77, 174, 42, 245, 176, 200, 235, 187, 60, 131, 83, 153, 97,
     23, 43, 4, 126, 186, 119, 214, 38, 225, 105, 20, 99, 85, 33, 12, 125]"
  by (simp_all only: SBOX_def INV_SBOX_def aes_tables_value option.case prod.case)

lemma inv_sub_sub [simp]: "inv_sub_byte (sub_byte b) = b"
proof -
  have all: "list_all (\<lambda>n. INV_SBOX ! unat (SBOX ! n) = word_of_nat n) [0..<256]" by code_simp
  have "unat b < 256" using unsigned_less [where w = b] by simp
  with all have "INV_SBOX ! unat (SBOX ! unat b) = word_of_nat (unat b)" by (simp only: list_all_iff set_upt) simp
  then show ?thesis by (simp add: inv_sub_byte_def sub_byte_def)
qed

section \<open>Every step of a round can be undone\<close>

lemma xor_left_self [simp]: "a XOR (a XOR b) = b" for a b :: byte
  by (simp flip: xor.assoc)

lemma xtime_xor: "xtime (a XOR b) = xtime a XOR xtime b"
  by (cases "bit a 7"; cases "bit b 7") (simp_all add: xtime_def push_bit_xor bit_xor_iff xor.assoc xor.left_commute xor.commute)

lemma mul_values:
  "mul a 9 = a XOR xtime (xtime (xtime a))"
  "mul a 11 = a XOR xtime a XOR xtime (xtime (xtime a))"
  "mul a 13 = a XOR xtime (xtime a) XOR xtime (xtime (xtime a))"
  "mul a 14 = xtime a XOR xtime (xtime a) XOR xtime (xtime (xtime a))"
  by (simp_all add: mul_def mul_loop.simps xor.assoc)

lemma state_cases:
  assumes "length s = 16"
  obtains a0 a1 a2 a3 a4 a5 a6 a7 a8 a9 a10 a11 a12 a13 a14 a15 where "s = [a0, a1, a2, a3, a4, a5, a6, a7, a8, a9, a10, a11, a12, a13, a14, a15]"
  using assms by (auto simp: numeral_eq_Suc length_Suc_conv)

lemma upt_small: "[0..<4] = [0, 1, 2, 3 :: nat]" "[Suc 0..<4] = [1, 2, 3 :: nat]" "[0..<16] = [0, 1, 2, 3, 4, 5, 6, 7, 8, 9, 10, 11, 12, 13, 14, 15 :: nat]"
  by (simp_all add: upt_rec)

lemma add_round_key_nth: "length s = 16 \<Longrightarrow> add_round_key k s = map (\<lambda>i. s ! i XOR k ! i) [0..<16]"
  by (erule state_cases) (simp add: add_round_key_def upt_small)

lemma length_add_round_key [simp]: "length s = 16 \<Longrightarrow> length (add_round_key k s) = 16"
  by (simp add: add_round_key_nth)

lemma add_round_key_twice [simp]: "length s = 16 \<Longrightarrow> add_round_key k (add_round_key k s) = s"
  by (rule nth_equalityI) (simp_all add: add_round_key_nth xor.assoc)

lemma shift_rows_undone: "length s = 16 \<Longrightarrow> length (shift_rows s) = 16 \<and> inv_shift_rows (shift_rows s) = s"
  by (erule state_cases) (simp add: shift_rows_def inv_shift_rows_def set_row_def get_row_def upt_small)

lemma mix_columns_undone: "length s = 16 \<Longrightarrow> length (mix_columns s) = 16 \<and> inv_mix_columns (mix_columns s) = s"
  by (erule state_cases) (simp add: mix_columns_def inv_mix_columns_def set_column_def upt_small mul_values xtime_xor xor.assoc xor.left_commute xor.commute)

abbreviation (input) enc_round :: "(nat \<Rightarrow> bytes) \<Rightarrow> bytes \<Rightarrow> nat \<Rightarrow> bytes" where
  "enc_round k s rnd \<equiv> add_round_key (k rnd) (mix_columns (shift_rows (map sub_byte s)))"

abbreviation (input) dec_round :: "(nat \<Rightarrow> bytes) \<Rightarrow> bytes \<Rightarrow> nat \<Rightarrow> bytes" where
  "dec_round k s rnd \<equiv> inv_mix_columns (add_round_key (k rnd) (map inv_sub_byte (inv_shift_rows s)))"

lemma inv_sub_comp [simp]: "inv_sub_byte \<circ> sub_byte = id"
  by (simp add: fun_eq_iff)

lemma length_rounds: "length s = 16 \<Longrightarrow> length (foldl (enc_round k) s [1..<n]) = 16"
  by (induction n) (simp_all add: shift_rows_undone mix_columns_undone)

lemma rounds_undone:
  assumes "length s = 16"
  shows "foldl (dec_round k) (shift_rows (map sub_byte (foldl (enc_round k) s [1..<n]))) (rev [1..<n]) = shift_rows (map sub_byte s)"
proof (induction n)
  case (Suc n)
  show ?case
  proof (cases "1 \<le> n")
    case True
    let ?s = "foldl (enc_round k) s [1..<n]"
    have len: "length (shift_rows (map sub_byte ?s)) = 16" using length_rounds [OF assms] by (simp add: shift_rows_undone)
    then have "dec_round k (shift_rows (map sub_byte (enc_round k ?s n))) n = shift_rows (map sub_byte ?s)"
      by (simp add: shift_rows_undone mix_columns_undone)
    then show ?thesis using True Suc by (simp add: upt_Suc_append)
  qed (use Suc in \<open>simp add: upt_conv_Nil\<close>)
qed simp

lemma decrypt_encrypt_block:
  assumes "length b = 16"
  shows "\<exists>c. encrypt_block k b = Inr c \<and> length c = 16 \<and> decrypt_block k c = Inr b"
proof -
  let ?K = "\<lambda>r. aes_round_keys k ! r"
  let ?s0 = "add_round_key (?K 0) b" let ?s1 = "foldl (enc_round ?K) ?s0 [1..<aes_rounds k]"
  let ?c = "add_round_key (?K (aes_rounds k)) (shift_rows (map sub_byte ?s1))"
  have len: "length ?s0 = 16" "length ?s1 = 16" using assms length_rounds [of ?s0] by simp_all
  then have "encrypt_block k b = Inr ?c" "length ?c = 16" using assms by (simp_all add: encrypt_block_def Let_def shift_rows_undone)
  moreover have "decrypt_block k ?c = Inr b"
    using assms len calculation(2) rounds_undone [OF len(1), of ?K "aes_rounds k"]
    by (simp add: decrypt_block_def Let_def shift_rows_undone)
  ultimately show ?thesis by blast
qed

section \<open>Chaining over any block cipher\<close>

lemma blocks_append:
  assumes "length b = n" "0 < n"
  shows "cbc_blocks n (b @ bs) = b # cbc_blocks n bs"
proof -
  have "length (b @ bs) div n = Suc (length bs div n)" using assms by simp
  then show ?thesis using assms by (simp add: upt_conv_Cons map_Suc_upt [symmetric] del: upt_Suc)
qed

lemma blocks_concat: "0 < n \<Longrightarrow> list_all (\<lambda>b. length b = n) bs \<Longrightarrow> cbc_blocks n (concat bs) = bs"
  by (induction bs) (simp_all add: blocks_append del: cbc_blocks.simps, simp)

lemma blocks_whole:
  assumes "length data mod n = 0" "0 < n"
  shows "\<exists>bs. data = concat bs \<and> list_all (\<lambda>b. length b = n) bs"
  using assms(1)
proof (induction "length data" arbitrary: data rule: less_induct)
  case less
  show ?case
  proof (cases "data = []")
    case False
    then have n: "n \<le> length data" using less.prems assms(2) by (metis dvd_imp_le length_greater_0_conv mod_eq_0_iff_dvd)
    then have "length (drop n data) mod n = 0" using less.prems by (simp add: mod_eq_0_iff_dvd)
    with less.hyps [of "drop n data"] n assms(2) False obtain bs where "drop n data = concat bs" "list_all (\<lambda>b. length b = n) bs"
      by auto
    moreover have "data = take n data @ drop n data" by simp
    ultimately have "data = concat (take n data # bs)" by simp
    then show ?thesis using n \<open>list_all (\<lambda>b. length b = n) bs\<close> by (intro exI [of _ "take n data # bs"]) simp
  qed (auto intro!: exI [of _ "[]"])
qed

lemma xor_twice: "length a = length b \<Longrightarrow> map2 (XOR) (map2 (XOR) a b) b = (a :: bytes)"
  by (rule nth_equalityI) (simp_all add: xor.assoc)

locale block_cipher =
  fixes enc dec :: "bytes \<Rightarrow> exn + bytes" and n :: nat
  assumes size_pos: "0 < n"
    and undone: "length b = n \<Longrightarrow> \<exists>c. enc b = Inr c \<and> length c = n \<and> dec c = Inr b"
begin

lemma cbc_loops:
  assumes "length prev = n" "list_all (\<lambda>b. length b = n) bs"
  shows "\<exists>cs. cbc_encrypt_loop enc prev bs = Inr (concat cs) \<and> list_all (\<lambda>b. length b = n) cs \<and> length cs = length bs
    \<and> cbc_decrypt_loop dec prev cs = Inr (concat bs)"
  using assms
proof (induction bs arbitrary: prev)
  case (Cons b bs)
  then obtain c where c: "enc (map2 (XOR) b prev) = Inr c" "length c = n" "dec c = Inr (map2 (XOR) b prev)"
    using undone [of "map2 (XOR) b prev"] by auto
  moreover obtain cs where "cbc_encrypt_loop enc c bs = Inr (concat cs)" "list_all (\<lambda>b. length b = n) cs" "length cs = length bs"
    "cbc_decrypt_loop dec c cs = Inr (concat bs)"
    using Cons.IH [OF c(2)] Cons.prems by auto
  ultimately show ?case using Cons.prems by (intro exI [of _ "c # cs"]) (simp add: xor_twice)
qed simp

lemma cbc_undone:
  assumes "length iv = n" "length data mod n = 0"
  shows "\<exists>c. cbc_encrypt_loop enc iv (cbc_blocks n data) = Inr c \<and> length c = length data
    \<and> cbc_decrypt_loop dec iv (cbc_blocks n c) = Inr data"
proof -
  obtain bs where bs: "data = concat bs" "list_all (\<lambda>b. length b = n) bs" using blocks_whole [OF assms(2) size_pos] by blast
  obtain cs where cs: "cbc_encrypt_loop enc iv bs = Inr (concat cs)" "list_all (\<lambda>b. length b = n) cs" "length cs = length bs"
      "cbc_decrypt_loop dec iv cs = Inr (concat bs)"
    using cbc_loops [OF assms(1) bs(2)] by blast
  have "length (concat xs) = n * length xs" if "list_all (\<lambda>b. length b = n) xs" for xs :: "bytes list"
    using that by (induction xs) simp_all
  with bs cs show ?thesis by (auto simp: blocks_concat [OF size_pos] simp del: cbc_blocks.simps)
qed

end

interpretation aes: block_cipher "encrypt_block k" "decrypt_block k" 16 for k
  by unfold_locales (simp_all add: decrypt_encrypt_block)

section \<open>Padding\<close>

lemma word_of_nat_unat_small: "m < 256 \<Longrightarrow> unat (word_of_nat m :: byte) = m"
  by (simp add: unat_of_nat)

lemma round_up: "0 < n \<Longrightarrow> m + (n - m mod n) = n * Suc (m div n)" for m n :: nat
proof -
  assume "0 < n"
  then have "m mod n < n" "n * (m div n) + m mod n = m" by simp_all
  then show ?thesis unfolding mult_Suc_right by linarith
qed

lemma padded_length: "0 < n \<Longrightarrow> length (pkcs7_pad data n) mod n = 0"
  using round_up [of n "length data"] by (simp only: pkcs7_pad_def Let_def length_append length_replicate mod_mult_self1_is_0)

lemma round_up_unique:
  fixes m n p :: nat
  assumes "(m + p) mod n = 0" "1 \<le> p" "p \<le> n"
  shows "n - m mod n = p"
proof -
  have "(m mod n + p) mod n = 0" using assms(1) by (simp add: mod_add_left_eq)
  then obtain k where k: "m mod n + p = n * k" by (auto simp: mod_eq_0_iff_dvd elim: dvdE)
  have "m mod n < n" using assms by simp
  then have "n * k < n * 2" "0 < n * k" using k assms by linarith+
  then have "k = 1" by simp
  then show ?thesis using k by simp
qed

lemma unpad_pad:
  assumes "0 < n" "n < 256"
  shows "pkcs7_unpad (pkcs7_pad data n) n = Inr data"
proof -
  define p where "p = n - length data mod n"
  have p: "1 \<le> p" "p \<le> n" using assms by (simp_all add: p_def Suc_le_eq)
  have shape: "pkcs7_pad data n = data @ replicate p (word_of_nat p)" by (simp add: pkcs7_pad_def p_def Let_def)
  moreover have "unat (word_of_nat p :: byte) = p" using p assms by (simp add: word_of_nat_unat_small)
  ultimately show ?thesis
    using p padded_length [OF assms(1), of data] by (simp add: pkcs7_unpad_def Let_def)
qed

text \<open>What unpads is exactly what padding makes.\<close>

lemma unpad_strict:
  assumes "pkcs7_unpad d n = Inr data" "n < 256"
  shows "d = pkcs7_pad data n"
proof -
  define p where "p = unat (last d)"
  have d: "d \<noteq> []" "length d mod n = 0" "1 \<le> p" "p \<le> n" "drop (length d - p) d = replicate p (word_of_nat p)" "data = take (length d - p) d"
    using assms(1) by (auto simp: pkcs7_unpad_def p_def Let_def split: if_splits)
  have "length d = length (take (length d - p) d) + length (replicate p (word_of_nat p :: byte))"
    using d(5) by (metis append_take_drop_id length_append)
  then have len: "length data + p = length d" using d(6) by simp
  have "n - length data mod n = p" using len d(2-4) by (intro round_up_unique) simp_all
  then show ?thesis
    using d(5,6) by (metis append_take_drop_id pkcs7_pad_def)
qed

section \<open>The key schedule\<close>

text \<open>No index of the schedule or of a round is out of range.\<close>

lemma key_words:
  assumes "list_all (\<lambda>w. length w = 4) words" "length words = nk" "0 < nk" "nk \<le> m"
  shows "list_all (\<lambda>w. length w = 4) (foldl (\<lambda>ws i. ws @ [key_word nk ws i]) words [nk..<m])
    \<and> length (foldl (\<lambda>ws i. ws @ [key_word nk ws i]) words [nk..<m]) = m"
  using assms(4)
proof (induction m rule: dec_induct)
  case base
  then show ?case using assms by simp
next
  case (step m)
  let ?ws = "foldl (\<lambda>ws i. ws @ [key_word nk ws i]) words [nk..<m]"
  have "length (?ws ! i) = 4" if "i < m" for i using step.IH that by (simp add: list_all_length)
  then have "length (key_word nk ?ws m) = 4"
    using step.hyps assms(3) by (simp add: key_word_def Let_def)
  then show ?case using step by (simp add: upt_Suc_append)
qed

lemma list_all_part: "list_all P xs \<Longrightarrow> list_all P (take m (drop n xs))"
  by (auto simp: list_all_iff dest!: in_set_takeD in_set_dropD)

lemma length_concat_four: "length xs = 4 \<Longrightarrow> list_all (\<lambda>w. length w = 4) xs \<Longrightarrow> length (concat xs) = 16"
  by (auto simp: numeral_eq_Suc length_Suc_conv)

lemma expand_shape:
  assumes "length key \<in> {16, 24, 32}" "length key div 4 \<le> 4 * (rounds + 1)"
  shows "length (expand rounds key) = rounds + 1 \<and> list_all (\<lambda>k. length k = 16) (expand rounds key)"
proof -
  let ?w0 = "map (\<lambda>i. take 4 (drop (4 * i) key)) [0..<length key div 4]"
  let ?ws = "foldl (\<lambda>ws i. ws @ [key_word (length ?w0) ws i]) ?w0 [length ?w0..<4 * (rounds + 1)]"
  have "list_all (\<lambda>w. length w = 4) ?w0" using assms(1) by (auto simp: list_all_length)
  then have ws: "list_all (\<lambda>w. length w = 4) ?ws" "length ?ws = 4 * (rounds + 1)"
    using key_words [of ?w0 "length ?w0" "4 * (rounds + 1)"] assms by auto
  have "length (concat (take 4 (drop (r * 4) ?ws))) = 16" if "r < rounds + 1" for r
  proof -
    have "length (take 4 (drop (r * 4) ?ws)) = 4" using ws(2) that by simp
    moreover have "list_all (\<lambda>w. length w = 4) (take 4 (drop (r * 4) ?ws))"
      using ws(1) by (rule list_all_part)
    ultimately show ?thesis by (rule length_concat_four)
  qed
  then show ?thesis by (auto simp: expand_def Let_def list_all_iff)
qed

lemma AES_shape:
  "AES key = Inr k \<Longrightarrow> length (aes_round_keys k) = aes_rounds k + 1 \<and> list_all (\<lambda>r. length r = 16) (aes_round_keys k)"
  using expand_shape [of key 10] expand_shape [of key 12] expand_shape [of key 14]
  by (auto simp: AES_def Let_def split: if_splits)

section \<open>Property\<close>

lemma cbc_decrypts:
  assumes "length key \<in> {16, 24, 32}" "length iv = 16" "pad \<or> data \<noteq> [] \<and> length data mod 16 = 0"
  shows "\<exists>c. cbc_encrypt key data iv pad = Inr c \<and> length c mod 16 = 0 \<and> length c \<le> length data + 16
    \<and> cbc_decrypt key c iv pad = Inr data"
proof -
  let ?plain = "if pad then pkcs7_pad data 16 else data"
  obtain k where k: "AES key = Inr k" using assms(1) by (auto simp: AES_def Let_def)
  have whole: "length ?plain mod 16 = 0" using assms(3) padded_length [of 16 data] by auto
  have full: "?plain \<noteq> []" using assms(3) by (auto simp: pkcs7_pad_def Let_def)
  have short: "length ?plain \<le> length data + 16" by (simp add: pkcs7_pad_def Let_def)
  obtain c where c: "cbc_encrypt_loop (encrypt_block k) iv (cbc_blocks 16 ?plain) = Inr c" "length c = length ?plain"
      "cbc_decrypt_loop (decrypt_block k) iv (cbc_blocks 16 c) = Inr ?plain"
    using aes.cbc_undone [OF assms(2) whole, of k] by blast
  have "cbc_encrypt key data iv pad = Inr c"
    using c(1) k whole assms(2) by (simp add: cbc_encrypt_def Let_def del: cbc_blocks.simps)
  moreover have "c \<noteq> []" "length c mod 16 = 0" using c(2) full whole by auto
  then have "cbc_decrypt key c iv pad = (if pad then pkcs7_unpad ?plain 16 else Inr ?plain)"
    using c(3) k assms(2) by (simp add: cbc_decrypt_def Let_def del: cbc_blocks.simps)
  then have "cbc_decrypt key c iv pad = Inr data" using unpad_pad [of 16 data] by (simp split: if_splits)
  ultimately show ?thesis using \<open>length c mod 16 = 0\<close> c(2) short by (intro exI [of _ c]) simp
qed

text \<open>
  C24. What CBC encrypts it decrypts. With any key of 16, 24 or 32 bytes, any 16-byte IV and any data,
  padded or whole blocks, encryption succeeds with whole blocks, at least one when padding, and
  decryption under the same key and IV returns exactly the data; and the padding that decryption
  strips is never anything but what padding adds.
\<close>

theorem cbc_round_trip:
  assumes "length key \<in> {16, 24, 32}" "length iv = 16" "pad \<or> data \<noteq> [] \<and> length data mod 16 = 0"
  shows "(\<exists>c. cbc_encrypt key data iv pad = Inr c \<and> length c mod 16 = 0 \<and> cbc_decrypt key c iv pad = Inr data)
    \<and> (pkcs7_unpad d 16 = Inr x \<longleftrightarrow> d = pkcs7_pad x 16)"
  using cbc_decrypts [OF assms] unpad_strict [of d 16 x] unpad_pad [of 16 x] by auto

theorem cbc_round_trip_witness:
  "\<exists>c. cbc_encrypt (replicate 32 7) [1, 2, 3] (replicate 16 0) True = Inr c \<and> cbc_decrypt (replicate 32 7) c (replicate 16 0) True = Inr [1, 2, 3]"
  using cbc_round_trip [of "replicate 32 7" "replicate 16 0" True "[1, 2, 3]"] by auto

end
