(* ===== verification/Crypto_Blowfish.thy ===== *)
theory Crypto_Blowfish
  imports Crypto_AES
begin

text \<open>
  \<^verbatim>\<open>crypto/blowfish.py\<close>: the boxes from the digits of pi, the key schedule, one block and the ECB and CFB64
  modes. Halves and boxes are 32-bit words, so the masks with \<^verbatim>\<open>_MASK\<close> are implicit.
\<close>

section \<open>Boxes\<close>

abbreviation (input) NWORDS :: nat where "NWORDS \<equiv> 18 + 4 * 256"

text \<open>The series of the inverse tangent. It is called for 5 and 239 only; the guards make it total.\<close>

function atan_loop :: "int \<Rightarrow> int \<Rightarrow> int \<Rightarrow> int \<Rightarrow> int" where
  "atan_loop x2 term k acc =
     (if term \<le> 0 \<or> x2 \<le> 1 then acc
      else (let term1 = term div x2; k1 = k + 2
            in atan_loop x2 term1 k1 (acc + (if odd (k1 div 2) then - (term1 div k1) else term1 div k1))))"
  by pat_completeness auto
termination
  by (relation "measure (\<lambda>(x2, term, k, acc). nat term)") (auto simp: int_div_less_self)

definition atan_inv :: "int \<Rightarrow> int \<Rightarrow> int" where
  "atan_inv one x = atan_loop (x * x) (one div x) 1 (one div x)"

definition pi_fraction_words :: "nat \<Rightarrow> 32 word list" where
  "pi_fraction_words count =
     (let bits = count * 32 + 64; one = push_bit bits 1;
          frac = 16 * atan_inv one 5 - 4 * atan_inv one 239 - 3 * one
      in map (\<lambda>i. word_of_int (drop_bit (bits - 32 * (i + 1)) frac)) [0..<count])"

record blowfish =
  bf_p :: "32 word list"
  bf_s :: "32 word list list"

definition initial_boxes :: blowfish where
  "initial_boxes = (let pi = pi_fraction_words NWORDS
     in \<lparr>bf_p = take 18 pi, bf_s = map (\<lambda>i. take 256 (drop (18 + 256 * i) pi)) [0..<4]\<rparr>)"

section \<open>One block\<close>

definition bf_f :: "blowfish \<Rightarrow> 32 word \<Rightarrow> 32 word" where
  "bf_f k x =
     (((bf_s k ! 0 ! unat (drop_bit 24 x) + bf_s k ! 1 ! unat (drop_bit 16 x AND 0xFF)) XOR bf_s k ! 2 ! unat (drop_bit 8 x AND 0xFF))
      + bf_s k ! 3 ! unat (x AND 0xFF))"

definition bf_round :: "blowfish \<Rightarrow> 32 word \<times> 32 word \<Rightarrow> nat \<Rightarrow> 32 word \<times> 32 word" where
  "bf_round k = (\<lambda>(left, right) i. let left1 = left XOR bf_p k ! i; right1 = right XOR bf_f k left1 in (right1, left1))"

definition bf_encrypt_block :: "blowfish \<Rightarrow> 32 word \<times> 32 word \<Rightarrow> 32 word \<times> 32 word" where
  "bf_encrypt_block k b = (case foldl (bf_round k) b [0..<16] of (left, right) \<Rightarrow> (right XOR bf_p k ! 17, left XOR bf_p k ! 16))"

definition bf_decrypt_block :: "blowfish \<Rightarrow> 32 word \<times> 32 word \<Rightarrow> 32 word \<times> 32 word" where
  "bf_decrypt_block k b = (case foldl (bf_round k) b (rev [2..<18]) of (left, right) \<Rightarrow> (right XOR bf_p k ! 0, left XOR bf_p k ! 1))"

section \<open>The key schedule\<close>

definition key_half :: "bytes \<Rightarrow> nat \<Rightarrow> 32 word" where
  "key_half key i = foldl (\<lambda>k j. push_bit 8 k OR ucast (key ! ((4 * i + j) mod length key))) 0 [0..<4]"

definition stir_p :: "blowfish \<times> 32 word \<times> 32 word \<Rightarrow> nat \<Rightarrow> blowfish \<times> 32 word \<times> 32 word" where
  "stir_p = (\<lambda>(k, b) i. let (left, right) = bf_encrypt_block k b
     in (k\<lparr>bf_p := (bf_p k)[2 * i := left, 2 * i + 1 := right]\<rparr>, left, right))"

definition stir_s :: "nat \<Rightarrow> blowfish \<times> 32 word \<times> 32 word \<Rightarrow> nat \<Rightarrow> blowfish \<times> 32 word \<times> 32 word" where
  "stir_s box = (\<lambda>(k, b) i. let (left, right) = bf_encrypt_block k b
     in (k\<lparr>bf_s := (bf_s k)[box := (bf_s k ! box)[2 * i := left, 2 * i + 1 := right]]\<rparr>, left, right))"

definition Blowfish :: "bytes \<Rightarrow> exn + blowfish" where
  "Blowfish key =
     (if key = [] then Inl (ValueError ''Blowfish key must be non-empty'')
      else if length key > 56 then Inl (ValueError ''Blowfish key must be <= 56 bytes'')
      else (let k0 = initial_boxes;
                k1 = k0\<lparr>bf_p := map (\<lambda>i. bf_p k0 ! i XOR key_half key i) [0..<18]\<rparr>;
                k2 = foldl stir_p (k1, 0, 0) [0..<9];
                k3 = foldl (\<lambda>st box. foldl (stir_s box) st [0..<128]) k2 [0..<4]
            in Inr (fst k3)))"

section \<open>Modes\<close>

definition halves :: "bytes \<Rightarrow> 32 word \<times> 32 word" where
  "halves b = (word_of_int (be_int (take 4 b)), word_of_int (be_int (take 4 (drop 4 b))))"

definition joined :: "32 word \<times> 32 word \<Rightarrow> bytes" where
  "joined = (\<lambda>(left, right). be_bytes 4 (uint left) @ be_bytes 4 (uint right))"

definition encrypt_ecb :: "blowfish \<Rightarrow> bytes \<Rightarrow> exn + bytes" where
  "encrypt_ecb k data =
     (if length data mod 8 \<noteq> 0 then Inl (ValueError ''ECB input must be a multiple of 8 bytes'')
      else Inr (concat (map (\<lambda>b. joined (bf_encrypt_block k (halves b))) (cbc_blocks 8 data))))"

definition decrypt_ecb :: "blowfish \<Rightarrow> bytes \<Rightarrow> exn + bytes" where
  "decrypt_ecb k data =
     (if length data mod 8 \<noteq> 0 then Inl (ValueError ''ECB input must be a multiple of 8 bytes'')
      else Inr (concat (map (\<lambda>b. joined (bf_decrypt_block k (halves b))) (cbc_blocks 8 data))))"

text \<open>The feedback register takes the ciphertext, byte by byte; after a short last chunk it is not used again.\<close>

function cfb_loop :: "blowfish \<Rightarrow> bool \<Rightarrow> bytes \<Rightarrow> bytes \<Rightarrow> bytes" where
  "cfb_loop k decrypt fb data =
     (if data = [] then []
      else (let fb1 = joined (bf_encrypt_block k (halves fb)); src = take 8 data; res = map2 (XOR) src fb1;
                fb2 = (if decrypt then src else res) @ drop (length src) fb1
            in res @ cfb_loop k decrypt fb2 (drop 8 data)))"
  by pat_completeness auto
termination
  by (relation "measure (\<lambda>(k, decrypt, fb, data). length data)") auto

declare cfb_loop.simps [simp del]

definition cfb64 :: "blowfish \<Rightarrow> bytes \<Rightarrow> bytes \<Rightarrow> bool \<Rightarrow> exn + bytes" where
  "cfb64 k iv data decrypt =
     (if length iv \<noteq> 8 then Inl (ValueError ''Blowfish IV must be 8 bytes'') else Inr (cfb_loop k decrypt iv data))"

definition encrypt_cfb64 :: "blowfish \<Rightarrow> bytes \<Rightarrow> bytes \<Rightarrow> exn + bytes" where
  "encrypt_cfb64 k iv data = cfb64 k iv data False"

definition decrypt_cfb64 :: "blowfish \<Rightarrow> bytes \<Rightarrow> bytes \<Rightarrow> exn + bytes" where
  "decrypt_cfb64 k iv data = cfb64 k iv data True"

section \<open>Decryption undoes encryption\<close>

lemma xor_left_self_32 [simp]: "a XOR (a XOR b) = b" for a b :: "32 word"
  by (simp flip: xor.assoc)

text \<open>The rounds of decryption pass backwards through the states of encryption.\<close>

definition backwards :: "blowfish \<Rightarrow> 32 word \<times> 32 word \<Rightarrow> nat \<Rightarrow> 32 word \<times> 32 word" where
  "backwards k b i = (case foldl (bf_round k) b [0..<i] of (left, right) \<Rightarrow> (right XOR bf_p k ! Suc i, left XOR bf_p k ! i))"

lemma backwards_round: "bf_round k (backwards k b (Suc i)) (Suc (Suc i)) = backwards k b i"
  by (cases "foldl (bf_round k) b [0..<i]") (simp add: backwards_def bf_round_def Let_def xor.assoc xor.commute xor.left_commute)

lemma backwards_rounds: "foldl (bf_round k) (backwards k b n) (rev [2..<n + 2]) = backwards k b 0"
proof (induction n)
  case (Suc n)
  have "rev [2..<Suc n + 2] = Suc (Suc n) # rev [2..<n + 2]" by simp
  then show ?case by (simp only: foldl_Cons backwards_round Suc)
qed simp

lemma decrypt_encrypt [simp]: "bf_decrypt_block k (bf_encrypt_block k b) = b"
proof -
  have "bf_encrypt_block k b = backwards k b 16" by (simp add: bf_encrypt_block_def backwards_def)
  moreover have "foldl (bf_round k) (backwards k b 16) (rev [2..<18]) = backwards k b 0" using backwards_rounds [of k b 16] by simp
  ultimately show ?thesis by (cases b) (simp add: bf_decrypt_block_def backwards_def xor.assoc)
qed

lemma length_joined [simp]: "length (joined b) = 8"
  by (simp add: joined_def split: prod.split)

lemma halves_joined [simp]: "halves (joined b) = b"
proof -
  have "uint w mod 256 ^ 4 = uint w" for w :: "32 word" using uint_bounded [of w] by simp
  then show ?thesis by (cases b) (simp add: joined_def halves_def be_int_be_bytes)
qed

lemma joined_halves:
  assumes "length b = 8"
  shows "joined (halves b) = b"
proof -
  have word: "uint (word_of_int (be_int c) :: 32 word) = be_int c" if "length c = 4" for c
    using be_int_bounds [of c] that by (simp add: uint_word_of_int)
  have "be_bytes 4 (be_int (take 4 b)) = take 4 b" "be_bytes 4 (be_int (take 4 (drop 4 b))) = take 4 (drop 4 b)"
    using be_bytes_be_int [of "take 4 b"] be_bytes_be_int [of "take 4 (drop 4 b)"] assms by simp_all
  moreover have "take 4 b @ take 4 (drop 4 b) = b" using assms by (metis add_diff_cancel_right' append_take_drop_id length_drop numeral_Bit0 order_refl take_all)
  ultimately show ?thesis using assms by (simp add: joined_def halves_def word)
qed

lemma ecb_round_trip:
  assumes "length data mod 8 = 0"
  shows "\<exists>c. encrypt_ecb k data = Inr c \<and> decrypt_ecb k c = Inr data"
proof -
  obtain bs where bs: "data = concat bs" "list_all (\<lambda>b. length b = 8) bs" using blocks_whole [OF assms] by auto
  let ?cs = "map (\<lambda>b. joined (bf_encrypt_block k (halves b))) bs"
  have cs: "list_all (\<lambda>b. length b = 8) ?cs" by (simp add: list_all_iff)
  have "map (\<lambda>b. joined (bf_decrypt_block k (halves b))) ?cs = bs"
    using bs(2) by (induction bs) (simp_all add: joined_halves)
  moreover have "length (concat ?cs) mod 8 = 0" by (induction bs) simp_all
  ultimately show ?thesis
    using bs cs assms by (simp add: encrypt_ecb_def decrypt_ecb_def blocks_concat del: cbc_blocks.simps)
qed

lemma cfb_decrypt_chunk:
  assumes "res \<noteq> []" "length res \<le> 8" "length res < 8 \<Longrightarrow> rest = []"
  shows "cfb_loop k True fb (res @ rest) = map2 (XOR) res (joined (bf_encrypt_block k (halves fb)))
    @ cfb_loop k True (res @ drop (length res) (joined (bf_encrypt_block k (halves fb)))) rest"
  using assms by (subst cfb_loop.simps) (cases "length res = 8"; simp add: Let_def)

lemma cfb_undone: "cfb_loop k True fb (cfb_loop k False fb data) = data"
proof (induction "length data" arbitrary: fb data rule: less_induct)
  case less
  show ?case
  proof (cases "data = []")
    case False
    define ks where "ks = joined (bf_encrypt_block k (halves fb))"
    define res where "res = map2 (XOR) (take 8 data) ks"
    define fb2 where "fb2 = res @ drop (length res) ks"
    have ks: "length ks = 8" by (simp add: ks_def)
    have res: "res \<noteq> []" "length res \<le> 8" using False ks by (auto simp: res_def)
    have rest: "cfb_loop k False fb2 (drop 8 data) = []" if "length res < 8"
      using that ks by (auto simp: res_def cfb_loop.simps [of k False _ "[]"] min_def split: if_splits)
    have "cfb_loop k False fb data = res @ cfb_loop k False fb2 (drop 8 data)"
      using False ks by (subst cfb_loop.simps) (simp add: Let_def res_def fb2_def flip: ks_def)
    moreover have "map2 (XOR) res ks = take 8 data" using ks by (intro nth_equalityI) (auto simp: res_def xor.assoc)
    ultimately have "cfb_loop k True fb (cfb_loop k False fb data) = take 8 data @ cfb_loop k True fb2 (cfb_loop k False fb2 (drop 8 data))"
      using cfb_decrypt_chunk [OF res rest, of k fb] by (simp add: fb2_def flip: ks_def)
    also have "\<dots> = data" using less [of "drop 8 data" fb2] False by simp
    finally show ?thesis .
  qed (simp add: cfb_loop.simps)
qed

lemma cfb_round_trip: "length iv = 8 \<Longrightarrow> encrypt_cfb64 k iv data = Inr c \<Longrightarrow> decrypt_cfb64 k iv c = Inr data"
  by (auto simp: encrypt_cfb64_def decrypt_cfb64_def cfb64_def cfb_undone)

end
