(* ===== verification/Auth_Sss.thy ===== *)
theory Auth_Sss
  imports Crypto_Blowfish Checksums Auth_Ladder Xrd_Url
begin

text \<open>
  The shared-secret mechanism, \<^verbatim>\<open>auth/sss.py\<close>: the keytab and the credential made from one of its keys. A
  keytab is the permission bits and the decoded lines of the file; \<^verbatim>\<open>os.urandom\<close> and the clock are
  arguments. The texts that tell a person what is missing are not modelled.
\<close>

section \<open>The keytab\<close>

record sss_key =
  sk_id :: int
  sk_secret :: bytes
  sk_name :: str
  sk_user :: str
  sk_group :: str
  sk_expires :: int

definition sk_expired :: "int \<Rightarrow> sss_key \<Rightarrow> bool" where
  "sk_expired now key \<longleftrightarrow> sk_expires key \<noteq> 0 \<and> sk_expires key \<le> now"

record keytab =
  kt_mode :: int
  kt_lines :: "str list"

text \<open>\<^verbatim>\<open>bytes.fromhex\<close> of text without white space.\<close>

fun from_hex :: "str \<Rightarrow> exn + bytes" where
  "from_hex [] = Inr []"
| "from_hex [c] = Inl (ValueError ''non-hexadecimal number found'')"
| "from_hex (a # b # s) =
     (case (hex_value a, hex_value b) of
        (Some x, Some y) \<Rightarrow> bindE (from_hex s) (\<lambda>bs. Inr (word_of_nat (16 * x + y) # bs))
      | _ \<Rightarrow> Inl (ValueError ''non-hexadecimal number found''))"

text \<open>35 is the number sign, 58 the colon.\<close>

fun key_attrs :: "str list \<Rightarrow> (nat, str) dict \<Rightarrow> (nat, str) dict" where
  "key_attrs [] d = d"
| "key_attrs (f # fs) d =
     (if take 1 f = [35] then d
      else key_attrs fs (if length f > 1 \<and> f ! 1 = 58 then AList.update (f ! 0) (drop 2 f) d else d))"

definition attr_or :: "(nat, str) dict \<Rightarrow> char \<Rightarrow> str \<Rightarrow> str" where
  "attr_or d c dflt = (case map_of d (of_char c) of None \<Rightarrow> dflt | Some v \<Rightarrow> v)"

text \<open>One line: a key, nothing, or an exception.\<close>

definition keytab_line :: "str \<Rightarrow> exn + sss_key option" where
  "keytab_line raw =
     (let line = strip raw; fields = split_ws line in
      if line = [] \<or> take 1 line = [35] \<or> hd fields \<notin> {lit ''0'', lit ''1''} then Inr None
      else (let attrs = key_attrs (tl fields) [] in
        bindE (case map_of attrs (of_char CHR ''k'') of None \<Rightarrow> Inr [] | Some k \<Rightarrow> from_hex k) (\<lambda>secret.
          if secret = [] then Inr None
          else bindE (case map_of attrs (of_char CHR ''N'') of None \<Rightarrow> Inr (- 1) | Some s \<Rightarrow> py_int s) (\<lambda>n.
               bindE (case map_of attrs (of_char CHR ''e'') of None \<Rightarrow> Inr 0 | Some s \<Rightarrow> py_int s) (\<lambda>e.
            Inr (Some \<lparr>sk_id = n, sk_secret = secret, sk_name = attr_or attrs CHR ''n'' [], sk_user = attr_or attrs CHR ''u'' [],
              sk_group = attr_or attrs CHR ''g'' [], sk_expires = e\<rparr>))))))"

fun keytab_keys :: "int \<Rightarrow> bool \<Rightarrow> str list \<Rightarrow> exn + sss_key list" where
  "keytab_keys now include_expired [] = Inr []"
| "keytab_keys now include_expired (raw # lines) =
     bindE (keytab_line raw) (\<lambda>k. bindE (keytab_keys now include_expired lines) (\<lambda>ks.
       Inr (case k of
              None \<Rightarrow> ks
            | Some key \<Rightarrow> if sk_expired now key \<and> \<not> include_expired then ks else key # ks)))"

definition read_keytab :: "int \<Rightarrow> keytab option \<Rightarrow> bool \<Rightarrow> bool \<Rightarrow> exn + sss_key list" where
  "read_keytab now tab include_expired require_private =
     (case tab of
        None \<Rightarrow> Inl (OSError ENOENT)
      | Some kt \<Rightarrow>
          if require_private \<and> (kt_mode kt AND 0x1FF) AND 0x3F \<noteq> 0 then Inl (OSError EACCES)
          else keytab_keys now include_expired (kt_lines kt))"

section \<open>The credential\<close>

abbreviation (input) BASE_TIME :: int where "BASE_TIME \<equiv> 1222183880"

definition sss_user :: "str \<Rightarrow> exn + bytes" where
  "sss_user uname = utf8_encode (if uname \<noteq> [] then uname else lit ''xrd'')"

definition sss_body :: "bytes \<Rightarrow> int \<Rightarrow> bytes \<Rightarrow> bytes" where
  "sss_body nonce gen_time user =
     (let ulen = min (length user + 1) 64;
          data_hdr = nonce @ be_bytes 4 (gen_time mod 2 ^ 32) @ [0, 0, 0] @ [0];
          tlv = [1, 0, word_of_nat ulen] @ take (ulen - 1) user @ [0]
      in data_hdr @ tlv)"

definition build_credential :: "bytes \<Rightarrow> int \<Rightarrow> sss_key \<Rightarrow> str \<Rightarrow> bytes option \<Rightarrow> int option \<Rightarrow> exn + bytes" where
  "build_credential urandom now key uname nonce gen_time =
     bindE (case nonce of
              None \<Rightarrow> Inr urandom
            | Some n \<Rightarrow> if length n \<noteq> 32 then Inl (ValueError ''SSS nonce must be 32 bytes'') else Inr n) (\<lambda>nonce1.
     bindE (sss_user uname) (\<lambda>user.
       let body = sss_body nonce1 (case gen_time of None \<Rightarrow> now - BASE_TIME | Some t \<Rightarrow> t) user;
           plain = body @ be_bytes 4 (zlib_crc32 body 0)
       in bindE (Blowfish (sk_secret key)) (\<lambda>bf. bindE (encrypt_cfb64 bf (replicate 8 0) plain) (\<lambda>cipher.
          if sk_id key < - (2 ^ 63) \<or> 2 ^ 63 \<le> sk_id key then Inl StructError
          else Inr ([115, 115, 115, 0, 1, 0, 0, 48] @ be_bytes 8 (sk_id key) @ cipher)))))"

definition sss_initial :: "bytes \<Rightarrow> int \<Rightarrow> sss_key \<times> str \<Rightarrow> exn + bytes" where
  "sss_initial urandom now = (\<lambda>(key, uname).
     if sk_expired now key then Inl (AuthenticationError ''SSS key expired'') else build_credential urandom now key uname None None)"

fun is_value_error :: "exn \<Rightarrow> bool" where
  "is_value_error (ValueError m) = True"
| "is_value_error _ = False"

definition sss_available :: "int \<Rightarrow> keytab option \<Rightarrow> str \<Rightarrow> offer \<Rightarrow> str \<Rightarrow> exn + (sss_key \<times> str) option" where
  "sss_available now tab config_user o' uname =
     (if tab = None then Inr None
      else case read_keytab now tab False True of
        Inl e \<Rightarrow> if is_os_exn e \<or> is_value_error e then Inr None else Inl e
      | Inr found_keys \<Rightarrow>
          Inr (map_option (\<lambda>key. (key, if uname \<noteq> [] then uname else config_user))
                 (List.find (\<lambda>key. case map_of (offer_options o') (lit ''n'') of None \<Rightarrow> True | Some wanted \<Rightarrow> sk_name key = wanted) found_keys)))"

section \<open>What a keytab yields\<close>

lemma keytab_line_secret: "keytab_line raw = Inr (Some key) \<Longrightarrow> sk_secret key \<noteq> []"
  by (auto simp: keytab_line_def Let_def bindE_eq_Inr split: if_splits)

lemma keytab_keys_usable:
  assumes "keytab_keys now False lines = Inr found_keys" "key \<in> set found_keys"
  shows "sk_secret key \<noteq> [] \<and> \<not> sk_expired now key"
  using assms
proof (induction lines arbitrary: found_keys)
  case (Cons raw lines)
  then obtain k ks where "keytab_line raw = Inr k" "keytab_keys now False lines = Inr ks"
      "found_keys = (case k of None \<Rightarrow> ks | Some key \<Rightarrow> if sk_expired now key \<and> \<not> False then ks else key # ks)"
    by (auto simp: bindE_eq_Inr)
  with Cons keytab_line_secret [of raw] show ?case by (cases k) (auto split: if_splits)
qed simp

lemma find_Some_in: "List.find P xs = Some x \<Longrightarrow> x \<in> set xs"
  by (auto simp: find_Some_iff)

lemma sss_available_key:
  assumes "sss_available now tab config_user o' uname = Inr (Some (key, user))"
  obtains kt where "tab = Some kt" "(kt_mode kt AND 0x1FF) AND 0x3F = 0" "sk_secret key \<noteq> []" "\<not> sk_expired now key"
    "user = (if uname \<noteq> [] then uname else config_user)"
proof -
  from assms obtain kt where kt: "tab = Some kt" by (cases tab) (auto simp: sss_available_def)
  with assms obtain found_keys where found_keys: "read_keytab now tab False True = Inr found_keys"
    by (auto simp: sss_available_def split: sum.splits if_splits)
  with kt have priv: "(kt_mode kt AND 0x1FF) AND 0x3F = 0" and ks: "keytab_keys now False (kt_lines kt) = Inr found_keys"
    by (auto simp: read_keytab_def split: if_splits)
  from assms kt found_keys have "key \<in> set found_keys" "user = (if uname \<noteq> [] then uname else config_user)"
    by (auto simp: sss_available_def find_Some_iff)
  with keytab_keys_usable [OF ks] show ?thesis using that [OF kt priv] by blast
qed

section \<open>Property\<close>

lemma Blowfish_ok: "key \<noteq> [] \<Longrightarrow> length key \<le> 56 \<Longrightarrow> \<exists>bf. Blowfish key = Inr bf"
  by (simp add: Blowfish_def Let_def)

text \<open>
  C32. A shared-secret credential opens at the server, and only with material fit for it. Whenever the mechanism
  offers itself, the keytab is closed to group and others and the key it took is a non-empty one that
  has not expired. The credential made from it is the cleartext header with the key's number, and a
  ciphertext which the holder of the same secret decrypts to the nonce, the time since the protocol's
  epoch, the user name, cut at 63 bytes, length-prefixed and NUL-terminated, and the CRC-32 of all that.
\<close>

theorem sss_credential_opens:
  assumes "sss_available now tab config_user o' uname = Inr (Some (key, user))"
    and "length (sk_secret key) \<le> 56" and "- (2 ^ 63) \<le> sk_id key" and "sk_id key < 2 ^ 63"
    and "sss_user user = Inr u" and "length urandom = 32"
  shows "(\<exists>kt. tab = Some kt \<and> (kt_mode kt AND 0x1FF) AND 0x3F = 0) \<and> \<not> sk_expired now key
    \<and> (\<exists>blob bf body. sss_initial urandom now (key, user) = Inr blob \<and> Blowfish (sk_secret key) = Inr bf
        \<and> take 16 blob = [115, 115, 115, 0, 1, 0, 0, 48] @ be_bytes 8 (sk_id key)
        \<and> decrypt_cfb64 bf (replicate 8 0) (drop 16 blob) = Inr (body @ be_bytes 4 (zlib_crc32 body 0))
        \<and> body = urandom @ be_bytes 4 ((now - BASE_TIME) mod 2 ^ 32) @ replicate 4 0
            @ [1, 0, word_of_nat (min (length u) 63 + 1)] @ take 63 u @ [0])"
proof -
  obtain kt where kt: "tab = Some kt" "(kt_mode kt AND 0x1FF) AND 0x3F = 0" "sk_secret key \<noteq> []" "\<not> sk_expired now key"
    using sss_available_key [OF assms(1)] by blast
  obtain bf where bf: "Blowfish (sk_secret key) = Inr bf" using Blowfish_ok [OF kt(3) assms(2)] by blast
  define body where "body = sss_body urandom (now - BASE_TIME) u"
  define plain where "plain = body @ be_bytes 4 (zlib_crc32 body 0)"
  obtain c where c: "encrypt_cfb64 bf (replicate 8 0) plain = Inr c" by (simp add: encrypt_cfb64_def cfb64_def)
  have "sss_initial urandom now (key, user) = Inr ([115, 115, 115, 0, 1, 0, 0, 48] @ be_bytes 8 (sk_id key) @ c)"
    using kt(4) assms(3-5) bf c by (simp add: sss_initial_def build_credential_def Let_def body_def plain_def)
  moreover have "decrypt_cfb64 bf (replicate 8 0) c = Inr plain" using cfb_round_trip [OF _ c] by simp
  moreover have "min (length u + 1) 64 = min (length u) 63 + 1" "take (min (length u) 63) u = take 63 u" by (simp_all add: min_def)
  then have "body = urandom @ be_bytes 4 ((now - BASE_TIME) mod 2 ^ 32) @ replicate 4 0 @ [1, 0, word_of_nat (min (length u) 63 + 1)] @ take 63 u @ [0]"
    by (simp add: body_def sss_body_def Let_def numeral_eq_Suc)
  moreover have "take 16 ([115, 115, 115, 0, 1, 0, 0, 48] @ be_bytes 8 (sk_id key) @ c) = [115, 115, 115, 0, 1, 0, 0, 48] @ be_bytes 8 (sk_id key)"
    "drop 16 ([115, 115, 115, 0, 1, 0, 0, 48] @ be_bytes 8 (sk_id key) @ c) = c" by simp_all
  ultimately show ?thesis using kt bf unfolding plain_def by metis
qed

definition sample_keytab :: keytab where
  "sample_keytab = \<lparr>kt_mode = 0x8180, kt_lines = [lit ''# keys'', lit ''0 u:anon g:usr n:old N:6 e:5 k:aa'', lit ''0 u:anon g:usr n:k N:7 e:0 k:0102 # note'']\<rparr>"

definition sample_sss_key :: sss_key where
  "sample_sss_key = \<lparr>sk_id = 7, sk_secret = [1, 2], sk_name = lit ''k'', sk_user = lit ''anon'', sk_group = lit ''usr'', sk_expires = 0\<rparr>"

theorem sss_credential_opens_witness:
  "sss_available 1700000000 (Some sample_keytab) (lit ''me'') \<lparr>of_name = lit ''sss'', of_params = lit ''n:k''\<rparr> []
     = Inr (Some (sample_sss_key, lit ''me''))
   \<and> (\<exists>blob. sss_initial (replicate 32 9) 1700000000 (sample_sss_key, lit ''me'') = Inr blob \<and> take 16 blob = [115, 115, 115, 0, 1, 0, 0, 48, 0, 0, 0, 0, 0, 0, 0, 7])"
proof -
  have a: "sss_available 1700000000 (Some sample_keytab) (lit ''me'') \<lparr>of_name = lit ''sss'', of_params = lit ''n:k''\<rparr> []
      = Inr (Some (sample_sss_key, lit ''me''))" by code_simp
  have u: "sss_user (lit ''me'') = Inr [109, 101]" by code_simp
  have n: "be_bytes 8 7 = [0, 0, 0, 0, 0, 0, 0, 7]" by code_simp
  from sss_credential_opens [OF a _ _ _ u, of "replicate 32 9"] n a show ?thesis by (auto simp: sample_sss_key_def)
qed

end
