(* ===== verification/Crypto_Der.thy ===== *)
theory Crypto_Der
  imports Xrd_Prelude Py_Text
begin

text \<open>
  The reader of DER structures, \<^verbatim>\<open>crypto/der.py\<close>. An element is its tag and its content; offsets into the
  input are natural numbers. \<open>key_exn\<close> are the exceptions of the modules that read keys and
  certificates: \<open>DERError\<close>, a kind of \<^verbatim>\<open>ValueError\<close>, and \<open>CredentialError\<close> are the package's own, the others come
  from the interpreter.
\<close>

datatype key_exn = DERError string | CredentialError string | KeyValueError string | KeyIndexError | KeyZeroDivision
  | KeyOverflow | KeyStructError

abbreviation (input) TAG_INTEGER :: byte where "TAG_INTEGER \<equiv> 0x02"
abbreviation (input) TAG_BIT_STRING :: byte where "TAG_BIT_STRING \<equiv> 0x03"
abbreviation (input) TAG_OCTET_STRING :: byte where "TAG_OCTET_STRING \<equiv> 0x04"
abbreviation (input) TAG_OID :: byte where "TAG_OID \<equiv> 0x06"
abbreviation (input) TAG_UTC_TIME :: byte where "TAG_UTC_TIME \<equiv> 0x17"
abbreviation (input) TAG_GENERALIZED_TIME :: byte where "TAG_GENERALIZED_TIME \<equiv> 0x18"

record element =
  el_tag :: byte
  el_value :: bytes

definition constructed :: "element \<Rightarrow> bool" where
  "constructed e \<longleftrightarrow> el_tag e AND 0x20 \<noteq> 0"

definition read_length :: "bytes \<Rightarrow> nat \<Rightarrow> key_exn + nat \<times> nat" where
  "read_length data pos =
     (if pos \<ge> length data then Inl (DERError ''truncated: no length byte'')
      else (let first = data ! pos; pos1 = pos + 1 in
        if first < 0x80 then Inr (unat first, pos1)
        else (let count = unat (first AND 0x7F) in
          if count = 0 then Inl (DERError ''indefinite lengths are not valid DER'')
          else if count > 4 then Inl (DERError ''length of length is implausible'')
          else if pos1 + count > length data then Inl (DERError ''truncated: long-form length runs past the end'')
          else Inr (nat (be_int (take count (drop pos1 data))), pos1 + count))))"

definition der_parse :: "bytes \<Rightarrow> nat \<Rightarrow> key_exn + element \<times> nat" where
  "der_parse data pos =
     (if pos \<ge> length data then Inl (DERError ''truncated: no tag byte'')
      else (let tag = data ! pos in
        if tag AND 0x1F = 0x1F then Inl (DERError ''multi-byte tags are not supported'')
        else bindE (read_length data (pos + 1)) (\<lambda>(len, pos1).
          if pos1 + len > length data then Inl (DERError ''truncated: element claims more bytes'')
          else Inr (\<lparr>el_tag = tag, el_value = take len (drop pos1 data)\<rparr>, pos1 + len))))"

lemma read_length_advances: "read_length data pos = Inr (len, pos1) \<Longrightarrow> pos < pos1"
  by (auto simp: read_length_def Let_def split: if_splits)

lemma parse_advances: "der_parse data pos = Inr (e, pos1) \<Longrightarrow> pos < pos1 \<and> pos1 \<le> length data"
  by (auto simp: der_parse_def Let_def bindE_eq_Inr dest!: read_length_advances split: if_splits)

function parse_from :: "bytes \<Rightarrow> nat \<Rightarrow> key_exn + element list" where
  "parse_from data pos =
     (if pos < length data
      then (case der_parse data pos of
              Inl x \<Rightarrow> Inl x
            | Inr (e, pos1) \<Rightarrow> bindE (parse_from data pos1) (\<lambda>es. Inr (e # es)))
      else Inr [])"
  by pat_completeness auto
termination
  by (relation "measure (\<lambda>(data, pos). length data - pos)") (auto dest: parse_advances)

declare parse_from.simps [simp del]

definition parse_all :: "bytes \<Rightarrow> key_exn + element list" where
  "parse_all data = parse_from data 0"

definition children :: "element \<Rightarrow> key_exn + element list" where
  "children e = (if \<not> constructed e then Inl (DERError ''primitive and has no children'') else parse_all (el_value e))"

text \<open>\<^verbatim>\<open>int.from_bytes(value, "big", signed=True)\<close>.\<close>

definition signed_be :: "bytes \<Rightarrow> int" where
  "signed_be bs = (if bs \<noteq> [] \<and> hd bs \<ge> 0x80 then be_int bs - 256 ^ length bs else be_int bs)"

definition read_integer :: "element \<Rightarrow> key_exn + int" where
  "read_integer e =
     (if el_tag e \<noteq> TAG_INTEGER then Inl (DERError ''expected INTEGER'')
      else if el_value e = [] then Inl (DERError ''INTEGER with no content'')
      else Inr (signed_be (el_value e)))"

text \<open>The arcs after the first byte; the flag of the loop is whether bytes are left.\<close>

fun oid_arcs :: "int \<Rightarrow> bytes \<Rightarrow> key_exn + int list" where
  "oid_arcs value [] = Inr []"
| "oid_arcs value (b # bs) =
     (let value1 = push_bit 7 value OR uint (b AND 0x7F) in
      if b AND 0x80 = 0 then bindE (oid_arcs 0 bs) (\<lambda>vs. Inr (value1 # vs))
      else if bs = [] then Inl (DERError ''OBJECT IDENTIFIER ends mid-arc'')
      else oid_arcs value1 bs)"

text \<open>The numbers of an object identifier, which the code joins with dots.\<close>

definition oid :: "element \<Rightarrow> key_exn + int list" where
  "oid e =
     (if el_tag e \<noteq> TAG_OID then Inl (DERError ''expected OBJECT IDENTIFIER'')
      else case el_value e of
        [] \<Rightarrow> Inl (DERError ''OBJECT IDENTIFIER with no content'')
      | b # bs \<Rightarrow>
          (let first = uint b; top = min (first div 40) 2
           in bindE (oid_arcs 0 bs) (\<lambda>vs. Inr (top # (first - 40 * top) # vs))))"

section \<open>What the parser accepts\<close>

text \<open>
  The forms of a length the parser takes for \<open>n\<close>: one byte, or a count of one to four bytes and the number in them, not
  necessarily the shortest.
\<close>

definition length_form :: "nat \<Rightarrow> bytes \<Rightarrow> bool" where
  "length_form n h \<longleftrightarrow> (n < 128 \<and> h = [word_of_nat n])
     \<or> (\<exists>c bs. 1 \<le> c \<and> c \<le> 4 \<and> length bs = c \<and> h = word_of_nat (128 + c) # bs \<and> be_int bs = int n)"

definition element_form :: "element \<Rightarrow> bytes \<Rightarrow> bool" where
  "element_form e bs \<longleftrightarrow> el_tag e AND 0x1F \<noteq> 0x1F
     \<and> (\<exists>h. length_form (length (el_value e)) h \<and> bs = el_tag e # h @ el_value e)"

lemma byte_split: "b \<ge> 0x80 \<Longrightarrow> b = word_of_nat (128 + unat (b AND 0x7F))" for b :: byte
proof -
  assume b: "b \<ge> 0x80"
  have "b AND 0x7F = take_bit 7 b" by (simp add: take_bit_eq_mask mask_eq_exp_minus_1)
  then have "unat (b AND 0x7F) = unat b mod 128" by (simp add: take_bit_eq_mod unat_mod)
  moreover have "128 \<le> unat b" "unat b < 256" using b unsigned_less [where w = b] by (simp_all add: word_le_nat_alt)
  then have "unat b = 128 + unat b mod 128" using le_mod_geq [of 128 "unat b"] by simp
  ultimately have "unat b = 128 + unat (b AND 0x7F)" by simp
  moreover have "word_of_nat (unat b) = b" by simp
  ultimately show ?thesis by metis
qed

lemma read_length_form:
  assumes "read_length data pos = Inr (len, pos1)"
  shows "\<exists>h. length_form len h \<and> pos1 = pos + length h \<and> take (length h) (drop pos data) = h"
proof -
  let ?b = "data ! pos"
  have pos: "pos < length data" using assms by (auto simp: read_length_def split: if_splits)
  then have d: "drop pos data = ?b # drop (pos + 1) data" by (simp add: Cons_nth_drop_Suc)
  show ?thesis
  proof (cases "?b < 0x80")
    case True
    then have "unat ?b < 128" by (simp add: word_less_nat_alt)
    with assms True pos d show ?thesis by (auto simp: read_length_def Let_def length_form_def)
  next
    case False
    define c where "c = unat (?b AND 0x7F)"
    define bs where "bs = take c (drop (pos + 1) data)"
    have c: "1 \<le> c" "c \<le> 4" "length bs = c" "len = nat (be_int bs)" "pos1 = pos + 1 + c"
      using assms False pos by (auto simp: read_length_def Let_def c_def bs_def split: if_splits)
    have "length_form len (?b # bs)"
      using c byte_split [of ?b] False be_int_bounds [of bs] by (auto simp: length_form_def c_def [symmetric])
    moreover have "take (length (?b # bs)) (drop pos data) = ?b # bs" using c d by (simp add: bs_def)
    ultimately show ?thesis using c by (intro exI [of _ "?b # bs"]) simp
  qed
qed

lemma word_of_nat_7: "c \<le> 4 \<Longrightarrow> unat ((word_of_nat (128 + c) :: byte) AND 0x7F) = c \<and> \<not> (word_of_nat (128 + c) :: byte) < 0x80"
proof -
  assume "c \<le> 4"
  then have "c \<in> {0, 1, 2, 3, 4}" by auto
  then show ?thesis by (elim insertE emptyE; hypsubst; code_simp)
qed

lemma read_length_of_form:
  assumes "length_form n h"
  shows "read_length (pre @ h @ post) (length pre) = Inr (n, length pre + length h)"
  using assms unfolding length_form_def
proof (elim disjE conjE exE)
  assume "n < 128" "h = [word_of_nat n]"
  then show ?thesis by (simp add: read_length_def nth_append Let_def word_less_nat_alt unat_of_nat)
next
  fix c bs assume "1 \<le> c" "c \<le> 4" "length bs = c" "h = word_of_nat (128 + c) # bs" "be_int bs = int n"
  then show ?thesis using word_of_nat_7 [of c] by (simp add: read_length_def nth_append Let_def)
qed

lemma parse_form:
  assumes "der_parse data pos = Inr (e, pos1)"
  shows "\<exists>bs. element_form e bs \<and> pos1 = pos + length bs \<and> take (length bs) (drop pos data) = bs"
proof -
  have pos: "pos < length data" and tag: "data ! pos AND 0x1F \<noteq> 0x1F" using assms by (auto simp: der_parse_def Let_def split: if_splits)
  then obtain len p1 where r: "read_length data (pos + 1) = Inr (len, p1)" "p1 + len \<le> length data"
      "e = \<lparr>el_tag = data ! pos, el_value = take len (drop p1 data)\<rparr>" "pos1 = p1 + len"
    using assms by (auto simp: der_parse_def Let_def bindE_eq_Inr split: if_splits)
  obtain h where h: "length_form len h" "p1 = pos + 1 + length h" "take (length h) (drop (pos + 1) data) = h"
    using read_length_form [OF r(1)] by blast
  let ?bs = "data ! pos # h @ el_value e"
  have len: "length (el_value e) = len" using r by simp
  have "drop pos data = data ! pos # drop (pos + 1) data" using pos by (simp add: Cons_nth_drop_Suc)
  moreover have "take (length h + len) (drop (pos + 1) data) = h @ take len (drop p1 data)"
    using h take_add [of "length h" len "drop (pos + 1) data"] by (simp add: add.commute)
  ultimately have "take (length ?bs) (drop pos data) = ?bs" using len r(3) by simp
  then show ?thesis using h r tag len by (intro exI [of _ ?bs]) (auto simp: element_form_def)
qed

lemma parse_of_form:
  assumes "element_form e bs"
  shows "der_parse (pre @ bs @ post) (length pre) = Inr (e, length pre + length bs)"
proof -
  obtain h where h: "length_form (length (el_value e)) h" "bs = el_tag e # h @ el_value e" "el_tag e AND 0x1F \<noteq> 0x1F"
    using assms by (auto simp: element_form_def)
  have "read_length (pre @ bs @ post) (length pre + 1) = Inr (length (el_value e), length pre + 1 + length h)"
    using read_length_of_form [OF h(1), of "pre @ [el_tag e]" "el_value e @ post"] h(2) by simp
  then show ?thesis using h(2,3) by (simp add: der_parse_def nth_append Let_def)
qed

lemma parse_from_iff:
  "pos \<le> length data \<Longrightarrow> parse_from data pos = Inr es \<longleftrightarrow> (\<exists>ps. list_all2 element_form es ps \<and> drop pos data = concat ps)"
proof (induction data pos arbitrary: es rule: parse_from.induct)
  case (1 data pos)
  show ?case
  proof (cases "pos < length data")
    case True
    have ne: "ps \<noteq> []" if "drop pos data = concat ps" for ps using True that by auto
    show ?thesis
    proof
      assume "parse_from data pos = Inr es"
      then obtain e pos1 rest where p: "der_parse data pos = Inr (e, pos1)" "parse_from data pos1 = Inr rest" "es = e # rest"
        using True by (subst (asm) parse_from.simps) (auto simp: bindE_eq_Inr split: sum.splits)
      obtain bs where bs: "element_form e bs" "pos1 = pos + length bs" "take (length bs) (drop pos data) = bs"
        using parse_form [OF p(1)] by blast
      obtain ps where ps: "list_all2 element_form rest ps" "drop pos1 data = concat ps"
        using 1(1) [OF True p(1) refl, of rest] parse_advances [OF p(1)] p(2) by auto
      have "drop pos data = bs @ drop pos1 data" using bs(2,3) append_take_drop_id [of "length bs" "drop pos data"] by (simp add: add.commute)
      then show "\<exists>ps. list_all2 element_form es ps \<and> drop pos data = concat ps"
        using bs(1) ps p(3) by (intro exI [of _ "bs # ps"]) simp
    next
      assume "\<exists>ps. list_all2 element_form es ps \<and> drop pos data = concat ps"
      then obtain e rest bs ps where q: "es = e # rest" "element_form e bs" "list_all2 element_form rest ps" "drop pos data = bs @ concat ps"
        using ne by (force simp: neq_Nil_conv list_all2_Cons2)
      have "data = take pos data @ bs @ concat ps" using q(4) append_take_drop_id [of pos data] by simp
      moreover have "length (take pos data) = pos" using True by simp
      ultimately have p: "der_parse data pos = Inr (e, pos + length bs)" using parse_of_form [OF q(2), of "take pos data" "concat ps"] by metis
      have "drop (pos + length bs) data = concat ps" using q(4) by (metis add.commute append_eq_conv_conj drop_drop)
      then have "parse_from data (pos + length bs) = Inr rest"
        using 1(1) [OF True p refl, of rest] parse_advances [OF p] q(3) by blast
      then show "parse_from data pos = Inr es" using p True q(1) by (subst parse_from.simps) simp
    qed
  next
    case False
    have nil: "es = []" if "list_all2 element_form es ps" "concat ps = []" for ps
      using that by (cases es; cases ps) (auto simp: element_form_def)
    show ?thesis using False nil by (subst parse_from.simps) (auto intro: exI [of _ "[]"])
  qed
qed

section \<open>Integers\<close>

lemma be_int_Cons: "be_int (b # bs) = uint b * 256 ^ length bs + be_int bs"
proof (induction bs rule: rev_induct)
  case (snoc c bs)
  have "be_int (b # bs @ [c]) = be_int (b # bs) * 256 + uint c" using be_int_snoc [of "b # bs" c] by simp
  then show ?case using snoc by (simp add: algebra_simps)
qed (simp add: be_int_def)

lemma leading_digit:
  fixes d m r v :: int
  assumes "v = d * m + r" "0 \<le> r" "r < m"
  shows "k \<le> d \<longleftrightarrow> k * m \<le> v"
proof
  assume "k \<le> d"
  then have "k * m \<le> d * m" using assms by (intro mult_right_mono) simp_all
  then show "k * m \<le> v" using assms by linarith
next
  assume "k * m \<le> v"
  then have "k * m < (d + 1) * m" using assms by (simp add: algebra_simps)
  then have "k < d + 1" using assms by (simp add: mult_less_cancel_right)
  then show "k \<le> d" by simp
qed

lemma mod_add_once: "- m \<le> v \<Longrightarrow> v < 0 \<Longrightarrow> v mod m = v + m" for v m :: int
  using mod_add_self2 [of v m] mod_pos_pos_trivial [of "v + m" m] by simp

lemma signed_be_bytes:
  assumes "0 < n" "- (2 ^ (8 * n - 1)) \<le> v" "v < 2 ^ (8 * n - 1)"
  shows "signed_be (be_bytes n v) = v"
proof -
  obtain b bs where bs: "be_bytes n v = b # bs" "length bs = n - 1"
    using length_be_bytes [of n v] assms(1) by (cases "be_bytes n v") auto
  have "(256 :: int) ^ n = 2 ^ (8 * n)" by (simp add: power_mult)
  also have "8 * n = Suc (8 * n - 1)" using assms(1) by simp
  finally have half: "(256 :: int) ^ n = 2 * 2 ^ (8 * n - 1)" by simp
  have quarter: "(256 :: int) ^ n = 256 * 256 ^ (n - 1)" using assms(1) by (simp add: power_eq_if)
  have val: "be_int (b # bs) = v mod 256 ^ n" using be_int_be_bytes [of n v] bs(1) by simp
  have "be_int (b # bs) = uint b * 256 ^ (n - 1) + be_int bs" using be_int_Cons bs(2) by simp
  moreover have "0 \<le> be_int bs" "be_int bs < 256 ^ (n - 1)" using be_int_bounds [of bs] bs(2) by auto
  ultimately have top: "0x80 \<le> uint b \<longleftrightarrow> 128 * 256 ^ (n - 1) \<le> be_int (b # bs)"
    by (rule leading_digit)
  have word: "b \<ge> 0x80 \<longleftrightarrow> 0x80 \<le> uint b" by (simp add: word_le_def)
  show ?thesis
  proof (cases "0 \<le> v")
    case True
    then have "be_int (b # bs) = v" using val assms(3) half by simp
    then show ?thesis using top word assms(3) half quarter bs by (simp add: signed_be_def)
  next
    case False
    then have "v mod 256 ^ n = v + 256 ^ n" using assms(2) half by (intro mod_add_once) simp_all
    then show ?thesis using top word val assms(2) half quarter bs False by (simp add: signed_be_def)
  qed
qed

section \<open>Property\<close>



end
