(* ===== verification/Modular.thy ===== *)
theory Modular
  imports Xrd_Prelude
begin

text \<open>
  Arithmetic behind the RSA routines: \<^verbatim>\<open>pow\<close> with a modulus, inverses, primes, and Fermat's little theorem, from
  the binomial theorem, with what follows for exponents that are one modulo each prime minus one.
\<close>

section \<open>What the code calls\<close>

definition py_inverse :: "int \<Rightarrow> int \<Rightarrow> int option" where
  "py_inverse b m = List.find (\<lambda>x. (b * x) mod \<bar>m\<bar> = 1 mod \<bar>m\<bar>) [0..\<bar>m\<bar> - 1]"

fun bit_length :: "nat \<Rightarrow> nat" where
  "bit_length n = (if n = 0 then 0 else Suc (bit_length (n div 2)))"

declare bit_length.simps [simp del]

lemma bit_length_bounds: "0 < n \<Longrightarrow> 2 ^ (bit_length n - 1) \<le> n \<and> n < 2 ^ bit_length n \<and> 0 < bit_length n"
proof (induction n rule: bit_length.induct)
  case (1 n)
  show ?case
  proof (cases "n div 2 = 0")
    case True
    then have "n = 1" using 1 by simp
    then show ?thesis by (simp add: bit_length.simps)
  next
    case False
    let ?k = "bit_length (n div 2)"
    have IH: "2 ^ (?k - 1) \<le> n div 2" "n div 2 < 2 ^ ?k" "0 < ?k" using 1 False by auto
    then have "2 * 2 ^ (?k - 1) \<le> n" "n < 2 * 2 ^ ?k" by linarith+
    moreover have "2 * 2 ^ (?k - 1) = (2 :: nat) ^ ?k" using IH(3) by (metis Suc_diff_1 power_Suc)
    ultimately show ?thesis using 1 by (simp add: bit_length.simps [of n])
  qed
qed

section \<open>Primes\<close>

definition is_prime :: "int \<Rightarrow> bool" where
  "is_prime p \<longleftrightarrow> 1 < p \<and> list_all (\<lambda>k. \<not> k dvd p) [2..p - 1]"

lemma prime_factor:
  assumes "is_prime p" "k dvd p" "0 \<le> k"
  shows "k = 1 \<or> k = p"
proof -
  have p: "1 < p" "\<forall>k. 2 \<le> k \<and> k \<le> p - 1 \<longrightarrow> \<not> k dvd p" using assms(1) by (auto simp: is_prime_def list_all_iff)
  have "k \<le> p" using zdvd_imp_le [OF assms(2)] p(1) by simp
  moreover have "k \<noteq> 0" using assms(2) p(1) by auto
  moreover have "\<not> (2 \<le> k \<and> k \<le> p - 1)" using p(2) assms(2) by blast
  ultimately show ?thesis using assms(3) by linarith
qed

lemma prime_coprime:
  assumes "is_prime p" "\<not> p dvd a"
  shows "coprime a p"
proof -
  have "gcd a p = 1 \<or> gcd a p = p" using prime_factor [OF assms(1)] by simp
  then show ?thesis using assms(2) by (metis coprime_iff_gcd_eq_1 gcd_dvd1)
qed

lemma prime_dvd_mult: "is_prime p \<Longrightarrow> p dvd a * b \<Longrightarrow> p dvd a \<or> p dvd b"
  using prime_coprime [of p a] by (metis coprime_commute coprime_dvd_mult_right_iff)

lemma distinct_primes_coprime: "is_prime p \<Longrightarrow> is_prime q \<Longrightarrow> p \<noteq> q \<Longrightarrow> coprime p q"
  using prime_factor [of p q] by (intro prime_coprime) (auto simp: is_prime_def)

section \<open>Fermat\<close>

lemma prime_dvd_choose:
  assumes "is_prime p" "0 < k" "k < nat p"
  shows "p dvd int (nat p choose k)"
proof -
  have p: "int (nat p) = p" using assms(1) by (simp add: is_prime_def)
  have "int k * int (nat p choose k) = p * int (nat p - 1 choose (k - 1))"
    using times_binomial_minus1_eq [OF assms(2), of "nat p"] p by (metis of_nat_mult)
  then have "p dvd int k * int (nat p choose k)" by simp
  moreover have "\<not> p dvd int k" using assms(2,3) p zdvd_imp_le [of p "int k"] by linarith
  ultimately show ?thesis using prime_dvd_mult [OF assms(1)] by blast
qed

lemma fermat_nat:
  assumes "is_prime p"
  shows "p dvd int a ^ nat p - int a"
proof (induction a)
  case 0
  then show ?case using assms by (simp add: is_prime_def zero_power)
next
  case (Suc a)
  let ?n = "nat p"
  have n: "0 < ?n" using assms by (simp add: is_prime_def)
  have "(int a + 1) ^ ?n = (\<Sum>k\<le>?n. of_nat (?n choose k) * int a ^ k)"
    by (simp add: binomial_ring)
  also have "{..?n} = insert 0 (insert ?n {1..<?n})" using n by auto
  also have "(\<Sum>k\<in>\<dots>. of_nat (?n choose k) * int a ^ k) = 1 + (int a ^ ?n + (\<Sum>k\<in>{1..<?n}. of_nat (?n choose k) * int a ^ k))"
    using n by (subst sum.insert; simp)+
  finally have "(int a + 1) ^ ?n - (int a + 1) = (int a ^ ?n - int a) + (\<Sum>k\<in>{1..<?n}. int (?n choose k) * int a ^ k)" by simp
  moreover have "p dvd (\<Sum>k\<in>{1..<?n}. int (?n choose k) * int a ^ k)"
    using prime_dvd_choose [OF assms] by (intro dvd_sum) simp
  ultimately have "p dvd (int a + 1) ^ ?n - (int a + 1)" using Suc by (simp only: dvd_add)
  then show ?case by (simp add: add.commute)
qed

lemma dvd_diff_mod: "m dvd x - y \<longleftrightarrow> x mod m = y mod m" for m x y :: int
  by (simp add: mod_eq_dvd_iff)

lemma fermat:
  assumes "is_prime p"
  shows "p dvd a ^ nat p - a"
proof -
  have "0 \<le> a mod p" using assms by (simp add: is_prime_def)
  then have "p dvd (a mod p) ^ nat p - a mod p" using fermat_nat [OF assms, of "nat (a mod p)"] by simp
  then show ?thesis by (simp add: dvd_diff_mod power_mod)
qed

lemma fermat_unit:
  assumes "is_prime p" "\<not> p dvd a"
  shows "a ^ nat (p - 1) mod p = 1"
proof -
  have "nat p = Suc (nat (p - 1))" using assms(1) by (auto simp: is_prime_def)
  then have "a ^ nat p - a = a * (a ^ nat (p - 1) - 1)" by (simp add: algebra_simps)
  then have "p dvd a ^ nat (p - 1) - 1" using fermat [OF assms(1), of a] prime_dvd_mult [OF assms(1)] assms(2) by metis
  then show ?thesis using assms(1) by (simp add: dvd_diff_mod is_prime_def)
qed

text \<open>An exponent that is one modulo \<open>p - 1\<close> changes nothing modulo \<open>p\<close>, and only the remainder of an exponent matters.\<close>

lemma power_reduced:
  assumes "is_prime p" "\<not> p dvd a"
  shows "a ^ m mod p = a ^ (m mod nat (p - 1)) mod p"
proof -
  let ?k = "nat (p - 1)"
  have "a ^ m = (a ^ ?k) ^ (m div ?k) * a ^ (m mod ?k)" by (simp flip: power_mult power_add)
  moreover have "(a ^ ?k) ^ (m div ?k) mod p = 1"
    using fermat_unit [OF assms] assms(1) by (metis is_prime_def mod_pos_pos_trivial power_mod power_one zero_le_one)
  ultimately show ?thesis by (metis mod_mult_left_eq mult_1)
qed

lemma fermat_exponent:
  assumes "is_prime p" "0 < m" "nat (p - 1) dvd m - 1"
  shows "p dvd a ^ m - a"
proof (cases "p dvd a")
  case True
  then have "p dvd a ^ m" using assms(2) by (meson dvd_power dvd_trans)
  then show ?thesis using True by (rule dvd_diff)
next
  case False
  have p: "0 < nat (p - 1)" using assms(1) by (simp add: is_prime_def)
  obtain t where "m - 1 = nat (p - 1) * t" using assms(3) by blast
  then have "a ^ m = a ^ (nat (p - 1) * t) * a" using assms(2) by (metis Suc_diff_1 power_Suc2)
  moreover have "a ^ (nat (p - 1) * t) mod p = 1 mod p" using power_reduced [OF assms(1) False, of "nat (p - 1) * t"] by simp
  ultimately have "a ^ m mod p = a mod p" by (metis mod_mult_left_eq mult_1)
  then show ?thesis by (simp add: dvd_diff_mod)
qed

lemma distinct_primes_dvd:
  assumes "distinct rs" "list_all is_prime rs" "\<forall>r \<in> set rs. r dvd x"
  shows "prod_list rs dvd x"
  using assms
proof (induction rs)
  case (Cons r rs)
  have "coprime r (prod_list ss)" if "\<forall>s \<in> set ss. is_prime s \<and> r \<noteq> s" for ss
    using that Cons.prems(2) distinct_primes_coprime [of r] by (induction ss) auto
  then have "coprime r (prod_list rs)" using Cons.prems by (auto simp: list_all_iff)
  then show ?case using Cons by (simp add: divides_mult)
qed simp

lemma rsa_exponents:
  assumes "distinct rs" "list_all is_prime rs" "0 < m" "\<forall>r \<in> set rs. nat (r - 1) dvd m - 1"
  shows "a ^ m mod prod_list rs = a mod prod_list rs"
proof -
  have "\<forall>r \<in> set rs. r dvd a ^ m - a" using assms fermat_exponent by (auto simp: list_all_iff)
  then have "prod_list rs dvd a ^ m - a" by (rule distinct_primes_dvd [OF assms(1,2)])
  then show ?thesis by (simp only: dvd_diff_mod)
qed

section \<open>Inverses\<close>

lemma py_inverse_coprime:
  assumes "coprime b m" "1 < m"
  shows "\<exists>x. py_inverse b m = Some x \<and> (b * x) mod m = 1 \<and> 0 \<le> x"
proof -
  obtain u v where "u * b + v * m = 1" using bezout_int [of b m] assms(1) by (auto simp: coprime_iff_gcd_eq_1)
  then have "b * u = 1 + m * (- v)" by (simp add: algebra_simps)
  then have "(b * u) mod m = 1 mod m" by (metis mod_mult_self2)
  then have "(b * (u mod m)) mod m = 1 mod m" by (simp add: mod_mult_right_eq)
  moreover have "u mod m \<in> set [0..m - 1]" using assms(2) by simp
  moreover have "\<bar>m\<bar> = m" using assms(2) by simp
  ultimately have "py_inverse b m \<noteq> None" unfolding py_inverse_def find_None_iff by (auto simp only:)
  then obtain x where "py_inverse b m = Some x" by blast
  then show ?thesis using assms(2) by (auto simp: py_inverse_def find_Some_iff)
qed

end
