(* ===== verification/Py_Base64.thy ===== *)
theory Py_Base64
  imports Xrd_Prelude
begin

text \<open>
  \<^verbatim>\<open>base64.b64encode\<close> and \<^verbatim>\<open>base64.b64decode\<close> as the PEM reader and writer call them. Decoding is the lenient one of
  \<^verbatim>\<open>binascii\<close>: characters outside the alphabet are skipped, and a complete padding ends the input.
\<close>

definition b64_char :: "nat \<Rightarrow> nat" where
  "b64_char i =
     (if i < 26 then 65 + i else if i < 52 then 71 + i else if i < 62 then i - 4 else if i = 62 then 43 else 47)"

definition b64_index :: "nat \<Rightarrow> nat option" where
  "b64_index c =
     (if 65 \<le> c \<and> c \<le> 90 then Some (c - 65) else if 97 \<le> c \<and> c \<le> 122 then Some (c - 71)
      else if 48 \<le> c \<and> c \<le> 57 then Some (c + 4) else if c = 43 then Some 62 else if c = 47 then Some 63 else None)"

fun b64_enc :: "nat list \<Rightarrow> str" where
  "b64_enc (a # b # c # r) =
     [b64_char (a div 4), b64_char (a mod 4 * 16 + b div 16), b64_char (b mod 16 * 4 + c div 64), b64_char (c mod 64)] @ b64_enc r"
| "b64_enc [a, b] = [b64_char (a div 4), b64_char (a mod 4 * 16 + b div 16), b64_char (b mod 16 * 4), 61]"
| "b64_enc [a] = [b64_char (a div 4), b64_char (a mod 4 * 16), 61, 61]"
| "b64_enc [] = []"

definition b64encode :: "bytes \<Rightarrow> str" where
  "b64encode bs = b64_enc (map unat bs)"

text \<open>\<open>quad\<close> characters of a group of four have been seen, \<open>left\<close> holds the bits not yet put out, \<open>pads\<close> counts padding.\<close>

fun b64_dec :: "nat \<Rightarrow> nat \<Rightarrow> nat \<Rightarrow> str \<Rightarrow> nat list option" where
  "b64_dec quad pads left [] = (if quad = 0 then Some [] else None)"
| "b64_dec quad pads left (c # cs) =
     (if c = 61 then
        (if 2 \<le> quad then (if 4 \<le> quad + pads + 1 then Some [] else b64_dec quad (pads + 1) left cs)
         else b64_dec quad pads left cs)
      else (case b64_index c of
              None \<Rightarrow> b64_dec quad pads left cs
            | Some v \<Rightarrow>
                if quad = 0 then b64_dec 1 0 v cs
                else if quad = 1 then map_option ((#) (left * 4 + v div 16)) (b64_dec 2 0 (v mod 16) cs)
                else if quad = 2 then map_option ((#) (left * 16 + v div 4)) (b64_dec 3 0 (v mod 4) cs)
                else map_option ((#) (left * 64 + v)) (b64_dec 0 0 0 cs)))"

text \<open>A string with a character that is not ASCII is refused.\<close>

definition b64decode :: "str \<Rightarrow> bytes option" where
  "b64decode s = (if list_all (\<lambda>c. c < 128) s then map_option (map of_nat) (b64_dec 0 0 0 s) else None)"

lemma b64_index_char: "i < 64 \<Longrightarrow> b64_index (b64_char i) = Some i"
  by (auto simp: b64_index_def b64_char_def)

definition b64_letter :: "nat \<Rightarrow> bool" where
  "b64_letter c \<longleftrightarrow> c \<in> {43, 61} \<union> {47..57} \<union> {65..90} \<union> {97..122}"

lemma b64_letters: "i < 64 \<Longrightarrow> b64_letter (b64_char i)" "b64_letter 61"
  by (auto simp: b64_letter_def b64_char_def)

lemma b64_char_not_pad: "i < 64 \<Longrightarrow> b64_char i \<noteq> 61"
  by (auto simp: b64_char_def)

lemma b64_dec_enc: "list_all (\<lambda>b. b < 256) bs \<Longrightarrow> b64_dec 0 0 0 (b64_enc bs) = Some bs"
proof (induction bs rule: b64_enc.induct)
  case (1 a b c r)
  have i: "a div 4 < 64" "a mod 4 * 16 + b div 16 < 64" "b mod 16 * 4 + c div 64 < 64" "c mod 64 < 64" using 1(2) by auto
  moreover have "b div 16 < 16" "c div 64 < 4" using 1(2) by auto
  ultimately show ?case using 1 by (simp add: b64_index_char b64_char_not_pad)
next
  case (2 a b)
  have "a div 4 < 64" "a mod 4 * 16 + b div 16 < 64" "b mod 16 * 4 < 64" "b div 16 < 16" using 2 by auto
  then show ?case by (simp add: b64_index_char b64_char_not_pad)
next
  case (3 a)
  have "a div 4 < 64" "a mod 4 * 16 < 64" using 3 by auto
  then show ?case by (simp add: b64_index_char b64_char_not_pad)
qed simp

lemma b64_enc_letters: "list_all (\<lambda>b. b < 256) bs \<Longrightarrow> list_all b64_letter (b64_enc bs)"
proof (induction bs rule: b64_enc.induct)
  case (1 a b c r)
  have "a div 4 < 64" "a mod 4 * 16 + b div 16 < 64" "b mod 16 * 4 + c div 64 < 64" "c mod 64 < 64" using 1(2) by auto
  then show ?case using 1 by (simp add: b64_letters)
next
  case (2 a b)
  have "a div 4 < 64" "a mod 4 * 16 + b div 16 < 64" "b mod 16 * 4 < 64" using 2 by auto
  then show ?case by (simp add: b64_letters)
next
  case (3 a)
  have "a div 4 < 64" "a mod 4 * 16 < 64" using 3 by auto
  then show ?case by (simp add: b64_letters)
qed simp

lemma bytes_small: "list_all (\<lambda>b. b < 256) (map unat (bs :: bytes))"
  using unsigned_less [where ?'a = nat and ?'b = 8] by (auto simp: list_all_iff)

lemma b64encode_letters: "list_all b64_letter (b64encode bs)"
  using b64_enc_letters [OF bytes_small, of bs] by (simp add: b64encode_def)

lemma b64_round_trip: "b64decode (b64encode bs) = Some bs"
proof -
  have "b64_letter c \<Longrightarrow> c < 128" for c by (auto simp: b64_letter_def)
  then have "list_all (\<lambda>c. c < 128) (b64encode bs)" using b64encode_letters [of bs] by (auto simp: list_all_iff)
  moreover have "map (of_nat \<circ> unat) bs = bs" by (simp add: o_def)
  ultimately show ?thesis using b64_dec_enc [OF bytes_small, of bs] by (simp add: b64decode_def b64encode_def)
qed

end
