(* ===== verification/Crypto_Rsa.thy ===== *)
theory Crypto_Rsa
  imports Crypto_Der Modular Checksums Py_Base64
begin

text \<open>
  \<^verbatim>\<open>crypto/rsa.py\<close>: PKCS#1 padding, signatures with and without the Chinese remainder theorem, the
  Miller-Rabin test, the search for a key pair, and keys read from DER and PEM. Random numbers are drawn
  from lists; \<^verbatim>\<open>hashlib\<close> is an argument.
\<close>

section \<open>Modular powers\<close>

definition py_pow :: "int \<Rightarrow> int \<Rightarrow> int \<Rightarrow> key_exn + int" where
  "py_pow b e m =
     (if m = 0 then Inl (KeyValueError ''pow() 3rd argument cannot be 0'')
      else if 0 \<le> e then Inr (b ^ nat e mod m)
      else (case py_inverse b m of
              None \<Rightarrow> Inl (KeyValueError ''base is not invertible for the given modulus'')
            | Some x \<Rightarrow> Inr (x ^ nat (- e) mod m)))"

definition py_mod :: "int \<Rightarrow> int \<Rightarrow> key_exn + int" where
  "py_mod a b = (if b = 0 then Inl KeyZeroDivision else Inr (a mod b))"

text \<open>\<^verbatim>\<open>value.to_bytes(size, "big")\<close>.\<close>

definition to_bytes :: "int \<Rightarrow> nat \<Rightarrow> key_exn + bytes" where
  "to_bytes v n = (if 0 \<le> v \<and> v < 256 ^ n then Inr (be_bytes n v) else Inl KeyOverflow)"

section \<open>Keys and signatures\<close>

record public_key =
  pub_n :: int
  pub_e :: int

record private_key =
  prv_n :: int
  prv_e :: int
  prv_d :: int
  prv_p :: int
  prv_q :: int

definition key_size :: "int \<Rightarrow> nat" where
  "key_size n = (bit_length (nat \<bar>n\<bar>) + 7) div 8"

definition public :: "private_key \<Rightarrow> public_key" where
  "public k = \<lparr>pub_n = prv_n k, pub_e = prv_e k\<rparr>"

text \<open>The \<^verbatim>\<open>DigestInfo\<close> in front of a digest, as hexadecimal digits.\<close>

fun from_hex_pairs :: "int list \<Rightarrow> bytes" where
  "from_hex_pairs (a # b # r) = word_of_int (a * 16 + b) # from_hex_pairs r"
| "from_hex_pairs _ = []"

definition fromhex :: "string \<Rightarrow> bytes" where
  "fromhex s = from_hex_pairs (map (\<lambda>c. let n = int (of_char c :: nat) in if n < 58 then n - 48 else n - 87) s)"

definition DIGEST_PREFIXES :: "(str, bytes) dict" where
  "DIGEST_PREFIXES =
     [(lit ''sha1'', fromhex ''3021300906052b0e03021a05000414''),
      (lit ''sha256'', fromhex ''3031300d060960864801650304020105000420''),
      (lit ''sha384'', fromhex ''3041300d060960864801650304020205000430''),
      (lit ''sha512'', fromhex ''3051300d060960864801650304020305000440'')]"

lemma sha1_prefix: "map_of DIGEST_PREFIXES (lit ''sha1'') = Some [48, 33, 48, 9, 6, 5, 43, 14, 3, 2, 26, 5, 0, 4, 20]"
  by code_simp

definition pkcs1_v15_pad :: "hash \<Rightarrow> bytes \<Rightarrow> nat \<Rightarrow> str option \<Rightarrow> key_exn + bytes" where
  "pkcs1_v15_pad hash message len digest =
     bindE (case digest of
              None \<Rightarrow> Inr message
            | Some dg \<Rightarrow>
                (let name = filter (\<lambda>c. c \<noteq> 45) (lower dg) in
                 case map_of DIGEST_PREFIXES name of
                   None \<Rightarrow> Inl (KeyValueError ''unsupported digest for PKCS#1 v1.5'')
                 | Some prefix \<Rightarrow> Inr (prefix @ hash name message))) (\<lambda>msg.
       if length msg + 11 > len then Inl (KeyValueError ''message does not fit the key'')
       else Inr ([0, 1] @ replicate (len - length msg - 3) 0xFF @ [0] @ msg))"

definition rsa_power :: "private_key \<Rightarrow> int \<Rightarrow> key_exn + int" where
  "rsa_power k value =
     (if prv_p k \<noteq> 0 \<and> prv_q k \<noteq> 0 then
        bindE (py_mod value (prv_p k)) (\<lambda>vp. bindE (py_mod (prv_d k) (prv_p k - 1)) (\<lambda>dp. bindE (py_pow vp dp (prv_p k)) (\<lambda>mp.
        bindE (py_mod value (prv_q k)) (\<lambda>vq. bindE (py_mod (prv_d k) (prv_q k - 1)) (\<lambda>dq. bindE (py_pow vq dq (prv_q k)) (\<lambda>mq.
        bindE (py_pow (prv_q k) (- 1) (prv_p k)) (\<lambda>coefficient.
          py_mod (mq + prv_q k * ((coefficient * (mp - mq)) mod prv_p k)) (prv_n k))))))))
      else py_pow value (prv_d k) (prv_n k))"

definition rsa_sign :: "hash \<Rightarrow> private_key \<Rightarrow> bytes \<Rightarrow> str option \<Rightarrow> key_exn + bytes" where
  "rsa_sign hash k message digest =
     bindE (pkcs1_v15_pad hash message (key_size (prv_n k)) digest) (\<lambda>block.
     bindE (rsa_power k (be_int block)) (\<lambda>v. to_bytes v (key_size (prv_n k))))"

definition rsa_verify :: "hash \<Rightarrow> public_key \<Rightarrow> bytes \<Rightarrow> bytes \<Rightarrow> str option \<Rightarrow> key_exn + bool" where
  "rsa_verify hash k message signature digest =
     (if length signature \<noteq> key_size (pub_n k) then Inr False
      else bindE (py_pow (be_int signature) (pub_e k) (pub_n k)) (\<lambda>recovered.
           bindE (pkcs1_v15_pad hash message (key_size (pub_n k)) digest) (\<lambda>expected.
           bindE (to_bytes recovered (key_size (pub_n k))) (\<lambda>bs. Inr (bs = expected)))))"

section \<open>The primality test\<close>

definition SMALL_PRIMES :: "int list" where
  "SMALL_PRIMES = [2, 3, 5, 7, 11, 13, 17, 19, 23, 29, 31, 37, 41, 43, 47, 53, 59, 61, 67, 71, 73, 79, 83, 89, 97]"

text \<open>The first small prime that decides, if any.\<close>

fun by_small_primes :: "int \<Rightarrow> int list \<Rightarrow> bool option" where
  "by_small_primes n [] = None"
| "by_small_primes n (s # ss) = (if n = s then Some True else if n mod s = 0 then Some False else by_small_primes n ss)"

text \<open>\<open>d\<close> is positive here.\<close>

function strip_twos :: "int \<Rightarrow> nat \<Rightarrow> int \<times> nat" where
  "strip_twos d r = (if 0 < d \<and> even d then strip_twos (d div 2) (Suc r) else (d, r))"
  by pat_completeness auto
termination
  by (relation "measure (\<lambda>(d, r). nat d)") auto

declare strip_twos.simps [simp del]

fun mr_squares :: "int \<Rightarrow> int \<Rightarrow> nat \<Rightarrow> bool" where
  "mr_squares n x 0 = False"
| "mr_squares n x (Suc k) = (let x1 = x * x mod n in if x1 = n - 1 then True else mr_squares n x1 k)"

definition mr_round :: "int \<Rightarrow> int \<Rightarrow> nat \<Rightarrow> int \<Rightarrow> bool" where
  "mr_round n d r a = (let x = a ^ nat d mod n in x = 1 \<or> x = n - 1 \<or> mr_squares n x (r - 1))"

text \<open>\<open>draws\<close> are what \<^verbatim>\<open>secrets.randbelow(n - 3)\<close> returns, one for each round.\<close>

definition probably_prime :: "int \<Rightarrow> int list \<Rightarrow> bool" where
  "probably_prime n draws =
     (if n < 2 then False
      else case by_small_primes n SMALL_PRIMES of
        Some b \<Rightarrow> b
      | None \<Rightarrow> (case strip_twos (n - 1) 0 of (d, r) \<Rightarrow> list_all (\<lambda>x. mr_round n d r (x + 2)) draws))"

text \<open>
  \<^verbatim>\<open>_prime\<close> and \<^verbatim>\<open>generate\<close> draw until they succeed: \<open>draws\<close> holds for each candidate what \<^verbatim>\<open>secrets.randbits\<close>
  returns and the bases its test then draws; \<open>None\<close> means that the draws given were not enough. What is left of them is
  returned.
\<close>

type_synonym draws = "(int \<times> int list) list"

fun prime_search :: "nat \<Rightarrow> int \<Rightarrow> draws \<Rightarrow> (key_exn + int \<times> draws) option" where
  "prime_search bits e [] = None"
| "prime_search bits e ((drawn, bases) # ds) =
     (let candidate = drawn OR 2 ^ (bits - 1) OR 1 in
      case py_mod (candidate - 1) e of
        Inl x \<Rightarrow> Some (Inl x)
      | Inr r \<Rightarrow> if r \<noteq> 0 \<and> probably_prime candidate bases then Some (Inr (candidate, ds)) else prime_search bits e ds)"

lemma prime_search_consumes: "prime_search bits e ds = Some (Inr (p, ds1)) \<Longrightarrow> length ds1 < length ds"
  by (induction ds) (auto simp: Let_def split: sum.splits if_splits)

function generate_loop :: "nat \<Rightarrow> int \<Rightarrow> draws \<Rightarrow> (key_exn + private_key) option" where
  "generate_loop bits e ds =
     (case prime_search (bits div 2) e ds of
        None \<Rightarrow> None
      | Some (Inl x) \<Rightarrow> Some (Inl x)
      | Some (Inr (p, ds1)) \<Rightarrow> (case prime_search (bits - bits div 2) e ds1 of
          None \<Rightarrow> None
        | Some (Inl x) \<Rightarrow> Some (Inl x)
        | Some (Inr (q, ds2)) \<Rightarrow>
            if p = q then generate_loop bits e ds2
            else if bit_length (nat (p * q)) \<noteq> bits then generate_loop bits e ds2
            else Some (bindE (py_pow e (- 1) ((p - 1) * (q - 1))) (\<lambda>d.
                   Inr \<lparr>prv_n = p * q, prv_e = e, prv_d = d, prv_p = p, prv_q = q\<rparr>))))"
  by pat_completeness auto
termination
  by (relation "measure (\<lambda>(bits, e, ds). length ds)") (auto dest!: prime_search_consumes)

declare generate_loop.simps [simp del]

definition generate :: "nat \<Rightarrow> int \<Rightarrow> draws \<Rightarrow> (key_exn + private_key) option" where
  "generate bits e ds =
     (if bits < 512 \<or> odd bits then Some (Inl (KeyValueError ''RSA key size must be an even number of bits, at least 512''))
      else generate_loop bits e ds)"

section \<open>Reading keys\<close>

definition RSA_OID :: "int list" where
  "RSA_OID = [1, 2, 840, 113549, 1, 1, 1]"

fun all_integers :: "element list \<Rightarrow> key_exn + int list" where
  "all_integers [] = Inr []"
| "all_integers (e # es) = bindE (read_integer e) (\<lambda>v. bindE (all_integers es) (\<lambda>vs. Inr (v # vs)))"

definition item_at :: "'a list \<Rightarrow> nat \<Rightarrow> key_exn + 'a" where
  "item_at xs i = (if i < length xs then Inr (xs ! i) else Inl KeyIndexError)"

definition private_from_pkcs1 :: "element \<Rightarrow> key_exn + private_key" where
  "private_from_pkcs1 e =
     bindE (children e) (\<lambda>fields.
       if length fields < 6 then Inl (DERError ''PKCS#1 private key has too few fields'')
       else bindE (all_integers (take 6 fields)) (\<lambda>values.
         if values ! 0 \<noteq> 0 then Inl (DERError ''multi-prime RSA is not supported'')
         else Inr \<lparr>prv_n = values ! 1, prv_e = values ! 2, prv_d = values ! 3, prv_p = values ! 4, prv_q = values ! 5\<rparr>))"

definition private_from_der :: "bytes \<Rightarrow> key_exn + private_key" where
  "private_from_der der =
     bindE (der_parse der 0) (\<lambda>(e, _). bindE (children e) (\<lambda>fields.
       if fields \<noteq> [] \<and> el_tag (hd fields) = TAG_OCTET_STRING then Inl (DERError ''malformed PKCS#8: version must precede the algorithm'')
       else if length fields \<ge> 3 \<and> el_tag (fields ! 1) = 0x30 \<and> el_tag (fields ! 2) = TAG_OCTET_STRING then
         bindE (children (fields ! 1)) (\<lambda>algo. bindE (item_at algo 0) (\<lambda>o0. bindE (oid o0) (\<lambda>algorithm.
           if algorithm \<noteq> RSA_OID then Inl (DERError ''private key is not RSA'')
           else bindE (der_parse (el_value (fields ! 2)) 0) (\<lambda>(inner, _). private_from_pkcs1 inner))))
       else private_from_pkcs1 e))"

definition public_key_from_bitstring :: "element \<Rightarrow> key_exn + public_key" where
  "public_key_from_bitstring e =
     (if el_tag e \<noteq> TAG_BIT_STRING \<or> el_value e = [] then Inl (DERError ''expected a non-empty BIT STRING'')
      else if hd (el_value e) \<noteq> 0 then Inl (DERError ''subjectPublicKey has unused bits'')
      else bindE (der_parse (tl (el_value e)) 0) (\<lambda>(inner, _). bindE (children inner) (\<lambda>fields.
        if length fields \<noteq> 2 then Inl (DERError ''RSAPublicKey has not 2 fields'')
        else bindE (read_integer (fields ! 0)) (\<lambda>n. bindE (read_integer (fields ! 1)) (\<lambda>e'. Inr \<lparr>pub_n = n, pub_e = e'\<rparr>)))))"

definition public_from_der :: "bytes \<Rightarrow> key_exn + public_key" where
  "public_from_der der =
     bindE (der_parse der 0) (\<lambda>(e, _). bindE (children e) (\<lambda>fields.
       if length fields = 2 \<and> el_tag (fields ! 1) = TAG_BIT_STRING then
         bindE (children (fields ! 0)) (\<lambda>algo. bindE (item_at algo 0) (\<lambda>o0. bindE (oid o0) (\<lambda>algorithm.
           if algorithm \<noteq> RSA_OID then Inl (DERError ''public key is not RSA'')
           else public_key_from_bitstring (fields ! 1))))
       else if length fields = 2 then
         bindE (read_integer (fields ! 0)) (\<lambda>n. bindE (read_integer (fields ! 1)) (\<lambda>e'. Inr \<lparr>pub_n = n, pub_e = e'\<rparr>))
       else Inl (DERError ''not an RSA public key'')))"

subsection \<open>PEM\<close>

text \<open>\<^verbatim>\<open>str.splitlines\<close> on ASCII text: 10 and 13 are line feed and carriage return.\<close>

definition line_break :: "nat \<Rightarrow> bool" where
  "line_break c \<longleftrightarrow> c \<in> {10, 11, 12, 13, 28, 29, 30}"

function splitlines :: "str \<Rightarrow> str list" where
  "splitlines s =
     (if s = [] then []
      else (let line = takeWhile (\<lambda>c. \<not> line_break c) s; rest = dropWhile (\<lambda>c. \<not> line_break c) s
            in line # (if rest = [] then [] else splitlines (if take 2 rest = [13, 10] then drop 2 rest else tl rest))))"
  by pat_completeness auto
termination
proof (relation "measure length")
  fix s line rest :: str
  assume s: "s \<noteq> []" "rest = dropWhile (\<lambda>c. \<not> line_break c) s" "rest \<noteq> []"
  then have "length rest \<le> length s" by (simp add: length_dropWhile_le)
  moreover have "length (tl rest) < length rest" "length (drop 2 rest) < length rest" using s(3) by (cases rest; simp)+
  ultimately show "(if take 2 rest = [13, 10] then drop 2 rest else tl rest, s) \<in> measure length" by simp
qed simp

declare splitlines.simps [simp del]

definition starts :: "str \<Rightarrow> str \<Rightarrow> bool" where "starts p s \<longleftrightarrow> take (length p) s = p"
definition stops :: "str \<Rightarrow> str \<Rightarrow> bool" where "stops p s \<longleftrightarrow> length p \<le> length s \<and> drop (length s - length p) s = p"

text \<open>The text between a marker and the closing dashes.\<close>

definition marker_label :: "nat \<Rightarrow> str \<Rightarrow> str" where
  "marker_label n line = strip (take (length line - 5 - n) (drop n line))"

fun pem_loop :: "str list \<Rightarrow> str option \<Rightarrow> str list \<Rightarrow> (str \<times> bytes) list" where
  "pem_loop [] label body = []"
| "pem_loop (raw # lines) label body =
     (let line = strip raw in
      if starts (lit ''-----BEGIN '') line \<and> stops (lit ''-----'') line then pem_loop lines (Some (marker_label 11 line)) []
      else if starts (lit ''-----END '') line \<and> stops (lit ''-----'') line then
        (case (label, b64decode (concat body)) of
           (Some l, Some der) \<Rightarrow> if marker_label 9 line = l then [(l, der)] else []
         | _ \<Rightarrow> []) @ pem_loop lines None []
      else pem_loop lines label (if label = None then body else body @ [line]))"

definition pem_blocks :: "str \<Rightarrow> (str \<times> bytes) list" where
  "pem_blocks s = pem_loop (splitlines s) None []"

fun first_private :: "str option \<Rightarrow> (str \<times> bytes) list \<Rightarrow> key_exn + private_key" where
  "first_private label [] = Inl (DERError ''no RSA private key in the PEM given'')"
| "first_private label ((name, der) # rest) =
     (if label \<noteq> None \<and> Some name \<noteq> label then first_private label rest
      else if name = lit ''ENCRYPTED PRIVATE KEY'' then Inl (DERError ''the private key is encrypted; decrypt it first'')
      else if name \<in> {lit ''RSA PRIVATE KEY'', lit ''PRIVATE KEY''} then private_from_der der
      else first_private label rest)"

text \<open>The input as bytes; those above 127 are replaced before the text is split.\<close>

definition ascii_text :: "bytes \<Rightarrow> str" where
  "ascii_text data = map (\<lambda>b. if b < 128 then unat b else 0xFFFD) data"

definition load_private_key :: "bytes \<Rightarrow> str option \<Rightarrow> key_exn + private_key" where
  "load_private_key data label =
     (let blocks = pem_blocks (ascii_text data)
      in if blocks = [] then private_from_der data else first_private label blocks)"

definition load_public_key :: "bytes \<Rightarrow> key_exn + public_key" where
  "load_public_key data =
     (case pem_blocks (ascii_text data) of [] \<Rightarrow> public_from_der data | (_, der) # _ \<Rightarrow> public_from_der der)"

end
