(* ===== verification/Crypto_X509.thy ===== *)
theory Crypto_X509
  imports Crypto_Rsa Wire_Constants
begin

text \<open>
  The certificate reader, \<^verbatim>\<open>crypto/x509.py\<close>: names, times, certificates, the blocks of a proxy file. Object identifiers are
  lists of arcs; the dotted text is only made where the code prints it. The clock counts whole seconds;
  \<^verbatim>\<open>str.isdigit\<close> is an argument.
\<close>

section \<open>Names\<close>

definition mapE :: "('a \<Rightarrow> 'e + 'b) \<Rightarrow> 'a list \<Rightarrow> 'e + 'b list" where
  "mapE f xs = foldr (\<lambda>x r. bindE (f x) (\<lambda>y. bindE r (\<lambda>ys. Inr (y # ys)))) xs (Inr [])"

type_synonym x509_name = "(str \<times> str) list"

definition name_get :: "x509_name \<Rightarrow> str \<Rightarrow> str list" where
  "name_get n key = map snd (filter (\<lambda>(k, v). k = key) n)"

definition name_cn :: "x509_name \<Rightarrow> str" where
  "name_cn n = (let common = name_get n (lit ''CN'') in if common = [] then [] else last common)"

definition name_str :: "x509_name \<Rightarrow> str" where
  "name_str n = concat (map (\<lambda>(k, v). lit ''/'' @ k @ lit ''='' @ v) n)"

definition ATTRIBUTE_NAMES :: "(int list, str) dict" where
  "ATTRIBUTE_NAMES =
     [([2, 5, 4, 3], lit ''CN''), ([2, 5, 4, 6], lit ''C''), ([2, 5, 4, 7], lit ''L''), ([2, 5, 4, 8], lit ''ST''),
      ([2, 5, 4, 10], lit ''O''), ([2, 5, 4, 11], lit ''OU''), ([2, 5, 4, 5], lit ''serialNumber''),
      ([1, 2, 840, 113549, 1, 9, 1], lit ''emailAddress''), ([0, 9, 2342, 19200300, 100, 1, 25], lit ''DC''),
      ([0, 9, 2342, 19200300, 100, 1, 1], lit ''UID'')]"

fun dotted :: "int list \<Rightarrow> str" where
  "dotted [] = []"
| "dotted [a] = lit (show_nat (nat a))"
| "dotted (a # as) = lit (show_nat (nat a)) @ 46 # dotted as"

text \<open>\<^verbatim>\<open>bytes.decode("utf-16-be", "replace")\<close>: a lone surrogate is replaced, and so is what is cut off at the end, once.\<close>

fun utf16_dec :: "nat list \<Rightarrow> str" where
  "utf16_dec [] = []"
| "utf16_dec [a] = [replacement]"
| "utf16_dec (a # b # r) =
     (let ch = a * 256 + b in
      if \<not> surrogate ch then ch # utf16_dec r
      else if 0xDC00 \<le> ch then replacement # utf16_dec r
      else (case r of
              c # d # r1 \<Rightarrow>
                (let ch2 = c * 256 + d in
                 if 0xDC00 \<le> ch2 \<and> ch2 \<le> 0xDFFF then (0x10000 + (ch - 0xD800) * 0x400 + (ch2 - 0xDC00)) # utf16_dec r1
                 else replacement # utf16_dec r)
            | _ \<Rightarrow> [replacement]))"

definition decode_string :: "element \<Rightarrow> str" where
  "decode_string e = (if el_tag e = 0x1E then utf16_dec (map unat (el_value e)) else utf8_decode (el_value e))"

definition decode_attribute :: "element \<Rightarrow> key_exn + x509_name" where
  "decode_attribute a =
     bindE (children a) (\<lambda>parts.
       if length parts \<noteq> 2 then Inr []
       else bindE (oid (parts ! 0)) (\<lambda>key.
         Inr [(case map_of ATTRIBUTE_NAMES key of Some n \<Rightarrow> n | None \<Rightarrow> dotted key, decode_string (parts ! 1))]))"

definition decode_name :: "element \<Rightarrow> key_exn + x509_name" where
  "decode_name e =
     bindE (children e) (\<lambda>sets. bindE (mapE (\<lambda>rdn. bindE (children rdn) (\<lambda>attributes.
       bindE (mapE decode_attribute attributes) (\<lambda>ns. Inr (concat ns)))) sets) (\<lambda>ns. Inr (concat ns)))"

section \<open>Times\<close>

text \<open>
  \<^verbatim>\<open>time.strptime\<close> with the format \<^verbatim>\<open>%Y%m%d%H%M%S\<close> is a regular expression: a directive offers what it may take in
  the order of its alternatives, the first combination that matches all six is used, and nothing may be left
  over.
\<close>

definition digit :: "nat \<Rightarrow> bool" where
  "digit c \<longleftrightarrow> 48 \<le> c \<and> c \<le> 57"

definition digits :: "str \<Rightarrow> int" where
  "digits s = foldl (\<lambda>v c. v * 10 + int (c - 48)) 0 s"

text \<open>Two characters that satisfy a test, or one.\<close>

definition two_or_one :: "(nat \<Rightarrow> nat \<Rightarrow> bool) \<Rightarrow> (nat \<Rightarrow> bool) \<Rightarrow> str \<Rightarrow> nat list" where
  "two_or_one p q s =
     (if length s \<ge> 2 \<and> p (s ! 0) (s ! 1) then [2] else []) @ (if length s \<ge> 1 \<and> q (s ! 0) then [1] else [])"

definition take_year :: "str \<Rightarrow> nat list" where
  "take_year s = (if length s \<ge> 4 \<and> list_all digit (take 4 s) then [4] else [])"

definition take_month :: "str \<Rightarrow> nat list" where
  "take_month = two_or_one (\<lambda>a b. a = 49 \<and> 48 \<le> b \<and> b \<le> 50 \<or> a = 48 \<and> 49 \<le> b \<and> b \<le> 57) (\<lambda>a. 49 \<le> a \<and> a \<le> 57)"

text \<open>A day may also be a blank and a digit, tried last.\<close>

definition take_day :: "str \<Rightarrow> nat list" where
  "take_day s =
     two_or_one (\<lambda>a b. a = 51 \<and> 48 \<le> b \<and> b \<le> 49 \<or> 49 \<le> a \<and> a \<le> 50 \<and> digit b \<or> a = 48 \<and> 49 \<le> b \<and> b \<le> 57)
       (\<lambda>a. 49 \<le> a \<and> a \<le> 57) s
     @ (if length s \<ge> 2 \<and> s ! 0 = 32 \<and> 49 \<le> s ! 1 \<and> s ! 1 \<le> 57 then [2] else [])"

definition take_hour :: "str \<Rightarrow> nat list" where
  "take_hour = two_or_one (\<lambda>a b. a = 50 \<and> 48 \<le> b \<and> b \<le> 51 \<or> 48 \<le> a \<and> a \<le> 49 \<and> digit b) digit"

definition take_minute :: "str \<Rightarrow> nat list" where
  "take_minute = two_or_one (\<lambda>a b. 48 \<le> a \<and> a \<le> 53 \<and> digit b) digit"

definition take_second :: "str \<Rightarrow> nat list" where
  "take_second = two_or_one (\<lambda>a b. a = 54 \<and> 48 \<le> b \<and> b \<le> 49 \<or> 48 \<le> a \<and> a \<le> 53 \<and> digit b) digit"

fun matches :: "(str \<Rightarrow> nat list) list \<Rightarrow> str \<Rightarrow> (str list \<times> str) list" where
  "matches [] s = [([], s)]"
| "matches (d # ds) s = concat (map (\<lambda>n. map (\<lambda>(ps, rest). (take n s # ps, rest)) (matches ds (drop n s))) (d s))"

text \<open>\<^verbatim>\<open>int()\<close> of what a directive took; only a day may have a blank in front.\<close>

definition part :: "str list \<Rightarrow> nat \<Rightarrow> int" where
  "part ps i = digits (filter digit (ps ! i))"

definition leap :: "int \<Rightarrow> bool" where
  "leap y \<longleftrightarrow> y mod 4 = 0 \<and> (y mod 100 \<noteq> 0 \<or> y mod 400 = 0)"

definition month_days :: "int \<Rightarrow> int list" where
  "month_days y = [31, if leap y then 29 else 28, 31, 30, 31, 30, 31, 31, 30, 31, 30, 31]"

text \<open>\<^verbatim>\<open>calendar.timegm\<close>; 719163 is the ordinal of the first of January 1970.\<close>

definition timegm :: "int \<Rightarrow> int \<Rightarrow> int \<Rightarrow> int \<Rightarrow> int \<Rightarrow> int \<Rightarrow> int" where
  "timegm y m d h mi s =
     (let ordinal = (y - 1) * 365 + (y - 1) div 4 - (y - 1) div 100 + (y - 1) div 400 + sum_list (take (nat (m - 1)) (month_days y)) + 1;
          days = ordinal - 719163 + d - 1
      in ((days * 24 + h) * 60 + mi) * 60 + s)"

text \<open>The date has to exist: \<^verbatim>\<open>datetime.date\<close> knows no year zero and no 30th of February.\<close>

definition strptime :: "str \<Rightarrow> key_exn + int" where
  "strptime s =
     (case matches [take_year, take_month, take_day, take_hour, take_minute, take_second] s of
        [] \<Rightarrow> Inl (KeyValueError ''time data does not match format'')
      | (ps, rest) # _ \<Rightarrow>
          if rest \<noteq> [] then Inl (KeyValueError ''unconverted data remains'')
          else if part ps 0 < 1 then Inl (KeyValueError ''year is out of range'')
          else if part ps 2 > month_days (part ps 0) ! nat (part ps 1 - 1) then Inl (KeyValueError ''day is out of range for month'')
          else Inr (timegm (part ps 0) (part ps 1) (part ps 2) (part ps 3) (part ps 4) (part ps 5)))"

definition decode_time :: "element \<Rightarrow> key_exn + int" where
  "decode_time e =
     (let text1 = strip (ascii_text (el_value e));
          text2 = (if stops (lit ''Z'') text1 then butlast text1 else text1)
      in bindE (if el_tag e = TAG_UTC_TIME then
                  (if length text2 < 10 then Inl (DERError ''malformed UTCTime'')
                   else case py_int (take 2 text2) of
                     Inl _ \<Rightarrow> Inl (KeyValueError ''invalid literal for int'')
                   | Inr year \<Rightarrow> Inr (lit (show_nat (nat (if year < 50 then 2000 + year else 1900 + year))) @ drop 2 text2))
                else if el_tag e \<noteq> TAG_GENERALIZED_TIME then Inl (DERError ''not a certificate time'')
                else Inr text2) (\<lambda>text3.
         strptime (take 14 (text3 @ lit ''000000''))))"

section \<open>Certificates\<close>

definition PROXY_CERT_INFO_OID :: "int list" where "PROXY_CERT_INFO_OID = [1, 3, 6, 1, 5, 5, 7, 1, 14]"
definition LEGACY_PROXY_OID :: "int list" where "LEGACY_PROXY_OID = [1, 3, 6, 1, 4, 1, 3536, 1, 222]"

record certificate =
  ce_subject :: x509_name
  ce_issuer :: x509_name
  ce_serial :: int
  ce_not_before :: int
  ce_not_after :: int
  ce_public_key :: "public_key option"
  ce_extensions :: "int list list"
  ce_der :: bytes

definition is_proxy :: "certificate \<Rightarrow> bool" where
  "is_proxy c \<longleftrightarrow>
     PROXY_CERT_INFO_OID \<in> set (ce_extensions c) \<or> LEGACY_PROXY_OID \<in> set (ce_extensions c)
     \<or> ce_subject c \<noteq> [] \<and> butlast (ce_subject c) = ce_issuer c"

definition ce_expired :: "int \<Rightarrow> certificate \<Rightarrow> bool" where
  "ce_expired now c \<longleftrightarrow> ce_not_after c \<le> now"

definition ce_remaining :: "int \<Rightarrow> certificate \<Rightarrow> int" where
  "ce_remaining now c = ce_not_after c - now"

text \<open>
  \<^verbatim>\<open>textwrap.wrap(\<dots>, 64)\<close> on one long word, and the lines joined by line feeds (10); base 64 has no blanks and no hyphens, at which
  the wrapping would prefer to break.
\<close>

fun wrapped :: "nat \<Rightarrow> str \<Rightarrow> str list" where
  "wrapped n s = (if s = [] \<or> n = 0 then [] else take n s # wrapped n (drop n s))"

declare wrapped.simps [simp del]

fun joined_lines :: "str list \<Rightarrow> str" where
  "joined_lines [] = []"
| "joined_lines [l] = l"
| "joined_lines (l # ls) = l @ 10 # joined_lines ls"

definition ce_pem :: "certificate \<Rightarrow> str" where
  "ce_pem c =
     lit ''-----BEGIN CERTIFICATE-----'' @ 10 # joined_lines (wrapped 64 (b64encode (ce_der c)))
     @ 10 # lit ''-----END CERTIFICATE-----'' @ [10]"

text \<open>The identifiers of the extensions in a field tagged \<^verbatim>\<open>[3]\<close>.\<close>

definition extension_oids :: "element \<Rightarrow> key_exn + int list list" where
  "extension_oids extra =
     (if el_tag extra \<noteq> 0xA3 then Inr []
      else bindE (children extra) (\<lambda>cs. bindE (item_at cs 0) (\<lambda>c0. bindE (children c0) (\<lambda>exts.
        bindE (mapE (\<lambda>extension. bindE (children extension) (\<lambda>parts.
            if parts = [] then Inr [] else bindE (oid (parts ! 0)) (\<lambda>o1. Inr [o1]))) exts) (\<lambda>os. Inr (concat os))))))"

fun is_der_error :: "key_exn \<Rightarrow> bool" where
  "is_der_error (DERError m) = True"
| "is_der_error _ = False"

definition parse_certificate :: "bytes \<Rightarrow> key_exn + certificate" where
  "parse_certificate der =
     bindE (der_parse der 0) (\<lambda>(cert, _). bindE (children cert) (\<lambda>cs. bindE (item_at cs 0) (\<lambda>tbs. bindE (children tbs) (\<lambda>fields.
       let index = (if fields \<noteq> [] \<and> el_tag (fields ! 0) = 0xA0 then 1 else 0) in
       if length fields < index + 6 then Inl (DERError ''certificate body is missing required fields'')
       else
         bindE (if el_tag (fields ! index) = TAG_INTEGER then read_integer (fields ! index) else Inr 0) (\<lambda>serial.
         bindE (decode_name (fields ! (index + 2))) (\<lambda>issuer.
         bindE (children (fields ! (index + 3))) (\<lambda>validity.
           if length validity \<noteq> 2 then Inl (DERError ''certificate validity is not a pair of times'')
           else
             bindE (decode_name (fields ! (index + 4))) (\<lambda>subject.
             bindE (children (fields ! (index + 5))) (\<lambda>spki.
             bindE (if length spki = 2 \<and> el_tag (spki ! 1) = TAG_BIT_STRING
                    then (case public_key_from_bitstring (spki ! 1) of
                            Inr k \<Rightarrow> Inr (Some k)
                          | Inl x \<Rightarrow> if is_der_error x then Inr None else Inl x)
                    else Inr None) (\<lambda>key.
             bindE (mapE extension_oids (drop (index + 6) fields)) (\<lambda>extensions.
             bindE (decode_time (validity ! 0)) (\<lambda>not_before.
             bindE (decode_time (validity ! 1)) (\<lambda>not_after.
               Inr \<lparr>ce_subject = subject, ce_issuer = issuer, ce_serial = serial, ce_not_before = not_before,
                 ce_not_after = not_after, ce_public_key = key, ce_extensions = concat extensions, ce_der = der\<rparr>)))))))))))))"

text \<open>The exceptions that are a \<^verbatim>\<open>ValueError\<close>; an index or a division by zero is not.\<close>

fun is_key_value_error :: "key_exn \<Rightarrow> bool" where
  "is_key_value_error (DERError m) = True"
| "is_key_value_error (KeyValueError m) = True"
| "is_key_value_error _ = False"

fun load_blocks :: "(str \<times> bytes) list \<Rightarrow> key_exn + certificate list" where
  "load_blocks [] = Inr []"
| "load_blocks ((label, der) # rest) =
     (if label \<noteq> lit ''CERTIFICATE'' then load_blocks rest
      else case parse_certificate der of
             Inr c \<Rightarrow> bindE (load_blocks rest) (\<lambda>cs. Inr (c # cs))
           | Inl x \<Rightarrow> if is_key_value_error x then load_blocks rest else Inl x)"

definition load_certificates :: "str \<Rightarrow> key_exn + certificate list" where
  "load_certificates s = load_blocks (pem_blocks s)"

section \<open>Proxies\<close>

record proxy_credential =
  px_chain :: "certificate list"
  px_key :: private_key
  px_path :: str

fun strip_proxy_names :: "(nat \<Rightarrow> bool) \<Rightarrow> x509_name \<Rightarrow> x509_name" where
  "strip_proxy_names isdigit [] = []"
| "strip_proxy_names isdigit ((k, v) # rest) =
     (if k = lit ''CN'' \<and> (v \<noteq> [] \<and> list_all isdigit v \<or> v = lit ''proxy'') then strip_proxy_names isdigit rest else (k, v) # rest)"

text \<open>The chain of a loaded proxy is not empty; its first certificate is the proxy itself.\<close>

definition px_subject :: "proxy_credential \<Rightarrow> x509_name" where
  "px_subject p = ce_subject (hd (px_chain p))"

definition px_identity :: "(nat \<Rightarrow> bool) \<Rightarrow> proxy_credential \<Rightarrow> str" where
  "px_identity isdigit p = name_str (rev (strip_proxy_names isdigit (rev (px_subject p))))"

definition px_expired :: "int \<Rightarrow> proxy_credential \<Rightarrow> bool" where
  "px_expired now p \<longleftrightarrow> list_ex (ce_expired now) (px_chain p)"

definition px_remaining :: "int \<Rightarrow> proxy_credential \<Rightarrow> int" where
  "px_remaining now p = Min (set (map (ce_remaining now) (px_chain p)))"

definition px_pem :: "proxy_credential \<Rightarrow> str" where
  "px_pem p = concat (map ce_pem (px_chain p))"

definition load_proxy :: "str \<Rightarrow> bytes \<Rightarrow> key_exn + proxy_credential" where
  "load_proxy path data =
     bindE (load_certificates (ascii_text data)) (\<lambda>certs.
       if certs = [] then Inl (DERError ''no certificate'')
       else bindE (load_private_key data None) (\<lambda>key. Inr \<lparr>px_chain = certs, px_key = key, px_path = path\<rparr>))"

section \<open>A chain written and read back\<close>

lemma strip_plain: "list_all (\<lambda>c. \<not> is_space c) s \<Longrightarrow> strip s = s"
proof -
  assume s: "list_all (\<lambda>c. \<not> is_space c) s"
  have id: "dropWhile is_space u = u" if "set u \<subseteq> set s" for u
    using that s by (cases u) (auto simp: list_all_iff)
  show ?thesis using id [of s] id [of "rev s"] by (simp add: strip_def rstrip_by_def)
qed

definition text_lines :: "str list \<Rightarrow> str" where
  "text_lines ls = concat (map (\<lambda>l. l @ [10]) ls)"

lemma splitlines_line: "list_all (\<lambda>c. \<not> line_break c) l \<Longrightarrow> splitlines (l @ 10 # r) = l # splitlines r"
proof -
  assume l: "list_all (\<lambda>c. \<not> line_break c) l"
  have "line_break 10" by (simp add: line_break_def)
  with l have "takeWhile (\<lambda>c. \<not> line_break c) (l @ 10 # r) = l" "dropWhile (\<lambda>c. \<not> line_break c) (l @ 10 # r) = 10 # r"
    by (auto simp: list_all_iff takeWhile_append dropWhile_append)
  then show ?thesis by (subst splitlines.simps) (simp add: Let_def splitlines.simps [of "[]"])
qed

lemma splitlines_text: "list_all (list_all (\<lambda>c. \<not> line_break c)) ls \<Longrightarrow> splitlines (text_lines ls) = ls"
  by (induction ls) (auto simp: text_lines_def splitlines_line splitlines.simps [of "[]"])

lemma joined_text: "joined_lines ls @ 10 # r = text_lines (if ls = [] then [[]] else ls) @ r"
  by (induction ls rule: joined_lines.induct) (simp_all add: text_lines_def)

definition pem_lines :: "certificate \<Rightarrow> str list" where
  "pem_lines c =
     lit ''-----BEGIN CERTIFICATE-----'' # (let body = wrapped 64 (b64encode (ce_der c)) in if body = [] then [[]] else body)
     @ [lit ''-----END CERTIFICATE-----'']"

lemma ce_pem_lines: "ce_pem c = text_lines (pem_lines c)"
  using joined_text [of "wrapped 64 (b64encode (ce_der c))" "lit ''-----END CERTIFICATE-----'' @ [10]"]
  by (simp add: ce_pem_def pem_lines_def Let_def text_lines_def)

lemma concat_wrapped: "0 < n \<Longrightarrow> concat (wrapped n s) = s"
  by (induction n s rule: wrapped.induct) (subst wrapped.simps, simp)

lemma wrapped_letters: "l \<in> set (wrapped n s) \<Longrightarrow> set l \<subseteq> set s"
proof (induction n s rule: wrapped.induct)
  case (1 n s)
  then show ?case by (subst (asm) (2) wrapped.simps) (auto split: if_splits dest: in_set_takeD in_set_dropD)
qed

lemma body_line:
  assumes "l \<in> set (wrapped 64 (b64encode bs))"
  shows "list_all b64_letter l"
  using assms wrapped_letters b64encode_letters [of bs] by (fastforce simp: list_all_iff)

lemma letter_lines:
  assumes "list_all b64_letter l"
  shows "list_all (\<lambda>c. \<not> line_break c) l" "strip l = l" "\<not> starts (45 # m) l"
proof -
  have "b64_letter c \<Longrightarrow> \<not> line_break c \<and> \<not> is_space c \<and> c \<noteq> 45" for c
    by (auto simp: b64_letter_def line_break_def is_space_def)
  with assms have "list_all (\<lambda>c. \<not> is_space c) l" "45 \<notin> set l" "list_all (\<lambda>c. \<not> line_break c) l" by (auto simp: list_all_iff)
  then show "list_all (\<lambda>c. \<not> line_break c) l" "strip l = l" "\<not> starts (45 # m) l"
    by (auto simp: strip_plain starts_def) (metis list.set_intros(1) in_set_takeD)
qed

lemma pem_body:
  "list_all (list_all b64_letter) ls \<Longrightarrow>
     pem_loop (ls @ r) (Some label) body = pem_loop r (Some label) (body @ ls)"
proof (induction ls arbitrary: body)
  case (Cons l ls)
  have "strip l = l" "\<not> starts (45 # m) l" for m using Cons.prems letter_lines [of l] by simp_all
  then show ?case using Cons by (simp add: Let_def lit_def)
qed simp

lemma pem_loop_certificate:
  "pem_loop (pem_lines c @ r) label body = (lit ''CERTIFICATE'', ce_der c) # pem_loop r None []"
proof -
  let ?body = "let b = wrapped 64 (b64encode (ce_der c)) in if b = [] then [[]] else b"
  have "list_all (list_all b64_letter) ?body" using body_line [of _ "ce_der c"] by (auto simp: list_all_iff Let_def)
  note b = pem_body [OF this, of "lit ''-----END CERTIFICATE-----'' # r" "lit ''CERTIFICATE''" "[]"]
  have "concat ?body = b64encode (ce_der c)" using concat_wrapped [of 64 "b64encode (ce_der c)"] by (auto simp: Let_def)
  then have d: "b64decode (concat ?body) = Some (ce_der c)" by (simp only: b64_round_trip)
  have marks: "strip (lit ''-----BEGIN CERTIFICATE-----'') = lit ''-----BEGIN CERTIFICATE-----''"
    "starts (lit ''-----BEGIN '') (lit ''-----BEGIN CERTIFICATE-----'')" "stops (lit ''-----'') (lit ''-----BEGIN CERTIFICATE-----'')"
    "marker_label 11 (lit ''-----BEGIN CERTIFICATE-----'') = lit ''CERTIFICATE''"
    "strip (lit ''-----END CERTIFICATE-----'') = lit ''-----END CERTIFICATE-----''"
    "\<not> starts (lit ''-----BEGIN '') (lit ''-----END CERTIFICATE-----'')"
    "starts (lit ''-----END '') (lit ''-----END CERTIFICATE-----'')" "stops (lit ''-----'') (lit ''-----END CERTIFICATE-----'')"
    "marker_label 9 (lit ''-----END CERTIFICATE-----'') = lit ''CERTIFICATE''" by code_simp+
  have "pem_loop (pem_lines c @ r) label body = pem_loop (?body @ lit ''-----END CERTIFICATE-----'' # r) (Some (lit ''CERTIFICATE'')) []"
    using marks by (simp add: pem_lines_def del: append_Cons)
      (simp add: pem_loop.simps(2) Let_def)
  also have "\<dots> = (lit ''CERTIFICATE'', ce_der c) # pem_loop r None []" using b marks d by (simp add: Let_def)
  finally show ?thesis .
qed

text \<open>What a proxy puts on the wire is read back block by block.\<close>

lemma pem_blocks_chain: "pem_blocks (px_pem p) = map (\<lambda>c. (lit ''CERTIFICATE'', ce_der c)) (px_chain p)"
proof -
  have mark: "list_all (\<lambda>c. \<not> line_break c) (lit ''-----BEGIN CERTIFICATE-----'')" "list_all (\<lambda>c. \<not> line_break c) (lit ''-----END CERTIFICATE-----'')"
    by code_simp+
  have plain: "list_all (list_all (\<lambda>c. \<not> line_break c)) (pem_lines c)" for c
    using mark letter_lines(1) [OF body_line, of _ "ce_der c"] by (auto simp: pem_lines_def Let_def list_all_iff)
  have "concat (map ce_pem cs) = text_lines (concat (map pem_lines cs))" for cs
    by (induction cs) (simp_all add: ce_pem_lines text_lines_def)
  then have "px_pem p = text_lines (concat (map pem_lines (px_chain p)))" by (simp add: px_pem_def)
  moreover have "list_all (list_all (\<lambda>c. \<not> line_break c)) (concat (map pem_lines (px_chain p)))"
    using plain by (auto simp: list_all_iff)
  ultimately have "pem_blocks (px_pem p) = pem_loop (concat (map pem_lines (px_chain p))) None []"
    by (simp add: pem_blocks_def splitlines_text)
  also have "pem_loop (concat (map pem_lines cs)) None [] = map (\<lambda>c. (lit ''CERTIFICATE'', ce_der c)) cs" for cs
    by (induction cs) (simp_all add: pem_loop_certificate)
  finally show ?thesis .
qed

definition all_ok :: "('a \<Rightarrow> bool) \<Rightarrow> 'e + 'a \<Rightarrow> bool" where
  "all_ok P r \<longleftrightarrow> (\<forall>c. r = Inr c \<longrightarrow> P c)"

lemma all_ok_intros:
  "(\<And>a. all_ok P (f a)) \<Longrightarrow> all_ok P (bindE x f)"
  "all_ok P r \<Longrightarrow> all_ok P s \<Longrightarrow> all_ok P (if b then r else s)"
  "all_ok P (Inl e)"
  "P y \<Longrightarrow> all_ok P (Inr y)"
  by (auto simp: all_ok_def bindE_eq_Inr)

lemma parse_certificate_der: "parse_certificate der = Inr c \<Longrightarrow> ce_der c = der"
proof -
  have "all_ok (\<lambda>c. ce_der c = der) (parse_certificate der)"
    unfolding parse_certificate_def Let_def case_prod_beta by (intro all_ok_intros) simp
  then show "parse_certificate der = Inr c \<Longrightarrow> ce_der c = der" by (simp add: all_ok_def)
qed

lemma load_blocks_parsed: "load_blocks bs = Inr cs \<Longrightarrow> c \<in> set cs \<Longrightarrow> parse_certificate (ce_der c) = Inr c"
proof (induction bs arbitrary: cs)
  case (Cons b bs)
  obtain label der where b: "b = (label, der)" by (cases b)
  show ?case
  proof (cases "label = lit ''CERTIFICATE'' \<and> (\<exists>c0. parse_certificate der = Inr c0)")
    case True
    then obtain c0 where c0: "parse_certificate der = Inr c0" "label = lit ''CERTIFICATE''" by blast
    then obtain rest where "load_blocks bs = Inr rest" "cs = c0 # rest" using Cons.prems(1) b by (auto simp: bindE_eq_Inr)
    then show ?thesis using Cons c0 parse_certificate_der [OF c0(1)] by auto
  next
    case False
    then have "load_blocks bs = Inr cs" using Cons.prems(1) b by (auto split: if_splits sum.splits)
    then show ?thesis using Cons by blast
  qed
qed simp

lemma load_blocks_own: "\<forall>c \<in> set cs. parse_certificate (ce_der c) = Inr c \<Longrightarrow> load_blocks (map (\<lambda>c. (lit ''CERTIFICATE'', ce_der c)) cs) = Inr cs"
  by (induction cs) simp_all

lemma loaded_chain_reads_back:
  assumes "load_proxy path data = Inr p"
  shows "load_certificates (px_pem p) = Inr (px_chain p) \<and> px_chain p \<noteq> []"
proof -
  have "load_blocks (pem_blocks (ascii_text data)) = Inr (px_chain p)" "px_chain p \<noteq> []"
    using assms by (auto simp: load_proxy_def load_certificates_def bindE_eq_Inr split: if_splits)
  then show ?thesis using load_blocks_own [of "px_chain p"] load_blocks_parsed by (auto simp: load_certificates_def pem_blocks_chain)
qed

text \<open>A proxy has expired when nothing remains of its shortest certificate.\<close>

lemma expired_iff_nothing_remains: "px_chain p \<noteq> [] \<Longrightarrow> px_expired now p \<longleftrightarrow> px_remaining now p \<le> 0"
  by (auto simp: px_expired_def px_remaining_def list_ex_iff ce_expired_def ce_remaining_def Min_le_iff)

text \<open>
  A certificate whose outer element is empty raises an index error, which the loader does not catch: the blocks
  after it, and those before it, are lost.
\<close>

lemma empty_certificate_loses_the_chain: "load_blocks ((lit ''CERTIFICATE'', [0x30, 0]) # rest) = Inl KeyIndexError"
proof -
  have "parse_certificate [0x30, 0] = Inl KeyIndexError" by code_simp
  then show ?thesis by simp
qed

end
