(* ===== verification/Rsa_Properties.thy ===== *)
theory Rsa_Properties
  imports Crypto_Rsa
begin

text \<open>
  That signing and verifying of \<^verbatim>\<open>crypto/rsa.py\<close> belong together, on both paths of the private
  operation (C26), and that its primality test never rejects a prime.
\<close>

section \<open>The primality test\<close>

lemma small_primes_spare_primes:
  assumes "is_prime n" "list_all (\<lambda>s. 1 < s) ss"
  shows "by_small_primes n ss \<noteq> Some False"
  using assms(2)
proof (induction ss)
  case (Cons s ss)
  have "n mod s \<noteq> 0 \<or> n = s" using prime_factor [OF assms(1), of s] Cons.prems by (auto simp: mod_eq_0_iff_dvd)
  then show ?case using Cons by auto
qed simp

lemma by_small_primes_None: "by_small_primes n ss = None \<Longrightarrow> s \<in> set ss \<Longrightarrow> n mod s \<noteq> 0"
  by (induction ss) (auto split: if_splits)

lemma strip_twos_split: "0 < d \<Longrightarrow> strip_twos d r = (d1, r1) \<Longrightarrow> 0 < d1 \<and> r \<le> r1 \<and> d = d1 * 2 ^ (r1 - r) \<and> (even d \<longrightarrow> r < r1)"
proof (induction d r rule: strip_twos.induct)
  case (1 d r)
  show ?case
  proof (cases "even d")
    case True
    then have s: "strip_twos (d div 2) (Suc r) = (d1, r1)" "0 < d div 2" using 1 by (auto simp: strip_twos.simps [of d r])
    then have IH: "0 < d1" "Suc r \<le> r1" "d div 2 = d1 * 2 ^ (r1 - Suc r)" using 1 True by auto
    have "d = 2 * (d div 2)" using True by simp
    also have "\<dots> = d1 * 2 ^ Suc (r1 - Suc r)" using IH(3) by simp
    also have "Suc (r1 - Suc r) = r1 - r" using IH(2) by simp
    finally show ?thesis using IH by simp
  qed (use 1 in \<open>auto simp: strip_twos.simps [of d r]\<close>)
qed

text \<open>Modulo a prime only one and minus one have the square one, so the squares of a round reach minus one first.\<close>

lemma square_root_of_one:
  assumes "is_prime n" "x * x mod n = 1" "0 \<le> x" "x < n"
  shows "x = 1 \<or> x = n - 1"
proof -
  have "1 mod n = 1" using assms(1) by (simp add: is_prime_def)
  then have "n dvd x * x - 1" using assms(2) by (simp add: dvd_diff_mod)
  also have "x * x - 1 = (x - 1) * (x + 1)" by (simp add: algebra_simps)
  finally consider "n dvd x - 1" | "n dvd x + 1" using prime_dvd_mult [OF assms(1)] by blast
  then show ?thesis
  proof cases
    case 1
    have "x \<noteq> 0" using assms(2) by auto
    then show ?thesis using 1 zdvd_imp_le [of n "x - 1"] assms(3,4) by linarith
  next
    case 2
    then show ?thesis using zdvd_imp_le [of n "x + 1"] assms(3,4) by auto
  qed
qed

lemma squares_meet_minus_one:
  assumes "is_prime n"
  shows "x ^ 2 ^ Suc k mod n = 1 \<Longrightarrow> 0 \<le> x \<Longrightarrow> x < n \<Longrightarrow> x \<noteq> 1 \<Longrightarrow> x \<noteq> n - 1 \<Longrightarrow> mr_squares n x k"
proof (induction k arbitrary: x)
  case 0
  then show ?case using square_root_of_one [OF assms, of x] by (simp add: power2_eq_square)
next
  case (Suc k)
  let ?x = "x * x mod n"
  have n: "0 < n" using assms by (simp add: is_prime_def)
  have "x ^ 2 ^ Suc (Suc k) = (x * x) ^ 2 ^ Suc k" by (simp only: power_Suc [of 2 "Suc k"] power_mult power2_eq_square)
  then have "?x ^ 2 ^ Suc k mod n = 1" using Suc.prems(1) by (simp only: power_mod)
  moreover have "?x \<noteq> 1" using square_root_of_one [OF assms, of x] Suc.prems by auto
  ultimately show ?case using Suc.IH [of ?x] n by (simp add: Let_def)
qed

lemma prime_never_rejected:
  assumes "is_prime n" "\<forall>x \<in> set draws. 0 \<le> x \<and> x < n - 3"
  shows "probably_prime n draws"
proof -
  have n: "1 < n" using assms(1) by (simp add: is_prime_def)
  have small: "by_small_primes n SMALL_PRIMES \<noteq> Some False"
    by (rule small_primes_spare_primes [OF assms(1)]) (simp add: SMALL_PRIMES_def)
  show ?thesis
  proof (cases "by_small_primes n SMALL_PRIMES")
    case None
    have "even (n - 1)" using by_small_primes_None [OF None, of 2] by (simp add: SMALL_PRIMES_def mod_2_eq_odd)
    obtain d r where dr: "strip_twos (n - 1) 0 = (d, r)" by fastforce
    then have s: "0 < d" "n - 1 = d * 2 ^ r" "0 < r" using strip_twos_split [OF _ dr] n \<open>even (n - 1)\<close> by auto
    have "mr_round n d r (x + 2)" if "x \<in> set draws" for x
    proof -
      let ?y = "(x + 2) ^ nat d mod n"
      have "\<not> n dvd x + 2" using assms(2) that zdvd_imp_le [of n "x + 2"] by fastforce
      then have "(x + 2) ^ nat (n - 1) mod n = 1" by (rule fermat_unit [OF assms(1)])
      moreover have "nat (n - 1) = nat d * 2 ^ Suc (r - 1)" using s by (simp add: nat_mult_distrib nat_power_eq)
      ultimately have "?y ^ 2 ^ Suc (r - 1) mod n = 1" by (simp only: power_mult power_mod)
      then show ?thesis using squares_meet_minus_one [OF assms(1), of ?y "r - 1"] n by (auto simp: mr_round_def Let_def)
    qed
    then show ?thesis using None n dr by (auto simp: probably_prime_def list_all_iff)
  qed (use small n in \<open>auto simp: probably_prime_def\<close>)
qed

section \<open>Sizes and padding\<close>

lemma key_size_bounds:
  assumes "0 < n"
  shows "256 ^ (key_size n - 1) \<le> n" "n < 256 ^ key_size n" "0 < key_size n"
proof -
  let ?L = "bit_length (nat n)"
  have n: "\<bar>n\<bar> = n" "int (nat n) = n" "0 < nat n" using assms by simp_all
  note b = bit_length_bounds [OF n(3)]
  have s: "8 * (key_size n - 1) \<le> ?L - 1" "?L \<le> 8 * key_size n" "0 < key_size n"
    using b by (auto simp: key_size_def n)
  have p: "(256 :: nat) ^ i = 2 ^ (8 * i)" for i by (simp add: power_mult)
  have "(256 :: nat) ^ (key_size n - 1) \<le> nat n"
    using b power_increasing [OF s(1), of "2 :: nat"] unfolding p by linarith
  then show "256 ^ (key_size n - 1) \<le> n" using n by (metis of_nat_le_iff of_nat_numeral of_nat_power)
  have "nat n < (256 :: nat) ^ key_size n"
    using b power_increasing [OF s(2), of "2 :: nat"] unfolding p by linarith
  then show "n < 256 ^ key_size n" using n by (metis of_nat_less_iff of_nat_numeral of_nat_power)
  show "0 < key_size n" by (rule s(3))
qed

lemma be_int_zero_Cons: "be_int (0 # bs) = be_int bs"
  by (simp add: be_int_def)

lemma pad_fits:
  assumes "pkcs1_v15_pad hash message (key_size n) digest = Inr block" "0 < n"
  shows "length block = key_size n \<and> 0 \<le> be_int block \<and> be_int block < n"
proof -
  obtain rest where r: "block = 0 # rest" "length block = key_size n"
    using assms(1) by (auto simp: pkcs1_v15_pad_def bindE_eq_Inr split: if_splits)
  then have "length rest = key_size n - 1" by simp
  then show ?thesis using be_int_bounds [of rest] key_size_bounds(1) [OF assms(2)] r
    by (auto simp: be_int_zero_Cons)
qed

section \<open>The private operation\<close>

lemma reduced_power:
  assumes "is_prime p" "0 < d" "d mod nat (p - 1) \<noteq> 0"
  shows "(x mod p) ^ (d mod nat (p - 1)) mod p = x ^ d mod p"
proof (cases "p dvd x")
  case True
  then show ?thesis using assms(2,3) by (simp add: zero_power) (meson dvd_imp_mod_0 dvd_power dvd_trans)
next
  case False
  then show ?thesis using power_reduced [OF assms(1) False, of d] by (simp add: power_mod)
qed

lemma exponent_survives:
  assumes "2 < p" "0 < d" "(p - 1) dvd e * d - 1"
  shows "nat d mod nat (p - 1) \<noteq> 0"
proof
  assume "nat d mod nat (p - 1) = 0"
  then have "nat (p - 1) dvd nat d" by (simp only: dvd_eq_mod_eq_0)
  then have "int (nat (p - 1)) dvd int (nat d)" by (simp only: of_nat_dvd_iff)
  then have "(p - 1) dvd d" using assms by simp
  then have "(p - 1) dvd 1" using assms(3) by (metis dvd_diff_right_iff dvd_mult)
  then show False using assms(1) zdvd_imp_le by fastforce
qed

text \<open>The Chinese remainder path computes the plain power.\<close>

lemma garner:
  assumes "is_prime p" "is_prime q" "p \<noteq> q" "(q * c) mod p = 1"
    and "mp mod p = v mod p" "mq mod q = v mod q"
  shows "(mq + q * ((c * (mp - mq)) mod p)) mod (p * q) = v mod (p * q)"
proof -
  let ?h = "mq + q * ((c * (mp - mq)) mod p)"
  have "?h mod q = v mod q" using assms(6) by simp
  have "?h mod p = (mq + (q * c) * (mp - mq)) mod p" by (metis mod_add_right_eq mod_mult_right_eq mult.assoc)
  also have "\<dots> = (mq + (q * c) mod p * (mp - mq)) mod p" by (metis mod_add_right_eq mod_mult_left_eq)
  also have "\<dots> = v mod p" using assms(4,5) by simp
  finally have "p dvd ?h - v" by (simp only: dvd_diff_mod)
  moreover have "q dvd ?h - v" using \<open>?h mod q = v mod q\<close> by (simp only: dvd_diff_mod)
  moreover have "coprime p q" by (rule distinct_primes_coprime [OF assms(1-3)])
  ultimately have "p * q dvd ?h - v" by (simp add: divides_mult)
  then show ?thesis by (simp only: dvd_diff_mod)
qed

lemma rsa_power_crt:
  assumes "is_prime p" "is_prime q" "p \<noteq> q" "2 < p" "2 < q" "0 < d"
    and "(p - 1) dvd e * d - 1" "(q - 1) dvd e * d - 1"
    and k: "prv_n k = p * q" "prv_d k = d" "prv_p k = p" "prv_q k = q"
  shows "rsa_power k x = Inr (x ^ nat d mod (p * q))"
proof -
  obtain c where c: "py_inverse q p = Some c" "(q * c) mod p = 1" "0 \<le> c"
    using py_inverse_coprime [of q p] distinct_primes_coprime [OF assms(1-3)] assms(4) by (auto simp: coprime_commute)
  have red: "(x mod r) ^ nat (d mod (r - 1)) mod r = x ^ nat d mod r" if "r \<in> {p, q}" for r
  proof -
    have r: "is_prime r" "2 < r" "(r - 1) dvd e * d - 1" using that assms by auto
    have "nat (d mod (r - 1)) = nat d mod nat (r - 1)" using r(2) assms(6) by (simp add: nat_mod_distrib)
    then show ?thesis using reduced_power [OF r(1), of "nat d"] exponent_survives [OF r(2) assms(6) r(3)] assms(6) by simp
  qed
  let ?mp = "x ^ nat d mod p" and ?mq = "x ^ nat d mod q"
  have "rsa_power k x = Inr ((?mq + q * ((c mod p * (?mp - ?mq)) mod p)) mod (p * q))"
    using assms(4,5,6) c(1) red by (simp add: rsa_power_def k py_mod_def py_pow_def)
  moreover have "(q * (c mod p)) mod p = 1" using c(2) by (simp add: mod_mult_right_eq)
  ultimately show ?thesis using garner [OF assms(1-3), of "c mod p" ?mp "x ^ nat d" ?mq] by simp
qed

definition well_formed_key :: "int list \<Rightarrow> private_key \<Rightarrow> bool" where
  "well_formed_key rs k \<longleftrightarrow>
     distinct rs \<and> list_all is_prime rs \<and> rs \<noteq> [] \<and> prv_n k = prod_list rs \<and> 0 < prv_e k \<and> 0 < prv_d k
     \<and> list_all (\<lambda>r. (r - 1) dvd prv_e k * prv_d k - 1) rs
     \<and> (prv_p k = 0 \<or> prv_q k = 0 \<or> rs = [prv_p k, prv_q k] \<and> 2 < prv_p k \<and> 2 < prv_q k)"

lemma well_formed_positive: "well_formed_key rs k \<Longrightarrow> 1 < prv_n k"
proof -
  assume w: "well_formed_key rs k"
  have "0 < prod_list ss" if "list_all is_prime ss" for ss using that by (induction ss) (auto simp: is_prime_def)
  then have pos: "0 < prod_list (tl rs)" using w by (cases rs) (auto simp: well_formed_key_def)
  have rs: "1 < hd rs" "prv_n k = hd rs * prod_list (tl rs)" using w by (cases rs; auto simp: well_formed_key_def is_prime_def)+
  have "hd rs * 1 \<le> hd rs * prod_list (tl rs)" using pos rs(1) by (intro mult_left_mono) simp_all
  with rs show ?thesis by linarith
qed

lemma rsa_power_plain:
  assumes "well_formed_key rs k"
  shows "rsa_power k x = Inr (x ^ nat (prv_d k) mod prv_n k)"
proof (cases "prv_p k = 0 \<or> prv_q k = 0")
  case True
  then show ?thesis using assms well_formed_positive [OF assms] by (auto simp: rsa_power_def py_pow_def well_formed_key_def)
next
  case False
  then have "rs = [prv_p k, prv_q k]" "2 < prv_p k" "2 < prv_q k" using assms by (auto simp: well_formed_key_def)
  then show ?thesis using assms rsa_power_crt [of "prv_p k" "prv_q k" "prv_d k" "prv_e k" k x]
    by (auto simp: well_formed_key_def)
qed

lemma public_undoes_private:
  assumes "well_formed_key rs k"
  shows "(v ^ nat (prv_d k) mod prv_n k) ^ nat (prv_e k) mod prv_n k = v mod prv_n k"
proof -
  let ?m = "nat (prv_d k) * nat (prv_e k)"
  have w: "distinct rs" "list_all is_prime rs" "0 < prv_e k" "0 < prv_d k" "prv_n k = prod_list rs"
    "\<forall>r \<in> set rs. (r - 1) dvd prv_e k * prv_d k - 1" "\<forall>r \<in> set rs. 1 < r"
    using assms by (auto simp: well_formed_key_def list_all_iff is_prime_def)
  have m: "0 < ?m" "int (?m - 1) = prv_e k * prv_d k - 1" using w(3,4) by (auto simp: of_nat_diff mult.commute Suc_le_eq)
  have "nat (r - 1) dvd ?m - 1" if "r \<in> set rs" for r
  proof -
    have "int (nat (r - 1)) dvd int (?m - 1)" unfolding m(2) using w(6,7) that by auto
    then show ?thesis by (simp only: of_nat_dvd_iff)
  qed
  then have "v ^ ?m mod prv_n k = v mod prv_n k" using rsa_exponents [OF w(1,2) m(1)] w(5) by simp
  then show ?thesis by (simp add: power_mod power_mult)
qed

text \<open>
  A generated key is well formed, whatever was drawn, provided that the public exponent is prime and
  the two numbers that passed the test are.
\<close>

lemma prime_search_result:
  "prime_search bits e ds = Some (Inr (p, ds1)) \<Longrightarrow> (\<exists>bases. probably_prime p bases) \<and> (p - 1) mod e \<noteq> 0 \<and> odd p"
  by (induction ds) (auto simp: Let_def py_mod_def even_or_iff split: sum.splits if_splits)

lemma generate_loop_result:
  assumes "generate_loop bits e ds = Some (Inr k)"
  shows "\<exists>p q bp bq d. probably_prime p bp \<and> probably_prime q bq \<and> (p - 1) mod e \<noteq> 0 \<and> (q - 1) mod e \<noteq> 0 \<and> odd p \<and> odd q \<and> p \<noteq> q
    \<and> bit_length (nat (p * q)) = bits \<and> py_pow e (- 1) ((p - 1) * (q - 1)) = Inr d
    \<and> k = \<lparr>prv_n = p * q, prv_e = e, prv_d = d, prv_p = p, prv_q = q\<rparr>"
  using assms
proof (induction ds rule: length_induct)
  case (1 ds)
  from "1.prems" obtain p ds1 q ds2 where s: "prime_search (bits div 2) e ds = Some (Inr (p, ds1))"
    "prime_search (bits - bits div 2) e ds1 = Some (Inr (q, ds2))"
    by (subst (asm) generate_loop.simps) (auto split: option.splits sum.splits)
  note r = prime_search_result [OF s(1)] prime_search_result [OF s(2)]
  show ?case
  proof (cases "p = q \<or> bit_length (nat (p * q)) \<noteq> bits")
    case True
    then have "generate_loop bits e ds2 = Some (Inr k)" using "1.prems" s by (auto simp: generate_loop.simps [of bits e ds] split: if_splits)
    moreover have "length ds2 < length ds" using prime_search_consumes [OF s(1)] prime_search_consumes [OF s(2)] by simp
    ultimately show ?thesis using "1.IH" by blast
  next
    case False
    then obtain d where "py_pow e (- 1) ((p - 1) * (q - 1)) = Inr d" "k = \<lparr>prv_n = p * q, prv_e = e, prv_d = d, prv_p = p, prv_q = q\<rparr>"
      using "1.prems" s by (auto simp: generate_loop.simps [of bits e ds] bindE_eq_Inr)
    then show ?thesis using r False by blast
  qed
qed

lemma generated_key_well_formed:
  assumes "generate bits e ds = Some (Inr k)" "is_prime e" "is_prime (prv_p k)" "is_prime (prv_q k)"
  shows "well_formed_key [prv_p k, prv_q k] k \<and> bit_length (nat (prv_n k)) = bits"
proof -
  obtain p q d where pq: "(p - 1) mod e \<noteq> 0" "(q - 1) mod e \<noteq> 0" "odd p" "odd q" "p \<noteq> q"
    and d: "py_pow e (- 1) ((p - 1) * (q - 1)) = Inr d"
    and k: "bit_length (nat (p * q)) = bits" "k = \<lparr>prv_n = p * q, prv_e = e, prv_d = d, prv_p = p, prv_q = q\<rparr>"
    using assms(1) by (auto simp: generate_def dest!: generate_loop_result split: if_splits)
  let ?m = "(p - 1) * (q - 1)"
  have e: "1 < e" using assms(2) by (simp add: is_prime_def)
  have prime: "is_prime p" "is_prime q" using assms(3,4) k by simp_all
  then have "1 < p" "1 < q" by (simp_all add: is_prime_def)
  then have gt: "2 < p" "2 < q" using pq(3,4) by (cases "p = 2"; cases "q = 2"; simp)+
  have "2 * 1 \<le> ?m" using gt by (intro mult_mono) simp_all
  then have m: "1 < ?m" by simp
  have "\<not> e dvd ?m" using pq(1,2) prime_dvd_mult [OF assms(2)] by (auto simp: mod_eq_0_iff_dvd)
  then have "coprime e ?m" using prime_coprime [OF assms(2), of ?m] coprime_commute by blast
  then obtain x where x: "py_inverse e ?m = Some x" "(e * x) mod ?m = 1" using py_inverse_coprime m by blast
  then have dx: "d = x mod ?m" using d m by (simp add: py_pow_def split: if_splits)
  then have "(e * d) mod ?m = 1 mod ?m" using x(2) m by (simp add: mod_mult_right_eq)
  then have dvd: "?m dvd e * d - 1" by (simp only: dvd_diff_mod)
  have "d \<noteq> 0" using dvd m by (auto simp: zdvd1_eq)
  then have "0 < d" using dx m by (metis less_le pos_mod_sign less_trans zero_less_one)
  then show ?thesis using prime pq(5) gt e k dvd by (auto simp: well_formed_key_def intro: dvd_mult_left dvd_mult_right)
qed

lemma signature_accepted:
  assumes "well_formed_key rs k" and "pkcs1_v15_pad hash message (key_size (prv_n k)) digest = Inr block"
  shows "\<exists>signature. rsa_sign hash k message digest = Inr signature \<and> length signature = key_size (prv_n k)
    \<and> (\<forall>other padded. pkcs1_v15_pad hash other (key_size (prv_n k)) digest = Inr padded
         \<longrightarrow> rsa_verify hash (public k) other signature digest = Inr (padded = block))"
proof -
  let ?n = "prv_n k" and ?v = "be_int block ^ nat (prv_d k) mod prv_n k"
  let ?s = "be_bytes (key_size ?n) ?v"
  have n: "1 < ?n" by (rule well_formed_positive [OF assms(1)])
  then have n0: "0 < ?n" by simp
  note size = key_size_bounds [OF n0]
  have "0 \<le> ?v" "?v < ?n" using n0 by simp_all
  then have v: "0 \<le> ?v" "?v < 256 ^ key_size ?n" using size(2) by linarith+
  have block: "length block = key_size ?n" "0 \<le> be_int block" "be_int block < ?n" using pad_fits [OF assms(2) n0] by simp_all
  have sign: "rsa_sign hash k message digest = Inr ?s"
    using v by (simp add: rsa_sign_def assms(2) rsa_power_plain [OF assms(1)] to_bytes_def)
  have e: "0 < prv_e k" using assms(1) by (simp add: well_formed_key_def)
  have undone: "be_int ?s ^ nat (prv_e k) mod ?n = be_int block"
    using v block public_undoes_private [OF assms(1), of "be_int block"] by (simp add: be_int_be_bytes)
  have "rsa_verify hash (public k) other ?s digest = Inr (padded = block)"
    if "pkcs1_v15_pad hash other (key_size ?n) digest = Inr padded" for other padded
    using that n0 e block size(2) undone be_bytes_be_int [of block]
    by (auto simp: rsa_verify_def public_def py_pow_def to_bytes_def)
  then show ?thesis using sign by auto
qed

text \<open>
  C26. Signing and verifying belong together. For a private key whose modulus is a product of
  distinct primes and whose exponents are inverse to one another modulo each prime minus one, with the
  two primes stored (signing then works modulo each and recombines) or not, a message
  that fits its padding is signed, the signature is as long as the modulus, and the public
  key accepts that signature for exactly the messages whose padded block is the one signed.
\<close>

theorem rsa_signature_verifies:
  assumes "well_formed_key rs k" and "pkcs1_v15_pad hash message (key_size (prv_n k)) digest = Inr block"
  shows "\<exists>signature. rsa_sign hash k message digest = Inr signature \<and> length signature = key_size (prv_n k)
    \<and> (\<forall>other padded. pkcs1_v15_pad hash other (key_size (prv_n k)) digest = Inr padded
         \<longrightarrow> rsa_verify hash (public k) other signature digest = Inr (padded = block))"
  using signature_accepted [OF assms] .

definition sample_primes :: "int list" where
  "sample_primes = [3, 5, 7, 11, 13, 17, 19, 31, 37, 41, 61, 73, 97, 101, 109, 151, 163, 181, 193]"

definition sample_rsa :: private_key where
  "sample_rsa = \<lparr>prv_n = 932497916614975034225648061315, prv_e = 7, prv_d = 55543, prv_p = 0, prv_q = 0\<rparr>"

lemma sample_rsa_ok: "well_formed_key sample_primes sample_rsa" "key_size (prv_n sample_rsa) = 13"
proof -
  have "list_all is_prime sample_primes" by (simp add: sample_primes_def is_prime_def upto_rec1)
  then show "well_formed_key sample_primes sample_rsa"
    by (simp add: well_formed_key_def) (simp add: sample_primes_def sample_rsa_def)
  show "key_size (prv_n sample_rsa) = 13" by (simp add: key_size_def sample_rsa_def bit_length.simps)
qed

theorem rsa_signature_verifies_witness:
  "\<exists>signature. rsa_sign (\<lambda>_ _. []) sample_rsa [0x68, 0x69] None = Inr signature
     \<and> rsa_verify (\<lambda>_ _. []) (public sample_rsa) [0x68, 0x69] signature None = Inr True
     \<and> rsa_verify (\<lambda>_ _. []) (public sample_rsa) [0x68, 0x6a] signature None = Inr False"
proof -
  have pad: "pkcs1_v15_pad (\<lambda>_ _. []) [0x68, b] 13 None = Inr [0, 1, 255, 255, 255, 255, 255, 255, 255, 255, 0, 0x68, b]" for b
    by (simp add: pkcs1_v15_pad_def numeral_eq_Suc)
  from rsa_signature_verifies [OF sample_rsa_ok(1), of "\<lambda>_ _. []" "[0x68, 0x69]" None] pad
  show ?thesis unfolding sample_rsa_ok(2) by fastforce
qed

end
