(* ===== verification/Auth_Gsi.thy ===== *)
theory Auth_Gsi
  imports Crypto_X509 Crypto_AES Rsa_Properties Auth_Ladder
begin

text \<open>
  The \<^verbatim>\<open>gsi\<close> mechanism of \<^verbatim>\<open>auth/gsi.py\<close>: messages of buckets, the Diffie-Hellman exchange over the server's group, the
  two client rounds, and the credential. \<^verbatim>\<open>os.urandom\<close> and the clock are arguments; the proxy file is its content, or
  \<open>None\<close> when there is none.
\<close>

section \<open>Messages\<close>

abbreviation (input) STEP_SERVER_CERT :: int where "STEP_SERVER_CERT \<equiv> 2001"
abbreviation (input) STEP_SERVER_PXYREQ :: int where "STEP_SERVER_PXYREQ \<equiv> 2002"
abbreviation (input) STEP_CLIENT_CERTREQ :: int where "STEP_CLIENT_CERTREQ \<equiv> 1000"
abbreviation (input) STEP_CLIENT_CERT :: int where "STEP_CLIENT_CERT \<equiv> 1001"
abbreviation (input) BUCKET_CRYPTOMOD :: int where "BUCKET_CRYPTOMOD \<equiv> 3000"
abbreviation (input) BUCKET_MAIN :: int where "BUCKET_MAIN \<equiv> 3001"
abbreviation (input) BUCKET_PUK :: int where "BUCKET_PUK \<equiv> 3004"
abbreviation (input) BUCKET_CIPHER :: int where "BUCKET_CIPHER \<equiv> 3005"
abbreviation (input) BUCKET_RTAG :: int where "BUCKET_RTAG \<equiv> 3006"
abbreviation (input) BUCKET_SIGNED_RTAG :: int where "BUCKET_SIGNED_RTAG \<equiv> 3007"
abbreviation (input) BUCKET_VERSION :: int where "BUCKET_VERSION \<equiv> 3014"
abbreviation (input) BUCKET_CLNT_OPTS :: int where "BUCKET_CLNT_OPTS \<equiv> 3019"
abbreviation (input) BUCKET_X509 :: int where "BUCKET_X509 \<equiv> 3022"
abbreviation (input) BUCKET_ISSUER_HASH :: int where "BUCKET_ISSUER_HASH \<equiv> 3023"
abbreviation (input) BUCKET_CIPHER_ALG :: int where "BUCKET_CIPHER_ALG \<equiv> 3025"
abbreviation (input) BUCKET_MD_ALG :: int where "BUCKET_MD_ALG \<equiv> 3026"

record bucket =
  bk_type :: int
  bk_data :: bytes

definition Bucket :: "int \<Rightarrow> bytes \<Rightarrow> bucket" where
  "Bucket kind data = \<lparr>bk_type = kind, bk_data = data\<rparr>"

text \<open>\<^verbatim>\<open>struct.pack(">I", \<dots>)\<close>.\<close>

definition pack_I :: "int \<Rightarrow> key_exn + bytes" where
  "pack_I v = (if 0 \<le> v \<and> v < 2 ^ 32 then Inr (be_bytes 4 v) else Inl KeyStructError)"

fun encode_buckets :: "bucket list \<Rightarrow> key_exn + bytes" where
  "encode_buckets [] = pack_I 0"
| "encode_buckets (b # bs) =
     bindE (pack_I (bk_type b)) (\<lambda>kind. bindE (pack_I (int (length (bk_data b)))) (\<lambda>len.
     bindE (encode_buckets bs) (\<lambda>rest. Inr (kind @ len @ bk_data b @ rest))))"

definition ascii_bytes :: "string \<Rightarrow> bytes" where
  "ascii_bytes s = map (\<lambda>c. of_nat (of_char c)) s"

definition encode_message :: "int \<Rightarrow> bucket list \<Rightarrow> key_exn + bytes" where
  "encode_message step buckets =
     bindE (pack_I step) (\<lambda>s. bindE (encode_buckets buckets) (\<lambda>r. Inr (ascii_bytes ''gsi'' @ 0 # s @ r)))"

function decode_buckets :: "bytes \<Rightarrow> key_exn + bucket list" where
  "decode_buckets data =
     (if length data < 4 then Inr []
      else (let kind = be_int (take 4 data); rest = drop 4 data in
        if kind = 0 then Inr []
        else if length rest < 4 then Inl (CredentialError ''GSI bucket has a truncated length'')
        else (let len = be_int (take 4 rest); body = drop 4 rest in
          if len > int (length body) then Inl (CredentialError ''GSI bucket claims more bytes'')
          else bindE (decode_buckets (drop (nat len) body)) (\<lambda>bs. Inr (Bucket kind (take (nat len) body) # bs)))))"
  by pat_completeness auto
termination
  by (relation "measure length") auto

declare decode_buckets.simps [simp del]

definition decode_message :: "bytes \<Rightarrow> key_exn + int \<times> bucket list" where
  "decode_message data =
     (if 0 \<notin> set data then Inl (CredentialError ''GSI message has no protocol name'')
      else (let rest = tl (dropWhile (\<lambda>b. b \<noteq> 0) data) in
        if length rest < 4 then Inl (CredentialError ''GSI message is too short for a step code'')
        else bindE (decode_buckets (drop 4 rest)) (\<lambda>bs. Inr (be_int (take 4 rest), bs))))"

text \<open>Only a \<open>CredentialError\<close> can come out of \<open>decode_message\<close>.\<close>

definition find_bucket :: "bytes \<Rightarrow> int \<Rightarrow> bytes option" where
  "find_bucket data kind =
     (case decode_message data of
        Inl _ \<Rightarrow> None
      | Inr (_, bs) \<Rightarrow> map_option bk_data (List.find (\<lambda>b. bk_type b = kind) bs))"

section \<open>Diffie-Hellman over the server's group\<close>

record peer_public =
  pp_params_pem :: bytes
  pp_p :: int
  pp_g :: int
  pp_public :: int

definition dh_from_der :: "bytes \<Rightarrow> key_exn + int \<times> int" where
  "dh_from_der der =
     bindE (der_parse der 0) (\<lambda>(e, _). bindE (children e) (\<lambda>fields.
       if length fields < 2 then Inl (DERError ''DHParameter needs a prime and a base'')
       else bindE (read_integer (fields ! 0)) (\<lambda>p. bindE (read_integer (fields ! 1)) (\<lambda>g. Inr (p, g)))))"

definition parse_dh_parameters :: "bytes \<Rightarrow> key_exn + int \<times> int" where
  "parse_dh_parameters pem =
     (case filter (\<lambda>(label, der). stops (lit ''PARAMETERS'') label) (pem_blocks (ascii_text pem)) of
        [] \<Rightarrow> Inl (CredentialError ''no PEM block in the server's DH parameters'')
      | (_, der) # _ \<Rightarrow>
          (case dh_from_der der of
             Inr r \<Rightarrow> Inr r
           | Inl x \<Rightarrow> Inl (if is_der_error x then CredentialError ''unreadable DH parameters'' else x)))"

text \<open>\<^verbatim>\<open>bytes.find\<close>.\<close>

fun find_sub :: "'a list \<Rightarrow> 'a list \<Rightarrow> nat option" where
  "find_sub sub [] = (if sub = [] then Some 0 else None)"
| "find_sub sub (c # cs) = (if take (length sub) (c # cs) = sub then Some 0 else map_option Suc (find_sub sub cs))"

text \<open>
  \<^verbatim>\<open>int(\<dots>.strip(), 16)\<close> on bytes: an optional sign and \<^verbatim>\<open>0x\<close>, digits with single underscores between them; one underscore may
  follow the prefix.
\<close>

definition hex_digit_value :: "nat \<Rightarrow> int option" where
  "hex_digit_value c =
     (if 48 \<le> c \<and> c \<le> 57 then Some (int c - 48) else if 97 \<le> c \<and> c \<le> 102 then Some (int c - 87)
      else if 65 \<le> c \<and> c \<le> 70 then Some (int c - 55) else None)"

fun hex_digits :: "bool \<Rightarrow> int \<Rightarrow> nat list \<Rightarrow> int option" where
  "hex_digits prev acc [] = (if prev then Some acc else None)"
| "hex_digits prev acc (c # cs) =
     (if c = 95 then (if prev then hex_digits False acc cs else None)
      else (case hex_digit_value c of None \<Rightarrow> None | Some v \<Rightarrow> hex_digits True (acc * 16 + v) cs))"

definition blank :: "nat \<Rightarrow> bool" where
  "blank c \<longleftrightarrow> c = 32 \<or> 9 \<le> c \<and> c \<le> 13"

definition int_16 :: "bytes \<Rightarrow> int option" where
  "int_16 bs =
     (let s = rstrip_by blank (dropWhile blank (map unat bs));
          neg = (take 1 s = [45]);
          t = (if take 1 s = [45] \<or> take 1 s = [43] then tl s else s);
          u = (if take 2 t = [48, 120] \<or> take 2 t = [48, 88] then (if take 1 (drop 2 t) = [95] then drop 3 t else drop 2 t) else t)
      in map_option (\<lambda>v. if neg then - v else v) (hex_digits False 0 u))"

definition parse_peer_blob :: "bytes \<Rightarrow> key_exn + peer_public" where
  "parse_peer_blob blob =
     (case find_sub (ascii_bytes ''---BPUB---'') blob of
        None \<Rightarrow> Inl (CredentialError ''malformed GSI DH public blob'')
      | Some start' \<Rightarrow>
          (case find_sub (ascii_bytes ''---EPUB--'') (drop (start' + 10) blob) of
             None \<Rightarrow> Inl (CredentialError ''malformed GSI DH public blob'')
           | Some len \<Rightarrow>
               if len = 0 then Inl (CredentialError ''malformed GSI DH public blob'')
               else (case int_16 (take len (drop (start' + 10) blob)) of
                       None \<Rightarrow> Inl (CredentialError ''the DH public value is not hexadecimal'')
                     | Some v \<Rightarrow> bindE (parse_dh_parameters (take start' blob)) (\<lambda>(p, g).
                         Inr \<lparr>pp_params_pem = take start' blob, pp_p = p, pp_g = g, pp_public = v\<rparr>))))"

definition hexlify_upper :: "byte \<Rightarrow> bytes" where
  "hexlify_upper b = map (\<lambda>i. of_nat (if i < 10 then 48 + i else 55 + i)) [unat b div 16, unat b mod 16]"

definition encode_public_blob :: "bytes \<Rightarrow> int \<Rightarrow> key_exn + bytes" where
  "encode_public_blob params_pem v =
     bindE (to_bytes v (key_size v)) (\<lambda>raw.
       Inr (params_pem @ ascii_bytes ''---BPUB---'' @ concat (map hexlify_upper raw) @ ascii_bytes ''---EPUB---''))"

definition session_key :: "peer_public \<Rightarrow> int \<Rightarrow> nat \<Rightarrow> key_exn + bytes" where
  "session_key peer private len =
     bindE (py_pow (pp_public peer) private (pp_p peer)) (\<lambda>secret. bindE (to_bytes secret (key_size secret)) (\<lambda>raw.
       if length raw < len then Inl (CredentialError ''DH shared secret is too short'') else Inr (take len raw)))"

section \<open>The two client rounds\<close>

definition ascii_encode :: "str \<Rightarrow> key_exn + bytes" where
  "ascii_encode s = (if list_all (\<lambda>c. c < 128) s then Inr (map of_nat s) else Inl (KeyValueError ''ascii''))"

definition build_certreq :: "str \<Rightarrow> int \<Rightarrow> str \<Rightarrow> int \<Rightarrow> bytes \<Rightarrow> key_exn + bytes" where
  "build_certreq cryptomod version issuer_hash options rtag =
     bindE (encode_message STEP_CLIENT_CERTREQ [Bucket BUCKET_RTAG rtag]) (\<lambda>inner.
     bindE (ascii_encode (if cryptomod = [] then lit ''ssl'' else cryptomod)) (\<lambda>mod'.
     bindE (pack_I version) (\<lambda>ver. bindE (ascii_encode issuer_hash) (\<lambda>issuer. bindE (pack_I options) (\<lambda>opts.
       encode_message STEP_CLIENT_CERTREQ
         [Bucket BUCKET_CRYPTOMOD mod', Bucket BUCKET_VERSION ver, Bucket BUCKET_ISSUER_HASH issuer,
          Bucket BUCKET_CLNT_OPTS opts, Bucket BUCKET_MAIN inner])))))"

text \<open>The errors of the cipher are \<^verbatim>\<open>ValueError\<close>s.\<close>

definition from_cipher :: "exn + 'a \<Rightarrow> key_exn + 'a" where
  "from_cipher r = (case r of Inr x \<Rightarrow> Inr x | Inl _ \<Rightarrow> Inl (KeyValueError ''AES''))"

text \<open>
  \<open>rnd\<close> is what \<^verbatim>\<open>os.urandom\<close> returns for the private exponent, as many bytes as the prime has, and \<open>rnd_tag\<close> the eight
  bytes of a new tag.
\<close>

definition build_cert_response :: "bytes \<Rightarrow> bytes \<Rightarrow> hash \<Rightarrow> bytes \<Rightarrow> bytes \<Rightarrow> private_key \<Rightarrow> int option \<Rightarrow> bytes option \<Rightarrow> key_exn + bytes" where
  "build_cert_response rnd rnd_tag hash challenge chain_pem key private rtag =
     (case find_bucket challenge BUCKET_PUK of
        None \<Rightarrow>
          if find_bucket challenge BUCKET_CIPHER \<noteq> None then Inl (CredentialError ''the server chose GSI signed-DH'')
          else Inl (CredentialError ''the server's GSI challenge carries no DH public key'')
      | Some blob \<Rightarrow>
          bindE (parse_peer_blob blob) (\<lambda>peer.
          bindE (case private of Some x \<Rightarrow> Inr x | None \<Rightarrow> bindE (py_mod (be_int rnd) (pp_p peer - 3)) (\<lambda>v. Inr (2 + v))) (\<lambda>x.
          bindE (session_key peer x 16) (\<lambda>secret.
          let main = find_bucket challenge BUCKET_MAIN;
              server_tag = (case main of None \<Rightarrow> None | Some mn \<Rightarrow> find_bucket mn BUCKET_RTAG)
          in bindE (case server_tag of
                      None \<Rightarrow> Inr []
                    | Some tag \<Rightarrow> if tag = [] then Inr [] else bindE (rsa_sign hash key tag None) (\<lambda>sig. Inr [Bucket BUCKET_SIGNED_RTAG sig])) (\<lambda>signed.
             let inner = [Bucket BUCKET_X509 chain_pem] @ signed @ [Bucket BUCKET_RTAG (case rtag of Some r \<Rightarrow> r | None \<Rightarrow> rnd_tag)]
             in bindE (encode_message STEP_CLIENT_CERT inner) (\<lambda>plain.
                bindE (from_cipher (cbc_encrypt secret plain (replicate 16 0) True)) (\<lambda>encrypted.
                bindE (py_pow (pp_g peer) x (pp_p peer)) (\<lambda>ours.
                bindE (encode_public_blob (pp_params_pem peer) ours) (\<lambda>puk.
                  encode_message STEP_CLIENT_CERT
                    [Bucket BUCKET_CRYPTOMOD (ascii_bytes ''ssl''), Bucket BUCKET_PUK puk,
                     Bucket BUCKET_CIPHER_ALG (ascii_bytes ''aes-128-cbc''), Bucket BUCKET_MD_ALG (ascii_bytes ''sha256''),
                     Bucket BUCKET_MAIN encrypted])))))))))"

section \<open>The mechanism\<close>

record gsi_credential =
  gc_proxy :: proxy_credential
  gc_cryptomod :: str
  gc_issuer_hash :: str
  gc_rtag :: bytes

definition GSICredential :: "proxy_credential \<Rightarrow> str \<Rightarrow> str \<Rightarrow> gsi_credential" where
  "GSICredential proxy cryptomod issuer_hash =
     \<lparr>gc_proxy = proxy, gc_cryptomod = (if cryptomod = [] then lit ''ssl'' else cryptomod), gc_issuer_hash = issuer_hash, gc_rtag = []\<rparr>"

definition gsi_initial :: "bytes \<Rightarrow> int \<Rightarrow> gsi_credential \<Rightarrow> (key_exn + bytes) \<times> gsi_credential" where
  "gsi_initial rnd_tag now c =
     (if px_expired now (gc_proxy c) then (Inl (CredentialError ''the X.509 proxy expired; renew it''), c)
      else (build_certreq (gc_cryptomod c) 10300 (gc_issuer_hash c) 0x80 rnd_tag, c\<lparr>gc_rtag := rnd_tag\<rparr>))"

definition gsi_step :: "bytes \<Rightarrow> bytes \<Rightarrow> hash \<Rightarrow> gsi_credential \<Rightarrow> bytes \<Rightarrow> key_exn + bytes" where
  "gsi_step rnd rnd_tag hash c challenge =
     bindE (decode_message challenge) (\<lambda>(step, _).
       if step = STEP_SERVER_CERT then
         bindE (ascii_encode (px_pem (gc_proxy c))) (\<lambda>pem.
           build_cert_response rnd rnd_tag hash challenge pem (px_key (gc_proxy c)) None None)
       else if step = STEP_SERVER_PXYREQ then Inl (CredentialError ''the server asked for X.509 delegation, which this client does not do'')
       else Inl (CredentialError ''unexpected GSI step from the server''))"

definition gsi_available :: "int \<Rightarrow> (str \<times> bytes) option \<Rightarrow> offer \<Rightarrow> key_exn + gsi_credential option" where
  "gsi_available now proxy_file o' =
     (case proxy_file of
        None \<Rightarrow> Inr None
      | Some (path, data) \<Rightarrow>
          (case load_proxy path data of
             Inl x \<Rightarrow> if is_key_value_error x then Inr None else Inl x
           | Inr proxy \<Rightarrow>
               if px_expired now proxy then Inr None
               else (let opts = offer_options o';
                         get = (\<lambda>k d. case map_of opts k of Some v \<Rightarrow> v | None \<Rightarrow> d)
                     in Inr (Some (GSICredential proxy (get (lit ''c'') (lit ''ssl'')) (get (lit ''ca'') []))))))"

end
