(* ===== verification/Gsi_Properties.thy ===== *)
theory Gsi_Properties
  imports Auth_Gsi
begin

text \<open>
  What the server makes of the client's answer in a \<^verbatim>\<open>gsi\<close> handshake (C37): buckets, public values and
  the Diffie-Hellman agreement are read back, and with the cipher, the signature and the chain of certificates
  they compose to a proof of possession.
\<close>

section \<open>Buckets\<close>

lemma pack_I_Inr: "pack_I v = Inr bs \<longleftrightarrow> 0 \<le> v \<and> v < 2 ^ 32 \<and> bs = be_bytes 4 v"
  by (auto simp: pack_I_def)

lemma be_int_4: "0 \<le> v \<Longrightarrow> v < 2 ^ 32 \<Longrightarrow> be_int (be_bytes 4 v) = v"
  by (simp add: be_int_be_bytes)

lemma decode_encode_buckets:
  "encode_buckets bs = Inr r \<Longrightarrow> list_all (\<lambda>b. bk_type b \<noteq> 0) bs \<Longrightarrow> decode_buckets r = Inr bs"
proof (induction bs arbitrary: r)
  case Nil
  then show ?case by (simp add: pack_I_Inr decode_buckets.simps be_int_4)
next
  case (Cons b bs)
  obtain rest where rest: "encode_buckets bs = Inr rest"
    and r: "r = be_bytes 4 (bk_type b) @ be_bytes 4 (int (length (bk_data b))) @ bk_data b @ rest"
    and range: "0 \<le> bk_type b" "bk_type b < 2 ^ 32" "int (length (bk_data b)) < 2 ^ 32"
    using Cons.prems(1) by (auto simp: bindE_eq_Inr pack_I_Inr)
  have "take 4 r = be_bytes 4 (bk_type b)" "drop 4 r = be_bytes 4 (int (length (bk_data b))) @ bk_data b @ rest"
    using r by simp_all
  then show ?case using Cons.IH [OF rest] Cons.prems(2) range r
    by (subst decode_buckets.simps) (simp add: be_int_4 Let_def Bucket_def)
qed

lemma decode_encode_message:
  assumes "encode_message step bs = Inr m" "list_all (\<lambda>b. bk_type b \<noteq> 0) bs"
  shows "decode_message m = Inr (step, bs)"
proof -
  obtain r where r: "encode_buckets bs = Inr r" "m = ascii_bytes ''gsi'' @ 0 # be_bytes 4 step @ r" "0 \<le> step" "step < 2 ^ 32"
    using assms(1) by (auto simp: encode_message_def bindE_eq_Inr pack_I_Inr)
  have "tl (dropWhile (\<lambda>b. b \<noteq> 0) m) = be_bytes 4 step @ r" by (simp add: r ascii_bytes_def)
  moreover have "0 \<in> set m" by (simp add: r)
  ultimately show ?thesis using decode_encode_buckets [OF r(1) assms(2)] r(3,4) by (simp add: decode_message_def Let_def be_int_4)
qed

lemma encode_buckets_ok:
  "list_all (\<lambda>b. 0 < bk_type b \<and> bk_type b < 2 ^ 32 \<and> int (length (bk_data b)) < 2 ^ 32) bs \<Longrightarrow>
     \<exists>r. encode_buckets bs = Inr r \<and> length r = 4 + sum_list (map (\<lambda>b. 8 + length (bk_data b)) bs)"
  by (induction bs) (auto simp: pack_I_def)

lemma encode_message_ok:
  assumes "0 \<le> step" "step < 2 ^ 32" "list_all (\<lambda>b. 0 < bk_type b \<and> bk_type b < 2 ^ 32 \<and> int (length (bk_data b)) < 2 ^ 32) bs"
  shows "\<exists>m. encode_message step bs = Inr m \<and> length m = 12 + sum_list (map (\<lambda>b. 8 + length (bk_data b)) bs)
    \<and> decode_message m = Inr (step, bs)"
proof -
  obtain r where r: "encode_buckets bs = Inr r" "length r = 4 + sum_list (map (\<lambda>b. 8 + length (bk_data b)) bs)"
    using encode_buckets_ok [of bs] assms(3) by auto
  have m: "encode_message step bs = Inr (ascii_bytes ''gsi'' @ 0 # be_bytes 4 step @ r)"
    using r(1) assms(1,2) by (simp add: encode_message_def pack_I_def)
  have "list_all (\<lambda>b. bk_type b \<noteq> 0) bs" using assms(3) by (fastforce simp: list_all_iff)
  then show ?thesis using decode_encode_message [OF m] m r(2) by (simp add: ascii_bytes_def)
qed

section \<open>Public values\<close>

lemma find_sub_Some:
  "find_sub sub s = Some n \<Longrightarrow> take (length sub) (drop n s) = sub \<and> n \<le> length s \<and> (\<forall>k<n. take (length sub) (drop k s) \<noteq> sub)"
proof (induction s arbitrary: n)
  case (Cons c cs)
  then show ?case
  proof (cases "take (length sub) (c # cs) = sub")
    case False
    then obtain m where m: "find_sub sub cs = Some m" "n = Suc m" using Cons.prems by auto
    have "take (length sub) (drop k (c # cs)) \<noteq> sub" if "k < n" for k
      using that Cons.IH [OF m(1)] False m(2) by (cases k) auto
    then show ?thesis using Cons.IH [OF m(1)] m(2) by simp
  qed auto
qed (auto split: if_splits)

lemma find_sub_Suc:
  "take (length sub) (drop n s) = sub \<Longrightarrow> n \<le> length s \<Longrightarrow> \<forall>k<n. take (length sub) (drop k s) \<noteq> sub \<Longrightarrow> find_sub sub s = Some n"
proof (induction n arbitrary: s)
  case 0
  then show ?case by (cases s) auto
next
  case (Suc n)
  then obtain c cs where s: "s = c # cs" by (cases s) auto
  have "\<forall>k<n. take (length sub) (drop k cs) \<noteq> sub" using Suc.prems(3) s by (metis Suc_mono drop_Suc_Cons)
  moreover have "take (length sub) (c # cs) \<noteq> sub" using Suc.prems(3) s by (metis drop0 zero_less_Suc)
  ultimately show ?case using Suc s by simp
qed

lemma find_sub_again:
  assumes "find_sub sub s = Some n"
  shows "find_sub sub (take n s @ sub @ r) = Some n"
proof -
  note f = find_sub_Some [OF assms]
  have len: "length (take n s) = n" using f by simp
  have common: "take n s @ sub = take (n + length sub) s" using f by (metis take_add)
  have "take (length sub) (drop k (take n s @ sub @ r)) \<noteq> sub" if k: "k < n" for k
  proof -
    have "take (length sub) (drop k (take n s @ sub @ r)) = take (length sub) (drop k (take n s @ sub))" using k len by simp
    also have "\<dots> = take (length sub) (drop k s)" using k unfolding common by (simp add: drop_take min_def)
    finally show ?thesis using f k by simp
  qed
  then show ?thesis using len by (intro find_sub_Suc) simp_all
qed

lemma find_sub_skips: "c \<notin> set pre \<Longrightarrow> find_sub (c # sub) (pre @ (c # sub) @ r) = Some (length pre)"
  by (induction pre) auto

definition hex_char :: "nat \<Rightarrow> nat" where
  "hex_char i = (if i < 10 then 48 + i else 55 + i)"

lemma hexlify_chars: "map unat (hexlify_upper b) = [hex_char (unat b div 16), hex_char (unat b mod 16)]"
proof -
  have "unat b < 256" using unsigned_less [of b, where ?'a = nat] by simp
  then have "unat b div 16 < 16" "unat b mod 16 < 16" by auto
  then have "hex_char (unat b div 16) < 256" "hex_char (unat b mod 16) < 256" by (auto simp: hex_char_def)
  then show ?thesis by (simp add: hexlify_upper_def hex_char_def unat_of_nat take_bit_eq_mod)
qed

definition hex_letter :: "nat \<Rightarrow> bool" where
  "hex_letter c \<longleftrightarrow> 48 \<le> c \<and> c \<le> 57 \<or> 65 \<le> c \<and> c \<le> 70"

lemma hex_chars: "i < 16 \<Longrightarrow> hex_letter (hex_char i)" "i < 16 \<Longrightarrow> hex_digit_value (hex_char i) = Some (int i)"
  by (auto simp: hex_char_def hex_digit_value_def hex_letter_def)

lemma hex_text_chars: "c \<in> set (map unat (concat (map hexlify_upper raw))) \<Longrightarrow> hex_letter c"
proof (induction raw)
  case (Cons b raw)
  have "unat b < 256" using unsigned_less [of b, where ?'a = nat] by simp
  then have "unat b div 16 < 16" "unat b mod 16 < 16" by auto
  then have "hex_letter (hex_char (unat b div 16))" "hex_letter (hex_char (unat b mod 16))" by (simp_all only: hex_chars)
  moreover have "map unat (concat (map hexlify_upper (b # raw)))
      = [hex_char (unat b div 16), hex_char (unat b mod 16)] @ map unat (concat (map hexlify_upper raw))"
    using hexlify_chars [of b] by simp
  ultimately show ?case using Cons by (auto simp only: set_append set_simps)
qed simp

lemma two_digits: "x * 16 + y = u \<Longrightarrow> (acc * 16 + x) * 16 + y = acc * 256 + u" for acc x y u :: int
  by simp

lemma hex_digits_text:
  "raw \<noteq> [] \<or> prev \<Longrightarrow> hex_digits prev acc (map unat (concat (map hexlify_upper raw))) = Some (acc * 256 ^ length raw + be_int raw)"
proof (induction raw arbitrary: prev acc)
  case (Cons b raw)
  have "unat b < 256" using unsigned_less [of b, where ?'a = nat] by simp
  then have i: "unat b div 16 < 16" "unat b mod 16 < 16" by auto
  have "hex_letter c \<Longrightarrow> c \<noteq> 95" for c by (auto simp: hex_letter_def)
  then have n: "hex_char (unat b div 16) \<noteq> 95" "hex_char (unat b mod 16) \<noteq> 95" using i hex_chars(1) by blast+
  have "int (unat b div 16) * 16 + int (unat b mod 16) = uint b" by (simp add: zdiv_int zmod_int)
  then have "(acc * 16 + int (unat b div 16)) * 16 + int (unat b mod 16) = acc * 256 + uint b" by (rule two_digits)
  moreover have "hex_digits prev acc (map unat (concat (map hexlify_upper (b # raw))))
      = hex_digits True ((acc * 16 + int (unat b div 16)) * 16 + int (unat b mod 16)) (map unat (concat (map hexlify_upper raw)))"
    using i n hex_chars(2) by (simp add: hexlify_chars)
  ultimately have "hex_digits prev acc (map unat (concat (map hexlify_upper (b # raw)))) = Some ((acc * 256 + uint b) * 256 ^ length raw + be_int raw)"
    using Cons.IH [of True] by (simp only: simp_thms)
  then show ?case by (simp only: be_int_Cons) (simp add: algebra_simps)
qed simp

lemma int_16_hex:
  assumes "raw \<noteq> []"
  shows "int_16 (concat (map hexlify_upper raw)) = Some (be_int raw)"
proof -
  let ?t = "map unat (concat (map hexlify_upper raw))"
  have c: "hex_letter x" if "x \<in> set ?t" for x using hex_text_chars that by blast
  have no: "\<not> hex_letter 45" "\<not> hex_letter 43" "\<not> hex_letter 120" "\<not> hex_letter 88" "hex_letter x \<Longrightarrow> \<not> blank x" for x
    by (auto simp: hex_letter_def blank_def)
  have plain: "dropWhile blank u = u" if "set u \<subseteq> set ?t" for u
  proof (cases u)
    case (Cons x xs)
    then have "x \<in> set ?t" using that by (auto simp only: list.set)
    then have "\<not> blank x" using c no(5) by blast
    then show ?thesis by (simp only: Cons dropWhile.simps if_False)
  qed simp
  have "rstrip_by blank (dropWhile blank ?t) = ?t" using plain [of ?t] plain [of "rev ?t"] by (simp only: rstrip_by_def set_rev rev_rev_ident subset_refl)
  moreover have out: "take n ?t \<noteq> xs @ [x]" if "\<not> hex_letter x" for n xs x
    using that c [of x] in_set_takeD [of x n ?t] by (metis in_set_conv_decomp)
  have "take 1 ?t \<noteq> [45]" "take 1 ?t \<noteq> [43]" "take 2 ?t \<noteq> [48, 120]" "take 2 ?t \<noteq> [48, 88]"
    using out [OF no(1), of 1 "[]"] out [OF no(2), of 1 "[]"] out [OF no(3), of 2 "[48]"] out [OF no(4), of 2 "[48]"] by (simp_all only: append.simps not_False_eq_True)
  ultimately show ?thesis using hex_digits_text [of raw False 0] assms by (simp add: int_16_def Let_def)
qed

lemma key_size_mono: "0 < a \<Longrightarrow> a < b \<Longrightarrow> key_size a \<le> key_size b"
proof (rule ccontr)
  assume a: "0 < a" "a < b" "\<not> key_size a \<le> key_size b"
  then have "(256 :: int) ^ key_size b \<le> 256 ^ (key_size a - 1)" by (intro power_increasing) simp_all
  moreover have "256 ^ (key_size a - 1) \<le> a" "b < 256 ^ key_size b" using key_size_bounds a by simp_all
  ultimately show False using a(2) by linarith
qed

lemma to_bytes_ok:
  assumes "0 < v"
  shows "to_bytes v (key_size v) = Inr (be_bytes (key_size v) v) \<and> be_int (be_bytes (key_size v) v) = v \<and> be_bytes (key_size v) v \<noteq> []"
proof -
  have "be_int (be_bytes (key_size v) v) = v" using key_size_bounds(2) [OF assms] assms by (simp add: be_int_be_bytes)
  moreover have "be_bytes (key_size v) v \<noteq> []" using key_size_bounds(3) [OF assms] length_be_bytes [of "key_size v" v] by force
  ultimately show ?thesis using key_size_bounds(2) [OF assms] assms by (simp add: to_bytes_def)
qed

lemma parse_peer_blob_parts:
  assumes "find_sub (ascii_bytes ''---BPUB---'') b = Some n" "find_sub (ascii_bytes ''---EPUB--'') (drop (n + 10) b) = Some len" "len \<noteq> 0"
    and "int_16 (take len (drop (n + 10) b)) = Some v" "parse_dh_parameters (take n b) = Inr (p, g)"
  shows "parse_peer_blob b = Inr \<lparr>pp_params_pem = take n b, pp_p = p, pp_g = g, pp_public = v\<rparr>"
  using assms by (simp add: parse_peer_blob_def)

lemma public_blob_read_back:
  assumes "parse_peer_blob blob = Inr peer" "0 < v"
  shows "\<exists>puk. encode_public_blob (pp_params_pem peer) v = Inr puk \<and> parse_peer_blob puk = Inr (peer\<lparr>pp_public := v\<rparr>)
    \<and> length puk \<le> length blob + 2 * key_size v + 20"
proof -
  let ?B = "ascii_bytes ''---BPUB---''" and ?E = "ascii_bytes ''---EPUB--''"
  obtain n len p g where n: "find_sub ?B blob = Some n"
    and g: "parse_dh_parameters (take n blob) = Inr (p, g)"
    and peer: "pp_params_pem peer = take n blob" "pp_p peer = p" "pp_g peer = g"
    using assms(1) by (auto simp: parse_peer_blob_def bindE_eq_Inr split: option.splits if_splits)
  define raw where "raw = be_bytes (key_size v) v"
  have raw: "to_bytes v (key_size v) = Inr raw" "be_int raw = v" "raw \<noteq> []" using to_bytes_ok [OF assms(2)] by (simp_all add: raw_def)
  let ?hex = "concat (map hexlify_upper raw)"
  let ?puk = "take n blob @ ?B @ ?hex @ ascii_bytes ''---EPUB---''"
  have len: "length (take n blob) = n" using find_sub_Some [OF n] by simp
  have start': "find_sub ?B ?puk = Some n" using find_sub_again [OF n] by simp
  have rest: "drop (n + 10) ?puk = ?hex @ ?E @ [45]" using len by (simp add: ascii_bytes_def)
  have "45 \<notin> set (map unat ?hex)" using hex_text_chars [of 45 raw] by (auto simp: hex_letter_def)
  then have "45 \<notin> set ?hex" by (auto simp: image_iff simp del: set_concat)
  then have stop: "find_sub ?E (drop (n + 10) ?puk) = Some (length ?hex)"
    unfolding rest using find_sub_skips [of 45 ?hex "ascii_bytes ''--EPUB--''" "[45]"] by (simp add: ascii_bytes_def)
  have two: "length (concat (map hexlify_upper ws)) = 2 * length ws" for ws by (induction ws) (simp_all add: hexlify_upper_def)
  have full: "length ?hex = 2 * key_size v" "length ?hex \<noteq> 0" using key_size_bounds(3) [OF assms(2)] two [of raw] by (simp_all add: raw_def)
  have "int_16 (take (length ?hex) (drop (n + 10) ?puk)) = Some v" unfolding rest using int_16_hex [OF raw(3)] raw(2) by simp
  moreover have params: "take n ?puk = take n blob" using len by simp
  moreover have "parse_dh_parameters (take n ?puk) = Inr (p, g)" unfolding params by (rule g)
  ultimately have "parse_peer_blob ?puk = Inr \<lparr>pp_params_pem = take n blob, pp_p = p, pp_g = g, pp_public = v\<rparr>"
    using parse_peer_blob_parts [OF start' stop full(2)] by (simp only: params)
  moreover have "\<lparr>pp_params_pem = take n blob, pp_p = p, pp_g = g, pp_public = v\<rparr> = peer\<lparr>pp_public := v\<rparr>" using peer by simp
  ultimately show ?thesis using raw(1) full(1) len find_sub_Some [OF n] peer(1)
    by (intro exI [of _ ?puk]) (simp add: encode_public_blob_def ascii_bytes_def)
qed

text \<open>Both sides compute the same secret.\<close>

lemma secret_agreed:
  assumes "pp_public peer = pp_g peer ^ y mod pp_p peer"
  shows "session_key (peer\<lparr>pp_public := pp_g peer ^ x mod pp_p peer\<rparr>) (int y) n = session_key peer (int x) n"
proof -
  have "(pp_g peer ^ x mod m) ^ y mod m = (pp_g peer ^ y mod m) ^ x mod m" for m
    by (simp add: power_mod mult.commute flip: power_mult)
  then show ?thesis using assms by (simp add: session_key_def py_pow_def)
qed

section \<open>The chain on the wire\<close>

lemma pem_is_ascii: "list_all (\<lambda>c. c < 128) (px_pem p)"
proof -
  have mark: "list_all (\<lambda>c. c < 128) (lit ''-----BEGIN CERTIFICATE-----'')" "list_all (\<lambda>c. c < 128) (lit ''-----END CERTIFICATE-----'')"
    by code_simp+
  have "b64_letter c \<Longrightarrow> c < 128" for c by (auto simp: b64_letter_def)
  then have "list_all (\<lambda>c. c < 128) l" if "l \<in> set (pem_lines ce)" for l ce
    using that mark body_line [of l "ce_der ce"] by (auto simp: pem_lines_def Let_def list_all_iff split: if_splits)
  then have "list_all (\<lambda>c. c < 128) (ce_pem ce)" for ce by (auto simp: ce_pem_lines text_lines_def list_all_iff)
  then show ?thesis by (auto simp: px_pem_def list_all_iff)
qed

lemma ascii_text_encoded: "list_all (\<lambda>c. c < 128) s \<Longrightarrow> ascii_text (map of_nat s) = s"
proof (induction s)
  case (Cons c s)
  then have "unat (of_nat c :: byte) = c" by (simp add: unat_of_nat take_bit_eq_mod)
  moreover have "(of_nat c :: byte) < 128" using Cons.prems \<open>unat (of_nat c :: byte) = c\<close> by (simp add: word_less_nat_alt)
  ultimately show ?case using Cons by (simp add: ascii_text_def)
qed (simp add: ascii_text_def)

section \<open>Property\<close>

text \<open>
  C37. The server can open what the client answers, and it is a proof of possession. Let a server's challenge carry a public
  value of its group, made with its secret exponent \<open>y\<close>, and a tag. Then the client's answer carries the client's
  public value in the server's own parameters; from it and \<open>y\<close> the server computes the client's session key, with
  which the main bucket decrypts to exactly the chain of the proxy, whose certificates are read
  back block by block, the server's tag signed by the proxy's key, which the public key verifies, and the client's new tag.
\<close>

theorem gsi_answer_opens:
  fixes rnd :: bytes and peer :: peer_public and c :: gsi_credential
  defines "x \<equiv> nat (2 + be_int rnd mod (pp_p peer - 3))" and "key \<equiv> px_key (gc_proxy c)"
  assumes challenge: "decode_message challenge = Inr (2001, buckets)" "find_bucket challenge BUCKET_PUK = Some blob"
      "parse_peer_blob blob = Inr peer" "find_bucket challenge BUCKET_MAIN = Some main"
      "find_bucket main BUCKET_RTAG = Some tag" "tag \<noteq> []"
    and group: "3 < pp_p peer" "pp_public peer = pp_g peer ^ y mod pp_p peer" "0 < pp_g peer ^ x mod pp_p peer"
    and secret: "session_key peer (int x) 16 = Inr k"
    and signer: "well_formed_key rs key" "length tag + 11 \<le> key_size (prv_n key)"
    and small: "length (px_pem (gc_proxy c)) + key_size (prv_n key) + length rnd_tag + length blob + 2 * key_size (pp_p peer) < 2 ^ 31"
  shows "\<exists>answer puk enc plain signature pem.
      gsi_step rnd rnd_tag hash c challenge = Inr answer
    \<and> find_bucket answer BUCKET_PUK = Some puk \<and> parse_peer_blob puk = Inr (peer\<lparr>pp_public := pp_g peer ^ x mod pp_p peer\<rparr>)
    \<and> session_key (peer\<lparr>pp_public := pp_g peer ^ x mod pp_p peer\<rparr>) (int y) 16 = Inr k
    \<and> find_bucket answer BUCKET_MAIN = Some enc \<and> cbc_decrypt k enc (replicate 16 0) True = Inr plain
    \<and> decode_message plain = Inr (1001, [Bucket BUCKET_X509 pem, Bucket BUCKET_SIGNED_RTAG signature, Bucket BUCKET_RTAG rnd_tag])
    \<and> pem_blocks (ascii_text pem) = map (\<lambda>ce. (lit ''CERTIFICATE'', ce_der ce)) (px_chain (gc_proxy c))
    \<and> rsa_verify hash (public key) tag signature None = Inr True"
proof -
  let ?v = "pp_g peer ^ x mod pp_p peer" and ?p = "gc_proxy c"
  define pem :: bytes where "pem = map of_nat (px_pem ?p)"
  have pem: "ascii_encode (px_pem ?p) = Inr pem" "ascii_text pem = px_pem ?p" "length pem = length (px_pem ?p)"
    using pem_is_ascii [of ?p] ascii_text_encoded [of "px_pem ?p"] by (simp_all add: ascii_encode_def pem_def)
  obtain block where block: "pkcs1_v15_pad hash tag (key_size (prv_n key)) None = Inr block"
    using signer(2) by (simp add: pkcs1_v15_pad_def)
  obtain sg where sg: "rsa_sign hash key tag None = Inr sg" "length sg = key_size (prv_n key)" "rsa_verify hash (public key) tag sg None = Inr True"
    using signature_accepted [OF signer(1) block] block by auto
  let ?inner = "[Bucket BUCKET_X509 pem, Bucket BUCKET_SIGNED_RTAG sg, Bucket BUCKET_RTAG rnd_tag]"
  obtain plain where plain: "encode_message 1001 ?inner = Inr plain" "decode_message plain = Inr (1001, ?inner)"
      "length plain = 12 + sum_list (map (\<lambda>b. 8 + length (bk_data b)) ?inner)"
    using encode_message_ok [of 1001 ?inner] small pem(3) sg(2) by (auto simp: Bucket_def)
  have "length k = 16" using secret by (auto simp: session_key_def bindE_eq_Inr split: if_splits)
  then obtain enc where enc: "cbc_encrypt k plain (replicate 16 0) True = Inr enc" "cbc_decrypt k enc (replicate 16 0) True = Inr plain"
      "length enc \<le> length plain + 16"
    using cbc_decrypts [of k "replicate 16 0" True plain] by auto
  obtain puk where puk: "encode_public_blob (pp_params_pem peer) ?v = Inr puk" "parse_peer_blob puk = Inr (peer\<lparr>pp_public := ?v\<rparr>)"
      "length puk \<le> length blob + 2 * key_size ?v + 20"
    using public_blob_read_back [OF challenge(3) group(3)] by blast
  have "key_size ?v \<le> key_size (pp_p peer)" using key_size_mono group(1,3) by simp
  then have sizes: "length puk < 2 ^ 32" "length enc < 2 ^ 32"
    using puk(3) enc(3) plain(3) small pem(3) sg(2) by (simp_all add: Bucket_def)
  let ?outer = "[Bucket BUCKET_CRYPTOMOD (ascii_bytes ''ssl''), Bucket BUCKET_PUK puk, Bucket BUCKET_CIPHER_ALG (ascii_bytes ''aes-128-cbc''),
    Bucket BUCKET_MD_ALG (ascii_bytes ''sha256''), Bucket BUCKET_MAIN enc]"
  obtain answer where answer: "encode_message 1001 ?outer = Inr answer" "decode_message answer = Inr (1001, ?outer)"
    using encode_message_ok [of 1001 ?outer] sizes by (auto simp: Bucket_def ascii_bytes_def)
  have "py_mod (be_int rnd) (pp_p peer - 3) = Inr (be_int rnd mod (pp_p peer - 3))" "int x = 2 + be_int rnd mod (pp_p peer - 3)"
    using group(1) pos_mod_sign [of "pp_p peer - 3" "be_int rnd"] by (simp_all add: py_mod_def x_def)
  moreover have "py_pow (pp_g peer) (int x) (pp_p peer) = Inr ?v" using group(1) by (simp add: py_pow_def)
  ultimately have "build_cert_response rnd rnd_tag hash challenge pem key None None = Inr answer"
    using challenge secret sg(1) plain(1) enc(1) puk(1) answer(1) by (simp add: build_cert_response_def from_cipher_def)
  then have "gsi_step rnd rnd_tag hash c challenge = Inr answer" using challenge(1) pem(1) by (simp add: gsi_step_def key_def)
  moreover have "find_bucket answer BUCKET_PUK = Some puk" "find_bucket answer BUCKET_MAIN = Some enc"
    using answer(2) by (simp_all add: find_bucket_def Bucket_def)
  moreover have "session_key (peer\<lparr>pp_public := ?v\<rparr>) (int y) 16 = Inr k" using secret_agreed [OF group(2)] secret by simp
  moreover have "pem_blocks (ascii_text pem) = map (\<lambda>ce. (lit ''CERTIFICATE'', ce_der ce)) (px_chain ?p)"
    using pem(2) pem_blocks_chain by simp
  ultimately show ?thesis using puk(2) enc(2) plain(2) sg(3) by blast
qed

definition sample_params :: string where
  "sample_params = ''-----BEGIN DH PARAMETERS-----'' @ CHR 0x0A # ''MBgCEQQAAAAAAAAAAAAAAAAAAAAFAgMgAAE='' @ CHR 0x0A # ''-----END DH PARAMETERS-----'' @ [CHR 0x0A]"

definition sample_blob :: bytes where
  "sample_blob = ascii_bytes (sample_params @ ''---BPUB---040000400001---EPUB---'')"

definition sample_peer :: peer_public where
  "sample_peer = \<lparr>pp_params_pem = ascii_bytes sample_params, pp_p = 1361129467683753853853498429727072845829, pp_g = 2097153, pp_public = 4398050705409\<rparr>"

definition sample_challenge :: bytes where
  "sample_challenge = (case encode_message 2001 [Bucket BUCKET_RTAG [0x68, 0x69]] of Inl _ \<Rightarrow> [] | Inr main \<Rightarrow>
     (case encode_message 2001 [Bucket BUCKET_PUK sample_blob, Bucket BUCKET_MAIN main] of Inl _ \<Rightarrow> [] | Inr m \<Rightarrow> m))"


definition sample_gsi :: gsi_credential where
  "sample_gsi = GSICredential
     \<lparr>px_chain = [\<lparr>ce_subject = [], ce_issuer = [], ce_serial = 1, ce_not_before = 0, ce_not_after = 9, ce_public_key = None, ce_extensions = [], ce_der = [1, 2, 3]\<rparr>],
      px_key = sample_rsa, px_path = []\<rparr> [] []"

lemma sample_secret: "\<exists>k. session_key sample_peer 3 16 = Inr k"
proof -
  let ?s = "85070835119440002067063756934692732929 :: int"
  have size: "key_size ?s = 16" by (simp add: key_size_def bit_length.simps)
  have "to_bytes ?s (key_size ?s) = Inr (be_bytes (key_size ?s) ?s)" by (rule to_bytes_ok [THEN conjunct1]) simp
  then have "to_bytes ?s 16 = Inr (be_bytes 16 ?s)" unfolding size .
  then show ?thesis using size by (simp add: session_key_def sample_peer_def py_pow_def)
qed

theorem gsi_answer_opens_witness:
  "\<exists>answer enc k plain pem signature. gsi_step (replicate 16 0 @ [1]) (replicate 8 7) (\<lambda>_ _. []) sample_gsi sample_challenge = Inr answer
     \<and> find_bucket answer BUCKET_MAIN = Some enc \<and> cbc_decrypt k enc (replicate 16 0) True = Inr plain
     \<and> decode_message plain = Inr (1001, [Bucket BUCKET_X509 pem, Bucket BUCKET_SIGNED_RTAG signature, Bucket BUCKET_RTAG (replicate 8 7)])
     \<and> rsa_verify (\<lambda>_ _. []) (public sample_rsa) [0x68, 0x69] signature None = Inr True"
proof -
  let ?rnd = "replicate 16 0 @ [1 :: byte]"
  have x: "nat (2 + be_int ?rnd mod (pp_p sample_peer - 3)) = 3" by code_simp
  have key: "px_key (gc_proxy sample_gsi) = sample_rsa" by (simp add: sample_gsi_def GSICredential_def)
  obtain k where k: "session_key sample_peer 3 16 = Inr k" using sample_secret by blast
  have "decode_message sample_challenge \<noteq> Inl e \<and> map_sum id fst (decode_message sample_challenge) = (Inr 2001 :: key_exn + int)" for e by code_simp
  then obtain bs where bs: "decode_message sample_challenge = Inr (2001, bs)" by (cases "decode_message sample_challenge") auto
  obtain main where main: "find_bucket sample_challenge BUCKET_MAIN = Some main" "find_bucket main BUCKET_RTAG = Some [0x68, 0x69]"
  proof -
    have "\<exists>mn. find_bucket sample_challenge BUCKET_MAIN = Some mn \<and> find_bucket mn BUCKET_RTAG = Some [0x68, 0x69]"
      by (rule exI [of _ "ascii_bytes ''gsi'' @ [0, 0, 0, 7, 209, 0, 0, 11, 190, 0, 0, 0, 2, 0x68, 0x69, 0, 0, 0, 0]"]) code_simp
    then show thesis using that by blast
  qed
  have blob: "find_bucket sample_challenge BUCKET_PUK = Some sample_blob" "parse_peer_blob sample_blob = Inr sample_peer" by code_simp+
  have group: "3 < pp_p sample_peer" "pp_public sample_peer = pp_g sample_peer ^ 2 mod pp_p sample_peer"
    "0 < pp_g sample_peer ^ 3 mod pp_p sample_peer" by (simp_all add: sample_peer_def)
  have rsa: "well_formed_key sample_primes sample_rsa" "key_size (prv_n sample_rsa) = 13" by (rule sample_rsa_ok)+
  have "length (px_pem (gc_proxy sample_gsi)) = 59" "length sample_blob = 127" by code_simp+
  moreover have "key_size (pp_p sample_peer) = 17" by (simp add: sample_peer_def key_size_def bit_length.simps)
  ultimately show ?thesis
    using gsi_answer_opens [where c = sample_gsi and rnd = ?rnd and peer = sample_peer and rnd_tag = "replicate 8 7" and hash = "\<lambda>_ _. []" and y = 2 and rs = sample_primes, OF bs blob main]
      group k rsa unfolding x key by auto blast
qed

end
