(* ===== verification/Root_Compression.thy ===== *)
theory Root_Compression
  imports Xrd_Prelude
begin

text \<open>
  The block compression of ROOT files, \<^verbatim>\<open>root/compression.py\<close>: the LZ4 decoder and encoder, the XXH64 checksum, and the
  framing of blocks both ways. A position into a buffer that only moves forward is the rest of the buffer. \<^verbatim>\<open>zlib\<close>, \<^verbatim>\<open>lzma\<close> and
  \<^verbatim>\<open>zstd\<close> are functions of a record.
\<close>

datatype root_exn = FormatError string | UnsupportedFeatureError string | RootValueError string | RootOverflow | LibraryError

section \<open>LZ4, decoding\<close>

text \<open>The continuation of a length: bytes of 255 and the one that ends them. \<open>None\<close> is the \<^verbatim>\<open>IndexError\<close> of a block that is cut off.\<close>

fun more_length :: "nat \<Rightarrow> bytes \<Rightarrow> (nat \<times> bytes) option" where
  "more_length acc [] = None"
| "more_length acc (b # bs) = (if b = 255 then more_length (acc + 255) bs else Some (acc + unat b, bs))"

definition lz4_length :: "nat \<Rightarrow> bytes \<Rightarrow> (nat \<times> bytes) option" where
  "lz4_length nibble bs = (if nibble = 15 then more_length 15 bs else Some (nibble, bs))"

text \<open>The byte by byte copy, which may read what it has just written.\<close>

fun copy_each :: "bytes \<Rightarrow> nat \<Rightarrow> nat \<Rightarrow> bytes option" where
  "copy_each out start' 0 = Some out"
| "copy_each out start' (Suc k) = (if start' < length out then copy_each (out @ [out ! start']) (Suc start') k else None)"

definition truncated :: root_exn where
  "truncated = FormatError ''an LZ4 block ends in the middle of a sequence''"

definition lz4_match :: "bytes \<Rightarrow> nat \<Rightarrow> nat \<Rightarrow> root_exn + bytes" where
  "lz4_match out offset match =
     (if length out < offset then Inl (FormatError ''an LZ4 match points before the block'')
      else if match \<le> offset then Inr (out @ take match (drop (length out - offset) out))
      else case copy_each out (length out - offset) match of None \<Rightarrow> Inl truncated | Some o1 \<Rightarrow> Inr o1)"

lemma more_length_shrinks: "more_length acc bs = Some (n, rest) \<Longrightarrow> length rest < length bs"
  by (induction acc bs rule: more_length.induct) (auto split: if_splits)

lemma lz4_length_shrinks: "lz4_length k bs = Some (n, rest) \<Longrightarrow> length rest \<le> length bs"
  by (auto simp: lz4_length_def dest: more_length_shrinks split: if_splits)

function lz4_loop :: "bytes \<Rightarrow> bytes \<Rightarrow> root_exn + bytes" where
  "lz4_loop out [] = Inr out"
| "lz4_loop out (t # src) =
     (let token = unat t in
      case lz4_length (token div 16) src of
        None \<Rightarrow> Inl truncated
      | Some (literals, src1) \<Rightarrow>
          (let out1 = out @ take literals src1; src2 = drop literals src1 in
           if src2 = [] then Inr out1
           else (case src2 of
                   lo # hi # src3 \<Rightarrow>
                     (case lz4_length (token mod 16) src3 of
                        None \<Rightarrow> Inl truncated
                      | Some (match, src4) \<Rightarrow>
                          (case lz4_match out1 (unat lo + 256 * unat hi) (match + 4) of
                             Inl x \<Rightarrow> Inl x
                           | Inr out2 \<Rightarrow> lz4_loop out2 src4))
                 | _ \<Rightarrow> Inl truncated)))"
  by pat_completeness auto
termination
proof (relation "measure (length \<circ> snd)")
  fix out t src token p literals src1 out1 src2 lo y hi src3 q match src4 out2
  assume a: "lz4_length (token div 16) src = Some p" "(literals, src1) = p" "src2 = drop literals (src1 :: bytes)" "src2 = lo # y" "y = hi # src3"
    "lz4_length (token mod 16) src3 = Some q" "(match, src4) = q"
  have "length src1 \<le> length src" "length src4 \<le> length src3" using a lz4_length_shrinks by metis+
  moreover have "length src2 \<le> length src1" "length src3 < length src2" by (simp add: a(3)) (simp add: a(4,5))
  ultimately show "((out2, src4), (out, t # src)) \<in> measure (length \<circ> snd)" by simp
qed simp

declare lz4_loop.simps [simp del]

definition lz4 :: "bytes \<Rightarrow> nat \<Rightarrow> root_exn + bytes" where
  "lz4 src size' =
     bindE (lz4_loop [] src) (\<lambda>out.
       if length out \<noteq> size' then Inl (FormatError ''an LZ4 block gave another length than promised'') else Inr out)"

section \<open>LZ4, encoding\<close>

fun extend_bytes :: "nat \<Rightarrow> bytes" where
  "extend_bytes v = (if 255 \<le> v then 255 # extend_bytes (v - 255) else [of_nat v])"

declare extend_bytes.simps [simp del]

definition lz4_extend :: "nat \<Rightarrow> bytes" where
  "lz4_extend v = extend_bytes (v - 15)"

text \<open>The token, the literals from \<open>anchor\<close> to \<open>pos\<close> and, when there is one, the match.\<close>

definition literals_of :: "nat \<Rightarrow> bytes \<Rightarrow> bytes" where
  "literals_of low lits = of_nat (min (length lits) 15 * 16 + low) # (if 15 \<le> length lits then lz4_extend (length lits) else []) @ lits"

definition le_2 :: "nat \<Rightarrow> bytes" where
  "le_2 v = [of_nat (v mod 256), of_nat (v div 256)]"

function match_length :: "bytes \<Rightarrow> nat \<Rightarrow> nat \<Rightarrow> nat \<Rightarrow> nat" where
  "match_length src found pos len =
     (if pos + len < length src - 5 \<and> src ! (found + len) = src ! (pos + len) then match_length src found pos (Suc len) else len)"
  by pat_completeness auto
termination
  by (relation "measure (\<lambda>(src, found, pos, len). length src - (pos + len))") auto

declare match_length.simps [simp del]

lemma match_length_ge: "len \<le> match_length src found pos len"
proof (induction src found pos len rule: match_length.induct)
  case (1 src found pos len)
  then show ?case by (subst match_length.simps) auto
qed

function lz4_pack_loop :: "bytes \<Rightarrow> (bytes \<rightharpoonup> nat) \<Rightarrow> nat \<Rightarrow> nat \<Rightarrow> bytes" where
  "lz4_pack_loop src recent anchor pos =
     (if pos < length src - 12 then
        (let seq = take 4 (drop pos src); recent1 = recent(seq \<mapsto> pos) in
         case recent seq of
           None \<Rightarrow> lz4_pack_loop src recent1 anchor (pos + 1)
         | Some found \<Rightarrow>
             if int pos - int found > 0xFFFF then lz4_pack_loop src recent1 anchor (pos + 1)
             else (let len = match_length src found pos 4 in
                   literals_of (min (len - 4) 15) (take (pos - anchor) (drop anchor src)) @ le_2 (pos - found)
                   @ (if 15 \<le> len - 4 then lz4_extend (len - 4) else [])
                   @ lz4_pack_loop src recent1 (pos + len) (pos + len)))
      else literals_of 0 (drop anchor src))"
  by pat_completeness auto
termination
proof (relation "measure (\<lambda>(src, recent, anchor, pos). length src - pos)")
  fix src recent anchor pos seq recent1 found len
  assume "pos < length (src :: bytes) - 12" "len = match_length src found pos 4"
  moreover have "4 \<le> match_length src found pos 4" by (rule match_length_ge)
  ultimately show "((src, recent1 :: bytes \<rightharpoonup> nat, pos + len, pos + len), (src, recent, anchor :: nat, pos)) \<in> measure (\<lambda>(src, recent, anchor, pos). length src - pos)"
    by simp
qed auto

declare lz4_pack_loop.simps [simp del]

definition lz4_pack :: "bytes \<Rightarrow> bytes" where
  "lz4_pack src = lz4_pack_loop src Map.empty 0 0"

section \<open>XXH64\<close>

text \<open>The code masks its integers to 64 bits wherever more could matter; here they are words.\<close>

abbreviation (input) P1 :: "64 word" where "P1 \<equiv> 0x9E3779B185EBCA87"
abbreviation (input) P2 :: "64 word" where "P2 \<equiv> 0xC2B2AE3D27D4EB4F"
abbreviation (input) P3 :: "64 word" where "P3 \<equiv> 0x165667B19E3779F9"
abbreviation (input) P4 :: "64 word" where "P4 \<equiv> 0x85EBCA77C2B2AE63"
abbreviation (input) P5 :: "64 word" where "P5 \<equiv> 0x27D4EB2F165667C5"

definition rot :: "64 word \<Rightarrow> nat \<Rightarrow> 64 word" where
  "rot x r = push_bit r x OR drop_bit (64 - r) x"

definition lane :: "bytes \<Rightarrow> 64 word" where
  "lane bs = word_of_int (le_int bs)"

fun stripes :: "64 word \<times> 64 word \<times> 64 word \<times> 64 word \<Rightarrow> bytes \<Rightarrow> (64 word \<times> 64 word \<times> 64 word \<times> 64 word) \<times> bytes" where
  "stripes (v1, v2, v3, v4) data =
     (if length data < 32 then ((v1, v2, v3, v4), data)
      else stripes
        (rot (v1 + lane (take 8 data) * P2) 31 * P1,
         rot (v2 + lane (take 8 (drop 8 data)) * P2) 31 * P1,
         rot (v3 + lane (take 8 (drop 16 data)) * P2) 31 * P1,
         rot (v4 + lane (take 8 (drop 24 data)) * P2) 31 * P1) (drop 32 data))"

fun eights :: "64 word \<Rightarrow> bytes \<Rightarrow> 64 word \<times> bytes" where
  "eights acc data =
     (if length data < 8 then (acc, data)
      else eights (rot (acc XOR (rot (lane (take 8 data) * P2) 31 * P1)) 27 * P1 + P4) (drop 8 data))"

definition four :: "64 word \<Rightarrow> bytes \<Rightarrow> 64 word \<times> bytes" where
  "four acc data =
     (if length data < 4 then (acc, data) else (rot (acc XOR (lane (take 4 data) * P1)) 23 * P2 + P3, drop 4 data))"

definition xxh64 :: "bytes \<Rightarrow> 64 word" where
  "xxh64 data =
     (let (acc0, rest) =
        (if length data < 32 then (P5, data)
         else (case stripes (P1 + P2, P2, 0, - P1) data of ((v1, v2, v3, v4), r) \<Rightarrow>
           (foldl (\<lambda>acc v. (acc XOR (rot (v * P2) 31 * P1)) * P1 + P4) (rot v1 1 + rot v2 7 + rot v3 12 + rot v4 18) [v1, v2, v3, v4], r)));
        (acc1, rest1) = eights (acc0 + of_nat (length data)) rest;
        (acc2, rest2) = four acc1 rest1;
        acc3 = foldl (\<lambda>acc b. rot (acc XOR (of_nat (unat b) * P5)) 11 * P1) acc2 rest2;
        acc4 = (acc3 XOR drop_bit 33 acc3) * P2;
        acc5 = (acc4 XOR drop_bit 29 acc4) * P3
      in acc5 XOR drop_bit 32 acc5)"

section \<open>Blocks\<close>

text \<open>
  What the libraries do: packing at a level, unpacking with the promised size (only \<^verbatim>\<open>zstandard\<close> looks at it), and the bare
  deflate of old files.
\<close>

record codec_library =
  lb_pack :: "string \<Rightarrow> int \<Rightarrow> bytes \<Rightarrow> root_exn + bytes"
  lb_unpack :: "string \<Rightarrow> bytes \<Rightarrow> nat \<Rightarrow> root_exn + bytes"
  lb_inflate :: "bytes \<Rightarrow> root_exn + bytes"

definition BLOCK :: nat where "BLOCK = 0xFFFFFF"

definition LEVELS :: "(string, int) dict" where
  "LEVELS = [(''zlib'', 6), (''lzma'', 6), (''lz4'', 1), (''zstd'', 3)]"

definition TAGS :: "(string, bytes) dict" where
  "TAGS = [(''zlib'', [0x5A, 0x4C]), (''lzma'', [0x58, 0x5A]), (''lz4'', [0x4C, 0x34]), (''zstd'', [0x5A, 0x53])]"

definition NAMES :: "(bytes, string) dict" where
  "NAMES = [([0x5A, 0x4C], ''zlib''), ([0x58, 0x5A], ''lzma''), ([0x4C, 0x34], ''lz4''), ([0x5A, 0x53], ''zstd''),
     ([0x43, 0x53], ''the pre-2005 ROOT algorithm'')]"

definition algorithm :: "bytes \<Rightarrow> string" where
  "algorithm data = (case map_of NAMES (take 2 data) of Some n \<Rightarrow> n | None \<Rightarrow> ''an unknown algorithm'')"

definition METHODS :: "(string, byte) dict" where
  "METHODS = [(''zlib'', 8), (''lzma'', 0), (''lz4'', 1), (''zstd'', 1)]"

definition le_3 :: "nat \<Rightarrow> root_exn + bytes" where
  "le_3 v = (if v < 2 ^ 24 then Inr [of_nat (v mod 256), of_nat (v div 256 mod 256), of_nat (v div 65536)] else Inl RootOverflow)"

fun block_chunks :: "bytes \<Rightarrow> bytes list" where
  "block_chunks data = (if length data \<le> BLOCK \<or> BLOCK = 0 then [data] else take BLOCK data # block_chunks (drop BLOCK data))"

declare block_chunks.simps [simp del]

definition pack_chunk :: "codec_library \<Rightarrow> string \<Rightarrow> int \<Rightarrow> bytes \<Rightarrow> root_exn + bytes" where
  "pack_chunk lib alg level chunk =
     (if alg = ''lz4'' then (let body = lz4_pack chunk in Inr (be_bytes 8 (uint (xxh64 body)) @ body)) else lb_pack lib alg level chunk)"

definition framed :: "codec_library \<Rightarrow> string \<Rightarrow> int \<Rightarrow> bytes \<Rightarrow> root_exn + bytes" where
  "framed lib alg level chunk =
     bindE (pack_chunk lib alg level chunk) (\<lambda>packed.
     bindE (le_3 (length packed)) (\<lambda>p. bindE (le_3 (length chunk)) (\<lambda>u.
       Inr (the (map_of TAGS alg) @ [the (map_of METHODS alg)] @ p @ u @ packed))))"

fun frame_all :: "codec_library \<Rightarrow> string \<Rightarrow> int \<Rightarrow> bytes list \<Rightarrow> root_exn + bytes" where
  "frame_all lib alg level [] = Inr []"
| "frame_all lib alg level (c # cs) = bindE (framed lib alg level c) (\<lambda>b. bindE (frame_all lib alg level cs) (\<lambda>r. Inr (b @ r)))"

definition compress :: "codec_library \<Rightarrow> bytes \<Rightarrow> string \<Rightarrow> int option \<Rightarrow> root_exn + bytes" where
  "compress lib data alg level =
     (case map_of TAGS alg of
        None \<Rightarrow> Inl (RootValueError ''algorithm must be one of zlib, lzma, lz4, zstd'')
      | Some _ \<Rightarrow> frame_all lib alg (case level of Some l \<Rightarrow> l | None \<Rightarrow> the (map_of LEVELS alg)) (block_chunks data))"

definition old :: "codec_library \<Rightarrow> bytes \<Rightarrow> nat \<Rightarrow> root_exn + bytes" where
  "old lib block size' =
     (case lb_inflate lib block of
        Inl _ \<Rightarrow> Inl (FormatError ''a pre-2005 block would not inflate'')
      | Inr out \<Rightarrow> if length out \<noteq> size' then Inl (FormatError ''a pre-2005 block gave another length than promised'') else Inr out)"

definition unpack_block :: "codec_library \<Rightarrow> bytes \<Rightarrow> bytes \<Rightarrow> nat \<Rightarrow> root_exn + bytes" where
  "unpack_block lib tag block unpacked =
     (if tag = [0x5A, 0x4C] then lb_unpack lib ''zlib'' block unpacked
      else if tag = [0x43, 0x53] then old lib block unpacked
      else if tag = [0x58, 0x5A] then lb_unpack lib ''lzma'' block unpacked
      else if tag = [0x4C, 0x34] then lz4 (drop 8 block) unpacked
      else if tag = [0x5A, 0x53] then lb_unpack lib ''zstd'' block unpacked
      else Inl (UnsupportedFeatureError ''this file is compressed with an unknown algorithm''))"

function decompress_loop :: "codec_library \<Rightarrow> nat \<Rightarrow> bytes \<Rightarrow> bytes \<Rightarrow> root_exn + bytes" where
  "decompress_loop lib size' out data =
     (if size' \<le> length out then Inr out
      else if length data < 9 then Inl (FormatError ''the compressed object ran out'')
      else (let packed = nat (le_int (take 3 (drop 3 data))); unpacked = nat (le_int (take 3 (drop 6 data)));
                block = take packed (drop 9 data) in
        if length block \<noteq> packed then Inl (FormatError ''a block says it is longer than what is here'')
        else bindE (unpack_block lib (take 2 data) block unpacked) (\<lambda>more.
               decompress_loop lib size' (out @ more) (drop (9 + packed) data))))"
  by pat_completeness auto
termination
  by (relation "measure (\<lambda>(lib, size', out, data). length data)") auto

declare decompress_loop.simps [simp del]

definition decompress :: "codec_library \<Rightarrow> bytes \<Rightarrow> nat \<Rightarrow> root_exn + bytes" where
  "decompress lib data size' =
     bindE (decompress_loop lib size' [] data) (\<lambda>out.
       if length out \<noteq> size' then Inl (FormatError ''decompressing gave another length than promised'') else Inr out)"

end
