(* ===== verification/Root_Properties.thy ===== *)
theory Root_Properties
  imports Root_Compression
begin

text \<open>
  What is compressed is decompressed to the same bytes (C23): the greedy LZ4 encoder against the decoder, with matches that
  overlap what they produce, and the framing of blocks around it.
\<close>

section \<open>Lengths and tokens\<close>

lemma unat_small: "v < 256 \<Longrightarrow> unat (of_nat v :: byte) = v"
  by (simp add: unat_of_nat take_bit_eq_mod)

lemma more_length_extend: "more_length acc (extend_bytes v @ rest) = Some (acc + v, rest)"
proof (induction v arbitrary: acc rule: extend_bytes.induct)
  case (1 v)
  show ?case
  proof (cases "255 \<le> v")
    case True
    then show ?thesis using 1 by (subst extend_bytes.simps) simp
  next
    case False
    then have "unat (of_nat v :: byte) = v" by (intro unat_small) simp
    moreover have "(of_nat v :: byte) \<noteq> 255" using calculation False by auto
    ultimately show ?thesis using False by (subst extend_bytes.simps) simp
  qed
qed

lemma lz4_length_written: "lz4_length (min v 15) ((if 15 \<le> v then lz4_extend v else []) @ rest) = Some (v, rest)"
  by (auto simp: lz4_length_def lz4_extend_def more_length_extend min_def)

lemma token_parts:
  assumes "low \<le> 15"
  shows "unat (of_nat (min l 15 * 16 + low) :: byte) div 16 = min l 15" "unat (of_nat (min l 15 * 16 + low) :: byte) mod 16 = low"
proof -
  have "min l 15 * 16 + low < 256" using assms by (simp add: min_def)
  then have "unat (of_nat (min l 15 * 16 + low) :: byte) = min l 15 * 16 + low" by (rule unat_small)
  then show "unat (of_nat (min l 15 * 16 + low) :: byte) div 16 = min l 15" "unat (of_nat (min l 15 * 16 + low) :: byte) mod 16 = low"
    using assms by simp_all
qed

lemma le_2_read: "v \<le> 0xFFFF \<Longrightarrow> \<exists>lo hi. le_2 v = [lo, hi] \<and> unat lo + 256 * unat hi = v"
  using unat_small [of "v mod 256"] unat_small [of "v div 256"] by (auto simp: le_2_def)

section \<open>Matches\<close>

lemma copy_each_repeats:
  "s < p \<Longrightarrow> p + k \<le> length src \<Longrightarrow> \<forall>i<k. src ! (s + i) = src ! (p + i) \<Longrightarrow> copy_each (take p src) s k = Some (take (p + k) src)"
proof (induction k arbitrary: s p)
  case (Suc k)
  have "take p src @ [take p src ! s] = take (Suc p) src"
    using Suc.prems by (auto simp: take_Suc_conv_app_nth dest: spec [of _ 0])
  moreover have "copy_each (take (Suc p) src) (Suc s) k = Some (take (Suc p + k) src)"
    using Suc.prems by (intro Suc.IH) auto
  ultimately show ?case using Suc.prems by simp
qed simp

lemma match_copies:
  assumes "found < pos" "pos + len \<le> length src" "\<forall>i<len. src ! (found + i) = src ! (pos + i)"
  shows "lz4_match (take pos src) (pos - found) len = Inr (take (pos + len) src)"
proof (cases "len \<le> pos - found")
  case True
  have "length (take pos src) = pos" using assms(2) by simp
  moreover have "take len (drop found (take pos src)) = take len (drop pos src)" using assms True by (intro nth_equalityI) auto
  moreover have "pos - (pos - found) = found" using assms(1) by simp
  ultimately show ?thesis using True by (simp add: lz4_match_def take_add)
next
  case False
  moreover have "length (take pos src) = pos" using assms(2) by simp
  moreover have "pos - (pos - found) = found" using assms(1) by simp
  ultimately show ?thesis using copy_each_repeats [OF assms] by (simp only: lz4_match_def) simp
qed

lemma match_length_sound:
  assumes "pos + len \<le> length src - 5" "\<forall>i<len. src ! (found + i) = src ! (pos + i)"
  shows "pos + match_length src found pos len \<le> length src - 5
    \<and> (\<forall>i<match_length src found pos len. src ! (found + i) = src ! (pos + i))"
  using assms
proof (induction src found pos len rule: match_length.induct)
  case (1 src found pos len)
  show ?case
  proof (cases "pos + len < length src - 5 \<and> src ! (found + len) = src ! (pos + len)")
    case True
    then have "match_length src found pos len = match_length src found pos (Suc len)" by (subst match_length.simps) simp
    moreover have "\<forall>i<Suc len. src ! (found + i) = src ! (pos + i)" using "1.prems" True less_Suc_eq by auto
    ultimately show ?thesis using "1.IH" [OF True] True by simp
  next
    case False
    then have "match_length src found pos len = len" by (simp only: match_length.simps [of src found pos len] if_False)
    then show ?thesis using "1.prems" by simp
  qed
qed

section \<open>One LZ4 block\<close>

text \<open>A sequence with a match, and the last one without.\<close>

lemma lz4_loop_last: "lz4_loop out (literals_of 0 lits) = Inr (out @ lits)"
  using token_parts [of 0 "length lits"] lz4_length_written [of "length lits" lits]
  by (simp add: literals_of_def lz4_loop.simps Let_def)

lemma lz4_loop_sequence:
  assumes "low \<le> 15" "v \<le> 0xFFFF" "lz4_length low (ext @ rest) = Some (m, rest)" "lz4_match (out @ lits) v (m + 4) = Inr out2"
  shows "lz4_loop out (literals_of low lits @ le_2 v @ ext @ rest) = lz4_loop out2 rest"
proof -
  obtain lo hi where v: "le_2 v = [lo, hi]" "unat lo + 256 * unat hi = v" using le_2_read [OF assms(2)] by blast
  have "lz4_length (min (length lits) 15) ((if 15 \<le> length lits then lz4_extend (length lits) else []) @ lits @ lo # hi # ext @ rest)
      = Some (length lits, lits @ lo # hi # ext @ rest)" by (rule lz4_length_written)
  then show ?thesis using token_parts [OF assms(1), of "length lits"] v assms(3,4)
    by (simp add: literals_of_def lz4_loop.simps(2) Let_def)
qed

definition recent_ok :: "bytes \<Rightarrow> (bytes \<rightharpoonup> nat) \<Rightarrow> nat \<Rightarrow> bool" where
  "recent_ok src recent pos \<longleftrightarrow> (\<forall>s f. recent s = Some f \<longrightarrow> f < pos \<and> take 4 (drop f src) = s)"

lemma recent_ok_step: "recent_ok src recent pos \<Longrightarrow> pos < q \<Longrightarrow> recent_ok src (recent(take 4 (drop pos src) \<mapsto> pos)) q"
  by (fastforce simp: recent_ok_def split: if_splits)

lemma four_agree:
  assumes "take 4 (drop found src) = take 4 (drop pos src)" "found < pos" "pos + 4 \<le> length src"
  shows "\<forall>i<4. src ! (found + i) = src ! (pos + i)"
proof (intro allI impI)
  fix i :: nat
  assume i: "i < 4"
  have "take 4 (drop found src) ! i = take 4 (drop pos src) ! i" using assms(1) by simp
  then show "src ! (found + i) = src ! (pos + i)" using i assms(2,3) by simp
qed

lemma lz4_pack_undone:
  "recent_ok src recent pos \<Longrightarrow> anchor \<le> pos \<Longrightarrow> anchor \<le> length src \<Longrightarrow>
     lz4_loop (take anchor src) (lz4_pack_loop src recent anchor pos) = Inr src"
proof (induction src recent anchor pos rule: lz4_pack_loop.induct)
  case (1 src recent anchor pos)
  let ?seq = "take 4 (drop pos src)"
  let ?recent = "recent(?seq \<mapsto> pos)"
  show ?case
  proof (cases "pos < length src - 12")
    case inside: True
    show ?thesis
    proof (cases "\<exists>found. recent ?seq = Some found \<and> int pos - int found \<le> 0xFFFF")
      case True
      then obtain found where f: "recent ?seq = Some found" "int pos - int found \<le> 0xFFFF" by blast
      then have near: "pos - found \<le> 0xFFFF" by linarith
      have found: "found < pos" "take 4 (drop found src) = ?seq" using "1.prems"(1) f(1) by (auto simp: recent_ok_def)
      let ?len = "match_length src found pos 4"
      have "\<forall>i<4. src ! (found + i) = src ! (pos + i)" using four_agree [OF found(2,1)] inside by simp
      then have len: "pos + ?len \<le> length src - 5" "\<forall>i<?len. src ! (found + i) = src ! (pos + i)" "4 \<le> ?len"
        using match_length_sound [of pos 4 src found] inside match_length_ge [of 4 src found pos] by auto
      let ?lits = "take (pos - anchor) (drop anchor src)"
      let ?ext = "if 15 \<le> ?len - 4 then lz4_extend (?len - 4) else []"
      let ?rest = "lz4_pack_loop src ?recent (pos + ?len) (pos + ?len)"
      have "lz4_pack_loop src recent anchor pos = literals_of (min (?len - 4) 15) ?lits @ le_2 (pos - found) @ ?ext @ ?rest"
        using inside f by (subst lz4_pack_loop.simps) (simp add: Let_def)
      moreover have "take anchor src @ ?lits = take pos src" using "1.prems"(2) by (metis le_add_diff_inverse take_add)
      moreover have "lz4_match (take pos src) (pos - found) (?len - 4 + 4) = Inr (take (pos + ?len) src)"
        using match_copies [OF found(1) _ len(2)] len(1,3) inside by simp
      ultimately have "lz4_loop (take anchor src) (lz4_pack_loop src recent anchor pos) = lz4_loop (take (pos + ?len) src) ?rest"
        using lz4_loop_sequence [OF _ near lz4_length_written] by simp
      also have "\<dots> = Inr src"
      proof (rule "1.IH"(3) [OF inside refl refl f(1) _ refl])
        show "\<not> 0xFFFF < int pos - int found" using f(2) by simp
        show "recent_ok src ?recent (pos + ?len)" using recent_ok_step [OF "1.prems"(1)] len(3) by simp
        show "pos + ?len \<le> length src" using len(1) by simp
      qed simp
      finally show ?thesis .
    next
      case False
      have "lz4_pack_loop src recent anchor pos = lz4_pack_loop src ?recent anchor (pos + 1)"
        using inside False by (subst lz4_pack_loop.simps) (auto simp: Let_def not_le split: option.splits)
      moreover have next_ok: "recent_ok src ?recent (pos + 1)" "anchor \<le> pos + 1" using recent_ok_step [OF "1.prems"(1)] "1.prems"(2) by simp_all
      have "lz4_loop (take anchor src) (lz4_pack_loop src ?recent anchor (pos + 1)) = Inr src"
      proof (cases "recent ?seq")
        case None
        show ?thesis by (rule "1.IH"(1) [OF inside refl refl None next_ok "1.prems"(3)])
      next
        case (Some found)
        then have "0xFFFF < int pos - int found" using False by simp
        then show ?thesis using "1.IH"(2) [OF inside refl refl Some _ next_ok "1.prems"(3)] by blast
      qed
      ultimately show ?thesis by simp
    qed
  next
    case False
    then have "lz4_pack_loop src recent anchor pos = literals_of 0 (drop anchor src)" by (subst lz4_pack_loop.simps) simp
    then show ?thesis by (simp add: lz4_loop_last)
  qed
qed

lemma lz4_undoes_pack: "lz4 (lz4_pack src) (length src) = Inr src"
  using lz4_pack_undone [of src Map.empty 0 0] by (simp add: lz4_def lz4_pack_def recent_ok_def)

section \<open>Blocks\<close>

lemma le_3_read:
  assumes "le_3 v = Inr bs"
  shows "length bs = 3 \<and> nat (le_int bs) = v"
proof -
  have v: "v < 2 ^ 24" and bs: "bs = [of_nat (v mod 256), of_nat (v div 256 mod 256), of_nat (v div 65536)]"
    using assms by (auto simp: le_3_def split: if_splits)
  have "unat (of_nat (v mod 256) :: byte) = v mod 256" "unat (of_nat (v div 256 mod 256) :: byte) = v div 256 mod 256"
    "unat (of_nat (v div 65536) :: byte) = v div 65536" using v by (auto intro!: unat_small)
  then have "uint (of_nat (v mod 256) :: byte) = int (v mod 256)" "uint (of_nat (v div 256 mod 256) :: byte) = int (v div 256 mod 256)"
    "uint (of_nat (v div 65536) :: byte) = int (v div 65536)" by (metis uint_nat)+
  then have "le_int bs = int (v mod 256 + 256 * (v div 256 mod 256) + 65536 * (v div 65536))" by (simp add: bs le_int_def be_int_def)
  moreover have "v mod 256 + 256 * (v div 256 mod 256) + 65536 * (v div 65536) = v"
  proof -
    have "v div 65536 = v div 256 div 256" using div_mult2_eq [of v 256 256] by simp
    then show ?thesis using mult_div_mod_eq [of 256 "v div 256"] mult_div_mod_eq [of 256 v] by linarith
  qed
  ultimately show ?thesis by (simp add: bs)
qed

definition faithful :: "codec_library \<Rightarrow> string \<Rightarrow> int \<Rightarrow> bool" where
  "faithful lib alg level \<longleftrightarrow> (\<forall>chunk p. lb_pack lib alg level chunk = Inr p \<longrightarrow> lb_unpack lib alg p (length chunk) = Inr chunk)"

lemma chunk_unpacked:
  assumes "pack_chunk lib alg level chunk = Inr p" "alg \<in> dom (map_of TAGS)" "alg = ''lz4'' \<or> faithful lib alg level"
  shows "unpack_block lib (the (map_of TAGS alg)) p (length chunk) = Inr chunk"
proof -
  have "alg = ''zlib'' \<or> alg = ''lzma'' \<or> alg = ''lz4'' \<or> alg = ''zstd''" using assms(2) by (auto simp: TAGS_def split: if_splits)
  moreover have "alg \<noteq> ''lz4'' \<Longrightarrow> lb_unpack lib alg p (length chunk) = Inr chunk"
    using assms(1,3) by (auto simp only: pack_chunk_def faithful_def if_False)
  moreover have "alg = ''lz4'' \<Longrightarrow> lz4 (drop 8 p) (length chunk) = Inr chunk"
    using assms(1) lz4_undoes_pack [of chunk] by (auto simp: pack_chunk_def Let_def)
  ultimately show ?thesis by (elim disjE) (simp_all add: unpack_block_def TAGS_def)
qed

lemma framed_parts:
  assumes "framed lib alg level chunk = Inr b" "alg \<in> dom (map_of TAGS)"
  shows "\<exists>tag meth p u packed. b = tag @ [meth] @ p @ u @ packed \<and> length tag = 2 \<and> length p = 3 \<and> length u = 3 \<and> tag = the (map_of TAGS alg)
    \<and> nat (le_int p) = length packed \<and> nat (le_int u) = length chunk \<and> pack_chunk lib alg level chunk = Inr packed"
proof -
  have "length (the (map_of TAGS alg)) = 2" using assms(2) by (auto simp: TAGS_def split: if_splits)
  then show ?thesis using assms(1) by (auto simp: framed_def bindE_eq_Inr dest!: le_3_read)
qed

lemma decompress_block:
  assumes "framed lib alg level chunk = Inr b" "alg \<in> dom (map_of TAGS)" "alg = ''lz4'' \<or> faithful lib alg level" "length out < size'"
  shows "decompress_loop lib size' out (b @ rest) = decompress_loop lib size' (out @ chunk) rest"
proof -
  obtain tag meth p u packed where b: "b = tag @ [meth] @ p @ u @ packed" "length tag = 2" "length p = 3" "length u = 3" "tag = the (map_of TAGS alg)"
    "nat (le_int p) = length packed" "nat (le_int u) = length chunk" "pack_chunk lib alg level chunk = Inr packed"
    using framed_parts [OF assms(1,2)] by blast
  have "take 2 (b @ rest) = tag" "take 3 (drop 3 (b @ rest)) = p" "take 3 (drop 6 (b @ rest)) = u" "drop 9 (b @ rest) = packed @ rest"
    "length (b @ rest) \<ge> 9" using b(1-4) by simp_all
  moreover have "length b = 9 + length packed" using b(1-4) by simp
  then have "drop (9 + length packed) (b @ rest) = rest" by (metis append_eq_conv_conj)
  moreover have "unpack_block lib tag packed (length chunk) = Inr chunk" using chunk_unpacked [OF b(8) assms(2,3)] b(5) by simp
  ultimately show ?thesis using assms(4) b(6,7) by (subst decompress_loop.simps) (simp add: Let_def not_less)
qed

lemma decompress_blocks:
  "frame_all lib alg level cs = Inr packed \<Longrightarrow> alg \<in> dom (map_of TAGS) \<Longrightarrow> alg = ''lz4'' \<or> faithful lib alg level \<Longrightarrow> [] \<notin> set cs \<Longrightarrow>
     decompress_loop lib (length (out @ concat cs)) out packed = Inr (out @ concat cs)"
proof (induction cs arbitrary: out packed)
  case Nil
  then show ?case by (simp add: decompress_loop.simps)
next
  case (Cons c cs)
  obtain b r where b: "framed lib alg level c = Inr b" "frame_all lib alg level cs = Inr r" "packed = b @ r"
    using Cons.prems(1) by (auto simp: bindE_eq_Inr)
  have "decompress_loop lib (length (out @ concat (c # cs))) out packed = decompress_loop lib (length (out @ concat (c # cs))) (out @ c) r"
    unfolding b(3) using Cons.prems(4) by (intro decompress_block [OF b(1) Cons.prems(2,3)]) (cases c, simp_all)
  then show ?case using Cons.IH [OF b(2), of "out @ c"] Cons.prems by simp
qed

lemma block_chunks_parts: "concat (block_chunks data) = data \<and> (data \<noteq> [] \<longrightarrow> [] \<notin> set (block_chunks data))"
proof (induction data rule: block_chunks.induct)
  case (1 data)
  then show ?case by (subst (1 2) block_chunks.simps) (auto simp: BLOCK_def)
qed

text \<open>
  C23. What is compressed is decompressed to the same bytes. Whenever compressing data with an algorithm succeeds, decompressing
  the blocks to the size of the data returns exactly the data: for LZ4, whose encoder and decoder are this program's,
  always, and for the libraries' algorithms provided that the library itself undoes what it packed.
\<close>

theorem compressed_data_recovered:
  assumes "compress lib data alg level = Inr packed"
    and "alg = ''lz4'' \<or> faithful lib alg (case level of Some l \<Rightarrow> l | None \<Rightarrow> the (map_of LEVELS alg))"
  shows "decompress lib packed (length data) = Inr data"
proof -
  let ?level = "case level of Some l \<Rightarrow> l | None \<Rightarrow> the (map_of LEVELS alg)"
  have f: "frame_all lib alg ?level (block_chunks data) = Inr packed" and t: "alg \<in> dom (map_of TAGS)"
    using assms(1) by (auto simp: compress_def split: option.splits)
  have "decompress_loop lib (length data) [] packed = Inr data"
  proof (cases "data = []")
    case True
    then show ?thesis by (simp add: decompress_loop.simps)
  next
    case False
    then show ?thesis using decompress_blocks [OF f t assms(2), of "[]"] block_chunks_parts [of data] by simp
  qed
  then show ?thesis by (simp add: decompress_def)
qed

definition sample_data :: bytes where "sample_data = replicate 20 7"

theorem compressed_data_recovered_witness:
  "\<exists>lib packed. compress lib sample_data ''lz4'' None = Inr packed \<and> length packed = 27 \<and> decompress lib packed 20 = Inr sample_data"
proof -
  define lib where "lib = \<lparr>lb_pack = (\<lambda>_ _ c. Inr c), lb_unpack = (\<lambda>_ c _. Inr c), lb_inflate = (\<lambda>c. Inr c)\<rparr>"
  have n: "length sample_data = 20" "sample_data \<noteq> []" by (simp_all add: sample_data_def)
  have "length (lz4_pack sample_data) = 10" by code_simp
  then have "\<exists>packed. compress lib sample_data ''lz4'' None = Inr packed \<and> length packed = 27"
    using n by (simp add: compress_def TAGS_def METHODS_def block_chunks.simps BLOCK_def framed_def pack_chunk_def le_3_def Let_def)
  then obtain packed where p: "compress lib sample_data ''lz4'' None = Inr packed" "length packed = 27" by blast
  then have "decompress lib packed (length sample_data) = Inr sample_data" using compressed_data_recovered by blast
  then show ?thesis using p n by auto
qed

text \<open>The checksum of nothing is the one its definition gives.\<close>

lemma xxh64_empty: "xxh64 [] = 0xEF46DB3751D8E999"
  by code_simp

text \<open>
  A chunk may be as long as its length field can say, and data that does not compress gets longer: then there is no
  block, and nothing is stored raw instead.
\<close>

lemma oversized_block_raises:
  "pack_chunk lib alg level chunk = Inr p \<Longrightarrow> 2 ^ 24 \<le> length p \<Longrightarrow> framed lib alg level chunk = Inl RootOverflow"
  by (simp add: framed_def le_3_def)

end
