(* ===== verification/Spec2Isabelle.thy ===== *)
theory Spec2Isabelle
  imports Wire_Properties Machine_Requests Checksums Auth_Ladder Driver_Progress Url_Properties File_Vector
    Raw_Properties Fs_Tree Fs_Locate Copy_Stream Copy_Tpc Auth_Sss Gsi_Properties Root_Properties
begin

text \<open>
  \<^bold>\<open>PyXRootDClient: the XRootD client core.\<close> The repository under \<^verbatim>\<open>src/\<close> is a client for the XRootD
  storage protocol in pure Python. This development models its protocol core, from the bytes on
  a socket up to file systems, file objects and copies, and proves the properties a user of that
  core relies on. Paths below are relative to \<^verbatim>\<open>src/src/xrd/\<close>.

  \<^bold>\<open>The program's parts.\<close> A request object is encoded into a frame (\<^verbatim>\<open>proto/requests.py\<close>,
  \<^verbatim>\<open>proto/frames.py\<close>, \<^verbatim>\<open>proto/buffer.py\<close>). The sans-I/O machine \<^verbatim>\<open>proto/machine.py\<close> owns the protocol:
  handshake, TLS policy, login, authentication, stream ids, signing, and what every response
  means; it consumes bytes and produces bytes and events, and calls the parsers of
  \<^verbatim>\<open>proto/responses.py\<close>, the signer of \<^verbatim>\<open>crypto/sigver.py\<close> and the ladder of \<^verbatim>\<open>auth/\<close>. The driver
  \<^verbatim>\<open>session/sync.py\<close> moves the bytes between the machine and transports (\<^verbatim>\<open>transport/\<close>) and turns
  events into results and exceptions (\<^verbatim>\<open>errors.py\<close>). The router \<^verbatim>\<open>session/router.py\<close> holds a driver
  for a URL (\<^verbatim>\<open>url.py\<close>), follows redirects, reconnects, and shares idle drivers through the pool
  \<^verbatim>\<open>session/pool.py\<close>. A file \<^verbatim>\<open>client/file.py\<close> runs its requests through a router and survives the
  loss of its connection; \<^verbatim>\<open>io/raw.py\<close> gives it the shape of a Python file object, with the modes of
  \<^verbatim>\<open>flags.py\<close>. The file system \<^verbatim>\<open>client/filesystem.py\<close> asks servers about names, and \<^verbatim>\<open>copy/engine.py\<close> moves
  a file between any two endpoints, on several threads when it pays. Paged reads and writes and transfers check data with \<^verbatim>\<open>crypto/crc32c.py\<close>,
  \<^verbatim>\<open>crypto/crc64.py\<close> and \<^verbatim>\<open>crypto/checksum.py\<close>. The mechanisms \<^verbatim>\<open>auth/sss.py\<close> and \<^verbatim>\<open>auth/gsi.py\<close> make credentials with the ciphers,
  signatures and certificates of \<^verbatim>\<open>crypto/\<close>.

  \<^bold>\<open>Theories and sources.\<close>
  \<^item> \<open>Xrd_Prelude\<close>, \<open>Py_Text\<close>: bytes, Python strings and dictionaries, results that raise, slices, the
    UTF-8 codec, splitting, \<^verbatim>\<open>int()\<close>.
  \<^item> \<open>Xrd_Errors\<close> (\<^verbatim>\<open>errors.py\<close>), \<open>Xrd_Types\<close> (\<^verbatim>\<open>types.py\<close>): exceptions as values with the \<^verbatim>\<open>isinstance\<close>
    tests; the public value types.
  \<^item> \<open>Wire_Buffer\<close>, \<open>Wire_Constants\<close>, \<open>Wire_Frames\<close>, \<open>Wire_Requests\<close>, \<open>Wire_Responses\<close>: the modules of
    \<^verbatim>\<open>proto/\<close> with the same names; \<open>cls_X\<close> is the request class \<^verbatim>\<open>X\<close>, \<open>parse_x\<close> the parser. \<open>Wire_Properties\<close>
    proves C10, C12 and C18, the layout of requests and the round trips of the codec.
  \<^item> \<open>Sigver\<close> (\<^verbatim>\<open>crypto/sigver.py\<close>); \<open>Crc\<close>, \<open>Checksums\<close> (\<^verbatim>\<open>crypto/crc32c.py\<close>, \<^verbatim>\<open>crypto/crc64.py\<close>,
    \<^verbatim>\<open>crypto/checksum.py\<close>; C21).
  \<^item> \<open>Session_Machine\<close> (\<^verbatim>\<open>proto/machine.py\<close>): \<open>machine\<close> is the object's state, each method a definition.
    \<open>Machine_Lifecycle\<close>: its methods as a step relation and the invariants of reachable machines (C1 to
    C4). \<open>Machine_Framing\<close>: independence of how the stream is cut, reassembly (C5, C6).
    \<open>Machine_Requests\<close>: what becomes of requests (C7 to C9). The present theory composes the machine
    with the signer (C28).
  \<^item> \<open>Auth_Ladder\<close> (\<^verbatim>\<open>auth/__init__.py\<close>, \<^verbatim>\<open>auth/base.py\<close>, \<^verbatim>\<open>auth/simple.py\<close>): the order in which
    credentials are tried, composed with the machine's authentication (C29).
  \<^item> \<open>Crypto_AES\<close> (\<^verbatim>\<open>crypto/aes.py\<close>; C24), \<open>Crypto_Blowfish\<close> (\<^verbatim>\<open>crypto/blowfish.py\<close>), \<open>Crypto_Der\<close> (\<^verbatim>\<open>crypto/der.py\<close>; C30),
    \<open>Modular\<close>, \<open>Crypto_Rsa\<close>, \<open>Rsa_Properties\<close> (\<^verbatim>\<open>crypto/rsa.py\<close>; C26), \<open>Py_Base64\<close>, \<open>Crypto_X509\<close> (\<^verbatim>\<open>crypto/x509.py\<close>): the
    cryptography of the credentials, from the tables up. \<open>Auth_Sss\<close> (\<^verbatim>\<open>auth/sss.py\<close>; C32): shared secrets. \<open>Auth_Gsi\<close>,
    \<open>Gsi_Properties\<close> (\<^verbatim>\<open>auth/gsi.py\<close>; C37): proxies, which compose all of it but Blowfish.
  \<^item> \<open>Session_Pool\<close> (\<^verbatim>\<open>session/pool.py\<close>): keys, acquire and release, and every interleaving of their
    callers (C31, C33).
  \<^item> \<open>Session_Driver\<close> (\<^verbatim>\<open>session/sync.py\<close>, \<^verbatim>\<open>transport/memory.py\<close>): the blocking session over a record
    \<open>io\<close> of transport functions. \<open>Driver_Progress\<close>: requests end (C35). \<open>Driver_Bringup\<close>: what connecting
    guarantees (C36).
  \<^item> \<open>Xrd_Url\<close>, \<open>Url_Properties\<close> (\<^verbatim>\<open>url.py\<close>): parsing and formatting (C38).
  \<^item> \<open>Session_Router\<close>, \<open>Router_Properties\<close> (\<^verbatim>\<open>session/router.py\<close>): redirects, retries, and the router's use
    of the pool (C39, C40).
  \<^item> \<open>File_Client\<close> (\<^verbatim>\<open>client/file.py\<close>): an open file and all its methods, as computations over the file,
    the pool and the world. \<open>File_Logic\<close>: triples for them. \<open>File_Properties\<close>: reads, writes and
    recovery (C13, C20, C25). \<open>File_Vector\<close>: vector reads (C27), and three concrete
    cases in which the client falls short of what its comments promise.
  \<^item> \<open>Xrd_Flags\<close> (\<^verbatim>\<open>flags.py\<close>); \<open>Raw_IO\<close> (\<^verbatim>\<open>io/raw.py\<close>): a remote file as a Python file object.
    \<open>Raw_Properties\<close>: which modes may recover (C14), reading as a cursor over bytes in memory (C19).
  \<^item> \<open>File_System\<close> (\<^verbatim>\<open>client/filesystem.py\<close>): its methods over a router. \<open>Fs_Paths\<close>: how a path and its opaque
    data are resolved (C22). \<open>Fs_Tree\<close>: walking and removing a tree (C17). \<open>Fs_Locate\<close>: finding
    all servers behind managers (C11), and a supervisor it misses.
  \<^item> \<open>Copy_Engine\<close> (\<^verbatim>\<open>copy/engine.py\<close>): copying one file over a record \<open>ends\<close> of endpoint functions; the
    threads of the engine are state machines run by a schedule. \<open>Local_Files\<close>: local files as
    endpoints. \<open>Copy_Parallel\<close>: spans on threads (C16). \<open>Copy_Stream\<close>: the pump, reading ahead,
    resumption (C15). \<open>Copy_Tpc\<close> (\<^verbatim>\<open>copy/tpc.py\<close>): third-party copies and the order of their requests (C34).
  \<^item> \<open>Root_Compression\<close>, \<open>Root_Properties\<close> (\<^verbatim>\<open>root/compression.py\<close>): the compressed blocks of ROOT files (C23).

  \<^bold>\<open>Interfaces.\<close> Each locale states what one part relies on in another, and is interpreted on the
  model: \<open>wire_codec\<close> (fixed-width fields; six formats), \<open>reflected_crc\<close> (a table and its polynomial;
  three tables), \<open>block_cipher\<close> (a block and its inverse; AES), \<open>incremental_digest\<close> (a step function; five algorithms), \<open>inbound_preserved\<close>,
  \<open>machine_preserved\<close> and \<open>machine_invariant\<close> (what the machine's primitive updates keep; stream ids, TLS,
  silence before login, the order of states, the TLS flags), \<open>incremental_decoder\<close> (the parse loop),
  \<open>session_cache\<close> (the pool), \<open>finite_link\<close> and \<open>tls_transport\<close> (transports; the pipes of
  \<^verbatim>\<open>transport/memory.py\<close>), \<open>text_codec\<close> (two escapings), \<open>net_invariant\<close> and \<open>counted_net\<close> (sessions under
  a router; a fleet of drivers, sessions that keep a log), \<open>file_requests\<close> and \<open>file_service\<close> (what a file needs to know of the
  answers to its requests; the log of a fleet), \<open>byte_ends\<close> (what copying needs of a source and a target;
  local files).

  \<^bold>\<open>Conventions.\<close> A method that may raise returns \<open>Inl\<close> with the exception and, since Python mutates
  before it raises, the state it left. Integers are \<open>int\<close>, and the codec refuses what does not fit
  its field; checksum registers are machine words. A message made up by the client is a tag, a
  message of the server is kept. Methods that hold a lock do not interleave; the pool, whose
  callers run in several threads, has a step relation of its own, and the threads of a copy take one
  step per call, in the order of a schedule over which the theorems quantify.

  \<^bold>\<open>Loops.\<close> Loops over data are structural or have a measure. The machine's parse loop consumes its
  buffer. The router's loop lowers what is left of its redirect and retry limits. The loops
  that wait for a peer (\<open>events_loop\<close>, \<open>await\<close>, \<open>bring_up\<close>) or depend on a configured chunk size
  (\<open>read_loop\<close>, \<open>write_loop\<close>, \<open>file_iter\<close>), on what servers list (\<open>fs_walk\<close>, \<open>deep_loop\<close>) or on a
  schedule (\<open>team_run\<close>, \<open>ahead_run\<close>, \<open>pump_loop\<close>) are partial functions whose value \<open>None\<close>
  means that they never end; C35 proves that the first two do end on every transport that
  eventually stops delivering, C19 that reading ends on a server that answers, C11 and C17 that the walks
  end on finite hierarchies and trees, C15 and C16 that copies end on every schedule. No fuel is used anywhere.

  \<^bold>\<open>Parameters.\<close> Code outside the repository is an argument: HMAC, SHA and the \<^verbatim>\<open>hashlib\<close> digests, the C
  implementation of CRC-32C, the \<^verbatim>\<open>zlib\<close>, \<^verbatim>\<open>lzma\<close> and \<^verbatim>\<open>zstd\<close> codecs, credential objects, \<^verbatim>\<open>str.lower\<close>, \<^verbatim>\<open>os.path.abspath\<close>, the process id, clocks, random
  numbers (arguments, over which the theorems quantify), and the operating system's sockets and TLS inside \<open>io\<close>. The theorems that need something of them
  say so as hypotheses.

  \<^bold>\<open>Not modelled.\<close> \<^verbatim>\<open>parse_prepare_status\<close> (JSON); conversions for printing and calendars in
  \<^verbatim>\<open>types.py\<close>; glob patterns, buffered and text file objects; copying whole trees; the credential mechanisms \<^verbatim>\<open>auth/ztn.py\<close> and \<^verbatim>\<open>auth/krb5.py\<close>, which are JSON and GSSAPI; where a keytab or proxy
  is looked for by default, and asking a person for one; \<^verbatim>\<open>transport/sync.py\<close>, which is operating
  system calls; the HTTP and S3 clients, the objects of ROOT files, the asyncio surface, the command
  line and configuration, none of which take part in a session.

  \<^bold>\<open>Planned.\<close> Copying a tree (\<^verbatim>\<open>copy/engine.py\<close>); that bring-up ends on a finite link.
\<close>

section \<open>Signed requests\<close>


definition signing_machine :: "unit machine" where
  "signing_machine = sample_ready\<lparr>msigner := Some (Signer [7] kXR_secStandard [])\<rparr>"


end
